(* ===== verification/Py_Prelude.thy ===== *)
theory Py_Prelude
  imports Complex_Main "HOL-Library.AList" "HOL-Library.Sublist" "HOL-Library.List_Lexorder"
    "HOL-Library.Char_ord" "HOL-Library.Product_Lexorder" "HOL-Library.Multiset"
begin

text \<open>
  Shared vocabulary of the development: the fragment of Python's run time that the modelled
  modules rely on.

  \<^item> \<open>pyval\<close> is a dynamically typed scalar, as it is read from a JSON row;
  \<^item> exceptions are values of \<open>py_exc\<close>, a computation that may raise is \<open>py_exc + 'a\<close>;
  \<^item> \<open>py_int\<close> is \<open>int(s)\<close> on a string, \<open>show_int\<close> is \<open>str(i)\<close>, \<open>lower\<close>, \<open>strip\<close> and
    \<open>contains\<close> are \<open>s.lower()\<close>, \<open>s.strip()\<close> and \<open>m in s\<close> on ASCII strings;
  \<^item> a \<open>dict\<close> is an association list in insertion order: \<open>map_of\<close> looks a key up,
    \<open>AList.update\<close> stores (an existing key keeps its position, a new one goes to the end) and
    \<open>AList.delete\<close> removes. The locale \<open>py_dict\<close> states the contract the components use;
  \<^item> a Python float is an exact \<open>real\<close>: rounding is not modelled.
\<close>

section \<open>Collections of simplification rules\<close>

named_theorems res_simps \<open>sequencing of computations that may raise\<close>

section \<open>Values and exceptions\<close>

datatype pyval =
    PNone
  | PBool bool
  | PInt int
  | PFloat real
  | PNaN
  | PInf
  | PStr string
  | PObj string  \<comment> \<open>any other object, carried by its \<open>str()\<close> rendering\<close>

datatype py_exc =
    ValueError string
  | KeyError string
  | PermissionError
  | OverflowError
  | AssertionError
  | TypeError
  | AttributeError
  | Unmodelled  \<comment> \<open>a dynamic type outside the annotations of the source\<close>

type_synonym 'a res = "py_exc + 'a"

text \<open>Sequencing: the first exception is the result.\<close>

definition res_bind :: "'a res \<Rightarrow> ('a \<Rightarrow> 'b res) \<Rightarrow> 'b res" where
  "res_bind m f = (case m of Inl e \<Rightarrow> Inl e | Inr x \<Rightarrow> f x)"

lemma res_bind_Inl [res_simps, simp]: "res_bind (Inl e) f = Inl e"
  by (simp add: res_bind_def)

lemma res_bind_Inr [res_simps, simp]: "res_bind (Inr x) f = f x"
  by (simp add: res_bind_def)

lemma res_bind_eq_Inr [res_simps]: "res_bind m f = Inr y \<longleftrightarrow> (\<exists>x. m = Inr x \<and> f x = Inr y)"
  by (cases m) simp_all

lemma res_bind_assoc: "res_bind (res_bind m f) g = res_bind m (\<lambda>x. res_bind (f x) g)"
  by (cases m) simp_all

definition or_raise :: "py_exc \<Rightarrow> 'a option \<Rightarrow> 'a res" where
  "or_raise e x = (case x of None \<Rightarrow> Inl e | Some y \<Rightarrow> Inr y)"

lemma or_raise_simps [res_simps, simp]: "or_raise e None = Inl e" "or_raise e (Some y) = Inr y"
  by (simp_all add: or_raise_def)

lemma or_raise_eq_Inr [res_simps]: "or_raise e x = Inr y \<longleftrightarrow> x = Some y"
  by (cases x) simp_all

fun res_map :: "('a \<Rightarrow> 'b res) \<Rightarrow> 'a list \<Rightarrow> 'b list res" where
  "res_map f [] = Inr []"
| "res_map f (x # xs) = res_bind (f x) (\<lambda>y. res_bind (res_map f xs) (\<lambda>ys. Inr (y # ys)))"

lemma res_map_eq_Inr: "res_map f xs = Inr ys \<longleftrightarrow> list_all2 (\<lambda>x y. f x = Inr y) xs ys"
proof (induction xs arbitrary: ys)
  case (Cons x xs)
  then show ?case by (cases ys) (auto simp: res_bind_eq_Inr list_all2_Cons1)
qed auto

definition truthy :: "pyval \<Rightarrow> bool" where
  "truthy v = (case v of PNone \<Rightarrow> False | PBool b \<Rightarrow> b | PInt i \<Rightarrow> i \<noteq> 0 | PFloat x \<Rightarrow> x \<noteq> 0
     | PNaN \<Rightarrow> True | PInf \<Rightarrow> True | PStr s \<Rightarrow> s \<noteq> [] | PObj s \<Rightarrow> s \<noteq> ''[]'' \<and> s \<noteq> ''{}'')"

definition or_empty :: "string option \<Rightarrow> string" where
  "or_empty s = (case s of None \<Rightarrow> [] | Some t \<Rightarrow> t)"

lemma or_empty_simps [simp]: "or_empty None = []" "or_empty (Some s) = s"
  by (simp_all add: or_empty_def)

definition none_if_empty :: "string option \<Rightarrow> string option" where
  "none_if_empty s = (if s = Some [] then None else s)"

lemma none_if_empty_idem [simp]: "none_if_empty (none_if_empty s) = none_if_empty s"
  by (simp add: none_if_empty_def)

definition trunc :: "real \<Rightarrow> int" where
  "trunc x = (if 0 \<le> x then \<lfloor>x\<rfloor> else \<lceil>x\<rceil>)"

lemma trunc_of_int [simp]: "trunc (of_int i) = i"
  by (simp add: trunc_def)

section \<open>Strings\<close>

definition lower_char :: "char \<Rightarrow> char" where
  "lower_char c =
     (let n = of_char c :: nat in if 65 \<le> n \<and> n \<le> 90 then char_of (n + 32) else c)"

definition lower :: "string \<Rightarrow> string" where
  "lower s = map lower_char s"

lemma lower_char_idem [simp]: "lower_char (lower_char c) = lower_char c"
  by (auto simp: lower_char_def Let_def of_char_of)

lemma lower_idem [simp]: "lower (lower s) = lower s"
  by (simp add: lower_def o_def)

lemma lower_Nil [simp]: "lower [] = []"
  by (simp add: lower_def)

lemma lower_eq_Nil [simp]: "lower s = [] \<longleftrightarrow> s = []"
  by (simp add: lower_def)

definition is_space :: "char \<Rightarrow> bool" where
  "is_space c = (let n = of_char c :: nat in n = 32 \<or> (9 \<le> n \<and> n \<le> 13) \<or> (28 \<le> n \<and> n \<le> 31))"

definition strip :: "string \<Rightarrow> string" where
  "strip s = rev (dropWhile is_space (rev (dropWhile is_space s)))"

lemma strip_Nil [simp]: "strip [] = []"
  by (simp add: strip_def)

lemma dropWhile_eq_self: "(xs = [] \<or> \<not> P (hd xs)) \<Longrightarrow> dropWhile P xs = xs"
  by (cases xs) auto

lemma strip_id: "s \<noteq> [] \<Longrightarrow> \<not> is_space (hd s) \<Longrightarrow> \<not> is_space (last s) \<Longrightarrow> strip s = s"
  by (simp add: strip_def dropWhile_eq_self hd_rev)

lemma strip_idem [simp]: "strip (strip s) = strip s"
proof -
  let ?d = "dropWhile is_space s"
  let ?t = "rev (dropWhile is_space (rev ?d))"
  have "?t = [] \<or> \<not> is_space (hd ?t)"
  proof (cases "?t = []")
    case False
    obtain p where p: "rev ?d = p @ dropWhile is_space (rev ?d)"
      by (metis takeWhile_dropWhile_id)
    then have "?d = ?t @ rev p" by (metis rev_append rev_rev_ident)
    then have "hd ?t = hd ?d" using False by (metis hd_append2)
    moreover have "?d \<noteq> []" using False by fastforce
    ultimately show ?thesis by (metis hd_dropWhile)
  qed simp
  then have "dropWhile is_space ?t = ?t" by (rule dropWhile_eq_self)
  moreover have "dropWhile is_space (rev ?t) = rev ?t"
    by (simp add: dropWhile_idem)
  ultimately show ?thesis by (simp add: strip_def)
qed

definition contains :: "string \<Rightarrow> string \<Rightarrow> bool" where
  "contains m s = sublist m s"

lemma contains_empty [simp]: "contains m [] \<longleftrightarrow> m = []"
  by (cases m) (simp_all add: contains_def)

section \<open>Decimal integers\<close>

definition is_digit :: "char \<Rightarrow> bool" where
  "is_digit c = (let n = of_char c :: nat in 48 \<le> n \<and> n \<le> 57)"

definition digit_val :: "char \<Rightarrow> int" where
  "digit_val c = int (of_char c) - 48"

definition digit_char :: "nat \<Rightarrow> char" where
  "digit_char d = char_of (48 + d)"

fun digits_acc :: "int \<Rightarrow> string \<Rightarrow> int option" where
  "digits_acc a [] = Some a"
| "digits_acc a (c # cs) =
     (if is_digit c then digits_acc (10 * a + digit_val c) cs
      else if c = CHR ''_'' then
        (case cs of [] \<Rightarrow> None
         | d # ds \<Rightarrow> if is_digit d then digits_acc (10 * a + digit_val d) ds else None)
      else None)"

definition parse_nat :: "string \<Rightarrow> int option" where
  "parse_nat s = (case s of [] \<Rightarrow> None
     | c # cs \<Rightarrow> if is_digit c then digits_acc (digit_val c) cs else None)"

definition py_int :: "string \<Rightarrow> int option" where
  "py_int s = (case strip s of [] \<Rightarrow> None
     | c # cs \<Rightarrow> if c = CHR ''-'' then map_option uminus (parse_nat cs)
                else if c = CHR ''+'' then parse_nat cs
                else parse_nat (c # cs))"

fun show_nat :: "nat \<Rightarrow> string" where
  "show_nat n = (if n < 10 then [digit_char n] else show_nat (n div 10) @ [digit_char (n mod 10)])"

declare show_nat.simps [simp del]

definition show_int :: "int \<Rightarrow> string" where
  "show_int i = (if i < 0 then CHR ''-'' # show_nat (nat (- i)) else show_nat (nat i))"

lemma digit_char_props:
  assumes "d < 10"
  shows "is_digit (digit_char d)" "digit_val (digit_char d) = int d"
    "\<not> is_space (digit_char d)" "digit_char d \<noteq> CHR ''-''" "digit_char d \<noteq> CHR ''+''"
proof -
  have n: "of_char (digit_char d) = 48 + d"
    using assms by (simp add: digit_char_def of_char_of)
  then show "is_digit (digit_char d)" "\<not> is_space (digit_char d)"
    using assms by (auto simp: is_digit_def is_space_def Let_def)
  show "digit_val (digit_char d) = int d"
    unfolding digit_val_def n by simp
  have "digit_char d = c \<Longrightarrow> 48 + d = of_char c" for c using n by auto
  then show "digit_char d \<noteq> CHR ''-''" "digit_char d \<noteq> CHR ''+''" by force+
qed

lemma show_nat_digits: "\<forall>c \<in> set (show_nat n). is_digit c \<and> \<not> is_space c"
proof (induction n rule: show_nat.induct)
  case (1 n)
  then show ?case
    by (subst show_nat.simps) (auto simp: digit_char_props)
qed

lemma show_nat_nonempty [simp]: "show_nat n \<noteq> []"
  by (subst show_nat.simps) simp

lemma show_nat_all_digits: "list_all is_digit (show_nat n)"
  using show_nat_digits by (auto simp: list_all_iff)

lemma digits_acc_append:
  "list_all is_digit xs \<Longrightarrow> digits_acc a (xs @ ys) =
     digits_acc (foldl (\<lambda>v c. 10 * v + digit_val c) a xs) ys"
  by (induction xs arbitrary: a) auto

lemma digits_acc_all:
  "list_all is_digit xs \<Longrightarrow> digits_acc a xs = Some (foldl (\<lambda>v c. 10 * v + digit_val c) a xs)"
  using digits_acc_append [of xs a "[]"] by simp

lemma foldl_show_nat: "foldl (\<lambda>v c. 10 * v + digit_val c) 0 (show_nat n) = int n"
proof (induction n rule: show_nat.induct)
  case (1 n)
  then show ?case
    by (subst show_nat.simps) (auto simp: digit_char_props zdiv_int zmod_int)
qed

lemma parse_nat_digits:
  "xs \<noteq> [] \<Longrightarrow> list_all is_digit xs \<Longrightarrow>
   parse_nat xs = Some (foldl (\<lambda>v c. 10 * v + digit_val c) 0 xs)"
  by (cases xs) (simp_all add: parse_nat_def digits_acc_all)

lemma parse_nat_show_nat [simp]: "parse_nat (show_nat n) = Some (int n)"
  by (simp add: parse_nat_digits show_nat_all_digits foldl_show_nat)

lemma show_nat_ends:
  "\<not> is_space (hd (show_nat n))" "\<not> is_space (last (show_nat n))"
  "hd (show_nat n) \<noteq> CHR ''-''" "hd (show_nat n) \<noteq> CHR ''+''"
proof -
  have h: "hd (show_nat n) \<in> set (show_nat n)" and l: "last (show_nat n) \<in> set (show_nat n)"
    by simp_all
  then show "\<not> is_space (hd (show_nat n))" "\<not> is_space (last (show_nat n))"
    using show_nat_digits by blast+
  from h have "is_digit (hd (show_nat n))" using show_nat_digits by blast
  then show "hd (show_nat n) \<noteq> CHR ''-''" "hd (show_nat n) \<noteq> CHR ''+''"
    by (auto simp: is_digit_def Let_def)
qed

lemma py_int_show_int [simp]: "py_int (show_int i) = Some i"
proof (cases "i < 0")
  case True
  have "strip (CHR ''-'' # show_nat (nat (- i))) = CHR ''-'' # show_nat (nat (- i))"
    using show_nat_ends by (intro strip_id) (auto simp: is_space_def Let_def)
  with True show ?thesis by (simp add: py_int_def show_int_def)
next
  case False
  obtain c cs where s: "show_nat (nat i) = c # cs" by (cases "show_nat (nat i)") auto
  have "strip (c # cs) = c # cs"
    using show_nat_ends [of "nat i"] s by (intro strip_id) auto
  moreover have "parse_nat (c # cs) = Some i" using False s by (metis parse_nat_show_nat int_nat_eq not_less)
  ultimately show ?thesis
    using False s show_nat_ends [of "nat i"] by (simp add: py_int_def show_int_def)
qed

section \<open>Bytes and hexadecimal text\<close>

type_synonym bytes = "nat list"

abbreviation is_bytes :: "bytes \<Rightarrow> bool" where
  "is_bytes \<equiv> list_all (\<lambda>b. b < 256)"

definition encode :: "string \<Rightarrow> bytes" where
  "encode s = map of_char s"

definition hex_val :: "char \<Rightarrow> nat option" where
  "hex_val c = (let n = of_char c :: nat in
     if 48 \<le> n \<and> n \<le> 57 then Some (n - 48)
     else if 97 \<le> n \<and> n \<le> 102 then Some (n - 87)
     else if 65 \<le> n \<and> n \<le> 70 then Some (n - 55) else None)"

definition hex_digit :: "nat \<Rightarrow> char" where
  "hex_digit d = char_of (if d < 10 then 48 + d else 87 + d)"

definition to_hex :: "bytes \<Rightarrow> string" where
  "to_hex bs = concat (map (\<lambda>b. [hex_digit (b div 16), hex_digit (b mod 16)]) bs)"

text \<open>\<open>bytes.fromhex\<close>: pairs of digits, white space allowed between them.\<close>

definition is_blank :: "char \<Rightarrow> bool" where
  "is_blank c = (let n = of_char c :: nat in n = 32 \<or> (9 \<le> n \<and> n \<le> 13))"

fun fromhex :: "string \<Rightarrow> bytes option" where
  "fromhex [] = Some []"
| "fromhex [c] = (if is_blank c then Some [] else None)"
| "fromhex (c # d # cs) = (if is_blank c then fromhex (d # cs)
     else case (hex_val c, hex_val d) of
       (Some h, Some l) \<Rightarrow> map_option ((#) (16 * h + l)) (fromhex cs)
     | _ \<Rightarrow> None)"

text \<open>\<open>s.replace("0x", "")\<close>\<close>

fun remove_0x :: "string \<Rightarrow> string" where
  "remove_0x [] = []"
| "remove_0x [c] = [c]"
| "remove_0x (c # d # cs) = (if c = CHR ''0'' \<and> d = CHR ''x'' then remove_0x cs else c # remove_0x (d # cs))"

text \<open>\<open>int(s, 16)\<close>\<close>

fun hex_acc :: "int \<Rightarrow> string \<Rightarrow> int option" where
  "hex_acc a [] = Some a"
| "hex_acc a [c] = map_option (\<lambda>v. 16 * a + int v) (hex_val c)"
| "hex_acc a (c # d # cs) = (case hex_val c of
     Some v \<Rightarrow> hex_acc (16 * a + int v) (d # cs)
   | None \<Rightarrow> if c = CHR ''_'' then (case hex_val d of None \<Rightarrow> None | Some v \<Rightarrow> hex_acc (16 * a + int v) cs) else None)"

definition parse_hex :: "string \<Rightarrow> int option" where
  "parse_hex s = (let t = (if take 2 s \<in> {''0x'', ''0X''} then (if take 1 (drop 2 s) = ''_'' then drop 3 s else drop 2 s) else s) in
     case t of [] \<Rightarrow> None | c # cs \<Rightarrow> (case hex_val c of None \<Rightarrow> None | Some v \<Rightarrow> hex_acc (int v) cs))"

definition py_int16 :: "string \<Rightarrow> int option" where
  "py_int16 s = (case strip s of [] \<Rightarrow> None
     | c # cs \<Rightarrow> if c = CHR ''-'' then map_option uminus (parse_hex cs)
                else if c = CHR ''+'' then parse_hex cs
                else parse_hex (c # cs))"

lemma hex_digit_props:
  assumes "d < 16"
  shows "hex_val (hex_digit d) = Some d" "hex_digit d \<noteq> CHR ''x''" "\<not> is_blank (hex_digit d)"
proof -
  have *: "\<forall>d \<in> {..<16::nat}. hex_val (hex_digit d) = Some d"
    by (simp add: lessThan_nat_numeral lessThan_Suc hex_val_def hex_digit_def Let_def)
  with assms show 1: "hex_val (hex_digit d) = Some d" by simp
  have "hex_val c = None" if "is_blank c" for c
    using that by (auto simp: hex_val_def is_blank_def Let_def)
  with 1 show "\<not> is_blank (hex_digit d)" by fastforce
  have "hex_val CHR ''x'' = None" by (simp add: hex_val_def)
  with 1 show "hex_digit d \<noteq> CHR ''x''" by fastforce
qed

lemma fromhex_to_hex [simp]: "is_bytes bs \<Longrightarrow> fromhex (to_hex bs) = Some bs"
proof (induction bs)
  case (Cons b bs)
  then have "b div 16 < 16" "b mod 16 < 16" by auto
  with Cons show ?case by (simp add: to_hex_def hex_digit_props)
qed (simp add: to_hex_def)

lemma remove_0x_id: "CHR ''x'' \<notin> set s \<Longrightarrow> remove_0x s = s"
  by (induction s rule: remove_0x.induct) auto

lemma to_hex_no_x: "is_bytes bs \<Longrightarrow> CHR ''x'' \<notin> set (to_hex bs)"
proof (induction bs)
  case (Cons b bs)
  then have "b div 16 < 16" "b mod 16 < 16" by auto
  from hex_digit_props(2) [OF this(1)] hex_digit_props(2) [OF this(2)] Cons
  show ?case by (auto simp: to_hex_def)
qed (simp add: to_hex_def)

section \<open>Dictionaries\<close>

abbreviation keys_of :: "('k \<times> 'v) list \<Rightarrow> 'k list" where
  "keys_of d \<equiv> map fst d"

abbreviation vals_of :: "('k \<times> 'v) list \<Rightarrow> 'v list" where
  "vals_of d \<equiv> map snd d"

abbreviation wf_dict :: "('k \<times> 'v) list \<Rightarrow> bool" where
  "wf_dict d \<equiv> distinct (map fst d)"

locale py_dict =
  fixes get :: "'d \<Rightarrow> 'k \<Rightarrow> 'v option"
    and put :: "'k \<Rightarrow> 'v \<Rightarrow> 'd \<Rightarrow> 'd"
    and del :: "'k \<Rightarrow> 'd \<Rightarrow> 'd"
    and keys :: "'d \<Rightarrow> 'k list"
    and inv :: "'d \<Rightarrow> bool"
  assumes get_put: "get (put k v d) k' = (if k' = k then Some v else get d k')"
    and get_del: "get (del k d) k' = (if k' = k then None else get d k')"
    and keys_get: "k \<in> set (keys d) \<longleftrightarrow> get d k \<noteq> None"
    and keys_put: "keys (put k v d) = (if k \<in> set (keys d) then keys d else keys d @ [k])"
    and keys_del: "keys (del k d) = filter (\<lambda>k'. k' \<noteq> k) (keys d)"
    and inv_distinct: "inv d \<Longrightarrow> distinct (keys d)"
    and inv_put: "inv d \<Longrightarrow> inv (put k v d)"
    and inv_del: "inv d \<Longrightarrow> inv (del k d)"
begin

lemma size_put: "length (keys (put k v d)) =
    (if get d k = None then Suc (length (keys d)) else length (keys d))"
  using keys_get [of k d] by (simp add: keys_put)

lemma size_put_le: "length (keys (put k v d)) \<le> Suc (length (keys d))"
  by (simp add: size_put)

lemma put_overwrites: "get (put k v (put k w d)) = get (put k v d)"
  by (rule ext) (simp add: get_put)

lemma del_put_fresh: "get d k = None \<Longrightarrow> get (del k (put k v d)) = get d"
  by (rule ext) (simp add: get_put get_del)

lemma size_del: "inv d \<Longrightarrow> get d k \<noteq> None \<Longrightarrow> Suc (length (keys (del k d))) = length (keys d)"
proof -
  assume i: "inv d" and k: "get d k \<noteq> None"
  have d: "distinct (keys d)" using i by (rule inv_distinct)
  have m: "k \<in> set (keys d)" using k keys_get by blast
  have "set (filter (\<lambda>k'. k' \<noteq> k) (keys d)) = set (keys d) - {k}" by auto
  then have "length (filter (\<lambda>k'. k' \<noteq> k) (keys d)) = card (set (keys d) - {k})"
    using d by (metis distinct_card distinct_filter)
  then show ?thesis
    using d m length_pos_if_in_set [OF m]
    by (simp add: keys_del card_Diff_singleton distinct_card)
qed

end

lemma map_of_None_keys: "map_of d k = None \<longleftrightarrow> k \<notin> set (map fst d)"
  by (simp add: map_of_eq_None_iff)

lemma AList_keys_delete: "map fst (AList.delete k d) = filter (\<lambda>k'. k' \<noteq> k) (map fst d)"
  by (induction d) (auto simp: AList.delete_eq)

interpretation alist: py_dict map_of AList.update AList.delete "map fst" "\<lambda>d. distinct (map fst d)"
proof
  fix k k' :: 'a and v :: 'b and d :: "('a \<times> 'b) list"
  show "map_of (AList.update k v d) k' = (if k' = k then Some v else map_of d k')"
    by (simp add: update_conv')
  show "map_of (AList.delete k d) k' = (if k' = k then None else map_of d k')"
    by (simp add: delete_conv')
  show "k \<in> set (map fst d) \<longleftrightarrow> map_of d k \<noteq> None"
    by (simp add: map_of_eq_None_iff)
  show "map fst (AList.update k v d) =
      (if k \<in> set (map fst d) then map fst d else map fst d @ [k])"
    by (rule update_keys)
  show "map fst (AList.delete k d) = filter (\<lambda>k'. k' \<noteq> k) (map fst d)"
    by (rule AList_keys_delete)
  show "distinct (map fst d) \<Longrightarrow> distinct (map fst d)" .
  show "distinct (map fst d) \<Longrightarrow> distinct (map fst (AList.update k v d))"
    by (rule distinct_update)
  show "distinct (map fst d) \<Longrightarrow> distinct (map fst (AList.delete k d))"
    by (simp add: AList_keys_delete)
qed

lemmas dict_simps = alist.get_put alist.get_del

lemma vals_update: "set (vals_of (AList.update k v d)) \<subseteq> insert v (set (vals_of d))"
  by (induction d) auto

lemma update_fresh: "k \<notin> set (keys_of d) \<Longrightarrow> AList.update k v d = d @ [(k, v)]"
  by (induction d) auto

lemma in_update: "(k', v') \<in> set (AList.update k v d) \<Longrightarrow> (k', v') = (k, v) \<or> (k', v') \<in> set d"
  by (induction d) (auto split: if_splits)

lemma in_delete: "(k', v') \<in> set (AList.delete k d) \<longleftrightarrow> (k', v') \<in> set d \<and> k' \<noteq> k"
  by (auto simp: AList.delete_eq)

lemma mset_keys_get: "wf_dict d \<Longrightarrow> (k, v) \<in> set d \<longleftrightarrow> map_of d k = Some v"
  by (metis map_of_eq_Some_iff)

section \<open>Sorting\<close>

lemma sort_set_eq: "set xs = set ys \<Longrightarrow> sort (remdups xs) = sort (remdups ys)"
  for xs ys :: "'a::linorder list"
  by (metis sorted_list_of_set_sort_remdups)

section \<open>Counting\<close>

lemma length_filter_disjoint:
  "(\<And>x. x \<in> set xs \<Longrightarrow> \<not> (P x \<and> Q x)) \<Longrightarrow>
   length (filter P xs) + length (filter Q xs) = length (filter (\<lambda>x. P x \<or> Q x) xs)"
  by (induction xs) auto

lemma length_filter_mono:
  "(\<And>x. x \<in> set xs \<Longrightarrow> P x \<Longrightarrow> Q x) \<Longrightarrow> length (filter P xs) \<le> length (filter Q xs)"
  by (induction xs) (auto simp: le_SucI)

lemma length_filter_map_eq:
  "map f xs = map g ys \<Longrightarrow> length (filter (\<lambda>x. P (f x)) xs) = length (filter (\<lambda>y. P (g y)) ys)"
  by (induction xs arbitrary: ys) (auto simp: Cons_eq_map_conv)

lemma count_zero_iff: "length (filter P xs) = 0 \<longleftrightarrow> (\<forall>x \<in> set xs. \<not> P x)"
  by (simp add: filter_empty_conv)

end
