(* ===== verification/Rejection.thy ===== *)
theory Rejection
  imports Py_Prelude
begin

text \<open>
  Classification of failed orders, \<open>orderbook/rejection.py\<close>: the marker tables, the user-fault
  predicates the settlement path uses, and \<open>classify_rejection\<close>. A status or an error the source
  allows to be \<open>None\<close> is a \<open>string option\<close>; the class is the string the source returns.
\<close>

section \<open>Tables\<close>

definition RC_DUPLICATE :: string where "RC_DUPLICATE = ''duplicate''"
definition RC_USER :: string where "RC_USER = ''user''"
definition RC_SOLVER :: string where "RC_SOLVER = ''solver''"
definition RC_INFRA :: string where "RC_INFRA = ''infra''"
definition RC_EXPIRED :: string where "RC_EXPIRED = ''expired''"
definition RC_OTHER :: string where "RC_OTHER = ''other''"

lemmas class_defs = RC_DUPLICATE_def RC_USER_def RC_SOLVER_def RC_INFRA_def RC_EXPIRED_def RC_OTHER_def

definition USER_SIG_FAULT_MARKERS :: "string list" where
  "USER_SIG_FAULT_MARKERS = [''0xf645eedf'', ''0xfce698f7'', ''0xd78bce0c'', ''invalid user signature'',
     ''ecdsainvalidsignature'']"

definition USER_FUNDS_FAULT_MARKERS :: "string list" where
  "USER_FUNDS_FAULT_MARKERS = [''transfer amount exceeds balance'', ''transfer amount exceeds allowance'',
     ''erc20: insufficient allowance'', ''erc20insufficientbalance'', ''erc20insufficientallowance'']"

definition USER_FUNDS_PREFIXES :: "string list" where
  "USER_FUNDS_PREFIXES = [''user cannot fund order'']"

definition USER_SIG_PREFIXES :: "string list" where
  "USER_SIG_PREFIXES = [''user signature rejected'']"

definition DUPLICATE_MARKERS :: "string list" where
  "DUPLICATE_MARKERS = [''plan_hash already submitted'']"

definition INFRA_MARKERS :: "string list" where
  "INFRA_MARKERS = [''on-chain score unavailable'', ''dual-scoring fail-closed'', ''consensus not reached'',
     ''relayer balance too low'', ''requires signing_key'', ''relayer transport'', ''cannot connect to host'',
     ''exceeded per-window limit'', ''invalid eip-55 checksum'', ''only accepts checksum addresses'']"

definition SOLVER_MARKERS :: "string list" where
  "SOLVER_MARKERS = [''solver produced no plan'', ''no plan'', ''policy rejected plan'', ''below threshold'',
     ''< threshold'', ''fee certification failed'']"

section \<open>Operations\<close>

definition any_in :: "string list \<Rightarrow> string \<Rightarrow> bool" where
  "any_in ms e \<longleftrightarrow> (\<exists>m \<in> set ms. contains m e)"

definition is_user_signature_fault :: "string option \<Rightarrow> bool" where
  "is_user_signature_fault error \<longleftrightarrow> (if or_empty error = [] then False
     else let e = lower (or_empty error) in any_in USER_SIG_FAULT_MARKERS e \<or> any_in USER_SIG_PREFIXES e)"

definition is_user_fund_fault :: "string option \<Rightarrow> bool" where
  "is_user_fund_fault error \<longleftrightarrow> (if or_empty error = [] then False
     else let e = lower (or_empty error) in any_in USER_FUNDS_FAULT_MARKERS e \<or> any_in USER_FUNDS_PREFIXES e)"

definition is_user_fault :: "string option \<Rightarrow> bool" where
  "is_user_fault error \<longleftrightarrow> is_user_signature_fault error \<or> is_user_fund_fault error"

definition classify_rejection :: "string option \<Rightarrow> string option \<Rightarrow> string option" where
  "classify_rejection status error =
     (let s = lower (or_empty status) in
      if s = ''expired'' then Some RC_EXPIRED
      else if s \<noteq> ''rejected'' then None
      else let e = lower (or_empty error) in
        if e = [] then Some RC_OTHER
        else if any_in DUPLICATE_MARKERS e then Some RC_DUPLICATE
        else if is_user_fault error then Some RC_USER
        else if any_in INFRA_MARKERS e then Some RC_INFRA
        else if any_in SOLVER_MARKERS e then Some RC_SOLVER
        else Some RC_OTHER)"

section \<open>Lemmas\<close>

lemma any_in_weaken: "any_in ms e \<Longrightarrow> any_in ms (p @ e @ q)"
  unfolding any_in_def contains_def
  by (metis append.assoc sublist_appendI sublist_order.dual_order.trans)

lemma lower_append: "lower (xs @ ys) = lower xs @ lower ys"
  by (simp add: lower_def)

lemma user_fault_weaken: "is_user_fault (Some e) \<Longrightarrow> is_user_fault (Some (p @ e @ q))"
  by (auto simp: is_user_fault_def is_user_signature_fault_def is_user_fund_fault_def lower_append Let_def
      intro: any_in_weaken split: if_splits)

lemma user_fault_lower: "is_user_fault (Some (lower e)) = is_user_fault (Some e)"
  by (simp add: is_user_fault_def is_user_signature_fault_def is_user_fund_fault_def)

section \<open>Properties\<close>

text \<open>Property: a settlement error that is a user fault keeps its class under any wrapping text and any
  letter case: a rejected order carrying it is classed as the user's, or as a duplicate when the
  wrapper says so, never as the solver's, ours or unknown.\<close>

theorem user_fault_never_blamed_on_solver:
  assumes "is_user_fault (Some e)" "lower status = ''rejected''" "lower wrapped = lower (p @ e @ q)"
  shows "classify_rejection (Some status) (Some wrapped) =
    Some (if contains ''plan_hash already submitted'' (lower wrapped) then RC_DUPLICATE else RC_USER)"
proof -
  have "is_user_fault (Some wrapped)"
    using user_fault_weaken [OF assms(1)] user_fault_lower assms(3) by metis
  moreover from this have "wrapped \<noteq> []"
    by (auto simp: is_user_fault_def is_user_signature_fault_def is_user_fund_fault_def)
  ultimately show ?thesis
    using assms(2) by (simp add: classify_rejection_def any_in_def DUPLICATE_MARKERS_def)
qed

theorem user_fault_never_blamed_on_solver_witness:
  "classify_rejection (Some ''REJECTED'') (Some ''Relayer submission failed: Transfer amount exceeds balance'')
    = Some RC_USER"
proof -
  have "classify_rejection (Some ''REJECTED'') (Some ''Relayer submission failed: Transfer amount exceeds balance'') =
    Some (if contains ''plan_hash already submitted''
        (lower ''Relayer submission failed: Transfer amount exceeds balance'') then RC_DUPLICATE else RC_USER)"
    by (rule user_fault_never_blamed_on_solver [of "''transfer amount exceeds balance''" _ _
          "''Relayer submission failed: ''" "[]"]) code_simp+
  moreover have "\<not> contains ''plan_hash already submitted''
        (lower ''Relayer submission failed: Transfer amount exceeds balance'')" by code_simp
  ultimately show ?thesis by simp
qed

end
