(* ===== verification/Order_Book.thy ===== *)
theory Order_Book
  imports Rejection
begin

text \<open>
  The intent order book, \<open>orderbook/orderbook.py\<close>: orders kept in an insertion-ordered dict,
  a per-user rate limiter, the atomic claim of OPEN orders by the block loop, cancellation,
  expiry and field updates.

  Every method of \<open>IntentOrderBook\<close> is a definition on the record \<open>order_book\<close>. The clock, the
  fresh uuid and the configured perpetual floor are arguments. A method that may raise returns the
  new state together with its result, because the source keeps the mutations it made before the
  exception. The lock serialises the methods, so concurrent use is a sequence of events
  (\<open>ob_event\<close>, \<open>ob_apply\<close>, \<open>ob_run\<close>).

  Opaque JSON values (\<open>params\<close>, \<open>plan\<close>, \dots) are kept as text.
\<close>

section \<open>Data\<close>

type_synonym blob = string

datatype order_status =
    OPEN | ASSIGNED | SOLVED | SCORED | APPROVED | SUBMITTED | FILLED | REJECTED | EXPIRED
  | CANCELLED | UNSTAKING | BRIDGING | BRIDGE_FAILED | EXECUTING_LEG | ROLLING_BACK | ROLLED_BACK | PARTIAL_ROLLBACK

fun status_value :: "order_status \<Rightarrow> string" where
  "status_value OPEN = ''open''"
| "status_value ASSIGNED = ''assigned''"
| "status_value SOLVED = ''solved''"
| "status_value SCORED = ''scored''"
| "status_value APPROVED = ''approved''"
| "status_value SUBMITTED = ''submitted''"
| "status_value FILLED = ''filled''"
| "status_value REJECTED = ''rejected''"
| "status_value EXPIRED = ''expired''"
| "status_value CANCELLED = ''cancelled''"
| "status_value UNSTAKING = ''unstaking''"
| "status_value BRIDGING = ''bridging''"
| "status_value BRIDGE_FAILED = ''bridge_failed''"
| "status_value EXECUTING_LEG = ''executing_leg''"
| "status_value ROLLING_BACK = ''rolling_back''"
| "status_value ROLLED_BACK = ''rolled_back''"
| "status_value PARTIAL_ROLLBACK = ''partial_rollback''"

definition all_statuses :: "order_status list" where
  "all_statuses = [OPEN, ASSIGNED, SOLVED, SCORED, APPROVED, SUBMITTED, FILLED, REJECTED, EXPIRED,
     CANCELLED, UNSTAKING, BRIDGING, BRIDGE_FAILED, EXECUTING_LEG, ROLLING_BACK, ROLLED_BACK, PARTIAL_ROLLBACK]"

definition status_of_value :: "string \<Rightarrow> order_status option" where
  "status_of_value s = find (\<lambda>st. status_value st = s) all_statuses"

record ob_order =
  order_id :: string
  app_id :: string
  intent_function :: string
  params :: blob
  submitted_by :: string
  ord_status :: order_status
  chain_id :: int
  deadline :: real
  perpetual :: bool
  max_executions :: int
  cooldown :: real
  execution_count :: int
  last_filled_at :: real
  created_at :: real
  plan :: "blob option"
  score :: "real option"
  tx_hash :: "string option"
  ord_error :: "string option"
  block_number :: "int option"
  consensus_result :: "blob option"
  user_signature :: string
  on_chain_score :: "int option"
  best_score :: "real option"
  policy_tier :: string
  automation_id :: string
  plan_assessment :: "blob option"
  fee_amount_wei :: int
  fee_paid :: bool

text \<open>\<open>Order.to_dict\<close>; \<open>float\<close> fields are reals, JSON values are opaque.\<close>

definition opt_val :: "('a \<Rightarrow> pyval) \<Rightarrow> 'a option \<Rightarrow> pyval" where
  "opt_val f v = (case v of None \<Rightarrow> PNone | Some x \<Rightarrow> f x)"

definition order_to_dict :: "ob_order \<Rightarrow> (string \<times> pyval) list" where
  "order_to_dict ord =
    [(''order_id'', PStr (order_id ord)), (''app_id'', PStr (app_id ord)),
     (''intent_function'', PStr (intent_function ord)), (''params'', PObj (params ord)),
     (''submitted_by'', PStr (submitted_by ord)), (''status'', PStr (status_value (ord_status ord))),
     (''chain_id'', PInt (chain_id ord)), (''deadline'', PFloat (deadline ord)),
     (''perpetual'', PBool (perpetual ord)), (''max_executions'', PInt (max_executions ord)),
     (''cooldown'', PFloat (cooldown ord)), (''execution_count'', PInt (execution_count ord)),
     (''last_filled_at'', PFloat (last_filled_at ord)), (''created_at'', PFloat (created_at ord)),
     (''plan'', opt_val PObj (plan ord)), (''score'', opt_val PFloat (score ord)),
     (''tx_hash'', opt_val PStr (tx_hash ord)), (''error'', opt_val PStr (ord_error ord)),
     (''rejection_class'', opt_val PStr (classify_rejection (Some (status_value (ord_status ord))) (ord_error ord))),
     (''block_number'', opt_val PInt (block_number ord)),
     (''consensus_result'', opt_val PObj (consensus_result ord)),
     (''user_signature'', PStr (user_signature ord)), (''on_chain_score'', opt_val PInt (on_chain_score ord)),
     (''best_score'', opt_val PFloat (best_score ord)), (''policy_tier'', PStr (policy_tier ord)),
     (''automation_id'', PStr (automation_id ord)), (''plan_assessment'', opt_val PObj (plan_assessment ord)),
     (''fee_amount_wei'', PInt (fee_amount_wei ord)), (''fee_paid'', PBool (fee_paid ord))]
    @ (if submitted_by ord \<noteq> [] \<and> chain_id ord \<noteq> 0
       then [(''interop_address'', PStr (''eip155:'' @ show_int (chain_id ord) @ '':'' @ submitted_by ord))] else [])"

record order_book =
  orders :: "(string \<times> ob_order) list"
  rate_limiter :: "(string \<times> real list) list"

definition empty_book :: order_book where
  "empty_book = \<lparr>orders = [], rate_limiter = []\<rparr>"

definition RATE_LIMIT :: nat where "RATE_LIMIT = 10"
definition RATE_WINDOW :: real where "RATE_WINDOW = 60"

section \<open>Operations\<close>

definition check_rate_limit :: "real \<Rightarrow> string \<Rightarrow> order_book \<Rightarrow> order_book \<times> unit res" where
  "check_rate_limit now user b =
     (let old = (case map_of (rate_limiter b) user of None \<Rightarrow> [] | Some ts \<Rightarrow> ts);
          timestamps = dropWhile (\<lambda>t. t < now - RATE_WINDOW) old in
      if length timestamps \<ge> RATE_LIMIT
      then (b\<lparr>rate_limiter := AList.update user timestamps (rate_limiter b)\<rparr>,
            Inl (ValueError ''Rate limit exceeded''))
      else (b\<lparr>rate_limiter := AList.update user (timestamps @ [now]) (rate_limiter b)\<rparr>, Inr ()))"

record submit_args =
  a_app_id :: string
  a_intent_function :: string
  a_params :: "blob option"
  a_submitted_by :: string
  a_chain_id :: int
  a_deadline :: real
  a_perpetual :: bool
  a_max_executions :: int
  a_cooldown :: real
  a_user_signature :: string
  a_policy_tier :: string
  a_automation_id :: string

definition new_order :: "string \<Rightarrow> real \<Rightarrow> submit_args \<Rightarrow> ob_order" where
  "new_order uid created a =
     \<lparr>order_id = ''ord_'' @ uid, app_id = a_app_id a,
      intent_function = (if a_intent_function a = [] then ''execute'' else a_intent_function a),
      params = (case a_params a of None \<Rightarrow> ''{}'' | Some p \<Rightarrow> p),
      submitted_by = a_submitted_by a, ord_status = OPEN, chain_id = a_chain_id a,
      deadline = a_deadline a, perpetual = a_perpetual a,
      max_executions = (if a_perpetual a then a_max_executions a else 1),
      cooldown = a_cooldown a, execution_count = 0, last_filled_at = 0, created_at = created,
      plan = None, score = None, tx_hash = None, ord_error = None, block_number = None,
      consensus_result = None, user_signature = a_user_signature a, on_chain_score = None,
      best_score = None, policy_tier = a_policy_tier a, automation_id = a_automation_id a,
      plan_assessment = None, fee_amount_wei = 0, fee_paid = False\<rparr>"

definition submit ::
  "real \<Rightarrow> real \<Rightarrow> string \<Rightarrow> submit_args \<Rightarrow> order_book \<Rightarrow> order_book \<times> ob_order res" where
  "submit now created uid a b =
     (if a_app_id a = [] then (b, Inl (ValueError ''app_id is required''))
      else if a_submitted_by a = [] then (b, Inl (ValueError ''submitted_by is required''))
      else (case check_rate_limit now (a_submitted_by a) b of
          (b', Inl e) \<Rightarrow> (b', Inl e)
        | (b', Inr _) \<Rightarrow>
            (let order = new_order uid created a in
             (b'\<lparr>orders := AList.update (order_id order) order (orders b')\<rparr>, Inr order))))"

definition cancel :: "string \<Rightarrow> string \<Rightarrow> order_book \<Rightarrow> order_book \<times> bool res" where
  "cancel oid by b = (case map_of (orders b) oid of
       None \<Rightarrow> (b, Inr False)
     | Some ord \<Rightarrow>
         if lower (submitted_by ord) \<noteq> lower by then (b, Inl PermissionError)
         else if ord_status ord \<notin> {OPEN, ASSIGNED} then (b, Inr False)
         else (b\<lparr>orders := AList.update oid (ord\<lparr>ord_status := CANCELLED\<rparr>) (orders b)\<rparr>, Inr True))"

definition in_cooldown :: "real \<Rightarrow> real \<Rightarrow> ob_order \<Rightarrow> bool" where
  "in_cooldown global_min_interval now ord \<longleftrightarrow> perpetual ord \<and> last_filled_at ord > 0
     \<and> now - last_filled_at ord < max (cooldown ord) global_min_interval"

text \<open>The loop of \<open>snapshot_open\<close>; \<open>k\<close> is \<open>len(result)\<close> so far. The limit is tested after an order
  was taken.\<close>

fun snapshot_loop ::
  "real \<Rightarrow> real \<Rightarrow> int \<Rightarrow> nat \<Rightarrow> (string \<times> ob_order) list \<Rightarrow> (string \<times> ob_order) list \<times> ob_order list" where
  "snapshot_loop g now max_count k [] = ([], [])"
| "snapshot_loop g now max_count k ((i, ord) # rest) =
     (if ord_status ord = OPEN \<and> \<not> in_cooldown g now ord then
        (let ord' = ord\<lparr>ord_status := ASSIGNED\<rparr> in
         if int (Suc k) \<ge> max_count then ((i, ord') # rest, [ord'])
         else (case snapshot_loop g now max_count (Suc k) rest of
                 (rest', taken) \<Rightarrow> ((i, ord') # rest', ord' # taken)))
      else (case snapshot_loop g now max_count k rest of
              (rest', taken) \<Rightarrow> ((i, ord) # rest', taken)))"

definition snapshot_open :: "real \<Rightarrow> real \<Rightarrow> int \<Rightarrow> order_book \<Rightarrow> order_book \<times> ob_order list" where
  "snapshot_open global_min_interval now max_count b =
     (case snapshot_loop global_min_interval now max_count 0 (orders b) of
        (os, taken) \<Rightarrow> (b\<lparr>orders := os\<rparr>, taken))"

text \<open>The keyword arguments of \<open>update_order\<close>: one constructor per attribute of \<open>Order\<close> (its
  \<open>order_id\<close> apart, which is the method's own positional parameter), a status
  given as a plain string, and an attribute \<open>Order\<close> does not have.\<close>

datatype kwarg =
    K_status_str string
  | K_app_id string
  | K_intent_function string
  | K_params blob
  | K_submitted_by string
  | K_ord_status order_status
  | K_chain_id int
  | K_deadline real
  | K_perpetual bool
  | K_max_executions int
  | K_cooldown real
  | K_execution_count int
  | K_last_filled_at real
  | K_created_at real
  | K_plan "blob option"
  | K_score "real option"
  | K_tx_hash "string option"
  | K_ord_error "string option"
  | K_block_number "int option"
  | K_consensus_result "blob option"
  | K_user_signature string
  | K_on_chain_score "int option"
  | K_best_score "real option"
  | K_policy_tier string
  | K_automation_id string
  | K_plan_assessment "blob option"
  | K_fee_amount_wei int
  | K_fee_paid bool
  | K_unknown string

fun apply_kwarg :: "kwarg \<Rightarrow> ob_order \<Rightarrow> ob_order res" where
  "apply_kwarg (K_status_str s) ord = (case status_of_value s of
       None \<Rightarrow> Inl (ValueError s) | Some st \<Rightarrow> Inr (ord\<lparr>ord_status := st\<rparr>))"
| "apply_kwarg (K_app_id v) ord = Inr (ord\<lparr>app_id := v\<rparr>)"
| "apply_kwarg (K_intent_function v) ord = Inr (ord\<lparr>intent_function := v\<rparr>)"
| "apply_kwarg (K_params v) ord = Inr (ord\<lparr>params := v\<rparr>)"
| "apply_kwarg (K_submitted_by v) ord = Inr (ord\<lparr>submitted_by := v\<rparr>)"
| "apply_kwarg (K_ord_status v) ord = Inr (ord\<lparr>ord_status := v\<rparr>)"
| "apply_kwarg (K_chain_id v) ord = Inr (ord\<lparr>chain_id := v\<rparr>)"
| "apply_kwarg (K_deadline v) ord = Inr (ord\<lparr>deadline := v\<rparr>)"
| "apply_kwarg (K_perpetual v) ord = Inr (ord\<lparr>perpetual := v\<rparr>)"
| "apply_kwarg (K_max_executions v) ord = Inr (ord\<lparr>max_executions := v\<rparr>)"
| "apply_kwarg (K_cooldown v) ord = Inr (ord\<lparr>cooldown := v\<rparr>)"
| "apply_kwarg (K_execution_count v) ord = Inr (ord\<lparr>execution_count := v\<rparr>)"
| "apply_kwarg (K_last_filled_at v) ord = Inr (ord\<lparr>last_filled_at := v\<rparr>)"
| "apply_kwarg (K_created_at v) ord = Inr (ord\<lparr>created_at := v\<rparr>)"
| "apply_kwarg (K_plan v) ord = Inr (ord\<lparr>plan := v\<rparr>)"
| "apply_kwarg (K_score v) ord = Inr (ord\<lparr>score := v\<rparr>)"
| "apply_kwarg (K_tx_hash v) ord = Inr (ord\<lparr>tx_hash := v\<rparr>)"
| "apply_kwarg (K_ord_error v) ord = Inr (ord\<lparr>ord_error := v\<rparr>)"
| "apply_kwarg (K_block_number v) ord = Inr (ord\<lparr>block_number := v\<rparr>)"
| "apply_kwarg (K_consensus_result v) ord = Inr (ord\<lparr>consensus_result := v\<rparr>)"
| "apply_kwarg (K_user_signature v) ord = Inr (ord\<lparr>user_signature := v\<rparr>)"
| "apply_kwarg (K_on_chain_score v) ord = Inr (ord\<lparr>on_chain_score := v\<rparr>)"
| "apply_kwarg (K_best_score v) ord = Inr (ord\<lparr>best_score := v\<rparr>)"
| "apply_kwarg (K_policy_tier v) ord = Inr (ord\<lparr>policy_tier := v\<rparr>)"
| "apply_kwarg (K_automation_id v) ord = Inr (ord\<lparr>automation_id := v\<rparr>)"
| "apply_kwarg (K_plan_assessment v) ord = Inr (ord\<lparr>plan_assessment := v\<rparr>)"
| "apply_kwarg (K_fee_amount_wei v) ord = Inr (ord\<lparr>fee_amount_wei := v\<rparr>)"
| "apply_kwarg (K_fee_paid v) ord = Inr (ord\<lparr>fee_paid := v\<rparr>)"
| "apply_kwarg (K_unknown key) ord = Inr ord"

fun apply_kwargs :: "kwarg list \<Rightarrow> ob_order \<Rightarrow> ob_order \<times> unit res" where
  "apply_kwargs [] ord = (ord, Inr ())"
| "apply_kwargs (k # ks) ord = (case apply_kwarg k ord of
     Inl e \<Rightarrow> (ord, Inl e) | Inr ord' \<Rightarrow> apply_kwargs ks ord')"

definition update_order :: "string \<Rightarrow> kwarg list \<Rightarrow> order_book \<Rightarrow> order_book \<times> bool res" where
  "update_order oid ks b = (case map_of (orders b) oid of
       None \<Rightarrow> (b, Inr False)
     | Some ord \<Rightarrow> (case apply_kwargs ks ord of
         (ord', r) \<Rightarrow> (b\<lparr>orders := AList.update oid ord' (orders b)\<rparr>, map_sum id (\<lambda>_. True) r)))"

definition get_order :: "string \<Rightarrow> order_book \<Rightarrow> ob_order option" where
  "get_order oid b = map_of (orders b) oid"

definition list_orders :: "string option \<Rightarrow> string option \<Rightarrow> order_book \<Rightarrow> ob_order list" where
  "list_orders app st b =
     (let result = vals_of (orders b);
          result = (if or_empty app = [] then result else filter (\<lambda>ord. Some (app_id ord) = app) result) in
      if or_empty st = [] then result
      else (case status_of_value (or_empty st) of None \<Rightarrow> result
            | Some s \<Rightarrow> filter (\<lambda>ord. ord_status ord = s) result))"

definition stale :: "real \<Rightarrow> ob_order \<Rightarrow> bool" where
  "stale now ord \<longleftrightarrow> deadline ord > 0 \<and> now > deadline ord \<and> ord_status ord \<in> {OPEN, ASSIGNED}"

definition expire_stale :: "real option \<Rightarrow> real \<Rightarrow> order_book \<Rightarrow> order_book \<times> nat" where
  "expire_stale now_arg clock b =
     (let now = (case now_arg of None \<Rightarrow> clock | Some n \<Rightarrow> if n = 0 then clock else n) in
      (b\<lparr>orders := map (\<lambda>(i, ord). (i, if stale now ord then ord\<lparr>ord_status := EXPIRED\<rparr> else ord)) (orders b)\<rparr>,
       length (filter (\<lambda>(i, ord). stale now ord) (orders b))))"

definition book_count :: "order_book \<Rightarrow> nat" where
  "book_count b = length (orders b)"

definition stats :: "order_book \<Rightarrow> (string \<times> nat) list" where
  "stats b = foldl (\<lambda>counts ord. let key = status_value (ord_status ord) in
       AList.update key ((case map_of counts key of None \<Rightarrow> 0 | Some n \<Rightarrow> n) + 1) counts) []
     (vals_of (orders b))"

section \<open>Sequences of operations\<close>

datatype ob_event =
    E_submit real real string submit_args
  | E_cancel string string
  | E_snapshot real real int
  | E_update string "kwarg list"
  | E_expire "real option" real

text \<open>One event, with the log of accepted submissions as (user, time) pairs.\<close>

fun ob_apply :: "ob_event \<Rightarrow> order_book \<Rightarrow> order_book \<times> (string \<times> real) list" where
  "ob_apply (E_submit now created uid a) b = (case submit now created uid a b of
     (b', Inl _) \<Rightarrow> (b', []) | (b', Inr _) \<Rightarrow> (b', [(a_submitted_by a, now)]))"
| "ob_apply (E_cancel oid by) b = (fst (cancel oid by b), [])"
| "ob_apply (E_snapshot g now mc) b = (fst (snapshot_open g now mc b), [])"
| "ob_apply (E_update oid ks) b = (fst (update_order oid ks b), [])"
| "ob_apply (E_expire n clock) b = (fst (expire_stale n clock b), [])"

fun ob_run :: "ob_event list \<Rightarrow> order_book \<Rightarrow> order_book \<times> (string \<times> real) list" where
  "ob_run [] b = (b, [])"
| "ob_run (e # es) b = (case ob_apply e b of (b', l) \<Rightarrow>
     (case ob_run es b' of (b'', l') \<Rightarrow> (b'', l @ l')))"

section \<open>The book's invariant\<close>

text \<open>Keys are distinct and every order is stored under its own id.\<close>

definition book_ok :: "order_book \<Rightarrow> bool" where
  "book_ok b \<longleftrightarrow> wf_dict (orders b) \<and> (\<forall>(i, ord) \<in> set (orders b). order_id ord = i)"

lemma book_ok_put:
  assumes "book_ok b" "order_id ord = i"
  shows "book_ok (b\<lparr>orders := AList.update i ord (orders b)\<rparr>)"
  using assms by (auto simp: book_ok_def distinct_update dest: in_update)

lemma apply_kwarg_id: "apply_kwarg k ord = Inr ord' \<Longrightarrow> order_id ord' = order_id ord"
  by (cases k) (auto split: option.splits)

lemma apply_kwargs_id: "apply_kwargs ks ord = (ord', r) \<Longrightarrow> order_id ord' = order_id ord"
  by (induction ks arbitrary: ord) (auto split: sum.splits dest: apply_kwarg_id)

lemma snapshot_loop_keys: "map fst (fst (snapshot_loop g now mc k os)) = map fst os"
  by (induction g now mc k os rule: snapshot_loop.induct) (auto simp: Let_def split: prod.splits if_splits)

lemma snapshot_loop_ids:
  "\<forall>(i, ord) \<in> set os. order_id ord = i \<Longrightarrow>
   \<forall>(i, ord) \<in> set (fst (snapshot_loop g now mc k os)). order_id ord = i"
  by (induction g now mc k os rule: snapshot_loop.induct) (auto simp: Let_def split: prod.splits if_splits)

lemma book_ok_rate [simp]: "book_ok (b\<lparr>rate_limiter := r\<rparr>) = book_ok b"
  by (simp add: book_ok_def)

lemma check_rate_limit_orders: "orders (fst (check_rate_limit now u b)) = orders b"
  by (simp add: check_rate_limit_def Let_def)

lemma book_ok_frame: "orders b' = orders b \<Longrightarrow> book_ok b' = book_ok b"
  by (simp add: book_ok_def)

lemma submit_ok:
  assumes "book_ok b"
  shows "book_ok (fst (submit now created uid a b))"
proof -
  obtain b' r where c: "check_rate_limit now (a_submitted_by a) b = (b', r)" by fastforce
  then have "book_ok b'"
    using check_rate_limit_orders [of now "a_submitted_by a" b] assms by (simp add: book_ok_def)
  with c assms show ?thesis
    by (cases r) (simp_all add: submit_def Let_def book_ok_put)
qed

lemma get_id: "book_ok b \<Longrightarrow> map_of (orders b) oid = Some ord \<Longrightarrow> order_id ord = oid"
  by (auto simp: book_ok_def dest!: map_of_SomeD)

lemma cancel_ok: "book_ok b \<Longrightarrow> book_ok (fst (cancel oid by b))"
  by (auto simp: cancel_def split: option.splits intro!: book_ok_put dest: get_id)

lemma update_ok: "book_ok b \<Longrightarrow> book_ok (fst (update_order oid ks b))"
  by (auto simp: update_order_def split: option.splits prod.splits intro!: book_ok_put
      dest: get_id apply_kwargs_id)

lemma snapshot_ok: "book_ok b \<Longrightarrow> book_ok (fst (snapshot_open g now mc b))"
  using snapshot_loop_keys [of g now mc 0 "orders b"] snapshot_loop_ids [of "orders b" g now mc 0]
  by (auto simp: book_ok_def snapshot_open_def split: prod.splits)

lemma expire_ok: "book_ok b \<Longrightarrow> book_ok (fst (expire_stale n clock b))"
  by (auto simp: book_ok_def expire_stale_def Let_def comp_def case_prod_beta)

lemma ob_apply_ok: "book_ok b \<Longrightarrow> book_ok (fst (ob_apply e b))"
proof (cases e)
  case (E_submit now created uid a)
  assume "book_ok b"
  then have "book_ok (fst (submit now created uid a b))" by (rule submit_ok)
  then show ?thesis using E_submit by (auto split: prod.splits sum.splits)
qed (simp_all add: cancel_ok update_ok snapshot_ok expire_ok)

lemma ob_run_ok: "book_ok b \<Longrightarrow> book_ok (fst (ob_run es b))"
proof (induction es arbitrary: b)
  case (Cons e es)
  obtain b' l where "ob_apply e b = (b', l)" by fastforce
  moreover obtain b'' l' where "ob_run es b' = (b'', l')" by fastforce
  ultimately show ?case using Cons.IH [of b'] ob_apply_ok [OF Cons.prems, of e] by simp
qed simp

section \<open>Rate limiting\<close>

definition times_of :: "string \<Rightarrow> (string \<times> real) list \<Rightarrow> real list" where
  "times_of u hist = map snd (filter (\<lambda>(x, _). x = u) hist)"

definition bucket :: "order_book \<Rightarrow> string \<Rightarrow> real list" where
  "bucket b u = (case map_of (rate_limiter b) u of None \<Rightarrow> [] | Some ts \<Rightarrow> ts)"

text \<open>Of any eleven consecutive acceptances the first is more than a window before the last.\<close>

definition spaced :: "real list \<Rightarrow> bool" where
  "spaced ts \<longleftrightarrow> (\<forall>i. i + RATE_LIMIT < length ts \<longrightarrow> ts ! i < ts ! (i + RATE_LIMIT) - RATE_WINDOW)"

definition limited :: "real \<Rightarrow> real list \<Rightarrow> real list \<Rightarrow> bool" where
  "limited clock ts d \<longleftrightarrow> sorted ts \<and> (\<forall>x \<in> set ts. x \<le> clock) \<and> spaced ts \<and> length d \<le> RATE_LIMIT
     \<and> (\<exists>p. ts = p @ d \<and> (\<forall>x \<in> set p. x < clock - RATE_WINDOW))"

lemma sorted_window_bound:
  assumes "sorted ts" "spaced ts"
  shows "length (filter (\<lambda>s. t - RATE_WINDOW \<le> s \<and> s \<le> t) ts) \<le> RATE_LIMIT"
  using assms
proof (induction ts rule: rev_induct)
  case (snoc a ts)
  let ?P = "\<lambda>s. t - RATE_WINDOW \<le> s \<and> s \<le> t" and ?n = "length ts - 9"
  have sp: "spaced ts" using snoc.prems(2)
    unfolding spaced_def by (force simp: nth_append split: if_splits)
  have srt: "sorted ts" using snoc.prems(1) by (simp add: sorted_append)
  show ?case
  proof (cases "?P a")
    case True
    have "\<not> ?P x" if xin: "x \<in> set (take ?n ts)" for x
    proof -
      obtain j where j: "j < length (take ?n ts)" "x = take ?n ts ! j"
        using xin unfolding in_set_conv_nth by blast
      then have l: "10 \<le> length ts" and jl: "j \<le> length ts - 10" by auto
      have "(ts @ [a]) ! (length ts - 10) < (ts @ [a]) ! (length ts - 10 + RATE_LIMIT) - RATE_WINDOW"
        by (rule snoc.prems(2) [unfolded spaced_def, rule_format]) (use l in \<open>simp add: RATE_LIMIT_def\<close>)
      moreover have "length ts - 10 < length ts" "length ts - 10 + RATE_LIMIT = length ts"
        using l by (auto simp: RATE_LIMIT_def intro: diff_less)
      ultimately have "ts ! (length ts - 10) < a - RATE_WINDOW" by (simp add: nth_append)
      moreover have "x \<le> ts ! (length ts - 10)" using j jl l srt by (auto intro: sorted_nth_mono)
      ultimately show ?thesis using True by simp
    qed
    then have "filter ?P (take ?n ts) = []" by (simp add: filter_empty_conv)
    then have "filter ?P ts = filter ?P (drop ?n ts)"
      by (metis append_Nil append_take_drop_id filter_append)
    then have "length (filter ?P ts) \<le> length (drop ?n ts)" by (metis length_filter_le)
    with True show ?thesis by (simp add: RATE_LIMIT_def)
  next
    case False
    with snoc.IH [OF srt sp] show ?thesis by (auto simp del: not_le)
  qed
qed simp

lemma limitedI:
  assumes "sorted ts" "\<And>x. x \<in> set ts \<Longrightarrow> x \<le> clock" "spaced ts" "length d \<le> RATE_LIMIT"
    "ts = p @ d" "\<And>x. x \<in> set p \<Longrightarrow> x < clock - RATE_WINDOW"
  shows "limited clock ts d"
  using assms by (auto simp: limited_def)

lemma limitedE:
  assumes "limited clock ts d"
  obtains p where "sorted ts" "\<And>x. x \<in> set ts \<Longrightarrow> x \<le> clock" "spaced ts" "length d \<le> RATE_LIMIT"
    "ts = p @ d" "\<And>x. x \<in> set p \<Longrightarrow> x < clock - RATE_WINDOW"
  using assms by (auto simp: limited_def)

lemma limited_accept:
  assumes l: "limited clock ts d" and now: "clock \<le> now"
    and d': "d' = dropWhile (\<lambda>t. t < now - RATE_WINDOW) d" and len: "length d' < RATE_LIMIT"
  shows "limited now (ts @ [now]) (d' @ [now])"
proof -
  obtain p where p: "ts = p @ d" "\<And>x. x \<in> set p \<Longrightarrow> x < clock - RATE_WINDOW"
    and srt: "sorted ts" and le: "\<And>x. x \<in> set ts \<Longrightarrow> x \<le> clock" and sp: "spaced ts"
    using l by (rule limitedE) blast
  let ?q = "p @ takeWhile (\<lambda>t. t < now - RATE_WINDOW) d"
  have q: "ts = ?q @ d'" by (simp add: p(1) d')
  have qb: "x < now - RATE_WINDOW" if "x \<in> set ?q" for x
    using that p(2) [of x] now by (auto dest: set_takeWhileD)
  have "spaced (ts @ [now])"
    unfolding spaced_def
  proof (intro allI impI)
    fix i assume i: "i + RATE_LIMIT < length (ts @ [now])"
    show "(ts @ [now]) ! i < (ts @ [now]) ! (i + RATE_LIMIT) - RATE_WINDOW"
    proof (cases "i + RATE_LIMIT < length ts")
      case True
      with sp show ?thesis by (simp add: spaced_def nth_append)
    next
      case False
      then have e: "i + RATE_LIMIT = length ts" using i by simp
      have "length ts = length ?q + length d'" by (subst q) simp
      then have "i < length ?q" using e len by linarith
      then have "ts ! i = ?q ! i" by (subst q) (simp only: nth_append if_True)
      then have "ts ! i < now - RATE_WINDOW" using qb [OF nth_mem [OF \<open>i < length ?q\<close>]] by simp
      with e show ?thesis by (simp add: nth_append RATE_LIMIT_def)
    qed
  qed
  then show ?thesis
  proof (rule limitedI [rotated 2])
    show "ts @ [now] = ?q @ (d' @ [now])" using q by simp
    show "x \<le> now" if "x \<in> set (ts @ [now])" for x using that le [of x] now by auto
    show "sorted (ts @ [now])" using srt le now by (force simp: sorted_append)
  qed (use len qb in auto)
qed

lemma limited_purge:
  assumes "limited clock ts d" "clock \<le> now"
  shows "limited now ts (dropWhile (\<lambda>t. t < now - RATE_WINDOW) d)"
  using assms(1)
proof (rule limitedE)
  fix p
  assume p: "sorted ts" "\<And>x. x \<in> set ts \<Longrightarrow> x \<le> clock" "spaced ts" "length d \<le> RATE_LIMIT"
    "ts = p @ d" "\<And>x. x \<in> set p \<Longrightarrow> x < clock - RATE_WINDOW"
  let ?q = "p @ takeWhile (\<lambda>t. t < now - RATE_WINDOW) d"
  show ?thesis
  proof (rule limitedI [where p = ?q])
    show "length (dropWhile (\<lambda>t. t < now - RATE_WINDOW) d) \<le> RATE_LIMIT"
      using p(4) length_dropWhile_le by (rule order_trans [rotated])
    show "x \<le> now" if "x \<in> set ts" for x using p(2) [OF that] assms(2) by simp
    show "x < now - RATE_WINDOW" if "x \<in> set ?q" for x
      using that p(6) [of x] assms(2) by (auto dest: set_takeWhileD)
  qed (use p in auto)
qed

lemma limited_mono: "limited clock ts d \<Longrightarrow> clock \<le> now \<Longrightarrow> limited now ts d"
  by (fastforce simp: limited_def)

lemma bucket_update [simp]:
  "bucket (b\<lparr>rate_limiter := AList.update u ts (rate_limiter b)\<rparr>) v = (if v = u then ts else bucket b v)"
  by (simp add: bucket_def update_conv')

lemma bucket_frame [simp]: "bucket (b\<lparr>orders := x\<rparr>) = bucket b"
  by (rule ext) (simp add: bucket_def)

lemma submit_cases:
  obtains "submit now created uid a b = (b, Inl (ValueError ''app_id is required''))"
  | "submit now created uid a b = (b, Inl (ValueError ''submitted_by is required''))"
  | e where "snd (submit now created uid a b) = Inl e"
      "bucket (fst (submit now created uid a b)) = (bucket b)(a_submitted_by a :=
         dropWhile (\<lambda>t. t < now - RATE_WINDOW) (bucket b (a_submitted_by a)))"
  | ord where "snd (submit now created uid a b) = Inr ord"
      "length (dropWhile (\<lambda>t. t < now - RATE_WINDOW) (bucket b (a_submitted_by a))) < RATE_LIMIT"
      "bucket (fst (submit now created uid a b)) = (bucket b)(a_submitted_by a :=
         dropWhile (\<lambda>t. t < now - RATE_WINDOW) (bucket b (a_submitted_by a)) @ [now])"
proof (cases "a_app_id a = [] \<or> a_submitted_by a = []")
  case True
  then show thesis using that(1,2) by (cases "a_app_id a = []") (auto simp: submit_def)
next
  case False
  let ?ts = "dropWhile (\<lambda>t. t < now - RATE_WINDOW) (bucket b (a_submitted_by a))"
  show thesis
  proof (cases "length ?ts \<ge> RATE_LIMIT")
    case True
    with False show thesis
      by (intro that(3)) (simp_all add: submit_def check_rate_limit_def Let_def fun_eq_iff flip: bucket_def)
  next
    case ok: False
    with False show thesis
      by (intro that(4) [of "new_order uid created a"])
        (simp_all add: submit_def check_rate_limit_def Let_def fun_eq_iff flip: bucket_def)
  qed
qed

text \<open>The submission times of a sequence of events, which the clock makes ascending.\<close>

fun submit_times :: "ob_event list \<Rightarrow> real list" where
  "submit_times [] = []"
| "submit_times (E_submit now created uid a # es) = now # submit_times es"
| "submit_times (e # es) = submit_times es"

lemma times_of_append [simp]: "times_of u (xs @ ys) = times_of u xs @ times_of u ys"
  by (simp add: times_of_def)

lemma ob_apply_limited:
  assumes inv: "\<And>u. limited clock (times_of u hist) (bucket b u)"
    and t: "\<And>now created uid a. e = E_submit now created uid a \<Longrightarrow> clock \<le> now \<and> clock' = now"
    and o: "(\<And>now created uid a. e \<noteq> E_submit now created uid a) \<Longrightarrow> clock' = clock"
    and run: "ob_apply e b = (b', l)"
  shows "limited clock' (times_of u (hist @ l)) (bucket b' u)"
proof (cases e)
  case (E_submit now created uid a)
  have c: "clock \<le> now" "clock' = now" using t E_submit by auto
  obtain b1 r where s: "submit now created uid a b = (b1, r)" by fastforce
  show ?thesis
  proof (rule submit_cases [of now created uid a b])
    fix ord
    assume "snd (submit now created uid a b) = Inr ord"
      "length (dropWhile (\<lambda>t. t < now - RATE_WINDOW) (bucket b (a_submitted_by a))) < RATE_LIMIT"
      "bucket (fst (submit now created uid a b)) = (bucket b)(a_submitted_by a :=
         dropWhile (\<lambda>t. t < now - RATE_WINDOW) (bucket b (a_submitted_by a)) @ [now])"
    then show ?thesis
      using run E_submit s c inv [of u] limited_accept [OF inv [of "a_submitted_by a"] c(1) refl]
      by (auto simp: times_of_def intro: limited_mono)
  next
    fix x
    assume "snd (submit now created uid a b) = Inl x"
      "bucket (fst (submit now created uid a b)) = (bucket b)(a_submitted_by a :=
         dropWhile (\<lambda>t. t < now - RATE_WINDOW) (bucket b (a_submitted_by a)))"
    then show ?thesis
      using run E_submit s c inv [of u] limited_purge [OF inv [of "a_submitted_by a"] c(1)]
      by (auto simp: times_of_def intro: limited_mono)
  qed (use run E_submit c inv [of u] in \<open>auto intro: limited_mono simp: times_of_def\<close>)
qed (use run o inv [of u] in \<open>auto simp: cancel_def snapshot_open_def update_order_def expire_stale_def
    bucket_def times_of_def Let_def split: option.splits prod.splits if_splits\<close>)

lemma ob_run_limited:
  assumes "\<And>u. limited clock (times_of u hist) (bucket b u)"
    and "sorted (clock # submit_times es)"
    and "ob_run es b = (b', l)"
  shows "\<exists>clock'. limited clock' (times_of u (hist @ l)) (bucket b' u)"
  using assms
proof (induction es arbitrary: b hist clock l)
  case Nil
  then show ?case by auto
next
  case (Cons e es)
  obtain b1 l1 where e: "ob_apply e b = (b1, l1)" by fastforce
  obtain l2 where r: "ob_run es b1 = (b', l2)" "l = l1 @ l2"
    using Cons.prems(3) e by (auto split: prod.splits)
  define clock1 where "clock1 = (case e of E_submit now _ _ _ \<Rightarrow> now | _ \<Rightarrow> clock)"
  have "limited clock1 (times_of u (hist @ l1)) (bucket b1 u)" for u
    using Cons.prems(2)
    by (intro ob_apply_limited [OF Cons.prems(1) _ _ e]) (auto simp: clock1_def split: ob_event.splits)
  moreover have "sorted (clock1 # submit_times es)"
    using Cons.prems(2) by (cases e) (auto simp: clock1_def)
  ultimately show ?case using Cons.IH [of clock1 "hist @ l1" b1 l2] r by simp
qed

section \<open>Snapshots and the order life cycle\<close>

lemma snapshot_loop_taken:
  "snd (snapshot_loop g now mc k os) =
     map (ord_status_update (\<lambda>_. ASSIGNED)) (take (nat (max 1 (mc - int k)))
       (filter (\<lambda>ord. ord_status ord = OPEN \<and> \<not> in_cooldown g now ord) (vals_of os)))"
proof (induction g now mc k os rule: snapshot_loop.induct)
  case (2 g now mc k i ord rest)
  show ?case
  proof (cases "int (Suc k) \<ge> mc")
    case True
    then have "nat (max 1 (mc - int k)) = Suc 0" by simp
    with True 2 show ?thesis by (auto simp: Let_def split: prod.splits)
  next
    case False
    then have "nat (max 1 (mc - int k)) = Suc (nat (max 1 (mc - int (Suc k))))" by simp
    with False 2 show ?thesis by (auto simp: Let_def split: prod.splits)
  qed
qed simp

lemma snapshot_loop_get:
  assumes "wf_dict os" "\<forall>(i, ord) \<in> set os. order_id ord = i"
  shows "map_of (fst (snapshot_loop g now mc k os)) oid =
    (if oid \<in> order_id ` set (snd (snapshot_loop g now mc k os))
     then map_option (ord_status_update (\<lambda>_. ASSIGNED)) (map_of os oid) else map_of os oid)"
  using assms
proof (induction g now mc k os rule: snapshot_loop.induct)
  case (2 g now mc k i ord rest)
  have "i \<notin> order_id ` set (snd (snapshot_loop g now mc n rest))" for n
    using 2(3,4) by (force simp: snapshot_loop_taken dest!: in_set_takeD)
  moreover have "map_of rest i = None" using 2(3) by (simp add: map_of_eq_None_iff)
  moreover have "order_id ord = i" "wf_dict rest" "\<forall>(i, ord) \<in> set rest. order_id ord = i"
    using 2(3,4) by auto
  ultimately show ?case using 2(1) [OF _ refl] 2(2)
    by (cases "ord_status ord = OPEN \<and> \<not> in_cooldown g now ord"; cases "int (Suc k) \<ge> mc")
      (auto simp: Let_def case_prod_beta)
qed simp

definition claimed :: "ob_order \<Rightarrow> ob_order" where
  "claimed ord = ord\<lparr>ord_status := ASSIGNED\<rparr>"

lemma snapshot_open_taken:
  "snd (snapshot_open g now mc b) = map claimed (take (nat (max 1 mc))
     (filter (\<lambda>ord. ord_status ord = OPEN \<and> \<not> in_cooldown g now ord) (vals_of (orders b))))"
  using snapshot_loop_taken [of g now mc 0 "orders b"]
  by (simp add: snapshot_open_def claimed_def [abs_def] case_prod_beta)

lemma snapshot_open_get:
  assumes "book_ok b"
  shows "get_order oid (fst (snapshot_open g now mc b)) =
    (if oid \<in> order_id ` set (snd (snapshot_open g now mc b))
     then map_option claimed (get_order oid b) else get_order oid b)"
  using assms snapshot_loop_get [of "orders b" g now mc 0 oid]
  by (simp add: get_order_def snapshot_open_def claimed_def [abs_def] case_prod_beta book_ok_def)

lemma snapshot_taken_was_open:
  assumes "book_ok b" "ord' \<in> set (snd (snapshot_open g now mc b))"
  obtains ord where "get_order (order_id ord') b = Some ord" "ord_status ord = OPEN"
    "\<not> in_cooldown g now ord" "ord' = claimed ord"
proof -
  obtain i ord where "(i, ord) \<in> set (orders b)" "ord_status ord = OPEN" "\<not> in_cooldown g now ord" "ord' = claimed ord"
    using assms(2) by (auto simp: snapshot_open_taken dest!: in_set_takeD)
  moreover from this have "get_order (order_id ord') b = Some ord"
    using assms(1) by (auto simp: book_ok_def get_order_def claimed_def)
  ultimately show ?thesis using that by blast
qed

lemma expire_get:
  "get_order oid (fst (expire_stale n clock b)) =
    map_option (\<lambda>ord. if stale (case n of None \<Rightarrow> clock | Some t \<Rightarrow> if t = 0 then clock else t) ord
      then ord\<lparr>ord_status := EXPIRED\<rparr> else ord) (get_order oid b)"
proof -
  have "map_of (map (\<lambda>(i, ord). (i, f ord)) os) oid = map_option f (map_of os oid)" for f :: "ob_order \<Rightarrow> ob_order" and os
    by (induction os) auto
  then show ?thesis by (simp add: get_order_def expire_stale_def Let_def)
qed

lemma cancel_get:
  "get_order oid (fst (cancel oid' by b)) =
    (if oid = oid' then map_option (\<lambda>ord. if lower (submitted_by ord) = lower by \<and> ord_status ord \<in> {OPEN, ASSIGNED}
        then ord\<lparr>ord_status := CANCELLED\<rparr> else ord) (get_order oid b)
     else get_order oid b)"
  by (auto simp: get_order_def cancel_def update_conv' split: option.splits)

lemma submit_get_other:
  "oid \<noteq> ''ord_'' @ uid \<Longrightarrow> get_order oid (fst (submit now created uid a b)) = get_order oid b"
  using check_rate_limit_orders [of now "a_submitted_by a" b]
  by (auto simp: get_order_def submit_def new_order_def Let_def update_conv' split: prod.splits sum.splits)

lemma update_get_other:
  "oid \<noteq> oid' \<Longrightarrow> get_order oid (fst (update_order oid' ks b)) = get_order oid b"
  by (auto simp: get_order_def update_order_def update_conv' split: prod.splits option.splits)

text \<open>The status changes the book makes by itself, without \<open>update_order\<close>.\<close>

inductive book_edge :: "order_status \<Rightarrow> order_status \<Rightarrow> bool" where
  claim: "book_edge OPEN ASSIGNED"
| cancel: "st \<in> {OPEN, ASSIGNED} \<Longrightarrow> book_edge st CANCELLED"
| expire: "st \<in> {OPEN, ASSIGNED} \<Longrightarrow> book_edge st EXPIRED"

inductive_simps book_edge_simps: "book_edge st st'"

fun touches :: "string \<Rightarrow> ob_event \<Rightarrow> bool" where
  "touches oid (E_submit now created uid a) \<longleftrightarrow> oid = ''ord_'' @ uid"
| "touches oid (E_update oid' ks) \<longleftrightarrow> oid = oid'"
| "touches oid _ \<longleftrightarrow> False"

lemma ob_apply_edge:
  assumes "book_ok b" "\<not> touches oid e" "get_order oid b = Some ord"
  shows "\<exists>st. get_order oid (fst (ob_apply e b)) = Some (ord\<lparr>ord_status := st\<rparr>)
    \<and> (st = ord_status ord \<or> book_edge (ord_status ord) st)"
proof (cases e)
  case (E_submit now created uid a)
  then have "get_order oid (fst (ob_apply e b)) = get_order oid (fst (submit now created uid a b))"
    by (auto split: prod.splits sum.splits)
  with E_submit assms show ?thesis by (auto simp: submit_get_other intro!: exI [of _ "ord_status ord"])
next
  case (E_snapshot g now mc)
  have "ord_status ord = OPEN" if "oid \<in> order_id ` set (snd (snapshot_open g now mc b))"
    using that assms(1,3) by (auto elim!: snapshot_taken_was_open)
  with E_snapshot assms show ?thesis
    by (auto simp: snapshot_open_get claimed_def book_edge_simps intro: exI [of _ "ord_status ord"])
next
  case (E_cancel oid' who)
  show ?thesis
  proof (cases "oid = oid' \<and> lower (submitted_by ord) = lower who \<and> ord_status ord \<in> {OPEN, ASSIGNED}")
    case True
    with E_cancel assms have "get_order oid (fst (ob_apply e b)) = Some (ord\<lparr>ord_status := CANCELLED\<rparr>)"
      by (auto simp: cancel_get)
    with True show ?thesis by (auto intro!: exI [of _ CANCELLED] book_edge.intros)
  next
    case False
    with E_cancel assms have "get_order oid (fst (ob_apply e b)) = Some ord" by (auto simp: cancel_get)
    then show ?thesis by (intro exI [of _ "ord_status ord"]) simp
  qed
next
  case (E_update oid' ks)
  with assms show ?thesis by (auto simp: update_get_other intro!: exI [of _ "ord_status ord"])
next
  case (E_expire n clock)
  with assms show ?thesis
    by (auto simp: expire_get stale_def book_edge_simps intro: exI [of _ "ord_status ord"])
qed

lemma ob_run_edges:
  assumes "book_ok b" "\<forall>e \<in> set es. \<not> touches oid e" "get_order oid b = Some ord"
  shows "\<exists>st. get_order oid (fst (ob_run es b)) = Some (ord\<lparr>ord_status := st\<rparr>) \<and> book_edge\<^sup>*\<^sup>* (ord_status ord) st"
  using assms
proof (induction es arbitrary: b ord)
  case Nil
  then show ?case by (auto intro!: exI [of _ "ord_status ord"])
next
  case (Cons e es)
  obtain st where st: "get_order oid (fst (ob_apply e b)) = Some (ord\<lparr>ord_status := st\<rparr>)"
    "st = ord_status ord \<or> book_edge (ord_status ord) st"
    using ob_apply_edge [of b oid e ord] Cons.prems by auto
  from Cons.IH [OF ob_apply_ok [OF Cons.prems(1)] _ st(1)] Cons.prems(2) obtain st' where
    "get_order oid (fst (ob_run es (fst (ob_apply e b)))) = Some (ord\<lparr>ord_status := st'\<rparr>)" "book_edge\<^sup>*\<^sup>* st st'"
    by auto
  with st(2) show ?case by (auto simp: case_prod_beta intro: converse_rtranclp_into_rtranclp)
qed

section \<open>Properties\<close>

definition sample_args :: "string \<Rightarrow> submit_args" where
  "sample_args user = \<lparr>a_app_id = ''app'', a_intent_function = [], a_params = None, a_submitted_by = user,
     a_chain_id = 1, a_deadline = 0, a_perpetual = False, a_max_executions = 5, a_cooldown = 0,
     a_user_signature = [], a_policy_tier = ''hybrid'', a_automation_id = []\<rparr>"

definition sample_events :: "ob_event list" where
  "sample_events = [E_submit 1 1 ''x'' (sample_args ''u''), E_submit 2 2 ''y'' (sample_args ''u'')]"

lemma sample_book:
  "fst (ob_run sample_events empty_book) = \<lparr>orders = [(''ord_x'', new_order ''x'' 1 (sample_args ''u'')),
     (''ord_y'', new_order ''y'' 2 (sample_args ''u''))], rate_limiter = [(''u'', [1, 2])]\<rparr>"
  by (simp add: sample_events_def submit_def check_rate_limit_def sample_args_def new_order_def empty_book_def RATE_LIMIT_def RATE_WINDOW_def
      Let_def)

text \<open>Property: whatever sequence of submissions, cancellations, snapshots, updates and expiries is
  run on a new book with an ascending clock, no user gets more than 10 orders accepted in any closed
  60-second interval.\<close>

theorem rate_limit_holds:
  assumes "sorted (submit_times es)" "ob_run es empty_book = (b, l)"
  shows "length (filter (\<lambda>s. t - 60 \<le> s \<and> s \<le> t) (times_of u l)) \<le> 10"
proof -
  define clock where "clock = (case submit_times es of [] \<Rightarrow> 0 | x # _ \<Rightarrow> x)"
  have "limited clock (times_of u []) (bucket empty_book u)" for u
    by (simp add: limited_def times_of_def bucket_def empty_book_def spaced_def)
  moreover have "sorted (clock # submit_times es)"
    using assms(1) by (auto simp: clock_def split: list.split)
  ultimately obtain clock' where "limited clock' (times_of u ([] @ l)) (bucket b u)"
    using ob_run_limited [of clock "[]" empty_book es b l u] assms(2) by blast
  then show ?thesis
    using sorted_window_bound [of "times_of u l" t] by (simp add: limited_def RATE_LIMIT_def RATE_WINDOW_def)
qed

theorem rate_limit_holds_witness:
  "length (filter (\<lambda>s. 2 - 60 \<le> s \<and> s \<le> 2) (times_of ''u''
     (snd (ob_run sample_events empty_book)))) \<le> 10"
  using rate_limit_holds [of sample_events
      _ _ 2 "''u''"]
  by (metis (no_types, lifting) sample_events_def submit_times.simps(1,2) sorted1 sorted2 one_le_numeral prod.collapse)

text \<open>Property: on every book reachable from the empty one, \<open>snapshot_open\<close> returns the first
  OPEN orders not in cool-down in insertion order, at most \<open>max_count\<close> of them (one, when
  \<open>max_count\<close> is not positive), each marked ASSIGNED; those orders are ASSIGNED in the book, every
  other order is unchanged.\<close>

theorem snapshot_claims_first_open:
  assumes "b = fst (ob_run es empty_book)" "snapshot_open g now mc b = (b', taken)"
  shows "taken = map claimed (take (nat (max 1 mc))
       (filter (\<lambda>ord. ord_status ord = OPEN \<and> \<not> in_cooldown g now ord) (vals_of (orders b)))) \<and>
    (\<forall>oid. get_order oid b' = (if oid \<in> order_id ` set taken then map_option claimed (get_order oid b)
       else get_order oid b)) \<and>
    distinct (map order_id taken)"
proof -
  have ok: "book_ok b" unfolding assms(1) by (rule ob_run_ok) (simp add: book_ok_def empty_book_def)
  have 1: "taken = map claimed (take (nat (max 1 mc))
       (filter (\<lambda>ord. ord_status ord = OPEN \<and> \<not> in_cooldown g now ord) (vals_of (orders b))))"
    using snapshot_open_taken [of g now mc b] assms(2) by simp
  have 2: "\<forall>oid. get_order oid b' = (if oid \<in> order_id ` set taken then map_option claimed (get_order oid b) else get_order oid b)"
    using snapshot_open_get [OF ok, of _ g now mc] assms(2) by simp
  have "map order_id (vals_of (orders b)) = keys_of (orders b)"
    using ok by (auto simp: book_ok_def)
  moreover have "distinct (keys_of (orders b))" using ok by (simp add: book_ok_def)
  ultimately have "distinct (map order_id (vals_of (orders b)))" by metis
  then have "distinct (map order_id taken)"
    unfolding 1 by (simp add: claimed_def comp_def distinct_map_filter take_map [symmetric])
  with 1 2 show ?thesis by blast
qed

theorem snapshot_claims_first_open_witness:
  "snd (snapshot_open 60 5 1 (fst (ob_run sample_events empty_book)))
    = [claimed (new_order ''x'' 1 (sample_args ''u''))]"
  using snapshot_claims_first_open [OF refl prod.collapse [symmetric],
      of 60 5 1 sample_events]
  by (simp add: sample_book in_cooldown_def new_order_def sample_args_def)

text \<open>Claim C25: an order once claimed by a snapshot is not claimed again by any later snapshot, whatever
  cancellations, expiries, snapshots, submissions of other orders and updates of other orders come
  in between.\<close>

theorem no_double_claim:
  assumes "b = fst (ob_run es empty_book)" "ord \<in> set (snd (snapshot_open g now mc b))"
    and "\<forall>e \<in> set es'. \<not> touches (order_id ord) e"
  shows "order_id ord \<notin> order_id ` set (snd (snapshot_open g' now' mc'
           (fst (ob_run es' (fst (snapshot_open g now mc b))))))"
proof
  let ?b1 = "fst (snapshot_open g now mc b)" and ?b2 = "fst (ob_run es' (fst (snapshot_open g now mc b)))"
  assume "order_id ord \<in> order_id ` set (snd (snapshot_open g' now' mc' ?b2))"
  moreover have ok: "book_ok b" unfolding assms(1) by (rule ob_run_ok) (simp add: book_ok_def empty_book_def)
  ultimately obtain o2 where o2: "get_order (order_id ord) ?b2 = Some o2" "ord_status o2 = OPEN"
    by (auto elim!: snapshot_taken_was_open [OF ob_run_ok [OF snapshot_ok]])
  obtain o1 where "get_order (order_id ord) ?b1 = Some o1" "ord_status o1 = ASSIGNED"
    using assms(2) by (auto simp: snapshot_open_get [OF ok] claimed_def elim!: snapshot_taken_was_open [OF ok])
  with ob_run_edges [OF snapshot_ok [OF ok] assms(3)] o2 have "book_edge\<^sup>*\<^sup>* ASSIGNED OPEN" by fastforce
  then show False by (cases rule: rtranclp.cases) (auto simp: book_edge_simps)
qed

theorem no_double_claim_witness:
  "''ord_x'' \<notin> order_id ` set (snd (snapshot_open 60 9 5 (fst (ob_run [E_cancel ''ord_y'' ''u'']
     (fst (snapshot_open 60 5 1 (fst (ob_run sample_events empty_book))))))))"
proof -
  have "claimed (new_order ''x'' 1 (sample_args ''u'')) \<in> set (snd (snapshot_open 60 5 1 (fst (ob_run sample_events empty_book))))"
    by (simp add: sample_book snapshot_open_taken in_cooldown_def sample_args_def new_order_def)
  from no_double_claim [OF refl this, of "[E_cancel ''ord_y'' ''u'']" 60 9 5]
  show ?thesis by (simp add: claimed_def new_order_def)
qed

text \<open>Claim C26: as long as nobody calls \<open>update_order\<close> on it, a stored order keeps every field but its
  status, and the status only moves OPEN to ASSIGNED and from either of them to CANCELLED or
  EXPIRED; in particular a finished order keeps its status.\<close>

theorem order_life_cycle:
  assumes "b = fst (ob_run es empty_book)" "\<forall>e \<in> set es'. \<not> touches oid e" "get_order oid b = Some ord"
  shows "\<exists>st. get_order oid (fst (ob_run es' b)) = Some (ord\<lparr>ord_status := st\<rparr>)
    \<and> (st = ord_status ord \<or> ord_status ord = OPEN \<and> st = ASSIGNED
       \<or> ord_status ord \<in> {OPEN, ASSIGNED} \<and> st \<in> {CANCELLED, EXPIRED})"
proof -
  have ok: "book_ok b" unfolding assms(1) by (rule ob_run_ok) (simp add: book_ok_def empty_book_def)
  have "st = s \<or> s = OPEN \<and> st = ASSIGNED \<or> s \<in> {OPEN, ASSIGNED} \<and> st \<in> {CANCELLED, EXPIRED}"
    if "book_edge\<^sup>*\<^sup>* s st" for s st
    using that by induction (auto simp: book_edge_simps)
  with ob_run_edges [OF ok assms(2,3)] show ?thesis by blast
qed

theorem order_life_cycle_witness:
  "\<exists>st. get_order ''ord_x'' (fst (ob_run [E_snapshot 60 5 1, E_cancel ''ord_x'' ''U''] (fst (ob_run sample_events empty_book))))
      = Some ((new_order ''x'' 1 (sample_args ''u''))\<lparr>ord_status := st\<rparr>) \<and> st \<in> {OPEN, ASSIGNED, CANCELLED, EXPIRED}"
proof -
  have "get_order ''ord_x'' (fst (ob_run sample_events empty_book)) = Some (new_order ''x'' 1 (sample_args ''u''))"
    by (simp add: sample_book get_order_def)
  from order_life_cycle [OF refl _ this, of "[E_snapshot 60 5 1, E_cancel ''ord_x'' ''U'']"]
  show ?thesis by (auto simp: new_order_def)
qed

text \<open>Property: \<open>cancel\<close> and \<open>update_order\<close> do not exclude each other: an order that was claimed, then
  cancelled by its owner with the answer True, is moved to FILLED by a later \<open>update_order\<close>, since
  \<open>update_order\<close> looks at no status before it writes.\<close>

theorem cancelled_order_can_be_filled:
  "let b1 = fst (ob_run [E_submit 1 1 ''x'' (sample_args ''u''), E_snapshot 60 5 1] empty_book);
       (b2, r) = cancel ''ord_x'' ''u'' b1;
       (b3, _) = update_order ''ord_x'' [K_ord_status FILLED] b2
   in r = Inr True \<and> map_option ord_status (get_order ''ord_x'' b2) = Some CANCELLED
      \<and> map_option ord_status (get_order ''ord_x'' b3) = Some FILLED"
  by (simp add: submit_def check_rate_limit_def sample_args_def new_order_def empty_book_def RATE_LIMIT_def RATE_WINDOW_def
      Let_def in_cooldown_def
      snapshot_open_def cancel_def update_order_def get_order_def)

text \<open>Property: \<open>expire_stale\<close> marks exactly the OPEN and ASSIGNED orders whose positive deadline lies
  before the given time, changes nothing else, returns how many it marked, and a second call at
  the same time finds none.\<close>

theorem expire_stale_exact:
  assumes "now \<noteq> 0" "expire_stale (Some now) clock b = (b', n)"
  shows "get_order oid b' = map_option (\<lambda>ord. if 0 < deadline ord \<and> deadline ord < now \<and> ord_status ord \<in> {OPEN, ASSIGNED}
          then ord\<lparr>ord_status := EXPIRED\<rparr> else ord) (get_order oid b) \<and>
    n = length (filter (stale now) (vals_of (orders b))) \<and> expire_stale (Some now) clock b' = (b', 0)"
proof -
  have b': "b' = b\<lparr>orders := map (\<lambda>(i, ord). (i, if stale now ord then ord\<lparr>ord_status := EXPIRED\<rparr> else ord)) (orders b)\<rparr>"
    using assms by (simp add: expire_stale_def Let_def)
  then have f: "\<forall>(i, ord) \<in> set (orders b'). \<not> stale now ord" by (auto simp: stale_def split: if_splits)
  then have "map (\<lambda>(i, ord). (i, if stale now ord then ord\<lparr>ord_status := EXPIRED\<rparr> else ord)) (orders b') = orders b'"
    by (intro map_idI) auto
  with f have "expire_stale (Some now) clock b' = (b', 0)"
    using assms(1) by (auto simp: expire_stale_def Let_def filter_empty_conv)
  moreover have "n = length (filter (stale now) (vals_of (orders b)))"
    using assms by (auto simp: expire_stale_def Let_def filter_map comp_def case_prod_unfold)
  ultimately show ?thesis
    using expire_get [of oid "Some now" clock b] assms by (auto simp: stale_def intro!: option.map_cong)
qed

theorem expire_stale_exact_witness:
  "snd (expire_stale (Some 7) 7 (fst (ob_run sample_events empty_book))) = 0"
  using expire_stale_exact [of 7 7 "fst (ob_run sample_events empty_book)" _ _ "''ord_x''", OF _ prod.collapse [symmetric]]
  by (simp add: sample_book stale_def new_order_def sample_args_def)

text \<open>Property: the \<open>rejection_class\<close> that \<open>Order.to_dict\<close> publishes is \<open>None\<close> unless the order is REJECTED
  or EXPIRED; so the failed end states BRIDGE\_FAILED, ROLLED\_BACK and PARTIAL\_ROLLBACK carry no class,
  although the module says that a class is the signal for every terminal failure.\<close>

theorem rejection_class_only_rejected_or_expired:
  "map_of (order_to_dict ord) ''rejection_class'' = Some PNone \<longleftrightarrow> ord_status ord \<notin> {REJECTED, EXPIRED}"
proof -
  have "opt_val PStr c = PNone \<longleftrightarrow> c = None" for c by (cases c) (simp_all add: opt_val_def)
  moreover have "classify_rejection (Some (status_value st)) e = None \<longleftrightarrow> st \<notin> {REJECTED, EXPIRED}" for st e
    by (cases st) (simp_all add: classify_rejection_def lower_def lower_char_def Let_def)
  ultimately show ?thesis by (simp add: order_to_dict_def)
qed

end
