(* ===== verification/Quorum.thy ===== *)
theory Quorum
  imports Py_Prelude
begin

text \<open>
  What order consensus (\<open>consensus/manager.py\<close>) and champion consensus
  (\<open>consensus/champion_manager.py\<close>) have in common: the view of the chain both read from
  \<open>ProtocolConfig\<close>, the union of the trusted validators, the authorisation test, the ceiling of the
  quorum, and two interfaces the properties rest on. \<open>ballot_box\<close> is the contract of a collection of
  approvals keyed by validator id; \<open>quorum_rule\<close> is the contract of a quorum size, with
  the intersection of two quorums.
\<close>

section \<open>Validators and quorum size\<close>

text \<open>The fields of \<open>ProtocolConfig\<close> that the managers read; \<open>peers\<close> are their EVM addresses.\<close>

record protocol_view =
  quorum_bps :: int
  on_chain_validator_count :: int
  on_chain_validators :: "string list"
  peers :: "string list"

primrec collect :: "string list \<Rightarrow> string set \<times> string list \<Rightarrow> string set \<times> string list" where
  "collect [] st = st"
| "collect (v # vs) st = (case st of (seen, result) \<Rightarrow>
     if lower v \<in> seen then collect vs (seen, result)
     else collect vs (insert (lower v) seen, result @ [v]))"

definition trusted_union :: "string \<Rightarrow> string list option \<Rightarrow> string list \<Rightarrow> string list" where
  "trusted_union self override discovered =
     snd (collect discovered (collect (case override of None \<Rightarrow> [] | Some vs \<Rightarrow> vs) ({lower self}, [self])))"

definition any_address :: "string list \<Rightarrow> string \<Rightarrow> bool" where
  "any_address vs address \<longleftrightarrow> (\<exists>a \<in> set vs. lower a = lower address)"

definition ceil_quorum :: "int \<Rightarrow> int \<Rightarrow> int" where
  "ceil_quorum n bps = max 1 ((n * bps + 9999) div 10000)"

text \<open>\<open>sorted(..., key=lambda a: int(a.validator_id.replace("0x", ""), 16))\<close>\<close>

definition sort_by_address :: "('a \<Rightarrow> string) \<Rightarrow> 'a list \<Rightarrow> 'a list res" where
  "sort_by_address ident xs =
     res_bind (res_map (\<lambda>x. or_raise (ValueError ''int'') (map_option (\<lambda>k. (k, x)) (py_int16 (remove_0x (ident x))))) xs)
     (\<lambda>ps. Inr (map snd (sort_key fst ps)))"

text \<open>The loop \<open>for key, p in list(pending.items()): if old(p): expired.append(key); del pending[key]\<close>.\<close>

definition prune_dict :: "('v \<Rightarrow> bool) \<Rightarrow> (string \<times> 'v) list \<Rightarrow> (string \<times> 'v) list \<times> string list" where
  "prune_dict old pend = (let expired = keys_of (filter (\<lambda>(_, p). old p) pend) in (fold AList.delete expired pend, expired))"

section \<open>Lemmas\<close>

lemma delete_filter: "AList.delete k d = filter (\<lambda>p. fst p \<noteq> k) d"
  by (induction d) auto

lemma fold_delete: "fold AList.delete ks d = filter (\<lambda>p. fst p \<notin> set ks) d"
proof (induction ks arbitrary: d)
  case (Cons k ks)
  have "filter (\<lambda>p. fst p \<notin> set ks) (filter (\<lambda>p. fst p \<noteq> k) d) = filter (\<lambda>p. fst p \<notin> set (k # ks)) d"
    by (induction d) auto
  then have "fold AList.delete ks (AList.delete k d) = filter (\<lambda>p. fst p \<notin> set (k # ks)) d"
    by (simp only: Cons.IH delete_filter)
  then show ?case by simp
qed simp

lemma prune_dict_eq:
  assumes "wf_dict pend"
  shows "prune_dict old pend = (filter (\<lambda>(_, p). \<not> old p) pend, keys_of (filter (\<lambda>(_, p). old p) pend))"
proof -
  have "filter (\<lambda>p. fst p \<notin> set (keys_of (filter (\<lambda>(_, p). old p) pend))) pend = filter (\<lambda>(_, p). \<not> old p) pend"
    using assms by (intro filter_cong) (auto dest: eq_key_imp_eq_value)
  then show ?thesis by (simp only: prune_dict_def fold_delete Let_def)
qed

lemma map_of_filter_snd:
  assumes "wf_dict d"
  shows "map_of (filter (\<lambda>(_, v). P v) d) k = (case map_of d k of None \<Rightarrow> None | Some v \<Rightarrow> if P v then Some v else None)"
  using assms by (induction d) (auto simp: map_of_eq_None_iff split: option.splits)

lemma collect_props:
  assumes "collect vs (seen, res) = (seen', res')" "seen = lower ` set res" "distinct (map lower res)"
  shows "seen' = lower ` set res' \<and> distinct (map lower res') \<and> lower ` set res' = lower ` set res \<union> lower ` set vs
    \<and> set res \<subseteq> set res' \<and> set res' \<subseteq> set res \<union> set vs"
  using assms
proof (induction vs arbitrary: seen res)
  case (Cons v vs)
  show ?case
  proof (cases "lower v \<in> seen")
    case True
    with Cons.prems Cons.IH [of seen res] show ?thesis by (auto simp: image_iff)
  next
    case False
    with Cons.prems Cons.IH [of "insert (lower v) seen" "res @ [v]"] show ?thesis by auto
  qed
qed auto

lemma trusted_union_props:
  "distinct (map lower (trusted_union self override discovered))"
  "lower ` set (trusted_union self override discovered) =
     insert (lower self) (lower ` set (case override of None \<Rightarrow> [] | Some vs \<Rightarrow> vs) \<union> lower ` set discovered)"
  "self \<in> set (trusted_union self override discovered)"
proof -
  let ?o = "case override of None \<Rightarrow> [] | Some vs \<Rightarrow> vs"
  obtain s1 r1 where 1: "collect ?o ({lower self}, [self]) = (s1, r1)" by fastforce
  obtain s2 r2 where 2: "collect discovered (s1, r1) = (s2, r2)" by fastforce
  have u: "trusted_union self override discovered = r2" by (simp add: trusted_union_def 1 2)
  from collect_props [OF 1] have p1: "s1 = lower ` set r1" "distinct (map lower r1)"
    "lower ` set r1 = insert (lower self) (lower ` set ?o)" "self \<in> set r1"
    by auto
  from collect_props [OF 2 p1(1,2)] p1(3,4)
  show "distinct (map lower (trusted_union self override discovered))"
    "lower ` set (trusted_union self override discovered) = insert (lower self) (lower ` set ?o \<union> lower ` set discovered)"
    "self \<in> set (trusted_union self override discovered)"
    unfolding u by auto
qed

lemma ceil_quorum_pos: "1 \<le> ceil_quorum n bps"
  by (simp add: ceil_quorum_def)

lemma ceil_quorum_bounds:
  assumes "0 < n" "0 < bps"
  shows "n * bps \<le> 10000 * ceil_quorum n bps" "10000 * (ceil_quorum n bps - 1) < n * bps"
    "bps \<le> 10000 \<Longrightarrow> ceil_quorum n bps \<le> n"
proof -
  let ?q = "(n * bps + 9999) div 10000"
  have p: "0 < n * bps" using assms by simp
  then have "ceil_quorum n bps = ?q" by (simp add: ceil_quorum_def)
  moreover have "10000 * ?q \<le> n * bps + 9999" "n * bps \<le> 10000 * ?q" by linarith+
  moreover have "n * bps \<le> n * 10000" if "bps \<le> 10000" using assms that by simp
  ultimately show "n * bps \<le> 10000 * ceil_quorum n bps" "10000 * (ceil_quorum n bps - 1) < n * bps"
    "bps \<le> 10000 \<Longrightarrow> ceil_quorum n bps \<le> n"
    by simp_all
qed

lemma sort_by_address_mset:
  assumes "sort_by_address ident xs = Inr ys"
  shows "mset ys = mset xs"
proof -
  obtain ps where ps: "res_map (\<lambda>x. or_raise (ValueError ''int'') (map_option (\<lambda>k. (k, x)) (py_int16 (remove_0x (ident x))))) xs = Inr ps"
    "ys = map snd (sort_key fst ps)"
    using assms by (auto simp: sort_by_address_def res_simps)
  have "map snd ps = xs"
    using ps(1) unfolding res_map_eq_Inr by (induction rule: list_all2_induct) (auto simp: res_simps)
  then show ?thesis using ps(2) by (metis mset_map mset_sort)
qed

lemma sort_by_address_set: "sort_by_address ident xs = Inr ys \<Longrightarrow> set ys = set xs \<and> length ys = length xs"
  using sort_by_address_mset [of ident xs ys] by (metis mset_eq_setD size_mset)

section \<open>The ballot box\<close>

locale ballot_box =
  fixes voter :: "'a \<Rightarrow> string"
    and votes :: "'p \<Rightarrow> (string \<times> 'a) list"
    and need :: "'p \<Rightarrow> int"
    and cast :: "'a \<Rightarrow> 'p \<Rightarrow> 'p"
    and admissible :: "'p \<Rightarrow> 'a \<Rightarrow> bool"
  assumes votes_cast: "votes (cast a p) = AList.update (voter a) a (votes p)"
    and need_cast: "need (cast a p) = need p"
    and admissible_cast: "admissible (cast a p) = admissible p"
begin

definition sound :: "'p \<Rightarrow> bool" where
  "sound p \<longleftrightarrow> wf_dict (votes p) \<and> (\<forall>(v, a) \<in> set (votes p). voter a = v \<and> admissible p a)"

lemma sound_empty: "votes p = [] \<Longrightarrow> sound p"
  by (simp add: sound_def)

lemma sound_cast: "sound p \<Longrightarrow> admissible p a \<Longrightarrow> sound (cast a p)"
  by (auto simp: sound_def votes_cast admissible_cast distinct_update dest!: in_update)

lemma sound_admissible: "sound p \<Longrightarrow> a \<in> set (vals_of (votes p)) \<Longrightarrow> admissible p a"
  by (auto simp: sound_def)

lemma sound_voters:
  assumes "sound p"
  shows "map voter (vals_of (votes p)) = keys_of (votes p)"
  using assms by (auto simp: sound_def)

text \<open>As many approvals as different voters.\<close>

lemma quorum_voters:
  assumes "sound p" "need p \<le> int (length (votes p))"
  shows "need p \<le> int (card (voter ` set (vals_of (votes p))))"
proof -
  have "distinct (map voter (vals_of (votes p)))"
    unfolding sound_voters [OF assms(1)] using assms(1) by (simp add: sound_def)
  from distinct_card [OF this] assms(2) show ?thesis by (simp add: image_image)
qed

lemma recast_keeps_count: "voter a \<in> set (keys_of (votes p)) \<Longrightarrow> length (votes (cast a p)) = length (votes p)"
  by (metis votes_cast length_map update_keys)

end

section \<open>Quorum rules\<close>

locale quorum_rule =
  fixes required :: "int \<Rightarrow> int \<Rightarrow> int"
  assumes more_than_half: "0 \<le> n \<Longrightarrow> 5000 < bps \<Longrightarrow> n < 2 * required n bps"
    and at_least_one: "1 \<le> required n bps"
begin

lemma quorums_intersect:
  assumes "finite V" "int (card V) \<le> n" "5000 < bps" "A \<subseteq> V" "B \<subseteq> V"
    and "required n bps \<le> int (card A)" "required n bps \<le> int (card B)"
  shows "\<exists>v \<in> V. v \<in> A \<and> v \<in> B"
proof (rule ccontr)
  assume "\<not> ?thesis"
  with assms(4,5) have "A \<inter> B = {}" by blast
  moreover have "finite A" "finite B" using assms(1,4,5) by (auto intro: finite_subset)
  ultimately have "card A + card B = card (A \<union> B)" by (simp add: card_Un_disjoint)
  also have "\<dots> \<le> card V" using assms(1,4,5) by (intro card_mono) auto
  finally show False using assms(2,6,7) more_than_half [of n bps] assms(3) by linarith
qed

lemma quorum_nonempty: "required n bps \<le> int (card A) \<Longrightarrow> A \<noteq> {}"
  using at_least_one [of n bps] by auto

end

interpretation ceiling: quorum_rule ceil_quorum
proof
  show "n < 2 * ceil_quorum n bps" if "0 \<le> n" "5000 < bps" for n bps
  proof (cases "n = 0")
    case True
    then show ?thesis using ceil_quorum_pos [of 0 bps] by simp
  next
    case False
    with that have n: "0 < n" by simp
    have "n * 5000 < n * bps" using that n by (intro mult_strict_left_mono) auto
    with ceil_quorum_bounds(1) [OF n, of bps] that show ?thesis by linarith
  qed
qed (rule ceil_quorum_pos)

section \<open>Properties\<close>

text \<open>Property: for a positive validator count and a threshold between 1 and 10000 basis points, the quorum
  is the least number of validators that is at least that share of them, and never more than all.\<close>

theorem quorum_is_least_share:
  assumes "0 < n" "0 < bps" "bps \<le> 10000"
  shows "1 \<le> ceil_quorum n bps \<and> ceil_quorum n bps \<le> n \<and>
    (\<forall>q. n * bps \<le> 10000 * q \<longleftrightarrow> ceil_quorum n bps \<le> q)"
proof -
  have "n * bps \<le> 10000 * q \<longleftrightarrow> ceil_quorum n bps \<le> q" for q
  proof
    show "ceil_quorum n bps \<le> q" if "n * bps \<le> 10000 * q"
      using less_le_trans [OF ceil_quorum_bounds(2) [OF assms(1,2)] that] by simp
    show "n * bps \<le> 10000 * q" if "ceil_quorum n bps \<le> q"
      using that ceil_quorum_bounds(1) [OF assms(1,2)] by linarith
  qed
  then show ?thesis using ceil_quorum_pos ceil_quorum_bounds(3) [OF assms(1,2,3)] by blast
qed

theorem quorum_is_least_share_witness:
  "1 \<le> ceil_quorum 6 6667 \<and> ceil_quorum 6 6667 \<le> 6 \<and> (\<forall>q. 6 * 6667 \<le> 10000 * q \<longleftrightarrow> ceil_quorum 6 6667 \<le> q)"
  by (rule quorum_is_least_share) simp_all

text \<open>Property: the trusted set starts from the node itself and is the union of the node, the pinned and the
  discovered addresses, with every address once up to letter case.\<close>

theorem trusted_union_is_union:
  "distinct (map lower (trusted_union self override discovered)) \<and>
   self \<in> set (trusted_union self override discovered) \<and>
   lower ` set (trusted_union self override discovered) =
     insert (lower self) (lower ` set (case override of None \<Rightarrow> [] | Some vs \<Rightarrow> vs) \<union> lower ` set discovered)"
  by (intro conjI trusted_union_props)

end
