(* ===== verification/Signatures.thy ===== *)
theory Signatures
  imports Py_Prelude
begin

text \<open>
  EIP-712 signatures of plan approvals: \<open>consensus/eip712.py\<close> and \<open>consensus/signatures.py\<close>.

  The third-party functions are the fields of the record \<open>crypto\<close>: \<open>keccak\<close> (\<open>eth_hash\<close>), \<open>abi_encode\<close>
  (\<open>eth_abi.encode\<close>, which raises on a value outside its type), \<open>recover_hash\<close>
  (\<open>Account._recover_hash\<close>, which raises on a malformed signature) and \<open>sign_hash\<close>
  (\<open>Account.unsafe_sign_hash(...).signature\<close>). Byte strings are lists of naturals.
\<close>

section \<open>Parameters\<close>

datatype abi_val = A_bytes32 bytes | A_uint256 int | A_address string | A_bool bool

record crypto =
  keccak :: "bytes \<Rightarrow> bytes"
  abi_encode :: "abi_val list \<Rightarrow> bytes res"
  recover_hash :: "bytes \<Rightarrow> bytes \<Rightarrow> string res"
  sign_hash :: "bytes \<Rightarrow> string \<Rightarrow> bytes"

section \<open>Typed data of \<open>eip712.py\<close>\<close>

definition INTENT_ORDER_TYPEHASH :: "crypto \<Rightarrow> bytes" where
  "INTENT_ORDER_TYPEHASH cr = keccak cr (encode
     (''IntentOrder(bytes32 orderId,address app,bytes4 intentSelector,'' @
      ''bytes32 paramsHash,address submittedBy,uint256 chainId,uint256 deadline,'' @
      ''uint256 nonce,bool perpetual,uint256 maxExecutions,uint256 cooldown)''))"

definition PLAN_APPROVAL_TYPEHASH :: "crypto \<Rightarrow> bytes" where
  "PLAN_APPROVAL_TYPEHASH cr = keccak cr (encode ''PlanApproval(bytes32 orderId,bytes32 planHash,uint256 score)'')"

definition EIP712_DOMAIN_TYPEHASH :: "crypto \<Rightarrow> bytes" where
  "EIP712_DOMAIN_TYPEHASH cr = keccak cr (encode
     (''EIP712Domain(string name,string version,uint256 chainId,'' @ ''address verifyingContract)''))"

definition build_domain_separator :: "crypto \<Rightarrow> int \<Rightarrow> string \<Rightarrow> string \<Rightarrow> string \<Rightarrow> bytes res" where
  "build_domain_separator cr chain_id contract_address name version =
     res_bind (abi_encode cr [A_bytes32 (EIP712_DOMAIN_TYPEHASH cr), A_bytes32 (keccak cr (encode name)),
        A_bytes32 (keccak cr (encode version)), A_uint256 chain_id, A_address contract_address])
     (\<lambda>e. Inr (keccak cr e))"

definition app_domain :: "crypto \<Rightarrow> int \<Rightarrow> string \<Rightarrow> bytes res" where
  "app_domain cr chain_id contract_address = build_domain_separator cr chain_id contract_address ''MinotaurAppIntent'' ''1''"

definition hash_call :: "crypto \<Rightarrow> string \<times> int \<times> bytes \<Rightarrow> bytes res" where
  "hash_call cr c = (case c of (target, val, call_data) \<Rightarrow>
     res_bind (abi_encode cr [A_address target, A_uint256 val, A_bytes32 (keccak cr call_data)]) (\<lambda>e. Inr (keccak cr e)))"

definition hash_plan_eip712 :: "crypto \<Rightarrow> (string \<times> int \<times> bytes) list \<Rightarrow> int \<Rightarrow> int \<Rightarrow> bytes \<Rightarrow> bytes res" where
  "hash_plan_eip712 cr calls deadline nonce metadata =
     res_bind (res_map (hash_call cr) calls) (\<lambda>call_hashes.
     res_bind (abi_encode cr [A_bytes32 (keccak cr (concat call_hashes)), A_uint256 deadline, A_uint256 nonce,
        A_bytes32 (keccak cr metadata)])
     (\<lambda>e. Inr (keccak cr e)))"

definition ljust32 :: "bytes \<Rightarrow> bytes" where
  "ljust32 bs = bs @ replicate (32 - length bs) 0"

record intent_order_args =
  io_order_id :: bytes
  io_app :: string
  io_selector :: bytes
  io_params :: bytes
  io_submitted_by :: string
  io_chain_id :: int
  io_deadline :: int
  io_nonce :: int
  io_perpetual :: bool
  io_max_executions :: int
  io_cooldown :: int

definition hash_order_struct :: "crypto \<Rightarrow> intent_order_args \<Rightarrow> bytes res" where
  "hash_order_struct cr a =
     res_bind (abi_encode cr [A_bytes32 (INTENT_ORDER_TYPEHASH cr), A_bytes32 (io_order_id a), A_address (io_app a),
        A_bytes32 (ljust32 (io_selector a)), A_bytes32 (keccak cr (io_params a)), A_address (io_submitted_by a),
        A_uint256 (io_chain_id a), A_uint256 (io_deadline a), A_uint256 (io_nonce a), A_bool (io_perpetual a),
        A_uint256 (io_max_executions a), A_uint256 (io_cooldown a)])
     (\<lambda>e. Inr (keccak cr e))"

definition to_typed_data_hash :: "crypto \<Rightarrow> bytes \<Rightarrow> bytes \<Rightarrow> bytes" where
  "to_typed_data_hash cr domain_separator struct_hash = keccak cr ([25, 1] @ domain_separator @ struct_hash)"

definition sign_user_order :: "crypto \<Rightarrow> string \<Rightarrow> intent_order_args \<Rightarrow> bytes \<Rightarrow> bytes res" where
  "sign_user_order cr private_key a domain_separator =
     res_bind (hash_order_struct cr a) (\<lambda>h. Inr (sign_hash cr (to_typed_data_hash cr domain_separator h) private_key))"

definition hash_plan_approval_struct :: "crypto \<Rightarrow> bytes \<Rightarrow> bytes \<Rightarrow> int \<Rightarrow> bytes res" where
  "hash_plan_approval_struct cr order_id plan_hash score_bps =
     res_bind (abi_encode cr [A_bytes32 (PLAN_APPROVAL_TYPEHASH cr), A_bytes32 order_id, A_bytes32 plan_hash, A_uint256 score_bps])
     (\<lambda>e. Inr (keccak cr e))"

definition sign_plan_approval_eip712 :: "crypto \<Rightarrow> string \<Rightarrow> bytes \<Rightarrow> bytes \<Rightarrow> int \<Rightarrow> bytes \<Rightarrow> bytes res" where
  "sign_plan_approval_eip712 cr private_key order_id plan_hash score_bps domain_separator =
     res_bind (hash_plan_approval_struct cr order_id plan_hash score_bps)
     (\<lambda>h. Inr (sign_hash cr (to_typed_data_hash cr domain_separator h) private_key))"

definition verify_plan_approval_eip712 ::
  "crypto \<Rightarrow> string \<Rightarrow> bytes \<Rightarrow> bytes \<Rightarrow> bytes \<Rightarrow> int \<Rightarrow> bytes \<Rightarrow> bool res" where
  "verify_plan_approval_eip712 cr address signature order_id plan_hash score_bps domain_separator =
     res_bind (hash_plan_approval_struct cr order_id plan_hash score_bps) (\<lambda>h.
     res_bind (recover_hash cr (to_typed_data_hash cr domain_separator h) signature) (\<lambda>recovered.
     Inr (lower recovered = lower address)))"

section \<open>Approvals of \<open>signatures.py\<close>\<close>

definition str_to_bytes32 :: "crypto \<Rightarrow> string \<Rightarrow> bytes" where
  "str_to_bytes32 cr s =
     (let s_clean = remove_0x s in
      if length s_clean = 64 then (case fromhex s_clean of Some bs \<Rightarrow> bs | None \<Rightarrow> keccak cr (encode s))
      else keccak cr (encode s))"

record interaction =
  ix_target :: string
  ix_value :: string
  ix_call_data :: string

text \<open>The plan's metadata is the text \<open>json.dumps\<close> gives for it; a falsy one is \<open>None\<close>.\<close>

definition plan_call :: "interaction \<Rightarrow> (string \<times> int \<times> bytes) res" where
  "plan_call ix =
     res_bind (if ix_call_data ix \<noteq> ''0x'' then or_raise (ValueError ''fromhex'') (fromhex (remove_0x (ix_call_data ix))) else Inr [])
     (\<lambda>call_data. res_bind (or_raise (ValueError ''int'') (py_int (ix_value ix)))
     (\<lambda>val. Inr (ix_target ix, val, call_data)))"

definition hash_plan :: "crypto \<Rightarrow> interaction list \<Rightarrow> int \<Rightarrow> int \<Rightarrow> string option \<Rightarrow> string res" where
  "hash_plan cr interactions deadline nonce metadata =
     res_bind (res_map plan_call interactions) (\<lambda>calls.
     res_bind (hash_plan_eip712 cr calls deadline nonce (encode (or_empty metadata))) (\<lambda>h.
     Inr (''0x'' @ to_hex h)))"

definition ZERO_CONTRACT :: string where
  "ZERO_CONTRACT = ''0x'' @ replicate 40 CHR ''0''"

definition resolve_domain :: "crypto \<Rightarrow> bytes option \<Rightarrow> int \<Rightarrow> string \<Rightarrow> bytes res" where
  "resolve_domain cr domain_separator chain_id contract_address =
     (case domain_separator of None \<Rightarrow> app_domain cr chain_id contract_address | Some d \<Rightarrow> Inr d)"

definition resolve_bps :: "real \<Rightarrow> int option \<Rightarrow> int" where
  "resolve_bps score score_bps = (case score_bps of None \<Rightarrow> trunc (score * 10000) | Some b \<Rightarrow> b)"

definition sign_plan_approval ::
  "crypto \<Rightarrow> string \<Rightarrow> string \<Rightarrow> string \<Rightarrow> real \<Rightarrow> bytes option \<Rightarrow> int \<Rightarrow> string \<Rightarrow> int option \<Rightarrow> string res" where
  "sign_plan_approval cr private_key order_id plan_hash score domain_separator chain_id contract_address score_bps =
     res_bind (resolve_domain cr domain_separator chain_id contract_address) (\<lambda>domain.
     res_bind (sign_plan_approval_eip712 cr private_key (str_to_bytes32 cr order_id) (str_to_bytes32 cr plan_hash)
        (resolve_bps score score_bps) domain)
     (\<lambda>sig. Inr (to_hex sig)))"

definition verify_plan_approval ::
  "crypto \<Rightarrow> string \<Rightarrow> string \<Rightarrow> string \<Rightarrow> string \<Rightarrow> real \<Rightarrow> bytes option \<Rightarrow> int \<Rightarrow> string \<Rightarrow> int option \<Rightarrow> bool res" where
  "verify_plan_approval cr public_key signature order_id plan_hash score domain_separator chain_id contract_address score_bps =
     res_bind (resolve_domain cr domain_separator chain_id contract_address) (\<lambda>domain.
     res_bind (or_raise (ValueError ''fromhex'') (fromhex (remove_0x signature))) (\<lambda>sig_bytes.
     verify_plan_approval_eip712 cr public_key sig_bytes (str_to_bytes32 cr order_id) (str_to_bytes32 cr plan_hash)
       (resolve_bps score score_bps) domain))"

section \<open>Lemmas\<close>

lemma verify_case_insensitive:
  "lower a = lower b \<Longrightarrow> verify_plan_approval cr a sig oid h sc d c ca bps = verify_plan_approval cr b sig oid h sc d c ca bps"
  by (simp add: verify_plan_approval_def verify_plan_approval_eip712_def)

text \<open>The documented contract of \<open>eth_account\<close>: recovering from a fresh signature gives the signer.\<close>

definition signs_as :: "crypto \<Rightarrow> string \<Rightarrow> string \<Rightarrow> bool" where
  "signs_as cr key addr \<longleftrightarrow> (\<forall>d. is_bytes (sign_hash cr d key) \<and> recover_hash cr d (sign_hash cr d key) = Inr addr)"

lemma sign_verify:
  assumes "signs_as cr key addr" "sign_plan_approval cr key oid h sc d c ca bps = Inr sig"
  shows "verify_plan_approval cr a sig oid h sc d c ca bps = Inr (lower addr = lower a)"
proof -
  obtain dom hs where dom: "resolve_domain cr d c ca = Inr dom"
    and hs: "hash_plan_approval_struct cr (str_to_bytes32 cr oid) (str_to_bytes32 cr h) (resolve_bps sc bps) = Inr hs"
    and sig: "sig = to_hex (sign_hash cr (to_typed_data_hash cr dom hs) key)"
    using assms(2) by (auto simp: sign_plan_approval_def sign_plan_approval_eip712_def res_simps)
  have b: "is_bytes (sign_hash cr (to_typed_data_hash cr dom hs) key)"
    using assms(1) by (auto simp: signs_as_def)
  with assms(1) show ?thesis
    by (simp add: verify_plan_approval_def verify_plan_approval_eip712_def sig hs dom remove_0x_id to_hex_no_x signs_as_def)
qed

section \<open>Properties\<close>

text \<open>Claim C31: an approval signed with a key verifies against the address of that key, whatever the letter
  case, and against no other address.\<close>

theorem signed_approval_verifies:
  assumes "signs_as cr key addr" "sign_plan_approval cr key order_id plan_hash score domain chain_id contract bps = Inr sig"
  shows "verify_plan_approval cr a sig order_id plan_hash score domain chain_id contract bps = Inr (lower a = lower addr)"
  using sign_verify [OF assms, of a] by auto

definition toy_crypto :: crypto where
  "toy_crypto = \<lparr>keccak = (\<lambda>b. b), abi_encode = (\<lambda>vs. Inr (map (\<lambda>v. case v of A_uint256 i \<Rightarrow> nat i | _ \<Rightarrow> 0) vs)),
     recover_hash = (\<lambda>d s. Inr (map char_of s)), sign_hash = (\<lambda>d k. encode k)\<rparr>"

lemma toy_signs: "signs_as toy_crypto key key"
  by (simp add: signs_as_def toy_crypto_def encode_def list_all_iff comp_def)

theorem signed_approval_verifies_witness:
  "verify_plan_approval toy_crypto ''0xaB'' (to_hex (encode ''0xAb'')) ''o'' ''h'' (1/2) None 1 ''0x0'' None = Inr True"
proof -
  have "lower ''0xaB'' = lower ''0xAb''" by code_simp
  moreover have "sign_plan_approval toy_crypto ''0xAb'' ''o'' ''h'' (1/2) None 1 ''0x0'' None = Inr (to_hex (encode ''0xAb''))"
    by (simp add: sign_plan_approval_def sign_plan_approval_eip712_def hash_plan_approval_struct_def toy_crypto_def
        resolve_domain_def app_domain_def build_domain_separator_def)
  ultimately show ?thesis using signed_approval_verifies [OF toy_signs, of "''0xAb''"] by simp
qed

end
