(* ===== verification/Consensus.thy ===== *)
theory Consensus
  imports Quorum Signatures
begin

text \<open>
  Order consensus, \<open>consensus/manager.py\<close>: a leader proposes a plan for an order, signs it, collects the
  approvals of the other validators and returns once a quorum has signed the same plan hash.

  \<open>consensus_manager\<close> has the fields set by the constructor, the dict \<open>_pending\<close> is the state the
  methods thread. \<open>consensus_env\<close> is what a call reads from outside: the third-party cryptography, the
  current \<open>ProtocolConfig\<close>, the answers of \<open>score_threshold_for\<close> and \<open>is_on_chain_validator\<close> (both ask a
  node) and the clock. The coroutine \<open>propose\<close> is split at its \<open>await\<close>: \<open>propose_begin\<close> runs up to the
  wait loop, \<open>propose_poll\<close> is one turn of the loop, \<open>propose_timeout\<close> its end, given the contents of
  the local variable \<open>proposal\<close>. The lock makes the interleavings sequences of these steps; \<open>cm_reach\<close>
  is the set of states they reach.
\<close>

section \<open>Data\<close>

record signed_approval =
  validator_id :: string
  ap_order_id :: string
  ap_plan_hash :: string
  ap_score :: real
  ap_signature :: string
  ap_timestamp :: real

record consensus_result =
  reached :: bool
  cr_approvals :: "signed_approval list"
  cr_quorum :: int
  cr_collected :: int
  combined_score :: real

record pending_proposal =
  pp_order_id :: string
  pp_plan_hash :: string
  pp_score :: real
  pp_quorum :: int
  pp_approvals :: "(string \<times> signed_approval) list"
  pp_created_at :: real
  pp_domain :: "bytes option"
  pp_chain_id :: "int option"
  pp_contract :: "string option"

record consensus_manager =
  cm_validator_id :: string
  cm_private_key :: string
  cm_override :: "string list option"
  cm_timeout :: real
  cm_chain_id :: int
  cm_contract :: string
  cm_domain :: bytes
  cm_threshold_bps :: int

record consensus_env =
  e_crypto :: crypto
  e_config :: protocol_view
  e_threshold :: "string \<Rightarrow> int \<Rightarrow> int \<Rightarrow> int"
  e_registered :: "string \<Rightarrow> int \<Rightarrow> bool"
  e_now :: real

type_synonym pending = "(string \<times> pending_proposal) list"

definition add_approval :: "signed_approval \<Rightarrow> pending_proposal \<Rightarrow> pending_proposal" where
  "add_approval a p = p\<lparr>pp_approvals := AList.update (validator_id a) a (pp_approvals p)\<rparr>"

definition has_quorum :: "pending_proposal \<Rightarrow> bool" where
  "has_quorum p \<longleftrightarrow> int (length (pp_approvals p)) \<ge> pp_quorum p"

definition average_score :: "pending_proposal \<Rightarrow> real" where
  "average_score p = (if pp_approvals p = [] then 0
     else sum_list (map ap_score (vals_of (pp_approvals p))) / real (length (pp_approvals p)))"

section \<open>Operations\<close>

definition cm_validators :: "consensus_manager \<Rightarrow> protocol_view \<Rightarrow> string list" where
  "cm_validators mgr cfg = trusted_union (cm_validator_id mgr) (cm_override mgr) (peers cfg)"

definition is_authorized_signer :: "consensus_manager \<Rightarrow> protocol_view \<Rightarrow> string \<Rightarrow> bool" where
  "is_authorized_signer mgr cfg address =
     (if on_chain_validators cfg \<noteq> [] then any_address (on_chain_validators cfg) address
      else any_address (cm_validators mgr cfg) address)"

definition quorum_required :: "consensus_manager \<Rightarrow> protocol_view \<Rightarrow> int" where
  "quorum_required mgr cfg =
     (let n = on_chain_validator_count cfg;
          n = (if n = 0 then int (length (cm_validators mgr cfg)) else n)
      in ceil_quorum n (quorum_bps cfg))"

definition sign_approval ::
  "consensus_manager \<Rightarrow> consensus_env \<Rightarrow> string \<Rightarrow> string \<Rightarrow> real \<Rightarrow> int option \<Rightarrow> string option \<Rightarrow> signed_approval res" where
  "sign_approval mgr env oid plan_hash score chain contract =
     res_bind (case (chain, or_empty contract) of
         (Some c, ca) \<Rightarrow> (if ca \<noteq> [] then res_bind (app_domain (e_crypto env) c ca)
              (\<lambda>d. Inr (d, e_threshold env ca c (cm_threshold_bps mgr)))
            else Inr (cm_domain mgr, cm_threshold_bps mgr))
       | _ \<Rightarrow> Inr (cm_domain mgr, cm_threshold_bps mgr))
     (\<lambda>(domain, threshold_bps).
       res_bind (sign_plan_approval (e_crypto env) (cm_private_key mgr) oid plan_hash score (Some domain)
          31337 ZERO_CONTRACT (Some threshold_bps))
       (\<lambda>signature. Inr \<lparr>validator_id = cm_validator_id mgr, ap_order_id = oid, ap_plan_hash = plan_hash,
          ap_score = score, ap_signature = signature, ap_timestamp = e_now env\<rparr>))"

definition sorted_approvals :: "pending_proposal \<Rightarrow> signed_approval list res" where
  "sorted_approvals p = sort_by_address validator_id (vals_of (pp_approvals p))"

definition quorum_result :: "pending_proposal \<Rightarrow> signed_approval list \<Rightarrow> consensus_result" where
  "quorum_result p approvals = \<lparr>reached = True, cr_approvals = approvals, cr_quorum = pp_quorum p,
     cr_collected = int (length approvals), combined_score = average_score p\<rparr>"

datatype propose_outcome = Finished consensus_result | Waiting pending_proposal

definition order_domain_of :: "consensus_manager \<Rightarrow> consensus_env \<Rightarrow> int option \<Rightarrow> string option \<Rightarrow> bytes res" where
  "order_domain_of mgr env chain contract = (case chain of None \<Rightarrow> Inr (cm_domain mgr)
     | Some c \<Rightarrow> if or_empty contract \<noteq> [] then app_domain (e_crypto env) c (or_empty contract) else Inr (cm_domain mgr))"

definition new_proposal ::
  "consensus_manager \<Rightarrow> consensus_env \<Rightarrow> string \<Rightarrow> real \<Rightarrow> string \<Rightarrow> int option \<Rightarrow> string option \<Rightarrow> bytes \<Rightarrow> pending_proposal" where
  "new_proposal mgr env oid score plan_hash chain contract order_domain =
     \<lparr>pp_order_id = oid, pp_plan_hash = plan_hash, pp_score = score,
      pp_quorum = quorum_required mgr (e_config env), pp_approvals = [], pp_created_at = e_now env,
      pp_domain = Some order_domain,
      pp_chain_id = Some (case chain of None \<Rightarrow> cm_chain_id mgr | Some c \<Rightarrow> c), pp_contract = contract\<rparr>"

definition propose_begin ::
  "consensus_manager \<Rightarrow> consensus_env \<Rightarrow> string \<Rightarrow> real \<Rightarrow> string \<Rightarrow> int option \<Rightarrow> string option \<Rightarrow> pending \<Rightarrow>
   pending \<times> propose_outcome res" where
  "propose_begin mgr env oid score plan_hash chain contract pend =
     (case sign_approval mgr env oid plan_hash score chain contract of Inl e \<Rightarrow> (pend, Inl e) | Inr approval \<Rightarrow>
      if length (cm_validators mgr (e_config env)) = 1 then
        (pend, Inr (Finished \<lparr>reached = True, cr_approvals = [approval], cr_quorum = 1, cr_collected = 1,
           combined_score = score\<rparr>))
      else case order_domain_of mgr env chain contract of Inl e \<Rightarrow> (pend, Inl e) | Inr order_domain \<Rightarrow>
        let proposal = add_approval approval (new_proposal mgr env oid score plan_hash chain contract order_domain);
            pend' = AList.update oid proposal pend
        in if has_quorum proposal then
             (case sorted_approvals proposal of Inl e \<Rightarrow> (pend', Inl e)
              | Inr approvals \<Rightarrow> (AList.delete oid pend', Inr (Finished (quorum_result proposal approvals))))
           else (pend', Inr (Waiting proposal)))"

definition propose_poll :: "string \<Rightarrow> int \<Rightarrow> pending \<Rightarrow> pending \<times> consensus_result option res" where
  "propose_poll oid quorum pend = (case map_of pend oid of
       None \<Rightarrow> (pend, Inr (Some \<lparr>reached = False, cr_approvals = [], cr_quorum = quorum, cr_collected = 0, combined_score = 0\<rparr>))
     | Some p \<Rightarrow> if has_quorum p
         then (AList.delete oid pend, res_bind (sorted_approvals p) (\<lambda>approvals. Inr (Some (quorum_result p approvals))))
         else (pend, Inr None))"

definition propose_timeout :: "pending_proposal \<Rightarrow> consensus_result" where
  "propose_timeout proposal = \<lparr>reached = False, cr_approvals = vals_of (pp_approvals proposal), cr_quorum = pp_quorum proposal,
     cr_collected = int (length (pp_approvals proposal)), combined_score = average_score proposal\<rparr>"

definition verify_domain :: "consensus_manager \<Rightarrow> pending_proposal \<Rightarrow> bytes" where
  "verify_domain mgr p = (case pp_domain p of None \<Rightarrow> cm_domain mgr | Some d \<Rightarrow> if d = [] then cm_domain mgr else d)"

definition verify_threshold :: "consensus_manager \<Rightarrow> consensus_env \<Rightarrow> pending_proposal \<Rightarrow> int" where
  "verify_threshold mgr env p = (case pp_chain_id p of
       Some c \<Rightarrow> (if c \<noteq> 0 \<and> or_empty (pp_contract p) \<noteq> [] then e_threshold env (or_empty (pp_contract p)) c (cm_threshold_bps mgr)
                 else cm_threshold_bps mgr)
     | None \<Rightarrow> cm_threshold_bps mgr)"

definition registry_ok :: "consensus_env \<Rightarrow> pending_proposal \<Rightarrow> string \<Rightarrow> bool" where
  "registry_ok env p address = (let c = (case pp_chain_id p of None \<Rightarrow> 0 | Some c \<Rightarrow> c) in c = 0 \<or> e_registered env address c)"

definition receive_approval ::
  "consensus_manager \<Rightarrow> consensus_env \<Rightarrow> signed_approval \<Rightarrow> pending \<Rightarrow> pending \<times> consensus_result option res" where
  "receive_approval mgr env a pend = (case map_of pend (ap_order_id a) of None \<Rightarrow> (pend, Inr None) | Some p \<Rightarrow>
     if \<not> is_authorized_signer mgr (e_config env) (validator_id a) then (pend, Inr None)
     else case verify_plan_approval (e_crypto env) (validator_id a) (ap_signature a) (ap_order_id a) (ap_plan_hash a)
            (ap_score a) (Some (verify_domain mgr p)) 31337 ZERO_CONTRACT (Some (verify_threshold mgr env p)) of
         Inl e \<Rightarrow> (pend, Inl e)
       | Inr valid \<Rightarrow>
           if \<not> valid then (pend, Inr None)
           else if \<not> registry_ok env p (validator_id a) then (pend, Inr None)
           else if ap_plan_hash a \<noteq> pp_plan_hash p then (pend, Inr None)
           else let p' = add_approval a p; pend' = AList.update (ap_order_id a) p' pend in
             (pend', Inr (if has_quorum p'
               then Some \<lparr>reached = True, cr_approvals = vals_of (pp_approvals p'), cr_quorum = pp_quorum p',
                      cr_collected = int (length (pp_approvals p')), combined_score = average_score p'\<rparr>
               else None)))"

definition clear_all_pending :: "pending \<Rightarrow> pending \<times> nat" where
  "clear_all_pending pend = (if length pend > 0 then [] else pend, length pend)"

definition prune_expired :: "consensus_manager \<Rightarrow> real option \<Rightarrow> real \<Rightarrow> pending \<Rightarrow> pending \<times> string list" where
  "prune_expired mgr now_arg clock pend =
     (let now = (case now_arg of None \<Rightarrow> clock | Some n \<Rightarrow> if n = 0 then clock else n)
      in prune_dict (\<lambda>p. now - pp_created_at p > cm_timeout mgr) pend)"

section \<open>Reachable states\<close>

text \<open>A fixed network: the registry \<open>vals\<close> and the threshold \<open>bps\<close> do not change; discovery, the node's
  answers and the clock may.\<close>

definition env_ok :: "crypto \<Rightarrow> string list \<Rightarrow> int \<Rightarrow> consensus_env \<Rightarrow> bool" where
  "env_ok cr vals bps env \<longleftrightarrow> e_crypto env = cr \<and> on_chain_validators (e_config env) = vals
     \<and> on_chain_validator_count (e_config env) = int (length vals) \<and> quorum_bps (e_config env) = bps \<and> vals \<noteq> []"

inductive cm_reach :: "consensus_manager \<Rightarrow> crypto \<Rightarrow> string list \<Rightarrow> int \<Rightarrow> pending \<Rightarrow> bool"
  for mgr :: consensus_manager and cr :: crypto and vals :: "string list" and bps :: int where
  init: "cm_reach mgr cr vals bps []"
| propose: "cm_reach mgr cr vals bps pend \<Longrightarrow> env_ok cr vals bps env \<Longrightarrow>
    cm_reach mgr cr vals bps (fst (propose_begin mgr env oid score h chain contract pend))"
| poll: "cm_reach mgr cr vals bps pend \<Longrightarrow> cm_reach mgr cr vals bps (fst (propose_poll oid q pend))"
| receive: "cm_reach mgr cr vals bps pend \<Longrightarrow> env_ok cr vals bps env \<Longrightarrow>
    cm_reach mgr cr vals bps (fst (receive_approval mgr env a pend))"
| clear: "cm_reach mgr cr vals bps pend \<Longrightarrow> cm_reach mgr cr vals bps (fst (clear_all_pending pend))"
| prune: "cm_reach mgr cr vals bps pend \<Longrightarrow> cm_reach mgr cr vals bps (fst (prune_expired mgr n clock pend))"

section \<open>The invariant\<close>

definition own_approval :: "consensus_manager \<Rightarrow> crypto \<Rightarrow> signed_approval \<Rightarrow> bool" where
  "own_approval mgr cr a \<longleftrightarrow> validator_id a = cm_validator_id mgr \<and>
     (\<exists>d bps. sign_plan_approval cr (cm_private_key mgr) (ap_order_id a) (ap_plan_hash a) (ap_score a) (Some d)
        31337 ZERO_CONTRACT (Some bps) = Inr (ap_signature a))"

definition signed_for :: "crypto \<Rightarrow> bytes \<Rightarrow> signed_approval \<Rightarrow> bool" where
  "signed_for cr domain a \<longleftrightarrow> (\<exists>bps. verify_plan_approval cr (validator_id a) (ap_signature a) (ap_order_id a)
     (ap_plan_hash a) (ap_score a) (Some domain) 31337 ZERO_CONTRACT (Some bps) = Inr True)"

definition admissible ::
  "consensus_manager \<Rightarrow> crypto \<Rightarrow> string list \<Rightarrow> pending_proposal \<Rightarrow> signed_approval \<Rightarrow> bool" where
  "admissible mgr cr vals p a \<longleftrightarrow> ap_order_id a = pp_order_id p \<and> ap_plan_hash a = pp_plan_hash p \<and>
     (own_approval mgr cr a \<or> any_address vals (validator_id a) \<and> signed_for cr (verify_domain mgr p) a)"

interpretation order_box: ballot_box validator_id pp_approvals pp_quorum add_approval "admissible mgr cr vals"
  for mgr :: consensus_manager and cr :: crypto and vals :: "string list"
  by unfold_locales (auto simp: add_approval_def admissible_def verify_domain_def fun_eq_iff)

definition pend_ok :: "consensus_manager \<Rightarrow> crypto \<Rightarrow> string list \<Rightarrow> int \<Rightarrow> pending \<Rightarrow> bool" where
  "pend_ok mgr cr vals bps pend \<longleftrightarrow> wf_dict pend \<and> (\<forall>(oid, p) \<in> set pend. pp_order_id p = oid
     \<and> pp_quorum p = ceil_quorum (int (length vals)) bps \<and> order_box.sound mgr cr vals p)"

lemma pend_ok_update:
  "pend_ok mgr cr vals bps pend \<Longrightarrow> pp_order_id p = oid \<Longrightarrow> pp_quorum p = ceil_quorum (int (length vals)) bps \<Longrightarrow>
   order_box.sound mgr cr vals p \<Longrightarrow> pend_ok mgr cr vals bps (AList.update oid p pend)"
  by (auto simp: pend_ok_def distinct_update dest!: in_update)

lemma pend_ok_delete: "pend_ok mgr cr vals bps pend \<Longrightarrow> pend_ok mgr cr vals bps (AList.delete oid pend)"
  by (auto simp: pend_ok_def in_delete alist.inv_del)

lemma pend_ok_get:
  assumes "pend_ok mgr cr vals bps pend" "map_of pend oid = Some p"
  shows "pp_order_id p = oid" "pp_quorum p = ceil_quorum (int (length vals)) bps" "order_box.sound mgr cr vals p"
  using assms by (auto simp: pend_ok_def dest!: map_of_SomeD)

lemma sign_approval_own:
  assumes "sign_approval mgr env oid h score chain contract = Inr a"
  shows "own_approval mgr (e_crypto env) a" "ap_order_id a = oid" "ap_plan_hash a = h"
  using assms by (auto simp: sign_approval_def own_approval_def res_simps) blast+

lemma quorum_required_fixed:
  "env_ok cr vals bps env \<Longrightarrow> quorum_required mgr (e_config env) = ceil_quorum (int (length vals)) bps"
  by (simp add: quorum_required_def env_ok_def Let_def)

text \<open>What \<open>propose_begin\<close> stores is sound; its cases.\<close>

lemma propose_begin_cases:
  assumes "env_ok cr vals bps env"
  obtains (same) "fst (propose_begin mgr env oid score h chain contract pend) = pend"
    | (stored) p where "order_box.sound mgr cr vals p" "pp_order_id p = oid" "pp_plan_hash p = h"
      "pp_quorum p = ceil_quorum (int (length vals)) bps"
      "fst (propose_begin mgr env oid score h chain contract pend) \<in>
         {AList.update oid p pend, AList.delete oid (AList.update oid p pend)}"
proof (cases "sign_approval mgr env oid h score chain contract")
  case (Inr a)
  note s = sign_approval_own [OF Inr]
  have sound: "order_box.sound mgr cr vals (add_approval a (new_proposal mgr env oid score h chain contract d))" for d
    using s assms by (intro order_box.sound_cast order_box.sound_empty) (auto simp: admissible_def env_ok_def new_proposal_def)
  have f: "pp_order_id (add_approval a (new_proposal mgr env oid score h chain contract d)) = oid"
    "pp_plan_hash (add_approval a (new_proposal mgr env oid score h chain contract d)) = h"
    "pp_quorum (add_approval a (new_proposal mgr env oid score h chain contract d)) = ceil_quorum (int (length vals)) bps" for d
    using quorum_required_fixed [OF assms] by (simp_all add: add_approval_def new_proposal_def)
  show ?thesis
  proof (cases "order_domain_of mgr env chain contract")
    case (Inr d)
    with \<open>sign_approval mgr env oid h score chain contract = Inr a\<close> show ?thesis
      using same stored [OF sound f, of d]
      by (cases "length (cm_validators mgr (e_config env)) = 1") (auto simp: propose_begin_def Let_def split: sum.splits if_splits)
  qed (use same Inr in \<open>auto simp: propose_begin_def\<close>)
qed (use same in \<open>simp add: propose_begin_def\<close>)

lemma receive_cases:
  assumes "env_ok cr vals bps env" "pend_ok mgr cr vals bps pend"
  obtains (same) r where "receive_approval mgr env a pend = (pend, r)" "\<forall>x. r \<noteq> Inr (Some x)"
    | (stored) p where "map_of pend (ap_order_id a) = Some p" "admissible mgr cr vals p a"
      "receive_approval mgr env a pend = (AList.update (ap_order_id a) (add_approval a p) pend,
         Inr (if has_quorum (add_approval a p) then Some (quorum_result (add_approval a p) (vals_of (pp_approvals (add_approval a p)))) else None))"
proof (cases "map_of pend (ap_order_id a)")
  case (Some p)
  note p = pend_ok_get [OF assms(2) Some]
  consider e where "verify_plan_approval (e_crypto env) (validator_id a) (ap_signature a) (ap_order_id a) (ap_plan_hash a)
            (ap_score a) (Some (verify_domain mgr p)) 31337 ZERO_CONTRACT (Some (verify_threshold mgr env p)) = Inl e"
    | v where "verify_plan_approval (e_crypto env) (validator_id a) (ap_signature a) (ap_order_id a) (ap_plan_hash a)
            (ap_score a) (Some (verify_domain mgr p)) 31337 ZERO_CONTRACT (Some (verify_threshold mgr env p)) = Inr v"
    by (meson sum.exhaust)
  then show ?thesis
  proof cases
    case (1 e)
    with Some have "receive_approval mgr env a pend \<in> {(pend, Inr None), (pend, Inl e)}"
      by (simp add: receive_approval_def)
    with same show ?thesis by auto
  next
    case (2 v)
    show ?thesis
    proof (cases "v \<and> is_authorized_signer mgr (e_config env) (validator_id a) \<and> registry_ok env p (validator_id a)
        \<and> ap_plan_hash a = pp_plan_hash p")
      case True
      then have "admissible mgr cr vals p a"
        using 2 p(1) assms(1) by (auto simp: admissible_def signed_for_def is_authorized_signer_def env_ok_def)
      with True Some 2 stored show ?thesis by (simp add: receive_approval_def Let_def quorum_result_def)
    next
      case False
      with Some 2 have "receive_approval mgr env a pend = (pend, Inr None)" by (auto simp: receive_approval_def)
      with same show ?thesis by auto
    qed
  qed
qed (use same in \<open>simp add: receive_approval_def\<close>)

lemma pend_ok_fold_delete: "pend_ok mgr cr vals bps pend \<Longrightarrow> pend_ok mgr cr vals bps (fold AList.delete ks pend)"
  by (induction ks arbitrary: pend) (simp_all add: pend_ok_delete)

lemma reach_ok: "cm_reach mgr cr vals bps pend \<Longrightarrow> pend_ok mgr cr vals bps pend"
proof (induction rule: cm_reach.induct)
  case init
  show ?case by (simp add: pend_ok_def)
next
  case (propose pend env oid score h chain contract)
  show ?case
  proof (rule propose_begin_cases [OF propose(2), of mgr oid score h chain contract pend])
    fix p
    assume p: "order_box.sound mgr cr vals p" "pp_order_id p = oid" "pp_quorum p = ceil_quorum (int (length vals)) bps"
      and st: "fst (propose_begin mgr env oid score h chain contract pend) \<in>
         {AList.update oid p pend, AList.delete oid (AList.update oid p pend)}"
    from pend_ok_update [OF propose.IH p(2,3,1)] st show ?thesis using pend_ok_delete by auto
  qed (use propose.IH in simp)
next
  case (poll pend oid q)
  then show ?case by (auto simp: propose_poll_def pend_ok_delete split: option.split)
next
  case (receive pend env a)
  show ?case
  proof (rule receive_cases [OF receive(2) receive.IH, of a])
    fix p
    assume p: "map_of pend (ap_order_id a) = Some p" "admissible mgr cr vals p a"
      and st: "receive_approval mgr env a pend = (AList.update (ap_order_id a) (add_approval a p) pend,
         Inr (if has_quorum (add_approval a p) then Some (quorum_result (add_approval a p) (vals_of (pp_approvals (add_approval a p)))) else None))"
    note g = pend_ok_get [OF receive.IH p(1)]
    have "pend_ok mgr cr vals bps (AList.update (ap_order_id a) (add_approval a p) pend)"
      using g order_box.sound_cast [OF g(3) p(2)] by (intro pend_ok_update [OF receive.IH]) (auto simp: add_approval_def)
    then show ?thesis by (simp add: st)
  qed (use receive.IH in auto)
next
  case (clear pend)
  then show ?case by (auto simp: clear_all_pending_def pend_ok_def)
next
  case (prune pend n clock)
  then show ?case by (simp add: prune_expired_def prune_dict_def Let_def pend_ok_fold_delete)
qed

section \<open>Certificates\<close>






section \<open>A small network\<close>

definition sample_mgr :: "string \<Rightarrow> consensus_manager" where
  "sample_mgr v = \<lparr>cm_validator_id = v, cm_private_key = v, cm_override = None, cm_timeout = 30,
     cm_chain_id = 0, cm_contract = ZERO_CONTRACT, cm_domain = [1], cm_threshold_bps = 5000\<rparr>"

definition sample_env :: "string list \<Rightarrow> string list \<Rightarrow> consensus_env" where
  "sample_env vals discovered = \<lparr>e_crypto = toy_crypto,
     e_config = \<lparr>quorum_bps = 6000, on_chain_validator_count = int (length vals), on_chain_validators = vals, peers = discovered\<rparr>,
     e_threshold = (\<lambda>_ _ b. b), e_registered = (\<lambda>_ _. True), e_now = 0\<rparr>"

definition sample_approval :: "string \<Rightarrow> string \<Rightarrow> signed_approval" where
  "sample_approval v h = \<lparr>validator_id = v, ap_order_id = ''o'', ap_plan_hash = h, ap_score = 1,
     ap_signature = to_hex (encode v), ap_timestamp = 0\<rparr>"

definition sample_proposed :: "string \<Rightarrow> string \<Rightarrow> string list \<Rightarrow> pending" where
  "sample_proposed v h vals = fst (propose_begin (sample_mgr v) (sample_env vals vals) ''o'' 1 h None None [])"

definition sample_received :: "string \<Rightarrow> string list \<Rightarrow> signed_approval \<Rightarrow> pending \<Rightarrow> pending" where
  "sample_received v vals a pend = fst (receive_approval (sample_mgr v) (sample_env vals vals) a pend)"

definition sample_vals :: "string list" where
  "sample_vals = [''0xa'', ''0xb'', ''0xc'']"

lemma sample_env_ok: "vals \<noteq> [] \<Longrightarrow> env_ok toy_crypto vals 6000 (sample_env vals ds)"
  by (simp add: env_ok_def sample_env_def)

lemma sample_reach:
  assumes "vals \<noteq> []"
  shows "cm_reach (sample_mgr v) toy_crypto vals 6000 (sample_proposed v h vals)"
    and "cm_reach (sample_mgr v) toy_crypto vals 6000 (sample_received v vals a (sample_proposed v h vals))"
  unfolding sample_proposed_def sample_received_def
  by (intro cm_reach.intros sample_env_ok assms)+

section \<open>Properties\<close>







text \<open>Property: approvals are counted per id as it is spelled, while authorisation and signature check ignore
  the case of letters: in a network of five validators with a quorum of three, the leader and one other
  validator, who answers under two spellings of its address, are reported as a quorum.\<close>

theorem spelling_variants_reach_quorum:
  "case snd (receive_approval (sample_mgr ''0xa'') (sample_env [''0xa'', ''0xb'', ''0xc'', ''0xd'', ''0xe''] [])
      (sample_approval ''0xB'' ''h'')
      (sample_received ''0xa'' [''0xa'', ''0xb'', ''0xc'', ''0xd'', ''0xe''] (sample_approval ''0xb'' ''h'')
        (sample_proposed ''0xa'' ''h'' [''0xa'', ''0xb'', ''0xc'', ''0xd'', ''0xe'']))) of
     Inr (Some r) \<Rightarrow> reached r \<and> cr_quorum r = 3 \<and> card (lower ` validator_id ` set (cr_approvals r)) = 2
   | _ \<Rightarrow> False"
  by code_simp

text \<open>Property: a leader that knows no peer takes the single-validator path: it reports a quorum of one,
  while the registry has three validators and the required quorum is two.\<close>

theorem lone_leader_skips_quorum:
  "quorum_required (sample_mgr ''0xa'') (e_config (sample_env sample_vals [])) = 2 \<and>
   (case snd (propose_begin (sample_mgr ''0xa'') (sample_env sample_vals []) ''o'' 1 ''h'' None None []) of
      Inr (Finished r) \<Rightarrow> reached r \<and> cr_quorum r = 1 \<and> length (cr_approvals r) = 1
    | _ \<Rightarrow> False)"
  by code_simp

text \<open>Property: the approval that a registered follower signs for the proposed plan, on the same chain and
  contract and with the same score threshold, is accepted by the leader: it is stored under the follower's
  id, and the quorum is reported as soon as the count allows it.\<close>

theorem follower_approval_accepted:
  assumes "map_of pend oid = Some p" "pp_chain_id p = Some c" "pp_contract p = Some ca" "pp_domain p = Some d"
    and "app_domain (e_crypto env) c ca = Inr d" "d \<noteq> []" "c \<noteq> 0" "ca \<noteq> []"
    and "sign_approval follower env' oid (pp_plan_hash p) score (Some c) (Some ca) = Inr a"
    and "e_crypto env' = e_crypto env" "signs_as (e_crypto env) (cm_private_key follower) (cm_validator_id follower)"
    and "e_threshold env' ca c (cm_threshold_bps follower) = e_threshold env ca c (cm_threshold_bps mgr)"
    and "is_authorized_signer mgr (e_config env) (cm_validator_id follower)" "e_registered env (cm_validator_id follower) c"
  shows "receive_approval mgr env a pend = (AList.update oid (add_approval a p) pend,
    Inr (if has_quorum (add_approval a p) then Some (quorum_result (add_approval a p) (vals_of (pp_approvals (add_approval a p)))) else None))"
proof -
  obtain sig where a: "a = \<lparr>validator_id = cm_validator_id follower, ap_order_id = oid, ap_plan_hash = pp_plan_hash p,
        ap_score = score, ap_signature = sig, ap_timestamp = e_now env'\<rparr>"
    and sig: "sign_plan_approval (e_crypto env) (cm_private_key follower) oid (pp_plan_hash p) score (Some d) 31337
       ZERO_CONTRACT (Some (e_threshold env ca c (cm_threshold_bps mgr))) = Inr sig"
    using assms(5,8,9,10,12) by (auto simp: sign_approval_def res_simps)
  have "verify_domain mgr p = d" "verify_threshold mgr env p = e_threshold env ca c (cm_threshold_bps mgr)"
    "registry_ok env p (cm_validator_id follower)"
    using assms by (simp_all add: verify_domain_def verify_threshold_def registry_ok_def)
  with sign_verify [OF assms(11) sig, of "cm_validator_id follower"] assms(1,13) show ?thesis
    by (simp add: receive_approval_def a Let_def quorum_result_def)
qed

theorem follower_approval_accepted_witness:
  "\<exists>a. sign_approval (sample_mgr ''0xb'') (sample_env sample_vals []) ''o'' ''h'' 1 (Some 1) (Some ''0xf'') = Inr a \<and>
     fst (receive_approval (sample_mgr ''0xa'') (sample_env sample_vals []) a
        [(''o'', new_proposal (sample_mgr ''0xa'') (sample_env sample_vals []) ''o'' 1 ''h'' (Some 1) (Some ''0xf'') [0, 0, 0, 1, 0])])
       = [(''o'', add_approval a
            (new_proposal (sample_mgr ''0xa'') (sample_env sample_vals []) ''o'' 1 ''h'' (Some 1) (Some ''0xf'') [0, 0, 0, 1, 0]))]"
    (is "\<exists>a. ?sign a \<and> fst (receive_approval ?l ?e a [(_, ?p)]) = _")
proof -
  have d: "app_domain toy_crypto 1 ''0xf'' = Inr [0, 0, 0, 1, 0]" by code_simp
  obtain a where a: "?sign a"
    by (simp add: sign_approval_def sample_mgr_def sample_env_def d sign_plan_approval_def sign_plan_approval_eip712_def
        hash_plan_approval_struct_def toy_crypto_def resolve_domain_def) (use d in \<open>simp add: toy_crypto_def\<close>)
  have auth: "is_authorized_signer ?l (e_config ?e) (cm_validator_id (sample_mgr ''0xb''))" by code_simp
  have "receive_approval ?l ?e a [(''o'', ?p)] = (AList.update ''o'' (add_approval a ?p) [(''o'', ?p)],
    Inr (if has_quorum (add_approval a ?p) then Some (quorum_result (add_approval a ?p) (vals_of (pp_approvals (add_approval a ?p)))) else None))"
    by (rule follower_approval_accepted [where env' = ?e and follower = "sample_mgr ''0xb''" and c = 1 and ca = "''0xf''"
          and d = "[0, 0, 0, 1, 0]" and score = 1])
      (use a d auth toy_signs in \<open>simp_all add: new_proposal_def sample_env_def sample_mgr_def\<close>)
  then show ?thesis using a by auto
qed

text \<open>Property: \<open>prune_expired\<close> drops exactly the proposals older than the timeout, reports their order ids
  in the order of the dict, and keeps every other proposal.\<close>

theorem prune_expired_exact:
  assumes "cm_reach mgr cr vals bps pend" "prune_expired mgr (Some now) clock pend = (pend', expired)" "now \<noteq> 0"
  shows "map_of pend' oid = (case map_of pend oid of None \<Rightarrow> None
      | Some p \<Rightarrow> if now - pp_created_at p > cm_timeout mgr then None else Some p) \<and>
    expired = keys_of (filter (\<lambda>(_, p). now - pp_created_at p > cm_timeout mgr) pend)"
proof -
  have wf: "wf_dict pend" using reach_ok [OF assms(1)] by (simp add: pend_ok_def)
  have "(pend', expired) = prune_dict (\<lambda>p. now - pp_created_at p > cm_timeout mgr) pend"
    using assms(2,3) by (simp add: prune_expired_def)
  with map_of_filter_snd [OF wf] show ?thesis
    by (auto simp: prune_dict_eq [OF wf] split: option.split)
qed

theorem prune_expired_exact_witness:
  "snd (prune_expired (sample_mgr ''0xa'') (Some 31) 0 (sample_proposed ''0xa'' ''h'' sample_vals)) = [''o'']"
proof -
  have "map (\<lambda>(oid, p). (oid, pp_created_at p)) (sample_proposed ''0xa'' ''h'' sample_vals) = [(''o'', 0)]" by code_simp
  then obtain p where "sample_proposed ''0xa'' ''h'' sample_vals = [(''o'', p)]" "pp_created_at p = 0" by auto
  then show ?thesis
    using prune_expired_exact [OF sample_reach(1) [of sample_vals "''0xa''" "''h''"], of 31 0]
    by (simp add: sample_vals_def sample_mgr_def prod_eq_iff)
qed

end
