(* ===== verification/Json.thy ===== *)
theory Json
  imports Py_Prelude
begin

text \<open>
  JSON documents as the dataclasses of the repository write them (\<open>to_dict\<close>) and read them back
  (\<open>from_dict\<close>). The readers are the coercions the sources use: \<open>data.get(k)\<close>, \<open>int(data.get(k) or 0)\<close>,
  \<open>float(data.get(k) or d)\<close>, \<open>str(data.get(k) or "")\<close> and \<open>bool(data.get(k))\<close>. A value whose type is
  outside the annotation of the field it is stored in is reported as \<open>Unmodelled\<close>.
\<close>

datatype json =
    JNull
  | JBool bool
  | JInt int
  | JFloat real
  | JStr string
  | JList "json list"
  | JObj "(string \<times> json) list"

fun jfalsy :: "json \<Rightarrow> bool" where
  "jfalsy JNull = True"
| "jfalsy (JBool b) = (\<not> b)"
| "jfalsy (JInt i) = (i = 0)"
| "jfalsy (JFloat x) = (x = 0)"
| "jfalsy (JStr s) = (s = [])"
| "jfalsy (JList xs) = (xs = [])"
| "jfalsy (JObj kvs) = (kvs = [])"

definition jget :: "(string \<times> json) list \<Rightarrow> string \<Rightarrow> json" where
  "jget d k = (case map_of d k of None \<Rightarrow> JNull | Some v \<Rightarrow> v)"

fun py_int_of :: "json \<Rightarrow> int res" where
  "py_int_of (JBool b) = Inr (if b then 1 else 0)"
| "py_int_of (JInt i) = Inr i"
| "py_int_of (JFloat x) = Inr (trunc x)"
| "py_int_of (JStr s) = or_raise (ValueError ''int'') (py_int s)"
| "py_int_of _ = Inl TypeError"

definition int_or_0 :: "json \<Rightarrow> int res" where
  "int_or_0 v = (if jfalsy v then Inr 0 else py_int_of v)"

definition float_or :: "real \<Rightarrow> json \<Rightarrow> real res" where
  "float_or d v = (if jfalsy v then Inr d else
     case v of JBool b \<Rightarrow> Inr 1 | JInt i \<Rightarrow> Inr (of_int i) | JFloat x \<Rightarrow> Inr x | JStr s \<Rightarrow> Inl Unmodelled | _ \<Rightarrow> Inl TypeError)"

definition str_or_empty :: "json \<Rightarrow> string res" where
  "str_or_empty v = (if jfalsy v then Inr [] else case v of JStr s \<Rightarrow> Inr s | _ \<Rightarrow> Inl Unmodelled)"

fun opt_str :: "json \<Rightarrow> string option res" where
  "opt_str JNull = Inr None"
| "opt_str (JStr s) = Inr (Some s)"
| "opt_str _ = Inl Unmodelled"

fun opt_int :: "json \<Rightarrow> int option res" where
  "opt_int JNull = Inr None"
| "opt_int (JInt i) = Inr (Some i)"
| "opt_int _ = Inl Unmodelled"

definition of_str :: "string option \<Rightarrow> json" where
  "of_str s = (case s of None \<Rightarrow> JNull | Some t \<Rightarrow> JStr t)"

definition of_int_opt :: "int option \<Rightarrow> json" where
  "of_int_opt i = (case i of None \<Rightarrow> JNull | Some j \<Rightarrow> JInt j)"

named_theorems json_simps \<open>reading back what was written\<close>

lemma opt_str_of_str [json_simps]: "opt_str (of_str s) = Inr s"
  by (cases s) (simp_all add: of_str_def)

lemma opt_int_of_int [json_simps]: "opt_int (of_int_opt i) = Inr i"
  by (cases i) (simp_all add: of_int_opt_def)

lemma int_or_0_JInt [json_simps]: "int_or_0 (JInt i) = Inr i"
  by (simp add: int_or_0_def)

lemma float_or_JFloat [json_simps]: "float_or d (JFloat x) = Inr (if x = 0 then d else x)"
  by (simp add: float_or_def)

lemma str_or_empty_JStr [json_simps]: "str_or_empty (JStr s) = Inr s"
  by (simp add: str_or_empty_def)

lemma jget_Cons [json_simps]: "jget ((k, v) # d) k' = (if k' = k then v else jget d k')"
  by (simp add: jget_def)

lemma jget_Nil [json_simps]: "jget [] k = JNull"
  by (simp add: jget_def)

lemma jget_skip: "k' \<noteq> k \<Longrightarrow> jget ((k, v) # d) k' = jget d k'"
  by (simp add: jget_def)

lemma jget_hit: "jget ((k, v) # d) k = v"
  by (simp add: jget_def)

text \<open>\<open>{k: v for k, v in ...}\<close>: a repeated key keeps its first position and takes the last value.\<close>

definition dict_of :: "('k \<times> 'v) list \<Rightarrow> ('k \<times> 'v) list" where
  "dict_of kvs = foldl (\<lambda>d (k, v). AList.update k v d) [] kvs"

lemma dict_of_wf:
  assumes "wf_dict kvs"
  shows "dict_of kvs = kvs"
proof -
  have "foldl (\<lambda>d (k, v). AList.update k v d) d kvs = d @ kvs" if "wf_dict (d @ kvs)" for d
    using that
  proof (induction kvs arbitrary: d)
    case (Cons p kvs)
    obtain k v where p: "p = (k, v)" by fastforce
    have "AList.update k v d = d @ [(k, v)]"
      using Cons.prems p by (intro update_fresh) auto
    with Cons.IH [of "d @ [(k, v)]"] Cons.prems p show ?case by simp
  qed simp
  from this [of "[]"] assms show ?thesis by (simp add: dict_of_def)
qed

section \<open>Coercions with \<open>str()\<close> and \<open>int()\<close>\<close>

text \<open>
  \<open>str(d.get(k, ""))\<close>, \<open>int(d.get(k, n))\<close>, the iteration over \<open>d.get(k) or []\<close> and the items of
  \<open>d.get(k) or {}\<close>. The texts of floats and of nested containers are not modelled.
\<close>

fun py_str :: "json \<Rightarrow> string res" where
  "py_str JNull = Inr ''None''"
| "py_str (JBool b) = Inr (if b then ''True'' else ''False'')"
| "py_str (JInt i) = Inr (show_int i)"
| "py_str (JStr s) = Inr s"
| "py_str _ = Inl Unmodelled"

definition str_get :: "(string \<times> json) list \<Rightarrow> string \<Rightarrow> string res" where
  "str_get d k = (case map_of d k of None \<Rightarrow> Inr [] | Some v \<Rightarrow> py_str v)"

definition int_get :: "int \<Rightarrow> (string \<times> json) list \<Rightarrow> string \<Rightarrow> int res" where
  "int_get n d k = (case map_of d k of None \<Rightarrow> Inr n | Some v \<Rightarrow> py_int_of v)"

definition opt_str_get :: "(string \<times> json) list \<Rightarrow> string \<Rightarrow> string option res" where
  "opt_str_get d k = (if jget d k = JNull then Inr None else res_bind (py_str (jget d k)) (\<lambda>s. Inr (Some s)))"

definition elems_or_empty :: "json \<Rightarrow> json list res" where
  "elems_or_empty v = (if jfalsy v then Inr [] else case v of
       JList xs \<Rightarrow> Inr xs
     | JStr s \<Rightarrow> Inr (map (\<lambda>c. JStr [c]) s)
     | JObj d \<Rightarrow> Inr (map (JStr \<circ> fst) d)
     | _ \<Rightarrow> Inl TypeError)"

definition items_or_empty :: "json \<Rightarrow> (string \<times> json) list res" where
  "items_or_empty v = (if jfalsy v then Inr [] else case v of JObj d \<Rightarrow> Inr d | _ \<Rightarrow> Inl AttributeError)"

text \<open>\<open>{str(k): f(v) for k, v in (x or {}).items()}\<close>\<close>

definition dict_comp :: "(json \<Rightarrow> 'v res) \<Rightarrow> json \<Rightarrow> (string \<times> 'v) list res" where
  "dict_comp f x = res_bind (items_or_empty x) (\<lambda>kvs.
     res_bind (res_map (\<lambda>(k, v). res_bind (f v) (\<lambda>w. Inr (k, w))) kvs) (\<lambda>ps. Inr (dict_of ps)))"

definition list_comp :: "(json \<Rightarrow> 'v res) \<Rightarrow> json \<Rightarrow> 'v list res" where
  "list_comp f x = res_bind (elems_or_empty x) (res_map f)"

lemma str_get_Cons [json_simps]:
  "str_get ((k, v) # d) k' = (if k' = k then py_str v else str_get d k')"
  by (simp add: str_get_def)

lemma int_get_Cons [json_simps]:
  "int_get n ((k, v) # d) k' = (if k' = k then py_int_of v else int_get n d k')"
  by (simp add: int_get_def)

lemma opt_str_get_of_str: "jget d k = of_str s \<Longrightarrow> opt_str_get d k = Inr s"
  by (cases s) (simp_all add: opt_str_get_def of_str_def)

lemma res_map_map: "(\<And>x. x \<in> set xs \<Longrightarrow> f (g x) = Inr (h x)) \<Longrightarrow> res_map f (map g xs) = Inr (map h xs)"
  by (induction xs) simp_all

lemma list_comp_JList:
  "(\<And>x. x \<in> set xs \<Longrightarrow> f (g x) = Inr (h x)) \<Longrightarrow> list_comp f (JList (map g xs)) = Inr (map h xs)"
  by (auto simp: list_comp_def elems_or_empty_def res_map_map)

lemma dict_comp_JObj:
  assumes "wf_dict d" "\<And>k v. (k, v) \<in> set d \<Longrightarrow> f (g v) = Inr (h v)"
  shows "dict_comp f (JObj (map (\<lambda>(k, v). (k, g v)) d)) = Inr (map (\<lambda>(k, v). (k, h v)) d)"
proof -
  have "res_map (\<lambda>(k, v). res_bind (f v) (\<lambda>w. Inr (k, w))) (map (\<lambda>(k, v). (k, g v)) d)
      = Inr (map (\<lambda>(k, v). (k, h v)) d)"
    using assms(2) by (intro res_map_map) auto
  moreover have "dict_of (map (\<lambda>(k, v). (k, h v)) d) = map (\<lambda>(k, v). (k, h v)) d"
    using assms(1) by (intro dict_of_wf) (simp add: o_def case_prod_unfold)
  ultimately show ?thesis
    by (cases d) (auto simp: dict_comp_def items_or_empty_def dict_of_def)
qed

lemma map_pair_id: "map (\<lambda>(k, v). (k, v)) d = d"
  by (induction d) auto

section \<open>Canonical text\<close>

text \<open>
  \<open>json.dumps(obj, sort_keys=True, separators=(",", ":"))\<close> with the default \<open>ensure_ascii\<close>: the keys
  of every object sorted, printable ASCII characters as they are, the short escapes, and \<open>\u00xx\<close>
  for the rest. The text of a float is the parameter \<open>flt\<close>.
\<close>

definition json_char :: "char \<Rightarrow> string" where
  "json_char c = (let n = of_char c :: nat in
     if n = 34 then [CHR 0x5C, c]
     else if n = 92 then [c, c]
     else if n = 10 then [CHR 0x5C, CHR ''n'']
     else if n = 13 then [CHR 0x5C, CHR ''r'']
     else if n = 9 then [CHR 0x5C, CHR ''t'']
     else if n = 8 then [CHR 0x5C, CHR ''b'']
     else if n = 12 then [CHR 0x5C, CHR ''f'']
     else if 32 \<le> n \<and> n \<le> 126 then [c]
     else [CHR 0x5C, CHR ''u'', CHR ''0'', CHR ''0'', hex_digit (n div 16), hex_digit (n mod 16)])"

definition json_string :: "string \<Rightarrow> string" where
  "json_string s = [CHR 0x22] @ concat (map json_char s) @ [CHR 0x22]"

fun py_join :: "string \<Rightarrow> string list \<Rightarrow> string" where
  "py_join sep [] = []"
| "py_join sep [x] = x"
| "py_join sep (x # y # xs) = x @ sep @ py_join sep (y # xs)"

primrec dumps :: "(real \<Rightarrow> string) \<Rightarrow> json \<Rightarrow> string" where
  "dumps flt JNull = ''null''"
| "dumps flt (JBool b) = (if b then ''true'' else ''false'')"
| "dumps flt (JInt i) = show_int i"
| "dumps flt (JFloat x) = flt x"
| "dumps flt (JStr s) = json_string s"
| "dumps flt (JList xs) = ''['' @ py_join '','' (map (dumps flt) xs) @ '']''"
| "dumps flt (JObj kvs) = ''{'' @ py_join '',''
     (map (\<lambda>(k, t). json_string k @ '':'' @ t) (sort_key fst (map (map_prod id (dumps flt)) kvs))) @ ''}''"

subsection \<open>The text of a string can be read back\<close>

text \<open>Reading one escaped character back.\<close>

definition json_uncons :: "string \<Rightarrow> char \<times> string" where
  "json_uncons s = (if hd s \<noteq> CHR 0x5C then (hd s, tl s) else
     let e = hd (tl s); r = tl (tl s) in
     if e = CHR ''u'' then (char_of (16 * the (hex_val (r ! 2)) + the (hex_val (r ! 3))), drop 4 r)
     else (char_of (if e = CHR ''n'' then 10 else if e = CHR ''r'' then 13 else if e = CHR ''t'' then 9
       else if e = CHR ''b'' then 8 else if e = CHR ''f'' then 12 else of_char e :: nat), r))"

lemma of_char_lt: "(of_char c :: nat) < 256"
  using of_nat_of_char [of c] by (cases c) (auto simp: of_char_def)

lemma char_literals: "char_of (34::nat) = CHR 0x22" "char_of (92::nat) = CHR 0x5C"
    "char_of (10::nat) = CHR 0x0A" "char_of (13::nat) = CHR 0x0D" "char_of (9::nat) = CHR 0x09"
    "char_of (8::nat) = CHR 0x08" "char_of (12::nat) = CHR 0x0C"
  by code_simp+

lemma json_uncons_char: "json_uncons (json_char c @ x) = (c, x)"
proof -
  define n :: nat where "n = of_char c"
  have c: "c = char_of n" by (simp add: n_def)
  have n: "n < 256" using of_char_lt n_def by simp
  have h: "hex_val (hex_digit (n div 16)) = Some (n div 16)" "hex_val (hex_digit (n mod 16)) = Some (n mod 16)"
    using n by (auto intro!: hex_digit_props(1) less_mult_imp_div_less)
  consider "n \<in> {34, 92, 10, 13, 9, 8, 12}" | "n \<notin> {34, 92, 10, 13, 9, 8, 12}" "32 \<le> n \<and> n \<le> 126"
    | "n \<notin> {34, 92, 10, 13, 9, 8, 12}" "\<not> (32 \<le> n \<and> n \<le> 126)" by blast
  then show ?thesis
  proof cases
    case 1
    then have "c \<in> {CHR 0x22, CHR 0x5C, CHR 0x0A, CHR 0x0D, CHR 0x09, CHR 0x08, CHR 0x0C}"
      unfolding c by (simp only: insert_iff empty_iff) (elim disjE; simp add: char_literals)
    then show ?thesis
      by (elim insertE emptyE) (simp_all add: json_char_def json_uncons_def char_literals)
  next
    case 2
    then have "json_char c = [c]" by (simp add: json_char_def n_def [symmetric] Let_def)
    moreover have "c \<noteq> CHR 0x5C" using 2 n by (auto simp: c dest: arg_cong [of _ _ "of_char :: char \<Rightarrow> nat"])
    ultimately show ?thesis by (simp add: json_uncons_def)
  next
    case 3
    then have "json_char c = [CHR 0x5C, CHR ''u'', CHR ''0'', CHR ''0'', hex_digit (n div 16), hex_digit (n mod 16)]"
      by (simp add: json_char_def n_def [symmetric] Let_def)
    then show ?thesis using h by (simp add: json_uncons_def c)
  qed
qed

lemma json_char_prefix_free: "json_char c @ x = json_char d @ y \<Longrightarrow> c = d \<and> x = y"
  by (metis json_uncons_char prod.inject)

lemma json_char_hd: "json_char c \<noteq> [] \<and> hd (json_char c) \<noteq> CHR 0x22"
  by (cases "c = CHR 0x22") (simp_all add: json_char_def Let_def)

lemma json_chars_prefix_free:
  "concat (map json_char s) @ CHR 0x22 # x = concat (map json_char t) @ CHR 0x22 # y
   \<Longrightarrow> s = t \<and> x = y"
proof (induction s arbitrary: t)
  case Nil
  then show ?case
    using json_char_hd by (cases t) (auto, metis hd_append2 list.sel(1))
next
  case (Cons c s)
  show ?case
  proof (cases t)
    case Nil
    then show ?thesis using Cons.prems json_char_hd [of c] by (auto, metis hd_append2 list.sel(1))
  next
    case (Cons d t')
    with Cons.prems json_char_prefix_free [of c _ d] have "c = d"
      "concat (map json_char s) @ CHR 0x22 # x = concat (map json_char t') @ CHR 0x22 # y"
      by auto
    with Cons.IH Cons show ?thesis by auto
  qed
qed

lemma json_string_prefix_free: "json_string s @ x = json_string t @ y \<Longrightarrow> s = t \<and> x = y"
  using json_chars_prefix_free [of s x t y] by (simp add: json_string_def)

end
