(* ===== verification/Round_Types.thy ===== *)
theory Round_Types
  imports Json
begin

text \<open>
  The persisted dataclasses of \<open>harness/round_store.py\<close>: \<open>ChampionSnapshot\<close>, \<open>ChampionApproval\<close>,
  \<open>ChampionCertificate\<close>, \<open>RoundStatus\<close> and \<open>RoundState\<close> with their \<open>to_dict\<close> and \<open>from_dict\<close>, and the epoch
  that is read back from a round id. Every writer is proved to be inverted by its reader.
\<close>

section \<open>Champion snapshot\<close>

record champion_snapshot =
  cs_submission_id :: "string option"
  cs_image_id :: "string option"
  cs_image_digest :: "string option"
  cs_solver_name :: "string option"
  cs_solver_version :: "string option"
  cs_hotkey :: "string option"
  cs_activated_round_id :: "string option"
  cs_activated_epoch :: int
  cs_activated_at :: real
  cs_canonical_main_sha :: "string option"

definition no_champion :: champion_snapshot where
  "no_champion = \<lparr>cs_submission_id = None, cs_image_id = None, cs_image_digest = None, cs_solver_name = None,
     cs_solver_version = None, cs_hotkey = None, cs_activated_round_id = None, cs_activated_epoch = 0,
     cs_activated_at = 0, cs_canonical_main_sha = None\<rparr>"

definition snapshot_to_dict :: "champion_snapshot \<Rightarrow> (string \<times> json) list" where
  "snapshot_to_dict c =
     [(''submission_id'', of_str (cs_submission_id c)), (''image_id'', of_str (cs_image_id c)),
      (''image_digest'', of_str (cs_image_digest c)), (''solver_name'', of_str (cs_solver_name c)),
      (''solver_version'', of_str (cs_solver_version c)), (''hotkey'', of_str (cs_hotkey c)),
      (''activated_round_id'', of_str (cs_activated_round_id c)), (''activated_epoch'', JInt (cs_activated_epoch c)),
      (''activated_at'', JFloat (cs_activated_at c)), (''canonical_main_sha'', of_str (cs_canonical_main_sha c))]"

text \<open>\<open>data = raw or {}\<close>\<close>

fun as_dict :: "json \<Rightarrow> (string \<times> json) list res" where
  "as_dict (JObj d) = Inr d"
| "as_dict v = (if jfalsy v then Inr [] else Inl Unmodelled)"

definition snapshot_from_dict :: "json \<Rightarrow> champion_snapshot res" where
  "snapshot_from_dict raw =
     res_bind (as_dict raw) (\<lambda>d.
     res_bind (opt_str (jget d ''submission_id'')) (\<lambda>sid.
     res_bind (opt_str (jget d ''image_id'')) (\<lambda>img.
     res_bind (opt_str (jget d ''image_digest'')) (\<lambda>dig.
     res_bind (opt_str (jget d ''solver_name'')) (\<lambda>name.
     res_bind (opt_str (jget d ''solver_version'')) (\<lambda>ver.
     res_bind (opt_str (jget d ''hotkey'')) (\<lambda>hk.
     res_bind (opt_str (jget d ''activated_round_id'')) (\<lambda>rid.
     res_bind (int_or_0 (jget d ''activated_epoch'')) (\<lambda>ep.
     res_bind (float_or 0 (jget d ''activated_at'')) (\<lambda>tm.
     res_bind (opt_str (jget d ''canonical_main_sha'')) (\<lambda>sha.
     Inr \<lparr>cs_submission_id = sid, cs_image_id = img, cs_image_digest = dig, cs_solver_name = name,
       cs_solver_version = ver, cs_hotkey = hk, cs_activated_round_id = rid, cs_activated_epoch = ep,
       cs_activated_at = tm, cs_canonical_main_sha = sha\<rparr>)))))))))))"

lemma snapshot_roundtrip: "snapshot_from_dict (JObj (snapshot_to_dict c)) = Inr c"
  by (simp add: snapshot_from_dict_def snapshot_to_dict_def json_simps)

section \<open>Champion approval\<close>

record champion_approval =
  ca_validator_id :: string
  ca_round_id :: string
  ca_committee_hash :: "string option"
  ca_incumbent_image_id :: "string option"
  ca_candidate_submission_id :: "string option"
  ca_candidate_image_id :: "string option"
  ca_benchmark_pack_hash :: "string option"
  ca_shadow_case_log_hash :: "string option"
  ca_effective_epoch :: int
  ca_commit_hash :: "string option"
  ca_nonce :: int
  ca_deadline :: int
  ca_timestamp :: real
  ca_signature :: string

definition approval_to_dict :: "champion_approval \<Rightarrow> (string \<times> json) list" where
  "approval_to_dict a =
     [(''validator_id'', JStr (ca_validator_id a)), (''round_id'', JStr (ca_round_id a)),
      (''committee_hash'', of_str (ca_committee_hash a)), (''incumbent_image_id'', of_str (ca_incumbent_image_id a)),
      (''candidate_submission_id'', of_str (ca_candidate_submission_id a)),
      (''candidate_image_id'', of_str (ca_candidate_image_id a)),
      (''benchmark_pack_hash'', of_str (ca_benchmark_pack_hash a)),
      (''shadow_case_log_hash'', of_str (ca_shadow_case_log_hash a)),
      (''effective_epoch'', JInt (ca_effective_epoch a)), (''commit_hash'', of_str (ca_commit_hash a)),
      (''nonce'', JInt (ca_nonce a)), (''deadline'', JInt (ca_deadline a)),
      (''timestamp'', JFloat (ca_timestamp a)), (''signature'', JStr (ca_signature a))]"

definition approval_from_dict :: "json \<Rightarrow> champion_approval res" where
  "approval_from_dict raw =
     res_bind (as_dict raw) (\<lambda>d.
     res_bind (str_or_empty (jget d ''validator_id'')) (\<lambda>vid.
     res_bind (str_or_empty (jget d ''round_id'')) (\<lambda>rid.
     res_bind (opt_str (jget d ''committee_hash'')) (\<lambda>com.
     res_bind (opt_str (jget d ''incumbent_image_id'')) (\<lambda>inc.
     res_bind (opt_str (jget d ''candidate_submission_id'')) (\<lambda>csub.
     res_bind (opt_str (jget d ''candidate_image_id'')) (\<lambda>cimg.
     res_bind (opt_str (jget d ''benchmark_pack_hash'')) (\<lambda>pack.
     res_bind (opt_str (jget d ''shadow_case_log_hash'')) (\<lambda>shadow.
     res_bind (int_or_0 (jget d ''effective_epoch'')) (\<lambda>ep.
     res_bind (opt_str (jget d ''commit_hash'')) (\<lambda>commit.
     res_bind (int_or_0 (jget d ''nonce'')) (\<lambda>nonce.
     res_bind (int_or_0 (jget d ''deadline'')) (\<lambda>dl.
     res_bind (float_or 0 (jget d ''timestamp'')) (\<lambda>ts.
     res_bind (str_or_empty (jget d ''signature'')) (\<lambda>sig.
     Inr \<lparr>ca_validator_id = vid, ca_round_id = rid, ca_committee_hash = com, ca_incumbent_image_id = inc,
       ca_candidate_submission_id = csub, ca_candidate_image_id = cimg, ca_benchmark_pack_hash = pack,
       ca_shadow_case_log_hash = shadow, ca_effective_epoch = ep, ca_commit_hash = commit, ca_nonce = nonce,
       ca_deadline = dl, ca_timestamp = ts, ca_signature = sig\<rparr>)))))))))))))))"

lemma approval_roundtrip: "approval_from_dict (JObj (approval_to_dict a)) = Inr a"
  by (simp add: approval_from_dict_def approval_to_dict_def json_simps)

section \<open>Champion certificate\<close>

record champion_certificate =
  cc_round_id :: string
  cc_committee_hash :: "string option"
  cc_candidate_submission_id :: "string option"
  cc_candidate_image_id :: "string option"
  cc_incumbent_image_id :: "string option"
  cc_benchmark_pack_hash :: "string option"
  cc_shadow_case_log_hash :: "string option"
  cc_effective_epoch :: int
  cc_quorum_required :: int
  cc_approvals :: "champion_approval list"
  cc_certified_at :: real

definition certificate_to_dict :: "champion_certificate \<Rightarrow> (string \<times> json) list" where
  "certificate_to_dict c =
     [(''round_id'', JStr (cc_round_id c)), (''committee_hash'', of_str (cc_committee_hash c)),
      (''candidate_submission_id'', of_str (cc_candidate_submission_id c)),
      (''candidate_image_id'', of_str (cc_candidate_image_id c)),
      (''incumbent_image_id'', of_str (cc_incumbent_image_id c)),
      (''benchmark_pack_hash'', of_str (cc_benchmark_pack_hash c)),
      (''shadow_case_log_hash'', of_str (cc_shadow_case_log_hash c)),
      (''effective_epoch'', JInt (cc_effective_epoch c)), (''quorum_required'', JInt (cc_quorum_required c)),
      (''approvals'', JList (map (\<lambda>a. JObj (approval_to_dict a)) (cc_approvals c))),
      (''certified_at'', JFloat (cc_certified_at c))]"

fun list_or_empty :: "json \<Rightarrow> json list res" where
  "list_or_empty (JList xs) = Inr xs"
| "list_or_empty v = (if jfalsy v then Inr [] else Inl Unmodelled)"

definition certificate_from_dict :: "json \<Rightarrow> champion_certificate option res" where
  "certificate_from_dict raw = (case raw of JNull \<Rightarrow> Inr None | JObj d \<Rightarrow>
     res_bind (str_or_empty (jget d ''round_id'')) (\<lambda>rid.
     res_bind (opt_str (jget d ''committee_hash'')) (\<lambda>com.
     res_bind (opt_str (jget d ''candidate_submission_id'')) (\<lambda>csub.
     res_bind (opt_str (jget d ''candidate_image_id'')) (\<lambda>cimg.
     res_bind (opt_str (jget d ''incumbent_image_id'')) (\<lambda>inc.
     res_bind (opt_str (jget d ''benchmark_pack_hash'')) (\<lambda>pack.
     res_bind (opt_str (jget d ''shadow_case_log_hash'')) (\<lambda>shadow.
     res_bind (int_or_0 (jget d ''effective_epoch'')) (\<lambda>ep.
     res_bind (int_or_0 (jget d ''quorum_required'')) (\<lambda>q.
     res_bind (list_or_empty (jget d ''approvals'')) (\<lambda>items.
     res_bind (res_map approval_from_dict items) (\<lambda>as.
     res_bind (float_or 0 (jget d ''certified_at'')) (\<lambda>tm.
     Inr (Some \<lparr>cc_round_id = rid, cc_committee_hash = com, cc_candidate_submission_id = csub,
       cc_candidate_image_id = cimg, cc_incumbent_image_id = inc, cc_benchmark_pack_hash = pack,
       cc_shadow_case_log_hash = shadow, cc_effective_epoch = ep, cc_quorum_required = q, cc_approvals = as,
       cc_certified_at = tm\<rparr>)))))))))))))
   | _ \<Rightarrow> Inl Unmodelled)"

lemma res_map_inverse: "(\<And>x. x \<in> set xs \<Longrightarrow> f (g x) = Inr x) \<Longrightarrow> res_map f (map g xs) = Inr xs"
  by (induction xs) auto

lemma certificate_roundtrip: "certificate_from_dict (JObj (certificate_to_dict c)) = Inr (Some c)"
  by (simp add: certificate_from_dict_def certificate_to_dict_def json_simps res_map_inverse approval_roundtrip)

section \<open>Round state\<close>

datatype round_status = R_OPEN | R_CLOSED | R_REPLAYING | R_SHADOWING | R_CERTIFYING | R_CERTIFIED | R_ACTIVATED | R_ABORTED

fun round_status_value :: "round_status \<Rightarrow> string" where
  "round_status_value R_OPEN = ''open''"
| "round_status_value R_CLOSED = ''closed''"
| "round_status_value R_REPLAYING = ''replaying''"
| "round_status_value R_SHADOWING = ''shadowing''"
| "round_status_value R_CERTIFYING = ''certifying''"
| "round_status_value R_CERTIFIED = ''certified''"
| "round_status_value R_ACTIVATED = ''activated''"
| "round_status_value R_ABORTED = ''aborted''"

definition round_status_of :: "string \<Rightarrow> round_status option" where
  "round_status_of s = find (\<lambda>st. round_status_value st = s)
     [R_OPEN, R_CLOSED, R_REPLAYING, R_SHADOWING, R_CERTIFYING, R_CERTIFIED, R_ACTIVATED, R_ABORTED]"

lemma round_status_roundtrip: "round_status_of (round_status_value st) = Some st"
  by (cases st) (simp_all add: round_status_of_def)

record round_state =
  rs_round_id :: string
  rs_status :: round_status
  rs_opened_epoch :: int
  rs_close_epoch :: "int option"
  rs_created_at :: real
  rs_updated_at :: real
  rs_incumbent_submission_id :: "string option"
  rs_incumbent_image_id :: "string option"
  rs_incumbent_hotkey :: "string option"
  rs_benchmark_pack_hash :: "string option"
  rs_committee_block :: "int option"
  rs_committee_hash :: "string option"
  rs_fork_pins :: "(int \<times> int) list option"
  rs_quorum_required :: "int option"
  rs_decision_deadline_epoch :: "int option"
  rs_finalist_submission_id :: "string option"
  rs_finalist_image_id :: "string option"
  rs_shadow_case_log_hash :: "string option"
  rs_certificate :: "champion_certificate option"
  rs_effective_epoch :: "int option"
  rs_benchmark_anchor_epoch :: "int option"
  rs_abort_reason :: "string option"
  rs_self_verified :: bool
  rs_self_verified_submission_id :: "string option"
  rs_benched_slate :: "string list option"
  rs_veto_observe :: json

definition accepting_submissions :: "round_state \<Rightarrow> bool" where
  "accepting_submissions r \<longleftrightarrow> rs_status r = R_OPEN"

definition sync_incumbent :: "real \<Rightarrow> champion_snapshot option \<Rightarrow> round_state \<Rightarrow> round_state" where
  "sync_incumbent now champion r =
     (let snapshot = (case champion of None \<Rightarrow> no_champion | Some c \<Rightarrow> c) in
      r\<lparr>rs_incumbent_submission_id := cs_submission_id snapshot, rs_incumbent_image_id := cs_image_id snapshot,
        rs_incumbent_hotkey := cs_hotkey snapshot, rs_updated_at := now\<rparr>)"

definition pins_to_json :: "(int \<times> int) list option \<Rightarrow> json" where
  "pins_to_json pins = (case pins of None \<Rightarrow> JNull | Some [] \<Rightarrow> JNull
     | Some ps \<Rightarrow> JObj (map (\<lambda>(k, v). (show_int k, JInt v)) ps))"

definition pin_of_json :: "string \<times> json \<Rightarrow> (int \<times> int) res" where
  "pin_of_json kv = (case kv of (k, v) \<Rightarrow>
     res_bind (or_raise (ValueError ''int'') (py_int k)) (\<lambda>c. res_bind (py_int_of v) (\<lambda>b. Inr (c, b))))"

fun pins_from_json :: "json \<Rightarrow> (int \<times> int) list option res" where
  "pins_from_json (JObj (kv # kvs)) = res_bind (res_map pin_of_json (kv # kvs)) (\<lambda>ps. Inr (Some (dict_of ps)))"
| "pins_from_json v = (if jfalsy v then Inr None else Inl Unmodelled)"

definition certificate_json :: "champion_certificate option \<Rightarrow> json" where
  "certificate_json c = (case c of None \<Rightarrow> JNull | Some c \<Rightarrow> JObj (certificate_to_dict c))"

definition slate_to_json :: "string list option \<Rightarrow> json" where
  "slate_to_json s = (case s of None \<Rightarrow> JNull | Some ids \<Rightarrow> JList (map JStr ids))"

fun slate_from_json :: "json \<Rightarrow> string list option res" where
  "slate_from_json (JList xs) = res_bind (res_map (\<lambda>x. case x of JStr s \<Rightarrow> Inr s | _ \<Rightarrow> Inl Unmodelled) xs) (\<lambda>ids. Inr (Some ids))"
| "slate_from_json _ = Inr None"

text \<open>\<open>raw["round_id"]\<close> and \<open>RoundStatus(raw.get("status", "open"))\<close>\<close>

definition round_id_of :: "(string \<times> json) list \<Rightarrow> string res" where
  "round_id_of d = (case map_of d ''round_id'' of None \<Rightarrow> Inl (KeyError ''round_id'')
     | Some (JStr s) \<Rightarrow> Inr s | Some _ \<Rightarrow> Inl Unmodelled)"

definition status_of_json :: "(string \<times> json) list \<Rightarrow> round_status res" where
  "status_of_json d = (case map_of d ''status'' of None \<Rightarrow> Inr R_OPEN
     | Some (JStr s) \<Rightarrow> or_raise (ValueError s) (round_status_of s) | Some _ \<Rightarrow> Inl (ValueError ''status''))"

definition round_to_dict :: "round_state \<Rightarrow> (string \<times> json) list" where
  "round_to_dict r =
     [(''round_id'', JStr (rs_round_id r)),
      (''status'', JStr (round_status_value (rs_status r))),
      (''opened_epoch'', JInt (rs_opened_epoch r)),
      (''close_epoch'', of_int_opt (rs_close_epoch r)),
      (''created_at'', JFloat (rs_created_at r)),
      (''updated_at'', JFloat (rs_updated_at r)),
      (''incumbent_submission_id'', of_str (rs_incumbent_submission_id r)),
      (''incumbent_image_id'', of_str (rs_incumbent_image_id r)),
      (''incumbent_hotkey'', of_str (rs_incumbent_hotkey r)),
      (''benchmark_pack_hash'', of_str (rs_benchmark_pack_hash r)),
      (''committee_block'', of_int_opt (rs_committee_block r)),
      (''committee_hash'', of_str (rs_committee_hash r)),
      (''fork_pins'', pins_to_json (rs_fork_pins r)),
      (''quorum_required'', of_int_opt (rs_quorum_required r)),
      (''decision_deadline_epoch'', of_int_opt (rs_decision_deadline_epoch r)),
      (''finalist_submission_id'', of_str (rs_finalist_submission_id r)),
      (''finalist_image_id'', of_str (rs_finalist_image_id r)),
      (''shadow_case_log_hash'', of_str (rs_shadow_case_log_hash r)),
      (''certificate'', certificate_json (rs_certificate r)),
      (''effective_epoch'', of_int_opt (rs_effective_epoch r)),
      (''benchmark_anchor_epoch'', of_int_opt (rs_benchmark_anchor_epoch r)),
      (''abort_reason'', of_str (rs_abort_reason r)),
      (''self_verified'', JBool (rs_self_verified r)),
      (''self_verified_submission_id'', of_str (rs_self_verified_submission_id r)),
      (''benched_slate'', slate_to_json (rs_benched_slate r)),
      (''veto_observe'', rs_veto_observe r)]"

definition round_from_dict :: "real \<Rightarrow> (string \<times> json) list \<Rightarrow> round_state res" where
  "round_from_dict now d =
     res_bind (round_id_of d) (\<lambda>v0.
     res_bind (status_of_json d) (\<lambda>v1.
     res_bind (int_or_0 (jget d ''opened_epoch'')) (\<lambda>v2.
     res_bind (opt_int (jget d ''close_epoch'')) (\<lambda>v3.
     res_bind (float_or now (jget d ''created_at'')) (\<lambda>v4.
     res_bind (float_or now (jget d ''updated_at'')) (\<lambda>v5.
     res_bind (opt_str (jget d ''incumbent_submission_id'')) (\<lambda>v6.
     res_bind (opt_str (jget d ''incumbent_image_id'')) (\<lambda>v7.
     res_bind (opt_str (jget d ''incumbent_hotkey'')) (\<lambda>v8.
     res_bind (opt_str (jget d ''benchmark_pack_hash'')) (\<lambda>v9.
     res_bind (opt_int (jget d ''committee_block'')) (\<lambda>v10.
     res_bind (opt_str (jget d ''committee_hash'')) (\<lambda>v11.
     res_bind (pins_from_json (jget d ''fork_pins'')) (\<lambda>v12.
     res_bind (opt_int (jget d ''quorum_required'')) (\<lambda>v13.
     res_bind (opt_int (jget d ''decision_deadline_epoch'')) (\<lambda>v14.
     res_bind (opt_str (jget d ''finalist_submission_id'')) (\<lambda>v15.
     res_bind (opt_str (jget d ''finalist_image_id'')) (\<lambda>v16.
     res_bind (opt_str (jget d ''shadow_case_log_hash'')) (\<lambda>v17.
     res_bind (certificate_from_dict (jget d ''certificate'')) (\<lambda>v18.
     res_bind (opt_int (jget d ''effective_epoch'')) (\<lambda>v19.
     res_bind (opt_int (jget d ''benchmark_anchor_epoch'')) (\<lambda>v20.
     res_bind (opt_str (jget d ''abort_reason'')) (\<lambda>v21.
     res_bind (Inr (\<not> jfalsy (jget d ''self_verified''))) (\<lambda>v22.
     res_bind (opt_str (jget d ''self_verified_submission_id'')) (\<lambda>v23.
     res_bind (slate_from_json (jget d ''benched_slate'')) (\<lambda>v24.
     res_bind (Inr (jget d ''veto_observe'')) (\<lambda>v25.
          Inr \<lparr>rs_round_id = v0, rs_status = v1, rs_opened_epoch = v2, rs_close_epoch = v3, rs_created_at =
       v4, rs_updated_at = v5, rs_incumbent_submission_id = v6, rs_incumbent_image_id = v7, rs_incumbent_hotkey =
       v8, rs_benchmark_pack_hash = v9, rs_committee_block = v10, rs_committee_hash = v11, rs_fork_pins = v12,
       rs_quorum_required = v13, rs_decision_deadline_epoch = v14, rs_finalist_submission_id = v15,
       rs_finalist_image_id = v16, rs_shadow_case_log_hash = v17, rs_certificate = v18, rs_effective_epoch = v19,
       rs_benchmark_anchor_epoch = v20, rs_abort_reason = v21, rs_self_verified = v22,
       rs_self_verified_submission_id = v23, rs_benched_slate = v24, rs_veto_observe =
       v25\<rparr>))))))))))))))))))))))))))"

section \<open>Reading back\<close>

lemma pins_roundtrip:
  assumes "pins \<noteq> Some []" "case pins of None \<Rightarrow> True | Some ps \<Rightarrow> wf_dict ps"
  shows "pins_from_json (pins_to_json pins) = Inr pins"
proof (cases pins)
  case (Some ps)
  with assms(1) obtain p ps' where ps: "ps = p # ps'" by (cases ps) auto
  have "res_map pin_of_json (map (\<lambda>(k, v). (show_int k, JInt v)) ps) = Inr ps"
    by (rule res_map_inverse) (auto simp: pin_of_json_def)
  with Some ps assms(2) show ?thesis by (cases p) (simp add: pins_to_json_def dict_of_wf del: res_map.simps)
qed (simp add: pins_to_json_def)

lemma slate_roundtrip: "slate_from_json (slate_to_json s) = Inr s"
  by (cases s) (simp_all add: slate_to_json_def res_map_inverse)

lemma certificate_json_roundtrip: "certificate_from_dict (certificate_json c) = Inr c"
proof (cases c)
  case None
  then show ?thesis by (simp add: certificate_json_def certificate_from_dict_def)
qed (simp add: certificate_json_def certificate_roundtrip)

text \<open>The round states that survive a write and a read: no empty pin dict, and time stamps that are set.\<close>

definition storable :: "round_state \<Rightarrow> bool" where
  "storable r \<longleftrightarrow> rs_fork_pins r \<noteq> Some [] \<and> (case rs_fork_pins r of None \<Rightarrow> True | Some ps \<Rightarrow> wf_dict ps)
     \<and> rs_created_at r \<noteq> 0 \<and> rs_updated_at r \<noteq> 0"

lemmas round_fields = jget_def round_id_of_def status_of_json_def round_to_dict_def

lemma round_roundtrip:
  assumes "storable r"
  shows "round_from_dict now (round_to_dict r) = Inr r"
proof -
  have g: "round_id_of (round_to_dict r) = Inr (rs_round_id r)" "status_of_json (round_to_dict r) = Inr (rs_status r)"
    by (simp_all add: round_fields round_status_roundtrip)
  show ?thesis
    unfolding round_from_dict_def g
    using assms
    by (simp add: round_to_dict_def json_simps pins_roundtrip storable_def slate_roundtrip certificate_json_roundtrip)
qed

section \<open>Round ids\<close>

text \<open>The regular expression \<open>^round-e(\d+)-n\d+$\<close>; its \<open>$\<close> also matches before a final newline.\<close>

definition match_round_id :: "string \<Rightarrow> string option" where
  "match_round_id rid =
     (let r = drop 7 rid; ds = takeWhile is_digit r; r2 = dropWhile is_digit r;
          ns = takeWhile is_digit (drop 2 r2); r3 = dropWhile is_digit (drop 2 r2) in
      if take 7 rid = ''round-e'' \<and> ds \<noteq> [] \<and> take 2 r2 = ''-n'' \<and> ns \<noteq> [] \<and> (r3 = [] \<or> r3 = [CHR 0x0A])
      then Some ds else None)"

definition opened_epoch_from_round_id :: "string option \<Rightarrow> int option" where
  "opened_epoch_from_round_id rid =
     (if or_empty rid = [] then None else case match_round_id (or_empty rid) of None \<Rightarrow> None | Some ds \<Rightarrow> parse_nat ds)"

definition round_id_text :: "int \<Rightarrow> nat \<Rightarrow> string" where
  "round_id_text epoch n = ''round-e'' @ show_int epoch @ ''-n'' @ show_int (int n)"

lemma digits_span:
  assumes "list_all is_digit ds" "rest = [] \<or> \<not> is_digit (hd rest)"
  shows "takeWhile is_digit (ds @ rest) = ds" "dropWhile is_digit (ds @ rest) = rest"
  using assms by (auto simp: list_all_iff takeWhile_append dropWhile_append takeWhile_eq_Nil_iff dropWhile_eq_self)

lemma epoch_of_round_id_text:
  assumes "0 \<le> epoch"
  shows "opened_epoch_from_round_id (Some (round_id_text epoch n)) = Some epoch"
proof -
  let ?d = "show_nat (nat epoch)" and ?n = "show_nat n"
  have t: "round_id_text epoch n = ''round-e'' @ ?d @ ''-n'' @ ?n"
    using assms by (simp add: round_id_text_def show_int_def)
  have d: "takeWhile is_digit (?d @ ''-n'' @ ?n) = ?d" "dropWhile is_digit (?d @ ''-n'' @ ?n) = ''-n'' @ ?n"
    using digits_span [OF show_nat_all_digits, of "''-n'' @ ?n" "nat epoch"] by (auto simp: is_digit_def)
  have n: "takeWhile is_digit ?n = ?n" "dropWhile is_digit ?n = []"
    using digits_span [OF show_nat_all_digits, of "[]" n] by auto
  have "match_round_id (round_id_text epoch n) = Some ?d"
    unfolding match_round_id_def t Let_def using d by (simp add: n del: takeWhile_eq_all_conv)
  then show ?thesis using assms by (simp add: opened_epoch_from_round_id_def) (simp add: t)
qed

lemma show_nat_inj: "show_nat m = show_nat n \<Longrightarrow> m = n"
  by (metis parse_nat_show_nat of_nat_eq_iff option.inject)

lemma round_id_text_inj: "round_id_text e m = round_id_text e n \<Longrightarrow> m = n"
  unfolding round_id_text_def show_int_def by (auto dest: show_nat_inj)

end
