(* ===== verification/Champion_Consensus.thy ===== *)
theory Champion_Consensus
  imports Quorum Signatures Round_Types
begin

text \<open>
  Champion certification, \<open>consensus/champion_manager.py\<close>: validators sign the tuple of a round's finalist,
  the manager collects the approvals and builds a \<open>ChampionCertificate\<close> once a quorum agrees.

  \<open>champion_manager\<close> has the fields fixed by the constructor, \<open>champion_state\<close> the two that change: the
  pinned validators and the pending attempts. \<open>champion_env\<close> is what a call reads from outside. As in order
  consensus the coroutine \<open>propose\<close> is split at its wait loop into \<open>champion_propose\<close>, \<open>champion_poll\<close> and
  \<open>champion_timeout\<close>.
\<close>

section \<open>The signable tuple\<close>

record champion_proposal =
  cp_round_id :: string
  cp_committee_hash :: "string option"
  cp_incumbent_image_id :: "string option"
  cp_candidate_submission_id :: string
  cp_candidate_image_id :: string
  cp_benchmark_pack_hash :: "string option"
  cp_shadow_case_log_hash :: "string option"
  cp_effective_epoch :: int
  cp_commit_hash :: "string option"
  cp_nonce :: int
  cp_deadline :: int

definition CHAMPION_APPROVAL_TYPEHASH :: "crypto \<Rightarrow> bytes" where
  "CHAMPION_APPROVAL_TYPEHASH cr = keccak cr (encode
     (''ChampionApproval('' @ ''bytes32 roundId,'' @ ''bytes32 committeeHash,'' @ ''bytes32 incumbentImageId,'' @
      ''bytes32 candidateSubmissionId,'' @ ''bytes32 candidateImageId,'' @ ''bytes32 benchmarkPackHash,'' @
      ''bytes32 shadowCaseLogHash,'' @ ''uint256 effectiveEpoch,'' @ ''bytes32 commitHash,'' @ ''uint256 nonce,'' @
      ''uint256 deadline'' @ '')''))"

definition value_to_bytes32 :: "crypto \<Rightarrow> string option \<Rightarrow> bytes" where
  "value_to_bytes32 cr v =
     (let raw = strip (or_empty v) in
      if raw = [] then replicate 32 0
      else let raw = (if take 2 raw = ''0x'' then drop 2 raw else raw) in
        if length raw = 64 then (case fromhex raw of Some bs \<Rightarrow> bs | None \<Rightarrow> keccak cr (encode raw))
        else keccak cr (encode raw))"

definition hash_champion_approval_struct :: "crypto \<Rightarrow> champion_proposal \<Rightarrow> bytes res" where
  "hash_champion_approval_struct cr p =
     res_bind (abi_encode cr [A_bytes32 (CHAMPION_APPROVAL_TYPEHASH cr),
        A_bytes32 (value_to_bytes32 cr (Some (cp_round_id p))), A_bytes32 (value_to_bytes32 cr (cp_committee_hash p)),
        A_bytes32 (value_to_bytes32 cr (cp_incumbent_image_id p)),
        A_bytes32 (value_to_bytes32 cr (Some (cp_candidate_submission_id p))),
        A_bytes32 (value_to_bytes32 cr (Some (cp_candidate_image_id p))),
        A_bytes32 (value_to_bytes32 cr (cp_benchmark_pack_hash p)), A_bytes32 (value_to_bytes32 cr (cp_shadow_case_log_hash p)),
        A_uint256 (cp_effective_epoch p), A_bytes32 (value_to_bytes32 cr (cp_commit_hash p)),
        A_uint256 (cp_nonce p), A_uint256 (cp_deadline p)])
     (\<lambda>e. Inr (keccak cr e))"

definition sign_champion_approval :: "crypto \<Rightarrow> string \<Rightarrow> champion_proposal \<Rightarrow> bytes \<Rightarrow> string res" where
  "sign_champion_approval cr private_key p domain_separator =
     res_bind (hash_champion_approval_struct cr p)
     (\<lambda>h. Inr (to_hex (sign_hash cr (to_typed_data_hash cr domain_separator h) private_key)))"

text \<open>Every exception is caught and gives \<open>False\<close>.\<close>

definition verify_champion_approval :: "crypto \<Rightarrow> string \<Rightarrow> string \<Rightarrow> champion_proposal \<Rightarrow> bytes \<Rightarrow> bool" where
  "verify_champion_approval cr address signature p domain_separator =
     (case res_bind (hash_champion_approval_struct cr p) (\<lambda>h.
           res_bind (or_raise (ValueError ''fromhex'') (fromhex (remove_0x signature))) (\<lambda>sig.
           recover_hash cr (to_typed_data_hash cr domain_separator h) sig)) of
        Inl _ \<Rightarrow> False | Inr recovered \<Rightarrow> lower recovered = lower address)"

definition proposal_from_approval :: "champion_approval \<Rightarrow> champion_proposal" where
  "proposal_from_approval a =
     \<lparr>cp_round_id = ca_round_id a, cp_committee_hash = ca_committee_hash a,
      cp_incumbent_image_id = ca_incumbent_image_id a,
      cp_candidate_submission_id = or_empty (ca_candidate_submission_id a),
      cp_candidate_image_id = or_empty (ca_candidate_image_id a),
      cp_benchmark_pack_hash = ca_benchmark_pack_hash a, cp_shadow_case_log_hash = ca_shadow_case_log_hash a,
      cp_effective_epoch = ca_effective_epoch a, cp_commit_hash = ca_commit_hash a,
      cp_nonce = ca_nonce a, cp_deadline = ca_deadline a\<rparr>"

definition approval_matches_proposal :: "champion_approval \<Rightarrow> champion_proposal \<Rightarrow> bool" where
  "approval_matches_proposal a p \<longleftrightarrow>
     ca_round_id a = cp_round_id p
     \<and> none_if_empty (ca_committee_hash a) = none_if_empty (cp_committee_hash p)
     \<and> none_if_empty (ca_incumbent_image_id a) = none_if_empty (cp_incumbent_image_id p)
     \<and> or_empty (ca_candidate_submission_id a) = cp_candidate_submission_id p
     \<and> or_empty (ca_candidate_image_id a) = cp_candidate_image_id p
     \<and> none_if_empty (ca_benchmark_pack_hash a) = none_if_empty (cp_benchmark_pack_hash p)
     \<and> none_if_empty (ca_shadow_case_log_hash a) = none_if_empty (cp_shadow_case_log_hash p)
     \<and> ca_effective_epoch a = cp_effective_epoch p
     \<and> none_if_empty (ca_commit_hash a) = none_if_empty (cp_commit_hash p)
     \<and> ca_nonce a = cp_nonce p
     \<and> ca_deadline a = cp_deadline p"

section \<open>Pending attempts\<close>

record pending_champion =
  pc_proposal :: champion_proposal
  pc_quorum :: int
  pc_approvals :: "(string \<times> champion_approval) list"
  pc_created_at :: real

record champion_result =
  ch_reached :: bool
  ch_approvals :: "champion_approval list"
  ch_quorum :: int
  ch_collected :: int
  ch_certificate :: "champion_certificate option"

definition pc_add_approval :: "champion_approval \<Rightarrow> pending_champion \<Rightarrow> pending_champion" where
  "pc_add_approval a p = p\<lparr>pc_approvals := AList.update (ca_validator_id a) a (pc_approvals p)\<rparr>"

definition pc_has_quorum :: "pending_champion \<Rightarrow> bool" where
  "pc_has_quorum p \<longleftrightarrow> int (length (pc_approvals p)) \<ge> pc_quorum p"

definition pc_sorted_approvals :: "pending_champion \<Rightarrow> champion_approval list res" where
  "pc_sorted_approvals p = sort_by_address ca_validator_id (vals_of (pc_approvals p))"

definition build_certificate :: "real \<Rightarrow> pending_champion \<Rightarrow> champion_certificate res" where
  "build_certificate now p =
     res_bind (pc_sorted_approvals p) (\<lambda>as. let q = pc_proposal p in
     Inr \<lparr>cc_round_id = cp_round_id q, cc_committee_hash = cp_committee_hash q,
       cc_candidate_submission_id = Some (cp_candidate_submission_id q),
       cc_candidate_image_id = Some (cp_candidate_image_id q), cc_incumbent_image_id = cp_incumbent_image_id q,
       cc_benchmark_pack_hash = cp_benchmark_pack_hash q, cc_shadow_case_log_hash = cp_shadow_case_log_hash q,
       cc_effective_epoch = cp_effective_epoch q, cc_quorum_required = pc_quorum p, cc_approvals = as,
       cc_certified_at = now\<rparr>)"

definition champion_reached :: "real \<Rightarrow> pending_champion \<Rightarrow> champion_result res" where
  "champion_reached now p =
     res_bind (build_certificate now p) (\<lambda>c. res_bind (pc_sorted_approvals p) (\<lambda>as.
     Inr \<lparr>ch_reached = True, ch_approvals = as, ch_quorum = pc_quorum p,
       ch_collected = int (length (pc_approvals p)), ch_certificate = Some c\<rparr>))"

section \<open>The manager\<close>

record champion_manager =
  chm_validator_id :: string
  chm_private_key :: string
  chm_quorum_override :: "int option"
  chm_timeout :: real
  chm_domain :: bytes

record champion_state =
  chs_override :: "string list option"
  chs_pending :: "(string \<times> pending_champion) list"

record champion_env =
  ce_crypto :: crypto
  ce_config :: "protocol_view option"
  ce_now :: real

definition champion_init ::
  "crypto \<Rightarrow> string \<Rightarrow> string \<Rightarrow> protocol_view option \<Rightarrow> int option \<Rightarrow> string list option \<Rightarrow> real \<Rightarrow> int \<Rightarrow> string \<Rightarrow>
   bytes option \<Rightarrow> (champion_manager \<times> champion_state) res" where
  "champion_init cr vid key cfg bps vals timeout chain contract domain =
     (if cfg = None \<and> bps = None then Inl (ValueError ''ChampionConsensusManager requires protocol_config or quorum_bps'')
      else res_bind (case domain of
           Some d \<Rightarrow> if d \<noteq> [] then Inr d else build_domain_separator cr chain contract ''MinotaurChampionConsensus'' ''1''
         | None \<Rightarrow> build_domain_separator cr chain contract ''MinotaurChampionConsensus'' ''1'')
       (\<lambda>d. Inr (\<lparr>chm_validator_id = vid, chm_private_key = key, chm_quorum_override = bps, chm_timeout = timeout, chm_domain = d\<rparr>,
                 \<lparr>chs_override = vals, chs_pending = []\<rparr>)))"

definition ch_quorum_bps :: "champion_manager \<Rightarrow> champion_env \<Rightarrow> int res" where
  "ch_quorum_bps mgr env = (case chm_quorum_override mgr of Some b \<Rightarrow> Inr b
     | None \<Rightarrow> (case ce_config env of None \<Rightarrow> Inl AssertionError | Some c \<Rightarrow> Inr (quorum_bps c)))"

definition ch_validators :: "champion_manager \<Rightarrow> champion_env \<Rightarrow> champion_state \<Rightarrow> string list" where
  "ch_validators mgr env st = trusted_union (chm_validator_id mgr) (chs_override st)
     (case ce_config env of None \<Rightarrow> [] | Some c \<Rightarrow> peers c)"

definition ch_authorized :: "champion_manager \<Rightarrow> champion_env \<Rightarrow> champion_state \<Rightarrow> string \<Rightarrow> bool" where
  "ch_authorized mgr env st address = (case ce_config env of
       Some c \<Rightarrow> if on_chain_validators c \<noteq> [] then any_address (on_chain_validators c) address
                else any_address (ch_validators mgr env st) address
     | None \<Rightarrow> any_address (ch_validators mgr env st) address)"

definition ch_quorum_required :: "champion_manager \<Rightarrow> champion_env \<Rightarrow> champion_state \<Rightarrow> int res" where
  "ch_quorum_required mgr env st =
     (let n = (case ce_config env of None \<Rightarrow> 0 | Some c \<Rightarrow> on_chain_validator_count c);
          n = (if n = 0 then int (length (ch_validators mgr env st)) else n)
      in res_bind (ch_quorum_bps mgr env) (\<lambda>bps. Inr (ceil_quorum n bps)))"

definition join_bar :: "string list \<Rightarrow> string" where
  "join_bar xs = (case xs of [] \<Rightarrow> [] | y # ys \<Rightarrow> y @ concat (map (\<lambda>x. CHR ''|'' # x) ys))"

definition committee_hash :: "champion_manager \<Rightarrow> champion_env \<Rightarrow> champion_state \<Rightarrow> string" where
  "committee_hash mgr env st =
     ''0x'' @ to_hex (keccak (ce_crypto env) (encode (join_bar (sort (map lower (filter (\<lambda>v. v \<noteq> []) (ch_validators mgr env st)))))))"

definition ch_clear_all_pending :: "champion_state \<Rightarrow> champion_state \<times> nat" where
  "ch_clear_all_pending st = (st\<lparr>chs_pending := []\<rparr>, length (chs_pending st))"

definition set_validators :: "champion_manager \<Rightarrow> champion_env \<Rightarrow> string list \<Rightarrow> champion_state \<Rightarrow> champion_state" where
  "set_validators mgr env vals st =
     (let cleaned = filter (\<lambda>v. v \<noteq> []) vals;
          cleaned = (if cleaned = [] then [chm_validator_id mgr] else cleaned);
          st1 = (if cleaned \<noteq> ch_validators mgr env st then fst (ch_clear_all_pending st) else st)
      in st1\<lparr>chs_override := Some cleaned\<rparr>)"

definition ch_sign_approval :: "champion_manager \<Rightarrow> champion_env \<Rightarrow> champion_proposal \<Rightarrow> champion_approval res" where
  "ch_sign_approval mgr env p =
     res_bind (sign_champion_approval (ce_crypto env) (chm_private_key mgr) p (chm_domain mgr)) (\<lambda>signature.
     Inr \<lparr>ca_validator_id = chm_validator_id mgr, ca_round_id = cp_round_id p, ca_committee_hash = cp_committee_hash p,
       ca_incumbent_image_id = cp_incumbent_image_id p,
       ca_candidate_submission_id = Some (cp_candidate_submission_id p),
       ca_candidate_image_id = Some (cp_candidate_image_id p),
       ca_benchmark_pack_hash = cp_benchmark_pack_hash p, ca_shadow_case_log_hash = cp_shadow_case_log_hash p,
       ca_effective_epoch = cp_effective_epoch p, ca_commit_hash = cp_commit_hash p, ca_nonce = cp_nonce p,
       ca_deadline = cp_deadline p, ca_timestamp = ce_now env, ca_signature = signature\<rparr>)"

definition verify_approval ::
  "champion_manager \<Rightarrow> champion_env \<Rightarrow> champion_state \<Rightarrow> champion_approval \<Rightarrow> champion_proposal option \<Rightarrow> bool" where
  "verify_approval mgr env st a proposal =
     (if \<not> ch_authorized mgr env st (ca_validator_id a) then False
      else let expected = (case proposal of None \<Rightarrow> proposal_from_approval a | Some p \<Rightarrow> p) in
        if \<not> approval_matches_proposal a expected then False
        else verify_champion_approval (ce_crypto env) (ca_validator_id a) (ca_signature a) expected (chm_domain mgr))"

datatype champion_outcome = Ch_Finished champion_result | Ch_Waiting pending_champion

definition champion_propose ::
  "champion_manager \<Rightarrow> champion_env \<Rightarrow> champion_proposal \<Rightarrow> champion_state \<Rightarrow> champion_state \<times> champion_outcome res" where
  "champion_propose mgr env p st = (case ch_sign_approval mgr env p of Inl e \<Rightarrow> (st, Inl e) | Inr a \<Rightarrow>
     (case ch_quorum_required mgr env st of Inl e \<Rightarrow> (st, Inl e) | Inr q \<Rightarrow>
       let pending = pc_add_approval a \<lparr>pc_proposal = p, pc_quorum = q, pc_approvals = [], pc_created_at = ce_now env\<rparr>;
           st' = st\<lparr>chs_pending := AList.update (cp_round_id p) pending (chs_pending st)\<rparr>
       in if pc_has_quorum pending then
            (case champion_reached (ce_now env) pending of Inl e \<Rightarrow> (st', Inl e)
             | Inr r \<Rightarrow> (st\<lparr>chs_pending := AList.delete (cp_round_id p) (chs_pending st')\<rparr>, Inr (Ch_Finished r)))
          else (st', Inr (Ch_Waiting pending))))"

definition champion_poll :: "string \<Rightarrow> int \<Rightarrow> real \<Rightarrow> champion_state \<Rightarrow> champion_state \<times> champion_result option res" where
  "champion_poll rid quorum now st = (case map_of (chs_pending st) rid of
       None \<Rightarrow> (st, Inr (Some \<lparr>ch_reached = False, ch_approvals = [], ch_quorum = quorum, ch_collected = 0, ch_certificate = None\<rparr>))
     | Some p \<Rightarrow> if pc_has_quorum p
         then (st\<lparr>chs_pending := AList.delete rid (chs_pending st)\<rparr>, res_bind (champion_reached now p) (\<lambda>r. Inr (Some r)))
         else (st, Inr None))"

definition champion_timeout :: "pending_champion \<Rightarrow> champion_result res" where
  "champion_timeout pending = res_bind (pc_sorted_approvals pending) (\<lambda>as.
     Inr \<lparr>ch_reached = False, ch_approvals = as, ch_quorum = pc_quorum pending,
       ch_collected = int (length (pc_approvals pending)), ch_certificate = None\<rparr>)"

definition ch_receive_approval ::
  "champion_manager \<Rightarrow> champion_env \<Rightarrow> champion_approval \<Rightarrow> champion_state \<Rightarrow> champion_state \<times> champion_result option res" where
  "ch_receive_approval mgr env a st = (case map_of (chs_pending st) (ca_round_id a) of None \<Rightarrow> (st, Inr None) | Some p \<Rightarrow>
     if \<not> approval_matches_proposal a (pc_proposal p) then (st, Inr None)
     else if \<not> verify_approval mgr env st a (Some (pc_proposal p)) then (st, Inr None)
     else let p' = pc_add_approval a p;
              st' = st\<lparr>chs_pending := AList.update (ca_round_id a) p' (chs_pending st)\<rparr>
          in if \<not> pc_has_quorum p' then (st', Inr None)
             else (st', res_bind (champion_reached (ce_now env) p') (\<lambda>r. Inr (Some r))))"

definition ch_prune_expired :: "champion_manager \<Rightarrow> real option \<Rightarrow> real \<Rightarrow> champion_state \<Rightarrow> champion_state \<times> string list" where
  "ch_prune_expired mgr now_arg clock st =
     (let now = (case now_arg of None \<Rightarrow> clock | Some n \<Rightarrow> if n = 0 then clock else n);
          (pend, expired) = prune_dict (\<lambda>p. now - pc_created_at p > chm_timeout mgr) (chs_pending st)
      in (st\<lparr>chs_pending := pend\<rparr>, expired))"

section \<open>Signing and verifying\<close>

lemma sign_proposal_roundtrip: "ch_sign_approval mgr env p = Inr a \<Longrightarrow> proposal_from_approval a = p"
  by (auto simp: ch_sign_approval_def proposal_from_approval_def res_simps)

lemma matches_refl: "approval_matches_proposal a (proposal_from_approval a)"
  by (simp add: approval_matches_proposal_def proposal_from_approval_def)

lemma ch_sign_props:
  assumes "ch_sign_approval mgr env p = Inr a"
  shows "ca_validator_id a = chm_validator_id mgr" "approval_matches_proposal a p"
    "sign_champion_approval (ce_crypto env) (chm_private_key mgr) p (chm_domain mgr) = Inr (ca_signature a)"
  using assms by (auto simp: ch_sign_approval_def approval_matches_proposal_def res_simps)

lemma none_if_empty_bytes: "none_if_empty x = none_if_empty y \<Longrightarrow> value_to_bytes32 cr x = value_to_bytes32 cr y"
  by (cases x; cases y) (auto simp: none_if_empty_def value_to_bytes32_def split: if_splits)

text \<open>An approval that matches a proposal is over the same struct hash, even where the empty string and
  \<open>None\<close> are mixed.\<close>

lemma matches_same_hash:
  assumes "approval_matches_proposal a p"
  shows "hash_champion_approval_struct cr (proposal_from_approval a) = hash_champion_approval_struct cr p"
proof -
  have "value_to_bytes32 cr (ca_committee_hash a) = value_to_bytes32 cr (cp_committee_hash p)"
    "value_to_bytes32 cr (ca_incumbent_image_id a) = value_to_bytes32 cr (cp_incumbent_image_id p)"
    "value_to_bytes32 cr (ca_benchmark_pack_hash a) = value_to_bytes32 cr (cp_benchmark_pack_hash p)"
    "value_to_bytes32 cr (ca_shadow_case_log_hash a) = value_to_bytes32 cr (cp_shadow_case_log_hash p)"
    "value_to_bytes32 cr (ca_commit_hash a) = value_to_bytes32 cr (cp_commit_hash p)"
    using assms by (auto simp: approval_matches_proposal_def intro!: none_if_empty_bytes)
  with assms show ?thesis
    by (simp add: hash_champion_approval_struct_def proposal_from_approval_def approval_matches_proposal_def)
qed

lemma champion_sign_verify:
  assumes "signs_as cr key addr" "sign_champion_approval cr key p d = Inr sig"
  shows "verify_champion_approval cr a sig p d \<longleftrightarrow> lower addr = lower a"
proof -
  obtain h where h: "hash_champion_approval_struct cr p = Inr h" "sig = to_hex (sign_hash cr (to_typed_data_hash cr d h) key)"
    using assms(2) by (auto simp: sign_champion_approval_def res_simps)
  have "is_bytes (sign_hash cr (to_typed_data_hash cr d h) key)" using assms(1) by (auto simp: signs_as_def)
  with assms(1) h show ?thesis
    by (simp add: verify_champion_approval_def remove_0x_id to_hex_no_x signs_as_def)
qed

section \<open>Reachable states and their invariant\<close>

definition ch_env_ok :: "champion_manager \<Rightarrow> crypto \<Rightarrow> string list \<Rightarrow> int \<Rightarrow> champion_env \<Rightarrow> bool" where
  "ch_env_ok mgr cr vals bps env \<longleftrightarrow> ce_crypto env = cr \<and> chm_quorum_override mgr = None \<and> vals \<noteq> [] \<and>
     (\<exists>c. ce_config env = Some c \<and> on_chain_validators c = vals \<and> on_chain_validator_count c = int (length vals) \<and> quorum_bps c = bps)"

inductive ch_reach :: "champion_manager \<Rightarrow> crypto \<Rightarrow> string list \<Rightarrow> int \<Rightarrow> champion_state \<Rightarrow> bool"
  for mgr :: champion_manager and cr :: crypto and vals :: "string list" and bps :: int where
  init: "ch_reach mgr cr vals bps \<lparr>chs_override = ov, chs_pending = []\<rparr>"
| propose: "ch_reach mgr cr vals bps st \<Longrightarrow> ch_env_ok mgr cr vals bps env \<Longrightarrow> ch_reach mgr cr vals bps (fst (champion_propose mgr env p st))"
| poll: "ch_reach mgr cr vals bps st \<Longrightarrow> ch_reach mgr cr vals bps (fst (champion_poll rid q now st))"
| receive: "ch_reach mgr cr vals bps st \<Longrightarrow> ch_env_ok mgr cr vals bps env \<Longrightarrow> ch_reach mgr cr vals bps (fst (ch_receive_approval mgr env a st))"
| clear: "ch_reach mgr cr vals bps st \<Longrightarrow> ch_reach mgr cr vals bps (fst (ch_clear_all_pending st))"
| set_vals: "ch_reach mgr cr vals bps st \<Longrightarrow> ch_reach mgr cr vals bps (set_validators mgr env vs st)"
| prune: "ch_reach mgr cr vals bps st \<Longrightarrow> ch_reach mgr cr vals bps (fst (ch_prune_expired mgr n clock st))"

definition ch_admissible :: "champion_manager \<Rightarrow> crypto \<Rightarrow> string list \<Rightarrow> pending_champion \<Rightarrow> champion_approval \<Rightarrow> bool" where
  "ch_admissible mgr cr vals p a \<longleftrightarrow> approval_matches_proposal a (pc_proposal p) \<and>
     (ca_validator_id a = chm_validator_id mgr \<and> sign_champion_approval cr (chm_private_key mgr) (pc_proposal p) (chm_domain mgr) = Inr (ca_signature a)
      \<or> any_address vals (ca_validator_id a) \<and> verify_champion_approval cr (ca_validator_id a) (ca_signature a) (pc_proposal p) (chm_domain mgr))"

interpretation champion_box: ballot_box ca_validator_id pc_approvals pc_quorum pc_add_approval "ch_admissible mgr cr vals"
  for mgr :: champion_manager and cr :: crypto and vals :: "string list"
  by unfold_locales (auto simp: pc_add_approval_def ch_admissible_def fun_eq_iff)

definition ch_pend_ok :: "champion_manager \<Rightarrow> crypto \<Rightarrow> string list \<Rightarrow> int \<Rightarrow> (string \<times> pending_champion) list \<Rightarrow> bool" where
  "ch_pend_ok mgr cr vals bps pend \<longleftrightarrow> wf_dict pend \<and> (\<forall>(rid, p) \<in> set pend. cp_round_id (pc_proposal p) = rid
     \<and> pc_quorum p = ceil_quorum (int (length vals)) bps \<and> champion_box.sound mgr cr vals p)"

lemma ch_pend_update:
  "ch_pend_ok mgr cr vals bps pend \<Longrightarrow> cp_round_id (pc_proposal p) = rid \<Longrightarrow> pc_quorum p = ceil_quorum (int (length vals)) bps \<Longrightarrow>
   champion_box.sound mgr cr vals p \<Longrightarrow> ch_pend_ok mgr cr vals bps (AList.update rid p pend)"
  by (auto simp: ch_pend_ok_def distinct_update dest!: in_update)

lemma ch_pend_delete: "ch_pend_ok mgr cr vals bps pend \<Longrightarrow> ch_pend_ok mgr cr vals bps (AList.delete rid pend)"
  by (auto simp: ch_pend_ok_def in_delete alist.inv_del)

lemma ch_pend_get:
  assumes "ch_pend_ok mgr cr vals bps pend" "map_of pend rid = Some p"
  shows "cp_round_id (pc_proposal p) = rid" "pc_quorum p = ceil_quorum (int (length vals)) bps" "champion_box.sound mgr cr vals p"
  using assms by (auto simp: ch_pend_ok_def dest!: map_of_SomeD)

lemma ch_pend_fold: "ch_pend_ok mgr cr vals bps pend \<Longrightarrow> ch_pend_ok mgr cr vals bps (fold AList.delete ks pend)"
  by (induction ks arbitrary: pend) (simp_all add: ch_pend_delete)

lemma ch_quorum_fixed: "ch_env_ok mgr cr vals bps env \<Longrightarrow> ch_quorum_required mgr env st = Inr (ceil_quorum (int (length vals)) bps)"
  by (auto simp: ch_quorum_required_def ch_env_ok_def ch_quorum_bps_def Let_def)

lemma champion_propose_ok:
  assumes "ch_env_ok mgr cr vals bps env" "ch_pend_ok mgr cr vals bps (chs_pending st)"
  shows "ch_pend_ok mgr cr vals bps (chs_pending (fst (champion_propose mgr env p st)))"
proof (cases "ch_sign_approval mgr env p")
  case (Inr a)
  let ?p = "pc_add_approval a \<lparr>pc_proposal = p, pc_quorum = ceil_quorum (int (length vals)) bps, pc_approvals = [], pc_created_at = ce_now env\<rparr>"
  have "champion_box.sound mgr cr vals ?p"
    using ch_sign_props [OF Inr] assms(1)
    by (intro champion_box.sound_cast champion_box.sound_empty) (auto simp: ch_admissible_def ch_env_ok_def)
  then have "ch_pend_ok mgr cr vals bps (AList.update (cp_round_id p) ?p (chs_pending st))"
    by (intro ch_pend_update assms(2)) (auto simp: pc_add_approval_def)
  then show ?thesis
    using Inr ch_quorum_fixed [OF assms(1)] by (auto simp: champion_propose_def Let_def ch_pend_delete split: sum.split)
qed (use assms(2) in \<open>simp add: champion_propose_def\<close>)

lemma ch_receive_stored:
  assumes "ch_env_ok mgr cr vals bps env" "map_of (chs_pending st) (ca_round_id a) = Some p"
    and "approval_matches_proposal a (pc_proposal p)" "verify_approval mgr env st a (Some (pc_proposal p))"
  shows "ch_admissible mgr cr vals p a"
  using assms by (auto simp: ch_admissible_def verify_approval_def ch_env_ok_def ch_authorized_def split: if_splits)

lemma ch_receive_ok:
  assumes "ch_env_ok mgr cr vals bps env" "ch_pend_ok mgr cr vals bps (chs_pending st)"
  shows "ch_pend_ok mgr cr vals bps (chs_pending (fst (ch_receive_approval mgr env a st)))"
proof (cases "map_of (chs_pending st) (ca_round_id a)")
  case (Some p)
  note g = ch_pend_get [OF assms(2) Some]
  have "ch_pend_ok mgr cr vals bps (AList.update (ca_round_id a) (pc_add_approval a p) (chs_pending st))"
    if "approval_matches_proposal a (pc_proposal p)" "verify_approval mgr env st a (Some (pc_proposal p))"
    using champion_box.sound_cast [OF g(3) ch_receive_stored [OF assms(1) Some that]] g(1,2)
    by (intro ch_pend_update assms(2)) (auto simp: pc_add_approval_def)
  with Some assms(2) show ?thesis by (simp add: ch_receive_approval_def Let_def)
qed (use assms(2) in \<open>simp add: ch_receive_approval_def\<close>)

lemma ch_reach_ok: "ch_reach mgr cr vals bps st \<Longrightarrow> ch_pend_ok mgr cr vals bps (chs_pending st)"
proof (induction rule: ch_reach.induct)
  case (init ov)
  show ?case by (simp add: ch_pend_ok_def)
next
  case (propose st env p)
  then show ?case by (intro champion_propose_ok)
next
  case (poll st rid q now)
  then show ?case by (auto simp: champion_poll_def ch_pend_delete split: option.split)
next
  case (receive st env a)
  then show ?case by (intro ch_receive_ok)
next
  case (clear st)
  show ?case by (simp add: ch_clear_all_pending_def ch_pend_ok_def)
next
  case (set_vals st env vs)
  then show ?case by (auto simp: set_validators_def ch_clear_all_pending_def ch_pend_ok_def Let_def)
next
  case (prune st n clock)
  then show ?case by (simp add: ch_prune_expired_def prune_dict_def Let_def ch_pend_fold)
qed

section \<open>Certificates\<close>

text \<open>The approval is over the tuple the certificate states.\<close>

definition over_certificate :: "champion_certificate \<Rightarrow> champion_approval \<Rightarrow> bool" where
  "over_certificate c a \<longleftrightarrow> ca_round_id a = cc_round_id c
     \<and> none_if_empty (ca_committee_hash a) = none_if_empty (cc_committee_hash c)
     \<and> none_if_empty (ca_incumbent_image_id a) = none_if_empty (cc_incumbent_image_id c)
     \<and> or_empty (ca_candidate_submission_id a) = or_empty (cc_candidate_submission_id c)
     \<and> or_empty (ca_candidate_image_id a) = or_empty (cc_candidate_image_id c)
     \<and> none_if_empty (ca_benchmark_pack_hash a) = none_if_empty (cc_benchmark_pack_hash c)
     \<and> none_if_empty (ca_shadow_case_log_hash a) = none_if_empty (cc_shadow_case_log_hash c)
     \<and> ca_effective_epoch a = cc_effective_epoch c"

definition certified :: "champion_manager \<Rightarrow> crypto \<Rightarrow> string list \<Rightarrow> int \<Rightarrow> string \<Rightarrow> champion_certificate \<Rightarrow> bool" where
  "certified mgr cr vals bps rid c \<longleftrightarrow> cc_round_id c = rid \<and> cc_quorum_required c = ceil_quorum (int (length vals)) bps \<and>
     cc_quorum_required c \<le> int (card (ca_validator_id ` set (cc_approvals c))) \<and>
     (\<forall>a \<in> set (cc_approvals c). over_certificate c a \<and>
        (ca_validator_id a = chm_validator_id mgr
         \<or> any_address vals (ca_validator_id a) \<and>
           verify_champion_approval cr (ca_validator_id a) (ca_signature a) (proposal_from_approval a) (chm_domain mgr)))"

lemma verify_matching:
  "approval_matches_proposal a p \<Longrightarrow> verify_champion_approval cr v sig (proposal_from_approval a) d = verify_champion_approval cr v sig p d"
  by (simp add: verify_champion_approval_def matches_same_hash)

lemma champion_reached_certified:
  assumes "champion_box.sound mgr cr vals p" "pc_quorum p = ceil_quorum (int (length vals)) bps" "pc_has_quorum p"
    and "champion_reached now p = Inr r"
  shows "\<exists>c. ch_certificate r = Some c \<and> ch_approvals r = cc_approvals c \<and> certified mgr cr vals bps (cp_round_id (pc_proposal p)) c"
proof -
  obtain c as where c: "build_certificate now p = Inr c" "pc_sorted_approvals p = Inr as" "ch_certificate r = Some c" "ch_approvals r = as"
    using assms(4) by (auto simp: champion_reached_def res_simps)
  have set: "set as = set (vals_of (pc_approvals p))" using sort_by_address_set c(2) unfolding pc_sorted_approvals_def by blast
  have cc: "cc_approvals c = as" "cc_quorum_required c = pc_quorum p" "cc_round_id c = cp_round_id (pc_proposal p)"
    using c(1,2) by (auto simp: build_certificate_def res_simps Let_def)
  have over: "over_certificate c a" if "approval_matches_proposal a (pc_proposal p)" for a
    using that c(1,2) by (auto simp: build_certificate_def res_simps Let_def over_certificate_def approval_matches_proposal_def)
  have q: "ceil_quorum (int (length vals)) bps \<le> int (card (ca_validator_id ` set as))"
    using champion_box.quorum_voters [OF assms(1)] assms(2,3) unfolding set pc_has_quorum_def by simp
  have adm: "\<forall>a \<in> set as. over_certificate c a \<and> (ca_validator_id a = chm_validator_id mgr \<or> any_address vals (ca_validator_id a) \<and>
      verify_champion_approval cr (ca_validator_id a) (ca_signature a) (proposal_from_approval a) (chm_domain mgr))"
  proof
    fix a
    assume "a \<in> set as"
    then have "ch_admissible mgr cr vals p a" using champion_box.sound_admissible [OF assms(1)] unfolding set by blast
    then have "approval_matches_proposal a (pc_proposal p)"
      "ca_validator_id a = chm_validator_id mgr \<or> any_address vals (ca_validator_id a) \<and>
         verify_champion_approval cr (ca_validator_id a) (ca_signature a) (pc_proposal p) (chm_domain mgr)"
      by (auto simp: ch_admissible_def)
    then show "over_certificate c a \<and> (ca_validator_id a = chm_validator_id mgr \<or> any_address vals (ca_validator_id a) \<and>
      verify_champion_approval cr (ca_validator_id a) (ca_signature a) (proposal_from_approval a) (chm_domain mgr))"
      by (simp only: over verify_matching simp_thms)
  qed
  have "certified mgr cr vals bps (cp_round_id (pc_proposal p)) c"
    unfolding certified_def cc(1,2,3) assms(2) using q adm by simp
  then show ?thesis using c(3,4) cc(1) by auto
qed


lemma ch_poll_certified:
  assumes "ch_pend_ok mgr cr vals bps (chs_pending st)" "champion_poll rid q now st = (st', Inr (Some r))" "ch_reached r"
  shows "\<exists>c. ch_certificate r = Some c \<and> ch_approvals r = cc_approvals c \<and> certified mgr cr vals bps rid c"
proof -
  obtain p where p: "map_of (chs_pending st) rid = Some p" "pc_has_quorum p" "champion_reached now p = Inr r"
    using assms(2,3) by (auto simp: champion_poll_def res_simps split: option.splits if_splits)
  note g = ch_pend_get [OF assms(1) p(1)]
  from champion_reached_certified [OF g(3,2) p(2,3)] g(1) show ?thesis by simp
qed

lemma certified_members:
  assumes "certified m cr vals bps rid c" "any_address vals (chm_validator_id m)" "inj_on lower (ca_validator_id ` set (cc_approvals c))"
  shows "lower ` ca_validator_id ` set (cc_approvals c) \<subseteq> lower ` set vals"
    and "ceil_quorum (int (length vals)) bps \<le> int (card (lower ` ca_validator_id ` set (cc_approvals c)))"
    and "\<forall>a \<in> set (cc_approvals c). over_certificate c a \<and> any_address vals (ca_validator_id a)"
proof -
  show 1: "\<forall>a \<in> set (cc_approvals c). over_certificate c a \<and> any_address vals (ca_validator_id a)"
    using assms(1,2) by (auto simp: certified_def)
  have "lower x \<in> lower ` set vals" if "any_address vals x" for x
    using that unfolding any_address_def by (metis imageI)
  with 1 show "lower ` ca_validator_id ` set (cc_approvals c) \<subseteq> lower ` set vals" by blast
  show "ceil_quorum (int (length vals)) bps \<le> int (card (lower ` ca_validator_id ` set (cc_approvals c)))"
    using assms(1) unfolding card_image [OF assms(3)] by (simp add: certified_def)
qed

section \<open>A small network\<close>

definition sample_ch_mgr :: "string \<Rightarrow> champion_manager" where
  "sample_ch_mgr v = \<lparr>chm_validator_id = v, chm_private_key = v, chm_quorum_override = None, chm_timeout = 30, chm_domain = [1]\<rparr>"

definition sample_ch_env :: "string list \<Rightarrow> champion_env" where
  "sample_ch_env vals = \<lparr>ce_crypto = toy_crypto, ce_config = Some \<lparr>quorum_bps = 6000, on_chain_validator_count = int (length vals),
     on_chain_validators = vals, peers = vals\<rparr>, ce_now = 1\<rparr>"

definition sample_ch_proposal :: "string \<Rightarrow> champion_proposal" where
  "sample_ch_proposal sub = \<lparr>cp_round_id = ''round-e5-n1'', cp_committee_hash = None, cp_incumbent_image_id = Some ''i'',
     cp_candidate_submission_id = sub, cp_candidate_image_id = ''img'', cp_benchmark_pack_hash = Some ''p'',
     cp_shadow_case_log_hash = None, cp_effective_epoch = 7, cp_commit_hash = Some ''c'', cp_nonce = 1, cp_deadline = 9\<rparr>"

definition sample_ch_approval :: "string \<Rightarrow> string \<Rightarrow> champion_approval" where
  "sample_ch_approval v sub = (case ch_sign_approval (sample_ch_mgr v) (sample_ch_env [v]) (sample_ch_proposal sub) of Inr a \<Rightarrow> a)"

definition sample_ch_proposed :: "string \<Rightarrow> string \<Rightarrow> string list \<Rightarrow> champion_state" where
  "sample_ch_proposed v sub vals =
     fst (champion_propose (sample_ch_mgr v) (sample_ch_env vals) (sample_ch_proposal sub) \<lparr>chs_override = None, chs_pending = []\<rparr>)"

definition sample_ch_received :: "string \<Rightarrow> string list \<Rightarrow> champion_approval \<Rightarrow> champion_state \<Rightarrow> champion_state" where
  "sample_ch_received v vals a st = fst (ch_receive_approval (sample_ch_mgr v) (sample_ch_env vals) a st)"

definition sample_registry :: "string list" where
  "sample_registry = [''0xa'', ''0xb'', ''0xc'']"

lemma sample_ch_env_ok: "vals \<noteq> [] \<Longrightarrow> ch_env_ok (sample_ch_mgr v) toy_crypto vals 6000 (sample_ch_env vals)"
  by (simp add: ch_env_ok_def sample_ch_env_def sample_ch_mgr_def)

lemma sample_ch_reach:
  assumes "vals \<noteq> []"
  shows "ch_reach (sample_ch_mgr v) toy_crypto vals 6000 (sample_ch_proposed v sub vals)"
    and "ch_reach (sample_ch_mgr v) toy_crypto vals 6000 (sample_ch_received v vals a (sample_ch_proposed v sub vals))"
  unfolding sample_ch_proposed_def sample_ch_received_def
  by (intro ch_reach.intros sample_ch_env_ok assms)+

section \<open>Properties\<close>



text \<open>Property: with a threshold above one half, two certificates for the same round have a registered
  validator in common, who approved both tuples; two different candidates are certified for a round only
  if a validator approved both. Signer ids within a certificate are taken to be different up to case.\<close>

theorem champion_certificates_share_a_validator:
  assumes "ch_reach m1 cr vals bps st1" "champion_poll rid q1 now1 st1 = (st1', Inr (Some r1))" "ch_certificate r1 = Some c1"
    and "ch_reach m2 cr vals bps st2" "champion_poll rid q2 now2 st2 = (st2', Inr (Some r2))" "ch_certificate r2 = Some c2"
    and "ch_reached r1" "ch_reached r2"
    and "5000 < bps" "any_address vals (chm_validator_id m1)" "any_address vals (chm_validator_id m2)"
    and "inj_on lower (ca_validator_id ` set (cc_approvals c1))" "inj_on lower (ca_validator_id ` set (cc_approvals c2))"
  shows "\<exists>a1 \<in> set (cc_approvals c1). \<exists>a2 \<in> set (cc_approvals c2). lower (ca_validator_id a1) = lower (ca_validator_id a2) \<and>
    any_address vals (ca_validator_id a1) \<and> over_certificate c1 a1 \<and> over_certificate c2 a2"
proof -
  have c: "certified m1 cr vals bps rid c1" "certified m2 cr vals bps rid c2"
    using ch_poll_certified [OF ch_reach_ok [OF assms(1)] assms(2,7)] ch_poll_certified [OF ch_reach_ok [OF assms(4)] assms(5,8)]
      assms(3,6) by auto
  note m = certified_members [OF c(1) assms(10,12)] certified_members [OF c(2) assms(11,13)]
  have "card (lower ` set vals) \<le> length vals" by (metis card_image_le card_length finite_set le_trans)
  then have "\<exists>v \<in> lower ` set vals. v \<in> lower ` ca_validator_id ` set (cc_approvals c1) \<and> v \<in> lower ` ca_validator_id ` set (cc_approvals c2)"
    using m assms(9) by (intro ceiling.quorums_intersect [of _ "int (length vals)" bps]) auto
  then obtain a1 a2 where a: "a1 \<in> set (cc_approvals c1)" "a2 \<in> set (cc_approvals c2)" "lower (ca_validator_id a1) = lower (ca_validator_id a2)"
    by auto
  with m(3,6) show ?thesis by blast
qed

theorem champion_certificates_share_a_validator_witness:
  "\<exists>r1 r2 c1 c2 st1 st2. champion_poll ''round-e5-n1'' 2 3 (sample_ch_received ''0xa'' sample_registry (sample_ch_approval ''0xb'' ''s'')
        (sample_ch_proposed ''0xa'' ''s'' sample_registry)) = (st1, Inr (Some r1)) \<and>
     champion_poll ''round-e5-n1'' 2 3 (sample_ch_received ''0xb'' sample_registry (sample_ch_approval ''0xc'' ''t'')
        (sample_ch_proposed ''0xb'' ''t'' sample_registry)) = (st2, Inr (Some r2)) \<and>
     ch_certificate r1 = Some c1 \<and> ch_certificate r2 = Some c2 \<and>
     (\<exists>a1 \<in> set (cc_approvals c1). \<exists>a2 \<in> set (cc_approvals c2). lower (ca_validator_id a1) = lower (ca_validator_id a2))"
proof -
  let ?ok = "\<lambda>ids st. case snd (champion_poll ''round-e5-n1'' 2 3 st) of
     Inr (Some r) \<Rightarrow> ch_reached r \<and> map_option (\<lambda>c. map ca_validator_id (cc_approvals c)) (ch_certificate r) = Some ids | _ \<Rightarrow> False"
  let ?s1 = "sample_ch_received ''0xa'' sample_registry (sample_ch_approval ''0xb'' ''s'') (sample_ch_proposed ''0xa'' ''s'' sample_registry)"
  let ?s2 = "sample_ch_received ''0xb'' sample_registry (sample_ch_approval ''0xc'' ''t'') (sample_ch_proposed ''0xb'' ''t'' sample_registry)"
  have "?ok [''0xa'', ''0xb''] ?s1" by code_simp
  then obtain r1 st1 c1 where 1: "champion_poll ''round-e5-n1'' 2 3 ?s1 = (st1, Inr (Some r1))" "ch_reached r1"
    "ch_certificate r1 = Some c1" "map ca_validator_id (cc_approvals c1) = [''0xa'', ''0xb'']"
    by (auto split: sum.splits option.splits simp: prod_eq_iff)
  have "?ok [''0xb'', ''0xc''] ?s2" by code_simp
  then obtain r2 st2 c2 where 2: "champion_poll ''round-e5-n1'' 2 3 ?s2 = (st2, Inr (Some r2))" "ch_reached r2"
    "ch_certificate r2 = Some c2" "map ca_validator_id (cc_approvals c2) = [''0xb'', ''0xc'']"
    by (auto split: sum.splits option.splits simp: prod_eq_iff)
  have ids: "ca_validator_id ` set (cc_approvals c1) = {''0xa'', ''0xb''}" "ca_validator_id ` set (cc_approvals c2) = {''0xb'', ''0xc''}"
    using arg_cong [OF 1(4), of set] arg_cong [OF 2(4), of set] by auto
  have inj: "inj_on lower {''0xa'', ''0xb''}" "inj_on lower {''0xb'', ''0xc''}" by code_simp+
  have m: "any_address sample_registry (chm_validator_id (sample_ch_mgr ''0xa''))"
    "any_address sample_registry (chm_validator_id (sample_ch_mgr ''0xb''))"
    by code_simp+
  have ne: "sample_registry \<noteq> []" by (simp add: sample_registry_def)
  from champion_certificates_share_a_validator [OF sample_ch_reach(2) [OF ne] 1(1,3) sample_ch_reach(2) [OF ne] 2(1,3) 1(2) 2(2) _ m]
  show ?thesis using 1(1,3) 2(1,3) ids inj by fastforce
qed

text \<open>Property: the approval a node signs for a proposal carries that proposal back, matches it, and passes the
  verification of every manager with the same domain that has the node among its validators.\<close>

theorem champion_approval_roundtrip:
  assumes "ch_sign_approval signer env p = Inr a" "signs_as (ce_crypto env) (chm_private_key signer) (chm_validator_id signer)"
    and "chm_domain mgr = chm_domain signer" "ce_crypto env' = ce_crypto env" "ch_authorized mgr env' st (chm_validator_id signer)"
  shows "proposal_from_approval a = p \<and> verify_approval mgr env' st a None \<and> verify_approval mgr env' st a (Some p)"
proof -
  note s = ch_sign_props [OF assms(1)]
  have "verify_champion_approval (ce_crypto env') (ca_validator_id a) (ca_signature a) p (chm_domain mgr)"
    using champion_sign_verify [OF assms(2) s(3), of "ca_validator_id a"] s(1) assms(3,4) by simp
  with s sign_proposal_roundtrip [OF assms(1)] assms(5) show ?thesis by (simp add: verify_approval_def)
qed

theorem champion_approval_roundtrip_witness:
  "verify_approval (sample_ch_mgr ''0xa'') (sample_ch_env sample_registry) \<lparr>chs_override = None, chs_pending = []\<rparr>
     (sample_ch_approval ''0xb'' ''s'') None"
proof -
  have "case ch_sign_approval (sample_ch_mgr ''0xb'') (sample_ch_env [''0xb'']) (sample_ch_proposal ''s'') of Inr a \<Rightarrow> True | _ \<Rightarrow> False"
    by code_simp
  then obtain a where a: "ch_sign_approval (sample_ch_mgr ''0xb'') (sample_ch_env [''0xb'']) (sample_ch_proposal ''s'') = Inr a"
    by (auto split: sum.splits)
  then have "sample_ch_approval ''0xb'' ''s'' = a" by (simp add: sample_ch_approval_def)
  moreover have "ch_authorized (sample_ch_mgr ''0xa'') (sample_ch_env sample_registry) \<lparr>chs_override = None, chs_pending = []\<rparr>
      (chm_validator_id (sample_ch_mgr ''0xb''))" by code_simp
  ultimately show ?thesis
    using champion_approval_roundtrip [OF a, of "sample_ch_mgr ''0xa''" "sample_ch_env sample_registry" "\<lparr>chs_override = None, chs_pending = []\<rparr>"]
      toy_signs by (simp add: sample_ch_env_def sample_ch_mgr_def)
qed

text \<open>Property: \<open>set_validators\<close> does not pin the set: the discovered peers stay in it, and repeating the same
  call drops the pending attempts again, because the pinned list never equals the union that includes
  the node itself.\<close>

theorem set_validators_does_not_pin:
  "let mgr = sample_ch_mgr ''0xa''; env = sample_ch_env sample_registry;
       st = set_validators mgr env [''0xd''] \<lparr>chs_override = None, chs_pending = []\<rparr>;
       st' = fst (champion_propose mgr env (sample_ch_proposal ''s'') st)
   in ch_validators mgr env st = [''0xa'', ''0xd'', ''0xb'', ''0xc''] \<and> length (chs_pending st') = 1 \<and>
      chs_pending (set_validators mgr env [''0xd''] st') = []"
  by code_simp

end
