(* ===== verification/Epoch_Clock.thy ===== *)
theory Epoch_Clock
  imports Py_Prelude
begin

text \<open>
  The epoch source of the solver rounds, \<open>epoch/clock.py\<close>: native tempo epochs, block epochs and
  wall-clock epochs, in that order of preference. The environment and the wall clock are arguments.
\<close>

section \<open>The clock\<close>

definition EPOCH_SECONDS :: int where "EPOCH_SECONDS = 60"

definition parse_positive_int :: "string option \<Rightarrow> int option \<Rightarrow> int option" where
  "parse_positive_int raw dflt =
     (let text = strip (or_empty raw) in
      if text = [] then dflt
      else case py_int text of None \<Rightarrow> dflt | Some i \<Rightarrow> if i \<le> 0 then dflt else Some i)"

record epoch_clock =
  epoch_seconds :: int
  epoch_blocks :: "int option"

definition clock_from_env :: "(string \<Rightarrow> string option) \<Rightarrow> epoch_clock" where
  "clock_from_env environ = \<lparr>epoch_seconds = EPOCH_SECONDS,
     epoch_blocks = parse_positive_int (environ ''SOLVER_ROUND_EPOCH_BLOCKS'') None\<rparr>"

definition positive :: "int option \<Rightarrow> bool" where
  "positive i = (case i of None \<Rightarrow> False | Some n \<Rightarrow> n > 0)"

definition nonneg :: "int option \<Rightarrow> bool" where
  "nonneg i = (case i of None \<Rightarrow> False | Some n \<Rightarrow> n \<ge> 0)"

definition uses_block_mode :: "epoch_clock \<Rightarrow> int option \<Rightarrow> bool" where
  "uses_block_mode c block_number \<longleftrightarrow> positive (epoch_blocks c) \<and> nonneg block_number"

definition resolved_epoch_blocks :: "epoch_clock \<Rightarrow> int option \<Rightarrow> int option" where
  "resolved_epoch_blocks c native_length =
     (if positive native_length then native_length
      else if positive (epoch_blocks c) then epoch_blocks c else None)"

definition current_epoch :: "epoch_clock \<Rightarrow> int option \<Rightarrow> int option \<Rightarrow> int option \<Rightarrow> real \<Rightarrow> int" where
  "current_epoch c block_number native_epoch native_length ts =
     (case native_epoch of Some e \<Rightarrow> max 0 e
      | None \<Rightarrow> (case (resolved_epoch_blocks c native_length, block_number) of
          (Some len, Some b) \<Rightarrow> if b \<ge> 0 then max 0 (b div len) else max 0 \<lfloor>ts / of_int (max 1 (epoch_seconds c))\<rfloor>
        | _ \<Rightarrow> max 0 \<lfloor>ts / of_int (max 1 (epoch_seconds c))\<rfloor>))"

datatype clock_mode = Native_Tempo | Block | Time

record clock_health =
  h_mode :: clock_mode
  h_epoch_seconds :: int
  h_configured_epoch_blocks :: "int option"
  h_resolved_epoch_blocks :: "int option"
  h_native_epoch :: "int option"
  h_native_blocks_since_last_step :: "int option"
  h_current_epoch :: int

definition health_snapshot ::
  "epoch_clock \<Rightarrow> int option \<Rightarrow> int option \<Rightarrow> int option \<Rightarrow> int option \<Rightarrow> real \<Rightarrow> clock_health" where
  "health_snapshot c block_number native_epoch native_length since_step ts =
     (let resolved = resolved_epoch_blocks c native_length in
      \<lparr>h_mode = (if native_epoch \<noteq> None then Native_Tempo
          else if resolved \<noteq> None \<and> nonneg block_number then Block else Time),
       h_epoch_seconds = epoch_seconds c, h_configured_epoch_blocks = epoch_blocks c,
       h_resolved_epoch_blocks = resolved, h_native_epoch = native_epoch,
       h_native_blocks_since_last_step = since_step,
       h_current_epoch = current_epoch c block_number native_epoch native_length ts\<rparr>)"

section \<open>Lemmas\<close>

lemma parse_positive_int_positive:
  "positive dflt \<or> dflt = None \<Longrightarrow> positive (parse_positive_int raw dflt) \<or> parse_positive_int raw dflt = None"
  by (auto simp: parse_positive_int_def positive_def Let_def split: option.splits)

lemma resolved_positive: "resolved_epoch_blocks c l = Some len \<Longrightarrow> 0 < len"
  by (auto simp: resolved_epoch_blocks_def positive_def split: if_splits option.splits)

lemma floor_div_mono: "s \<le> (t::real) \<Longrightarrow> \<lfloor>s / of_int (max 1 n)\<rfloor> \<le> \<lfloor>t / of_int (max 1 n)\<rfloor>"
  by (intro floor_mono divide_right_mono) auto

section \<open>Properties\<close>

text \<open>Property: while the clock stays in one mode its epoch is non-negative and never goes back: in block mode
  a later block, in time mode a later time, give the same or a later epoch, and the mode that
  \<open>health_snapshot\<close> reports is the one the epoch was computed in.\<close>

theorem epoch_monotone_within_mode:
  assumes "h_mode (health_snapshot c b1 n1 l s1 t1) = m" "h_mode (health_snapshot c b2 n2 l s2 t2) = m"
    and "m = Native_Tempo \<longrightarrow> the n1 \<le> the n2" "m = Block \<longrightarrow> the b1 \<le> the b2" "m = Time \<longrightarrow> t1 \<le> t2"
  shows "0 \<le> h_current_epoch (health_snapshot c b1 n1 l s1 t1) \<and>
    h_current_epoch (health_snapshot c b1 n1 l s1 t1) \<le> h_current_epoch (health_snapshot c b2 n2 l s2 t2)"
proof -
  have nn: "0 \<le> h_current_epoch (health_snapshot c b1 n1 l s1 t1)"
    by (auto simp: health_snapshot_def current_epoch_def Let_def split: option.split)
  have "h_current_epoch (health_snapshot c b1 n1 l s1 t1) \<le> h_current_epoch (health_snapshot c b2 n2 l s2 t2)"
  proof (cases m)
    case Native_Tempo
    then show ?thesis
      using assms by (auto simp: health_snapshot_def current_epoch_def Let_def split: if_splits)
  next
    case Block
    then obtain len x1 x2 where "resolved_epoch_blocks c l = Some len" "b1 = Some x1" "b2 = Some x2" "0 \<le> x1" "0 \<le> x2"
      "n1 = None" "n2 = None"
      using assms(1,2) by (auto simp: health_snapshot_def Let_def nonneg_def split: if_splits option.splits)
    moreover from this have "x1 div len \<le> x2 div len"
      using assms(4) Block resolved_positive [of c l len] by (simp add: zdiv_mono1)
    ultimately show ?thesis by (auto simp: health_snapshot_def current_epoch_def Let_def)
  next
    case Time
    then have "current_epoch c b1 n1 l t1 = max 0 \<lfloor>t1 / of_int (max 1 (epoch_seconds c))\<rfloor>"
      "current_epoch c b2 n2 l t2 = max 0 \<lfloor>t2 / of_int (max 1 (epoch_seconds c))\<rfloor>"
      using assms(1,2) by (auto simp: health_snapshot_def current_epoch_def Let_def nonneg_def split: if_splits option.splits)
    with floor_div_mono [of t1 t2 "epoch_seconds c"] assms(5) Time show ?thesis
      by (simp add: health_snapshot_def Let_def)
  qed
  with nn show ?thesis by blast
qed

theorem epoch_monotone_within_mode_witness:
  "h_current_epoch (health_snapshot \<lparr>epoch_seconds = 60, epoch_blocks = Some 7\<rparr> (Some 20) None None None 0)
   \<le> h_current_epoch (health_snapshot \<lparr>epoch_seconds = 60, epoch_blocks = Some 7\<rparr> (Some 21) None None None 0)"
  using epoch_monotone_within_mode [of "\<lparr>epoch_seconds = 60, epoch_blocks = Some 7\<rparr>" "Some 20" None None None 0 Block
      "Some 21" None None 0]
  by (simp add: health_snapshot_def resolved_epoch_blocks_def positive_def nonneg_def Let_def)

text \<open>Property: across modes the epoch is not monotone: a node that has the native epoch, loses it for one
  call and gets it back goes from epoch 100 to epoch 20000000 and back to 100, although the module
  describes a stable, monotonic epoch source.\<close>

theorem epoch_not_monotone_across_modes:
  "let c = clock_from_env (\<lambda>_. None) in
   current_epoch c (Some 5) (Some 100) None 1200000000 = 100 \<and>
   current_epoch c (Some 5) None None 1200000000 = 20000000 \<and>
   current_epoch c (Some 5) (Some 100) None 1200000001 = 100"
  by (simp add: clock_from_env_def parse_positive_int_def EPOCH_SECONDS_def current_epoch_def
      resolved_epoch_blocks_def positive_def Let_def)

end
