(* ===== verification/Round_Store.thy ===== *)
theory Round_Store
  imports Round_Types Epoch_Clock
begin

text \<open>
  The durable round store, \<open>harness/round_store.py\<close>, class \<open>RoundStore\<close>: the rounds by id, the current
  round, the active and the previous champion and the adoption bar, with every method that changes them.

  The argument \<open>cap\<close> is \<open>None\<close> for a store without a persist path and \<open>Some c\<close> for one that persists with
  \<open>SOLVER_ROUND_STORE_MAX_ROUNDS = c\<close>; persisting first evicts old rounds. \<open>store_to_json\<close> and \<open>load_store\<close> are
  what \<open>_persist\<close> writes and \<open>_load\<close> reads; the file, its atomic replacement and the history sink are not
  modelled, and the process is the only writer, so \<open>_maybe_reload\<close> reads back what was written. One value
  \<open>now\<close> stands for the clock within a call. A method that raises leaves the store as the source does.
\<close>

section \<open>State\<close>

record round_store =
  st_rounds :: "(string \<times> round_state) list"
  st_current :: "string option"
  st_active :: champion_snapshot
  st_previous :: champion_snapshot
  st_bar :: "(string \<times> json) list"

definition new_store :: round_store where
  "new_store = \<lparr>st_rounds = [], st_current = None, st_active = no_champion, st_previous = no_champion, st_bar = []\<rparr>"

definition new_round :: "string \<Rightarrow> round_status \<Rightarrow> int \<Rightarrow> int option \<Rightarrow> real \<Rightarrow> round_state" where
  "new_round rid status epoch anchor now =
     \<lparr>rs_round_id = rid, rs_status = status, rs_opened_epoch = epoch, rs_close_epoch = None, rs_created_at = now,
      rs_updated_at = now, rs_incumbent_submission_id = None, rs_incumbent_image_id = None, rs_incumbent_hotkey = None,
      rs_benchmark_pack_hash = None, rs_committee_block = None, rs_committee_hash = None, rs_fork_pins = None,
      rs_quorum_required = None, rs_decision_deadline_epoch = None, rs_finalist_submission_id = None,
      rs_finalist_image_id = None, rs_shadow_case_log_hash = None, rs_certificate = None, rs_effective_epoch = None,
      rs_benchmark_anchor_epoch = anchor, rs_abort_reason = None, rs_self_verified = False,
      rs_self_verified_submission_id = None, rs_benched_slate = None, rs_veto_observe = JNull\<rparr>"

definition get_current_round :: "round_store \<Rightarrow> round_state option" where
  "get_current_round st = (if or_empty (st_current st) = [] then None else map_of (st_rounds st) (or_empty (st_current st)))"

definition get_round :: "string \<Rightarrow> round_store \<Rightarrow> round_state option" where
  "get_round rid st = map_of (st_rounds st) rid"

definition list_rounds :: "round_store \<Rightarrow> round_state list" where
  "list_rounds st = sort_key (\<lambda>r. (rs_created_at r, rs_round_id r)) (vals_of (st_rounds st))"

definition put_round :: "string \<Rightarrow> round_state \<Rightarrow> round_store \<Rightarrow> round_store" where
  "put_round rid r st = st\<lparr>st_rounds := AList.update rid r (st_rounds st)\<rparr>"

section \<open>Eviction and persistence\<close>

definition pinned :: "round_store \<Rightarrow> string \<Rightarrow> bool" where
  "pinned st rid \<longleftrightarrow> Some rid \<in> {st_current st, cs_activated_round_id (st_active st), cs_activated_round_id (st_previous st)}"

definition max_epoch :: "round_store \<Rightarrow> int" where
  "max_epoch st = (if st_rounds st = [] then 0 else Max (set (map rs_opened_epoch (vals_of (st_rounds st)))))"

definition protected_round :: "round_store \<Rightarrow> string \<times> round_state \<Rightarrow> bool" where
  "protected_round st p \<longleftrightarrow> pinned st (fst p) \<or> rs_opened_epoch (snd p) \<ge> max_epoch st"

definition rank :: "string \<times> round_state \<Rightarrow> int \<times> real \<times> string" where
  "rank p = (rs_opened_epoch (snd p), rs_created_at (snd p), fst p)"

definition survivors :: "int \<Rightarrow> round_store \<Rightarrow> string list" where
  "survivors cap st =
     (let prot = filter (protected_round st) (st_rounds st);
          room = cap - int (length prot);
          ranked = rev (sort_key rank (filter (\<lambda>p. \<not> protected_round st p) (st_rounds st)))
      in map fst prot @ (if room > 0 then map fst (take (nat room) ranked) else []))"

definition evict_rounds :: "int \<Rightarrow> round_store \<Rightarrow> round_store" where
  "evict_rounds cap st =
     (if cap \<le> 0 \<or> int (length (st_rounds st)) \<le> cap then st
      else if length (survivors cap st) \<ge> length (st_rounds st) then st
      else st\<lparr>st_rounds := filter (\<lambda>p. fst p \<in> set (survivors cap st)) (st_rounds st)\<rparr>)"

definition persist :: "int option \<Rightarrow> round_store \<Rightarrow> round_store" where
  "persist cap st = (case cap of None \<Rightarrow> st | Some c \<Rightarrow> evict_rounds c st)"

definition store_to_json :: "round_store \<Rightarrow> json" where
  "store_to_json st = JObj
     [(''current_round_id'', of_str (st_current st)),
      (''active_champion'', JObj (snapshot_to_dict (st_active st))),
      (''previous_champion'', JObj (snapshot_to_dict (st_previous st))),
      (''champion_adoption_bar'', JObj (st_bar st)),
      (''rounds'', JObj (map (\<lambda>(rid, r). (rid, JObj (round_to_dict r))) (st_rounds st)))]"

definition load_round :: "real \<Rightarrow> string \<times> json \<Rightarrow> (string \<times> round_state) res" where
  "load_round now p = (case p of (rid, raw) \<Rightarrow> (case raw of
       JObj d \<Rightarrow> res_bind (round_from_dict now (if map_of d ''round_id'' = None then d @ [(''round_id'', JStr rid)] else d))
                  (\<lambda>r. Inr (rid, r))
     | _ \<Rightarrow> Inl Unmodelled))"

definition read_store :: "real \<Rightarrow> json \<Rightarrow> round_store res" where
  "read_store now doc = (case doc of JObj d \<Rightarrow>
     res_bind (opt_str (jget d ''current_round_id'')) (\<lambda>cur.
     res_bind (snapshot_from_dict (jget d ''active_champion'')) (\<lambda>act.
     res_bind (snapshot_from_dict (jget d ''previous_champion'')) (\<lambda>prev.
     res_bind (as_dict (jget d ''rounds'')) (\<lambda>raws.
     res_bind (res_map (load_round now) raws) (\<lambda>rounds.
     Inr \<lparr>st_rounds = rounds,
          st_current = (case cur of None \<Rightarrow> None | Some c \<Rightarrow> if c \<in> set (keys_of rounds) then Some c else None),
          st_active = act, st_previous = prev,
          st_bar = (case jget d ''champion_adoption_bar'' of JObj b \<Rightarrow> b | _ \<Rightarrow> [])\<rparr>)))))
   | _ \<Rightarrow> Inl TypeError)"

text \<open>Any exception while loading is logged and leaves the store as it was.\<close>

definition load_store :: "real \<Rightarrow> json \<Rightarrow> round_store \<Rightarrow> round_store" where
  "load_store now doc st = (case read_store now doc of Inl _ \<Rightarrow> st | Inr st' \<Rightarrow> st')"

section \<open>Champions\<close>

definition set_active_champion :: "int option \<Rightarrow> real \<Rightarrow> champion_snapshot \<Rightarrow> bool \<Rightarrow> round_store \<Rightarrow> round_store" where
  "set_active_champion cap now champion sync st =
     (let st1 = st\<lparr>st_active := champion\<rparr> in
      persist cap (case get_current_round st1 of
          None \<Rightarrow> st1
        | Some cur \<Rightarrow> if sync \<and> rs_status cur = R_OPEN
            then put_round (or_empty (st_current st1)) (sync_incumbent now (Some champion) cur) st1 else st1))"

definition set_previous_champion :: "int option \<Rightarrow> champion_snapshot \<Rightarrow> round_store \<Rightarrow> round_store" where
  "set_previous_champion cap champion st = persist cap (st\<lparr>st_previous := champion\<rparr>)"

definition set_champion_adoption_bar ::
  "int option \<Rightarrow> string option \<Rightarrow> (string \<times> string) list option \<Rightarrow> real \<Rightarrow> round_store \<Rightarrow> round_store" where
  "set_champion_adoption_bar cap sid outputs activated_at st =
     persist cap (st\<lparr>st_bar := [(''submission_id'', of_str sid),
        (''outputs'', JObj (map (\<lambda>(k, v). (k, JStr v)) (case outputs of None \<Rightarrow> [] | Some os \<Rightarrow> os))),
        (''activated_at'', JFloat activated_at)]\<rparr>)"

section \<open>Opening, adopting and closing rounds\<close>

definition build_round_id :: "int \<Rightarrow> round_store \<Rightarrow> string" where
  "build_round_id epoch st =
     round_id_text epoch (length (filter (\<lambda>r. rs_opened_epoch r = epoch) (vals_of (st_rounds st))) + 1)"

definition set_champion_opt :: "champion_snapshot option \<Rightarrow> round_store \<Rightarrow> round_store" where
  "set_champion_opt incumbent st = (case incumbent of None \<Rightarrow> st | Some c \<Rightarrow> st\<lparr>st_active := c\<rparr>)"

definition sync_opt :: "real \<Rightarrow> champion_snapshot option \<Rightarrow> round_state \<Rightarrow> round_state" where
  "sync_opt now incumbent r = (case incumbent of None \<Rightarrow> r | Some c \<Rightarrow> sync_incumbent now (Some c) r)"

definition open_fresh ::
  "int option \<Rightarrow> real \<Rightarrow> int \<Rightarrow> champion_snapshot option \<Rightarrow> round_store \<Rightarrow> round_store \<times> round_state" where
  "open_fresh cap now epoch incumbent st =
     (let rid = build_round_id epoch st;
          r = sync_opt now incumbent (new_round rid R_OPEN epoch (Some \<lfloor>now / of_int EPOCH_SECONDS\<rfloor>) now)
      in (persist cap ((put_round rid r (set_champion_opt incumbent st))\<lparr>st_current := Some rid\<rparr>), r))"

definition ensure_open_round ::
  "int option \<Rightarrow> real \<Rightarrow> int \<Rightarrow> champion_snapshot option \<Rightarrow> round_store \<Rightarrow> round_store \<times> round_state" where
  "ensure_open_round cap now epoch incumbent st = (case get_current_round st of
       Some cur \<Rightarrow> if rs_status cur = R_OPEN then
           (case incumbent of None \<Rightarrow> (st, cur)
            | Some c \<Rightarrow> (let cur' = sync_incumbent now (Some c) cur in
                (persist cap (put_round (or_empty (st_current st)) cur' (st\<lparr>st_active := c\<rparr>)), cur')))
         else open_fresh cap now epoch incumbent st
     | None \<Rightarrow> open_fresh cap now epoch incumbent st)"

definition open_next_round ::
  "int option \<Rightarrow> real \<Rightarrow> int \<Rightarrow> champion_snapshot option \<Rightarrow> round_store \<Rightarrow> round_store \<times> round_state res" where
  "open_next_round cap now epoch incumbent st = (case get_current_round st of
       Some cur \<Rightarrow> if rs_status cur = R_OPEN then (st, Inl (ValueError (''Round '' @ rs_round_id cur @ '' is still open'')))
         else apsnd Inr (ensure_open_round cap now epoch incumbent st)
     | None \<Rightarrow> apsnd Inr (ensure_open_round cap now epoch incumbent st))"

text \<open>The \<open>field_updates\<close> of \<open>adopt_round\<close> that are not \<open>None\<close>: one constructor per field of \<open>RoundState\<close> (those that
  are parameters of the method itself apart), and an unknown key.\<close>

datatype round_field =
    U_close_epoch int
  | U_created_at real
  | U_updated_at real
  | U_incumbent_submission_id string
  | U_incumbent_image_id string
  | U_incumbent_hotkey string
  | U_benchmark_pack_hash string
  | U_committee_block int
  | U_committee_hash string
  | U_fork_pins "(int \<times> int) list"
  | U_quorum_required int
  | U_decision_deadline_epoch int
  | U_finalist_submission_id string
  | U_finalist_image_id string
  | U_shadow_case_log_hash string
  | U_certificate champion_certificate
  | U_effective_epoch int
  | U_benchmark_anchor_epoch int
  | U_abort_reason string
  | U_self_verified bool
  | U_self_verified_submission_id string
  | U_benched_slate "string list"
  | U_veto_observe json
  | U_unknown string

fun apply_field :: "round_field \<Rightarrow> round_state \<Rightarrow> round_state" where
  "apply_field (U_close_epoch v) r = r\<lparr>rs_close_epoch := Some v\<rparr>"
| "apply_field (U_created_at v) r = r\<lparr>rs_created_at := v\<rparr>"
| "apply_field (U_updated_at v) r = r\<lparr>rs_updated_at := v\<rparr>"
| "apply_field (U_incumbent_submission_id v) r = r\<lparr>rs_incumbent_submission_id := Some v\<rparr>"
| "apply_field (U_incumbent_image_id v) r = r\<lparr>rs_incumbent_image_id := Some v\<rparr>"
| "apply_field (U_incumbent_hotkey v) r = r\<lparr>rs_incumbent_hotkey := Some v\<rparr>"
| "apply_field (U_benchmark_pack_hash v) r = r\<lparr>rs_benchmark_pack_hash := Some v\<rparr>"
| "apply_field (U_committee_block v) r = r\<lparr>rs_committee_block := Some v\<rparr>"
| "apply_field (U_committee_hash v) r = r\<lparr>rs_committee_hash := Some v\<rparr>"
| "apply_field (U_fork_pins v) r = r\<lparr>rs_fork_pins := Some v\<rparr>"
| "apply_field (U_quorum_required v) r = r\<lparr>rs_quorum_required := Some v\<rparr>"
| "apply_field (U_decision_deadline_epoch v) r = r\<lparr>rs_decision_deadline_epoch := Some v\<rparr>"
| "apply_field (U_finalist_submission_id v) r = r\<lparr>rs_finalist_submission_id := Some v\<rparr>"
| "apply_field (U_finalist_image_id v) r = r\<lparr>rs_finalist_image_id := Some v\<rparr>"
| "apply_field (U_shadow_case_log_hash v) r = r\<lparr>rs_shadow_case_log_hash := Some v\<rparr>"
| "apply_field (U_certificate v) r = r\<lparr>rs_certificate := Some v\<rparr>"
| "apply_field (U_effective_epoch v) r = r\<lparr>rs_effective_epoch := Some v\<rparr>"
| "apply_field (U_benchmark_anchor_epoch v) r = r\<lparr>rs_benchmark_anchor_epoch := Some v\<rparr>"
| "apply_field (U_abort_reason v) r = r\<lparr>rs_abort_reason := Some v\<rparr>"
| "apply_field (U_self_verified v) r = r\<lparr>rs_self_verified := v\<rparr>"
| "apply_field (U_self_verified_submission_id v) r = r\<lparr>rs_self_verified_submission_id := Some v\<rparr>"
| "apply_field (U_benched_slate v) r = r\<lparr>rs_benched_slate := Some v\<rparr>"
| "apply_field (U_veto_observe v) r = r\<lparr>rs_veto_observe := v\<rparr>"
| "apply_field (U_unknown key) r = r"

definition supersede :: "real \<Rightarrow> string \<Rightarrow> round_store \<Rightarrow> round_store" where
  "supersede now rid st = (case get_current_round st of
       Some cur \<Rightarrow> if rs_status cur = R_OPEN \<and> rs_round_id cur \<noteq> rid
         then put_round (or_empty (st_current st))
                (cur\<lparr>rs_status := R_ABORTED, rs_abort_reason := Some (''superseded by leader round '' @ rid), rs_updated_at := now\<rparr>) st
         else st
     | None \<Rightarrow> st)"

definition adopt_round ::
  "int option \<Rightarrow> real \<Rightarrow> string \<Rightarrow> int \<Rightarrow> round_status \<Rightarrow> champion_snapshot option \<Rightarrow> round_field list \<Rightarrow> round_store \<Rightarrow>
   round_store \<times> round_state" where
  "adopt_round cap now rid epoch status incumbent updates st =
     (let st1 = supersede now rid st;
          r0 = (case map_of (st_rounds st1) rid of
                  None \<Rightarrow> new_round rid status epoch None now
                | Some r \<Rightarrow> r\<lparr>rs_opened_epoch := epoch, rs_status := status, rs_updated_at := now\<rparr>);
          r = sync_opt now incumbent (fold apply_field updates r0)
      in (persist cap ((put_round rid r (set_champion_opt incumbent st1))\<lparr>st_current := Some rid\<rparr>), r))"

record close_args =
  cl_epoch :: int
  cl_pack_hash :: "string option"
  cl_committee_block :: "int option"
  cl_committee_hash :: "string option"
  cl_quorum_required :: "int option"
  cl_decision_deadline :: "int option"
  cl_effective_epoch :: "int option"

definition keep :: "'a option \<Rightarrow> 'a option \<Rightarrow> 'a option" where
  "keep new old = (case new of None \<Rightarrow> old | Some v \<Rightarrow> Some v)"

definition close_current_round :: "int option \<Rightarrow> real \<Rightarrow> close_args \<Rightarrow> round_store \<Rightarrow> round_store \<times> round_state res" where
  "close_current_round cap now a st = (case get_current_round st of
       None \<Rightarrow> (st, Inl (ValueError ''No current solver round''))
     | Some cur \<Rightarrow>
         (let r = cur\<lparr>rs_close_epoch := Some (cl_epoch a), rs_status := R_CLOSED,
                rs_benchmark_pack_hash := keep (cl_pack_hash a) (rs_benchmark_pack_hash cur),
                rs_committee_block := keep (cl_committee_block a) (rs_committee_block cur),
                rs_committee_hash := keep (cl_committee_hash a) (rs_committee_hash cur),
                rs_quorum_required := keep (cl_quorum_required a) (rs_quorum_required cur),
                rs_decision_deadline_epoch := keep (cl_decision_deadline a) (rs_decision_deadline_epoch cur),
                rs_effective_epoch := keep (cl_effective_epoch a) (rs_effective_epoch cur),
                rs_updated_at := now\<rparr>
          in (persist cap (put_round (or_empty (st_current st)) r st), Inr r)))"

section \<open>Updates of one round\<close>

definition modify_round ::
  "int option \<Rightarrow> string \<Rightarrow> (round_state \<Rightarrow> round_state) \<Rightarrow> round_store \<Rightarrow> round_store \<times> round_state res" where
  "modify_round cap rid f st = (case map_of (st_rounds st) rid of
       None \<Rightarrow> (st, Inl (KeyError (''Round not found: '' @ rid)))
     | Some r \<Rightarrow> (persist cap (put_round rid (f r) st), Inr (f r)))"

definition set_round_status where
  "set_round_status cap now rid status = modify_round cap rid (\<lambda>r. r\<lparr>rs_status := status, rs_updated_at := now\<rparr>)"

definition set_round_veto_observe ::
  "int option \<Rightarrow> real \<Rightarrow> string \<Rightarrow> json \<Rightarrow> round_store \<Rightarrow> round_store \<times> round_state" where
  "set_round_veto_observe cap now rid summary st = (case map_of (st_rounds st) rid of
       None \<Rightarrow> (st, new_round rid R_OPEN 0 None now)
     | Some r \<Rightarrow> (let r' = r\<lparr>rs_veto_observe := summary, rs_updated_at := now\<rparr> in (persist cap (put_round rid r' st), r')))"

definition set_round_finalist where
  "set_round_finalist cap now rid submission_id image_id shadow_case_log_hash =
     modify_round cap rid (\<lambda>r. r\<lparr>rs_finalist_submission_id := Some submission_id, rs_finalist_image_id := image_id,
       rs_shadow_case_log_hash := keep shadow_case_log_hash (rs_shadow_case_log_hash r),
       rs_status := R_CERTIFYING, rs_updated_at := now\<rparr>)"

text \<open>Pins are dicts of integers; the comparison is that of dicts.\<close>

definition dict_eq :: "('k \<times> 'v) list \<Rightarrow> ('k \<times> 'v) list \<Rightarrow> bool" where
  "dict_eq d e \<longleftrightarrow> (\<forall>k \<in> set (keys_of d @ keys_of e). map_of d k = map_of e k)"

definition pins_differ :: "(int \<times> int) list option \<Rightarrow> (int \<times> int) list option \<Rightarrow> bool" where
  "pins_differ existing new_pins = (case (existing, new_pins) of
       (Some e, Some n) \<Rightarrow> e \<noteq> [] \<and> \<not> dict_eq e n
     | _ \<Rightarrow> False)"

definition set_round_fork_pins ::
  "int option \<Rightarrow> real \<Rightarrow> string \<Rightarrow> (int \<times> int) list option \<Rightarrow> round_store \<Rightarrow> round_store \<times> round_state res" where
  "set_round_fork_pins cap now rid pins st = (case map_of (st_rounds st) rid of
       None \<Rightarrow> (st, Inl (KeyError (''Round not found: '' @ rid)))
     | Some r \<Rightarrow>
         (let new_pins = (if pins = Some [] then None else pins) in
          if pins_differ (rs_fork_pins r) new_pins then (st, Inr r)
          else (let r' = r\<lparr>rs_fork_pins := new_pins, rs_updated_at := now\<rparr> in (persist cap (put_round rid r' st), Inr r'))))"

definition certify_round where
  "certify_round cap now rid cert =
     modify_round cap rid (\<lambda>r. r\<lparr>rs_certificate := Some cert,
       rs_finalist_submission_id := cc_candidate_submission_id cert, rs_finalist_image_id := cc_candidate_image_id cert,
       rs_shadow_case_log_hash := cc_shadow_case_log_hash cert, rs_committee_hash := cc_committee_hash cert,
       rs_benchmark_pack_hash := cc_benchmark_pack_hash cert, rs_quorum_required := Some (cc_quorum_required cert),
       rs_effective_epoch := Some (cc_effective_epoch cert), rs_status := R_CERTIFIED, rs_updated_at := now\<rparr>)"

definition activate_round where
  "activate_round cap now rid effective_epoch =
     modify_round cap rid (\<lambda>r. r\<lparr>rs_status := R_ACTIVATED, rs_effective_epoch := Some effective_epoch,
       rs_abort_reason := None, rs_updated_at := now\<rparr>)"

definition abort_round where
  "abort_round cap now rid reason =
     modify_round cap rid (\<lambda>r. r\<lparr>rs_status := R_ABORTED, rs_abort_reason := Some reason, rs_updated_at := now\<rparr>)"

definition mark_self_verified where
  "mark_self_verified cap now rid submission_id =
     modify_round cap rid (\<lambda>r. r\<lparr>rs_self_verified := True, rs_self_verified_submission_id := submission_id, rs_updated_at := now\<rparr>)"

definition set_benched_slate where
  "set_benched_slate cap now rid submission_ids =
     modify_round cap rid (\<lambda>r. r\<lparr>rs_benched_slate := Some submission_ids, rs_updated_at := now\<rparr>)"

lemma dict_eq_iff: "dict_eq d e \<longleftrightarrow> map_of d = map_of e"
proof
  assume eq: "dict_eq d e"
  show "map_of d = map_of e"
  proof
    fix k
    show "map_of d k = map_of e k"
    proof (cases "k \<in> set (keys_of d @ keys_of e)")
      case True
      with eq show ?thesis unfolding dict_eq_def by blast
    next
      case False
      then have "map_of d k = None" "map_of e k = None" by (simp_all add: map_of_eq_None_iff)
      then show ?thesis by simp
    qed
  qed
qed (simp add: dict_eq_def)

section \<open>Operations as events\<close>

datatype round_op =
    Op_open real int "champion_snapshot option"
  | Op_next real int "champion_snapshot option"
  | Op_adopt real string int round_status "champion_snapshot option" "round_field list"
  | Op_close real close_args
  | Op_status real string round_status
  | Op_veto real string json
  | Op_finalist real string string "string option" "string option"
  | Op_pins real string "(int \<times> int) list option"
  | Op_certify real string champion_certificate
  | Op_activate real string int
  | Op_abort real string string
  | Op_verified real string "string option"
  | Op_slate real string "string list"
  | Op_champion real champion_snapshot bool
  | Op_previous champion_snapshot
  | Op_bar "string option" "(string \<times> string) list option" real

fun rs_apply :: "int option \<Rightarrow> round_op \<Rightarrow> round_store \<Rightarrow> round_store" where
  "rs_apply cap (Op_open now epoch inc) st = fst (ensure_open_round cap now epoch inc st)"
| "rs_apply cap (Op_next now epoch inc) st = fst (open_next_round cap now epoch inc st)"
| "rs_apply cap (Op_adopt now rid epoch status inc us) st = fst (adopt_round cap now rid epoch status inc us st)"
| "rs_apply cap (Op_close now a) st = fst (close_current_round cap now a st)"
| "rs_apply cap (Op_status now rid status) st = fst (set_round_status cap now rid status st)"
| "rs_apply cap (Op_veto now rid summary) st = fst (set_round_veto_observe cap now rid summary st)"
| "rs_apply cap (Op_finalist now rid sid img shadow) st = fst (set_round_finalist cap now rid sid img shadow st)"
| "rs_apply cap (Op_pins now rid pins) st = fst (set_round_fork_pins cap now rid pins st)"
| "rs_apply cap (Op_certify now rid cert) st = fst (certify_round cap now rid cert st)"
| "rs_apply cap (Op_activate now rid epoch) st = fst (activate_round cap now rid epoch st)"
| "rs_apply cap (Op_abort now rid reason) st = fst (abort_round cap now rid reason st)"
| "rs_apply cap (Op_verified now rid sid) st = fst (mark_self_verified cap now rid sid st)"
| "rs_apply cap (Op_slate now rid ids) st = fst (set_benched_slate cap now rid ids st)"
| "rs_apply cap (Op_champion now c sync) st = set_active_champion cap now c sync st"
| "rs_apply cap (Op_previous c) st = set_previous_champion cap c st"
| "rs_apply cap (Op_bar sid outs t) st = set_champion_adoption_bar cap sid outs t st"

inductive rs_reach :: "int option \<Rightarrow> round_store \<Rightarrow> bool" for cap :: "int option" where
  init: "rs_reach cap new_store"
| step: "rs_reach cap st \<Longrightarrow> rs_reach cap (rs_apply cap op st)"

section \<open>The invariant\<close>

text \<open>Every round is stored under its own id, and the current round is one of them.\<close>

definition store_ok :: "round_store \<Rightarrow> bool" where
  "store_ok st \<longleftrightarrow> wf_dict (st_rounds st) \<and> (\<forall>(rid, r) \<in> set (st_rounds st). rs_round_id r = rid)
     \<and> (case st_current st of None \<Rightarrow> True | Some c \<Rightarrow> c \<in> set (keys_of (st_rounds st)))"

lemma store_ok_frame:
  "st_rounds st' = st_rounds st \<Longrightarrow> st_current st' = st_current st \<Longrightarrow> store_ok st' = store_ok st"
  by (simp add: store_ok_def split: option.splits)

lemma store_ok_put: "store_ok st \<Longrightarrow> rs_round_id r = rid \<Longrightarrow> store_ok (put_round rid r st)"
  by (auto simp: store_ok_def put_round_def distinct_update update_keys dest!: in_update split: option.splits)

lemma store_ok_put_current:
  "store_ok st \<Longrightarrow> rs_round_id r = rid \<Longrightarrow> store_ok ((put_round rid r st)\<lparr>st_current := Some rid\<rparr>)"
  by (auto simp: store_ok_def put_round_def distinct_update update_keys dest!: in_update split: option.splits)

lemma pinned_survives:
  assumes "(rid, r) \<in> set (st_rounds st)" "pinned st rid \<or> max_epoch st \<le> rs_opened_epoch r"
  shows "rid \<in> set (survivors cap st)"
  using assms by (force simp: survivors_def protected_round_def Let_def)

lemma evict_rounds_current: "st_current (evict_rounds cap st) = st_current st"
  and evict_rounds_champions: "st_active (evict_rounds cap st) = st_active st" "st_previous (evict_rounds cap st) = st_previous st"
  by (simp_all add: evict_rounds_def)

lemma evict_rounds_sub: "\<exists>P. st_rounds (evict_rounds cap st) = filter P (st_rounds st)"
  by (auto simp: evict_rounds_def intro: exI [of _ "\<lambda>_. True"])

lemma evict_keeps:
  assumes "(rid, r) \<in> set (st_rounds st)" "pinned st rid \<or> max_epoch st \<le> rs_opened_epoch r"
  shows "(rid, r) \<in> set (st_rounds (evict_rounds cap st))"
  using pinned_survives [OF assms, of cap] assms(1) by (auto simp: evict_rounds_def)

lemma store_ok_evict:
  assumes "store_ok st"
  shows "store_ok (evict_rounds cap st)"
proof -
  obtain P where P: "st_rounds (evict_rounds cap st) = filter P (st_rounds st)" using evict_rounds_sub by blast
  have "distinct (map fst (filter P (st_rounds st)))" using assms by (simp add: store_ok_def distinct_map_filter)
  moreover have "c \<in> set (keys_of (st_rounds (evict_rounds cap st)))" if cur: "st_current st = Some c" for c
  proof -
    obtain r where "(c, r) \<in> set (st_rounds st)" using assms cur by (auto simp: store_ok_def)
    from evict_keeps [OF this, of cap] cur show ?thesis by (force simp: pinned_def)
  qed
  ultimately show ?thesis
    using assms P by (auto simp: store_ok_def evict_rounds_current split: option.splits)
qed

lemma store_ok_persist: "store_ok st \<Longrightarrow> store_ok (persist cap st)"
  by (cases cap) (simp_all add: persist_def store_ok_evict)

lemma store_ok_get: "store_ok st \<Longrightarrow> map_of (st_rounds st) rid = Some r \<Longrightarrow> rs_round_id r = rid"
  by (auto simp: store_ok_def dest!: map_of_SomeD)

lemma store_ok_current: "store_ok st \<Longrightarrow> get_current_round st = Some r \<Longrightarrow> rs_round_id r = or_empty (st_current st)"
  by (auto simp: get_current_round_def dest: store_ok_get split: if_splits)

lemma sync_id [simp]: "rs_round_id (sync_incumbent now c r) = rs_round_id r" "rs_opened_epoch (sync_incumbent now c r) = rs_opened_epoch r"
  by (simp_all add: sync_incumbent_def Let_def)

lemma sync_opt_id [simp]: "rs_round_id (sync_opt now c r) = rs_round_id r" "rs_opened_epoch (sync_opt now c r) = rs_opened_epoch r"
  by (simp_all add: sync_opt_def split: option.split)

lemma apply_field_id [simp]: "rs_round_id (apply_field u r) = rs_round_id r" "rs_opened_epoch (apply_field u r) = rs_opened_epoch r"
  by (cases u; simp)+

lemma fold_field_id [simp]: "rs_round_id (fold apply_field us r) = rs_round_id r" "rs_opened_epoch (fold apply_field us r) = rs_opened_epoch r"
  by (induction us arbitrary: r) simp_all

lemma set_champion_opt_frame [simp]:
  "st_rounds (set_champion_opt c st) = st_rounds st" "st_current (set_champion_opt c st) = st_current st"
  by (simp_all add: set_champion_opt_def split: option.split)

lemma new_round_id [simp]: "rs_round_id (new_round rid status e a now) = rid" "rs_opened_epoch (new_round rid status e a now) = e"
  by (simp_all add: new_round_def)

lemma modify_ok:
  assumes "store_ok st" "\<And>r. rs_round_id (f r) = rs_round_id r"
  shows "store_ok (fst (modify_round cap rid f st))"
  using assms by (auto simp: modify_round_def split: option.split intro!: store_ok_persist store_ok_put dest: store_ok_get)

lemma open_fresh_ok:
  assumes "store_ok st"
  shows "store_ok (fst (open_fresh cap now epoch inc st))"
proof -
  have "store_ok (set_champion_opt inc st)" using assms by (simp add: store_ok_frame [of "set_champion_opt inc st" st])
  then show ?thesis by (simp add: open_fresh_def Let_def store_ok_persist store_ok_put_current)
qed

lemma ensure_open_ok:
  assumes "store_ok st"
  shows "store_ok (fst (ensure_open_round cap now epoch inc st))"
proof -
  have "store_ok (put_round (or_empty (st_current st)) (sync_incumbent now (Some c) cur) (st\<lparr>st_active := c\<rparr>))"
    if "get_current_round st = Some cur" for cur c
    using assms store_ok_current [OF assms that] by (intro store_ok_put) (simp_all add: store_ok_def split: option.splits)
  with assms show ?thesis
    by (auto simp: ensure_open_round_def Let_def open_fresh_ok store_ok_persist split: option.split)
qed

lemma supersede_ok: "store_ok st \<Longrightarrow> store_ok (supersede now rid st)"
  by (auto simp: supersede_def split: option.split intro!: store_ok_put dest: store_ok_current)

lemma adopt_ok:
  assumes "store_ok st"
  shows "store_ok (fst (adopt_round cap now rid epoch status inc us st))"
proof -
  let ?st1 = "supersede now rid st"
  have ok: "store_ok ?st1" using assms by (rule supersede_ok)
  then have "store_ok (set_champion_opt inc ?st1)" by (simp add: store_ok_frame [of "set_champion_opt inc ?st1" ?st1])
  moreover have "rs_round_id (case map_of (st_rounds ?st1) rid of None \<Rightarrow> new_round rid status epoch None now
      | Some r \<Rightarrow> r\<lparr>rs_opened_epoch := epoch, rs_status := status, rs_updated_at := now\<rparr>) = rid"
    using ok by (auto split: option.split dest: store_ok_get)
  ultimately show ?thesis by (simp add: adopt_round_def Let_def store_ok_persist store_ok_put_current)
qed

lemma rs_apply_ok:
  assumes "store_ok st"
  shows "store_ok (rs_apply cap op st)"
proof (cases op)
  case (Op_next now epoch inc)
  then show ?thesis
    using assms ensure_open_ok [OF assms, of cap now epoch inc]
    by (auto simp: open_next_round_def split: option.split)
next
  case (Op_close now a)
  then show ?thesis
    using assms by (auto simp: close_current_round_def Let_def split: option.split intro!: store_ok_persist store_ok_put dest: store_ok_current)
next
  case (Op_veto now rid summary)
  then show ?thesis
    using assms by (auto simp: set_round_veto_observe_def Let_def split: option.split intro!: store_ok_persist store_ok_put dest: store_ok_get)
next
  case (Op_pins now rid pins)
  then show ?thesis
    using assms by (auto simp: set_round_fork_pins_def Let_def split: option.split intro!: store_ok_persist store_ok_put dest: store_ok_get)
next
  case (Op_champion now c sync)
  have "store_ok (st\<lparr>st_active := c\<rparr>)" using assms by (simp add: store_ok_def split: option.splits)
  with Op_champion show ?thesis
    by (auto simp: set_active_champion_def Let_def split: option.split intro!: store_ok_persist store_ok_put dest: store_ok_current)
next
  case (Op_previous c)
  have "store_ok (st\<lparr>st_previous := c\<rparr>)" using assms by (simp add: store_ok_def split: option.splits)
  with Op_previous show ?thesis by (simp add: set_previous_champion_def store_ok_persist)
next
  case (Op_bar sid outs t)
  have "store_ok (st\<lparr>st_bar := b\<rparr>)" for b using assms by (simp add: store_ok_def split: option.splits)
  with Op_bar show ?thesis by (simp add: set_champion_adoption_bar_def store_ok_persist)
qed (simp_all add: assms ensure_open_ok adopt_ok set_round_status_def set_round_finalist_def certify_round_def
    activate_round_def abort_round_def mark_self_verified_def set_benched_slate_def modify_ok)

lemma reach_store_ok: "rs_reach cap st \<Longrightarrow> store_ok st"
proof (induction rule: rs_reach.induct)
  case init
  show ?case by (simp add: store_ok_def new_store_def)
qed (rule rs_apply_ok)

section \<open>Eviction\<close>

lemma length_filter_keys:
  assumes "wf_dict d"
  shows "length (filter (\<lambda>p. fst p \<in> set ks) d) \<le> length ks"
proof -
  have "length (filter (\<lambda>p. fst p \<in> set ks) d) = card (set (map fst (filter (\<lambda>p. fst p \<in> set ks) d)))"
    using assms by (subst distinct_card) (auto simp: distinct_map_filter)
  also have "\<dots> \<le> card (set ks)" by (intro card_mono) auto
  also have "\<dots> \<le> length ks" by (rule card_length)
  finally show ?thesis .
qed

lemma survivors_length:
  "int (length (survivors cap st)) \<le> max cap (int (length (filter (protected_round st) (st_rounds st))))"
  by (auto simp: survivors_def Let_def)

lemma sort_key_take_drop:
  assumes "p \<in> set (drop n (rev (sort_key f xs)))" "q \<in> set (take n (rev (sort_key f xs)))"
  shows "f p \<le> f q"
proof -
  have "sorted_wrt (\<lambda>x y. f x \<ge> f y) (rev (sort_key f xs))"
    unfolding sorted_wrt_rev using sorted_sort_key [of f xs] by (simp add: sorted_map)
  then have "sorted_wrt (\<lambda>x y. f x \<ge> f y) (take n (rev (sort_key f xs)) @ drop n (rev (sort_key f xs)))" by simp
  with assms show ?thesis unfolding sorted_wrt_append by blast
qed

lemma evicted_rank:
  assumes "wf_dict (st_rounds st)" "p \<in> set (st_rounds st)" "p \<notin> set (st_rounds (evict_rounds cap st))"
    and "q \<in> set (st_rounds (evict_rounds cap st))" "\<not> protected_round st q"
  shows "rank p < rank q"
proof -
  let ?un = "filter (\<lambda>p. \<not> protected_round st p) (st_rounds st)"
  let ?ranked = "rev (sort_key rank ?un)"
  let ?room = "cap - int (length (filter (protected_round st) (st_rounds st)))"
  have ev: "st_rounds (evict_rounds cap st) = filter (\<lambda>p. fst p \<in> set (survivors cap st)) (st_rounds st)"
    using assms(2,3) by (auto simp: evict_rounds_def split: if_splits)
  have keys: "x = y" if "x \<in> set (st_rounds st)" "y \<in> set (st_rounds st)" "fst x = fst y" for x y
    using assms(1) that by (metis eq_key_imp_eq_value prod.collapse)
  have sub: "set (take n ?ranked) \<subseteq> set (st_rounds st)" for n
    by (auto dest!: in_set_takeD)
  have qin: "q \<in> set (st_rounds st)" "fst q \<in> set (survivors cap st)" using assms(4) unfolding ev by auto
  have np: "fst q \<notin> fst ` set (filter (protected_round st) (st_rounds st))"
  proof
    assume "fst q \<in> fst ` set (filter (protected_round st) (st_rounds st))"
    then obtain x where "x \<in> set (st_rounds st)" "protected_round st x" "fst q = fst x" by auto
    with keys [OF qin(1), of x] assms(5) show False by simp
  qed
  then have room: "0 < ?room" and "fst q \<in> fst ` set (take (nat ?room) ?ranked)"
    using qin(2) by (auto simp: survivors_def Let_def split: if_splits)
  then obtain x where "x \<in> set (take (nat ?room) ?ranked)" "fst q = fst x" by auto
  with keys [OF qin(1), of x] sub [of "nat ?room"] have q: "q \<in> set (take (nat ?room) ?ranked)" by auto
  have "p \<notin> set (take (nat ?room) ?ranked)" "\<not> protected_round st p"
    using assms(2,3) room unfolding ev by (auto simp: survivors_def Let_def)
  moreover from this have "p \<in> set ?ranked" using assms(2) by simp
  moreover have "set ?ranked = set (take (nat ?room) ?ranked) \<union> set (drop (nat ?room) ?ranked)"
    by (metis append_take_drop_id set_append)
  ultimately have "p \<in> set (drop (nat ?room) ?ranked)" by blast
  from sort_key_take_drop [OF this q] have "rank p \<le> rank q" .
  moreover have "fst p \<noteq> fst q" using keys [of p q] assms(2,3,4) ev by auto
  then have "rank p \<noteq> rank q" by (auto simp: rank_def)
  ultimately show ?thesis by (simp add: order_less_le)
qed

section \<open>Fresh round ids\<close>

definition shape :: "round_store \<Rightarrow> (string \<times> int) list" where
  "shape st = map (\<lambda>(rid, r). (rid, rs_opened_epoch r)) (st_rounds st)"

lemma shape_update:
  "map_of d k = Some v0 \<Longrightarrow> f v = f v0 \<Longrightarrow> map (\<lambda>(k, v). (k, f v)) (AList.update k v d) = map (\<lambda>(k, v). (k, f v)) d"
  by (induction d) auto

lemma shape_put: "map_of (st_rounds st) rid = Some r0 \<Longrightarrow> rs_opened_epoch r = rs_opened_epoch r0 \<Longrightarrow> shape (put_round rid r st) = shape st"
  by (simp add: shape_def put_round_def shape_update)

lemma shape_put_current:
  "get_current_round st = Some r0 \<Longrightarrow> rs_opened_epoch r = rs_opened_epoch r0 \<Longrightarrow> st_rounds st' = st_rounds st \<Longrightarrow>
   shape (put_round (or_empty (st_current st)) r st') = shape st"
  by (auto simp: get_current_round_def shape_def put_round_def shape_update split: if_splits)

text \<open>The ids of the newest epoch are numbered without a gap.\<close>

definition dense :: "int \<Rightarrow> (string \<times> int) list \<Rightarrow> bool" where
  "dense E sh \<longleftrightarrow> 0 \<le> E \<and> (\<forall>(rid, e) \<in> set sh. 0 \<le> e \<and> e \<le> E \<and> (\<exists>k. rid = round_id_text e k))
     \<and> (\<forall>rid. (rid, E) \<in> set sh \<longrightarrow> (\<exists>k \<le> length (filter (\<lambda>(_, e). e = E) sh). rid = round_id_text E k))"

lemma dense_later:
  assumes "dense E sh" "E \<le> e"
  shows "dense e sh"
proof (cases "e = E")
  case False
  with assms have "E < e" by simp
  then have "(rid, e) \<notin> set sh" for rid using assms(1) by (auto simp: dense_def)
  with assms \<open>E < e\<close> show ?thesis by (fastforce simp: dense_def)
qed (use assms in simp)

lemma count_shape: "build_round_id e st = round_id_text e (length (filter (\<lambda>(_, x). x = e) (shape st)) + 1)"
  by (simp add: build_round_id_def shape_def filter_map comp_def case_prod_beta)

lemma dense_fresh:
  assumes "dense E (shape st)" "E \<le> e"
  shows "build_round_id e st \<notin> set (keys_of (st_rounds st))"
proof
  assume "build_round_id e st \<in> set (keys_of (st_rounds st))"
  then obtain x where x: "(build_round_id e st, x) \<in> set (shape st)" by (force simp: shape_def)
  have d: "dense e (shape st)" using dense_later [OF assms] .
  then obtain k where "0 \<le> x" "0 \<le> e" "build_round_id e st = round_id_text x k" using x by (auto simp: dense_def)
  then have "x = e" unfolding count_shape by (metis epoch_of_round_id_text option.inject)
  with d x obtain k' where "k' \<le> length (filter (\<lambda>(_, x). x = e) (shape st))" "build_round_id e st = round_id_text e k'"
    by (auto simp: dense_def)
  then show False unfolding count_shape by (metis round_id_text_inj Suc_eq_plus1 Suc_n_not_le_n)
qed

lemma dense_append: "dense e sh \<Longrightarrow> dense e (sh @ [(round_id_text e (length (filter (\<lambda>(_, x). x = e) sh) + 1), e)])"
  by (auto simp: dense_def) (meson le_Suc_eq)+

lemma max_epoch_eq:
  assumes "(rid, E) \<in> set (shape st)" "\<forall>(rid, e) \<in> set (shape st). e \<le> E"
  shows "max_epoch st = E"
proof -
  have "E \<in> set (map rs_opened_epoch (vals_of (st_rounds st)))" "\<forall>e \<in> set (map rs_opened_epoch (vals_of (st_rounds st))). e \<le> E"
    using assms by (force simp: shape_def)+
  then have "Max (set (map rs_opened_epoch (vals_of (st_rounds st)))) = E" by (intro Max_eqI) auto
  moreover have "st_rounds st \<noteq> []" using assms(1) by (auto simp: shape_def)
  ultimately show ?thesis by (simp add: max_epoch_def)
qed

lemma filter_shape:
  "filter (\<lambda>(_, e). e = E) (shape st) = map (\<lambda>(rid, r). (rid, rs_opened_epoch r)) (filter (\<lambda>(_, r). rs_opened_epoch r = E) (st_rounds st))"
  by (simp add: shape_def filter_map comp_def case_prod_unfold)

lemma evict_newest:
  assumes "\<forall>(rid, e) \<in> set (shape st). e \<le> E"
  shows "filter (\<lambda>(_, e). e = E) (shape (evict_rounds cap st)) = filter (\<lambda>(_, e). e = E) (shape st)"
proof -
  obtain P where P: "st_rounds (evict_rounds cap st) = filter P (st_rounds st)" using evict_rounds_sub by blast
  have "P p" if p: "p \<in> set (st_rounds st)" "rs_opened_epoch (snd p) = E" for p
  proof -
    obtain rid r where "p = (rid, r)" by fastforce
    moreover from this have "max_epoch st = E" using p max_epoch_eq [OF _ assms, of rid] by (force simp: shape_def)
    ultimately show ?thesis using evict_keeps [of rid r st cap] p P by auto
  qed
  then have "filter (\<lambda>(_, r). rs_opened_epoch r = E) (filter P (st_rounds st)) = filter (\<lambda>(_, r). rs_opened_epoch r = E) (st_rounds st)"
    by (induction "st_rounds st") (auto simp: P case_prod_beta intro!: filter_cong)
  then show ?thesis unfolding filter_shape P by simp
qed

lemma dense_evict:
  assumes "dense E (shape st)"
  shows "dense E (shape (evict_rounds cap st))"
proof -
  have le: "\<forall>(rid, e) \<in> set (shape st). e \<le> E" using assms by (auto simp: dense_def)
  have sub: "set (shape (evict_rounds cap st)) \<subseteq> set (shape st)"
    using evict_rounds_sub [of cap st] by (auto simp: shape_def)
  with assms evict_newest [OF le, of cap] show ?thesis unfolding dense_def by fastforce
qed

lemma dense_persist: "dense E (shape st) \<Longrightarrow> dense E (shape (persist cap st))"
  by (cases cap) (simp_all add: persist_def dense_evict)

fun op_epoch :: "round_op \<Rightarrow> int option" where
  "op_epoch (Op_open now epoch inc) = Some epoch"
| "op_epoch (Op_next now epoch inc) = Some epoch"
| "op_epoch _ = None"

fun adopts_round :: "round_op \<Rightarrow> bool" where
  "adopts_round (Op_adopt now rid epoch status inc us) = True"
| "adopts_round _ = False"

text \<open>Stores of a node that opens its rounds itself, at epochs that do not decrease; \<open>E\<close> is the last one.\<close>

inductive local_reach :: "int option \<Rightarrow> int \<Rightarrow> round_store \<Rightarrow> bool" for cap :: "int option" where
  init: "local_reach cap 0 new_store"
| step: "local_reach cap E st \<Longrightarrow> op_epoch op = None \<Longrightarrow> \<not> adopts_round op \<Longrightarrow> local_reach cap E (rs_apply cap op st)"
| opened: "local_reach cap E st \<Longrightarrow> op_epoch op = Some e \<Longrightarrow> E \<le> e \<Longrightarrow> local_reach cap e (rs_apply cap op st)"

definition same_shape :: "int option \<Rightarrow> round_store \<Rightarrow> round_store \<Rightarrow> bool" where
  "same_shape cap st st' \<longleftrightarrow> (\<exists>st1. shape st1 = shape st \<and> st' \<in> {st1, persist cap st1})"

lemma same_shape_refl: "same_shape cap st st"
  by (auto simp: same_shape_def)

lemma same_shape_persist: "shape st1 = shape st \<Longrightarrow> same_shape cap st (persist cap st1)"
  by (auto simp: same_shape_def)

lemma modify_shape:
  assumes "\<And>r. rs_opened_epoch (f r) = rs_opened_epoch r"
  shows "same_shape cap st (fst (modify_round cap rid f st))"
  using assms by (auto simp: modify_round_def shape_put same_shape_refl same_shape_persist split: option.split)

lemmas same_shape_intros = same_shape_refl same_shape_persist shape_put_current shape_put

lemma step_shape:
  assumes "op_epoch op = None" "\<not> adopts_round op"
  shows "same_shape cap st (rs_apply cap op st)"
proof (cases op)
  case (Op_close now a)
  then show ?thesis
    by (auto simp: close_current_round_def Let_def same_shape_intros split: option.split)
next
  case (Op_veto now rid summary)
  then show ?thesis by (auto simp: set_round_veto_observe_def Let_def same_shape_intros split: option.split)
next
  case (Op_pins now rid pins)
  then show ?thesis by (auto simp: set_round_fork_pins_def Let_def same_shape_intros split: option.split)
next
  case (Op_champion now c sync)
  have g: "get_current_round (st\<lparr>st_active := c\<rparr>) = get_current_round st" by (simp add: get_current_round_def)
  have sh: "shape (st\<lparr>st_active := c\<rparr>) = shape st" by (simp add: shape_def)
  show ?thesis
  proof (cases "get_current_round st")
    case (Some cur)
    have "shape (put_round (or_empty (st_current st)) (sync_incumbent now (Some c) cur) (st\<lparr>st_active := c\<rparr>)) = shape st"
      by (rule shape_put_current [OF Some]) simp_all
    with Some g sh Op_champion show ?thesis by (auto simp: set_active_champion_def Let_def intro!: same_shape_persist)
  qed (use g sh Op_champion in \<open>simp add: set_active_champion_def same_shape_persist\<close>)
next
  case (Op_previous c)
  then show ?thesis by (simp add: set_previous_champion_def same_shape_persist shape_def)
next
  case (Op_bar sid outs t)
  then show ?thesis by (simp add: set_champion_adoption_bar_def same_shape_persist shape_def)
qed (use assms in \<open>simp_all add: set_round_status_def set_round_finalist_def certify_round_def
    activate_round_def abort_round_def mark_self_verified_def set_benched_slate_def modify_shape\<close>)

lemma open_fresh_dense:
  assumes "dense E (shape st)" "E \<le> e"
  shows "dense e (shape (fst (open_fresh cap now e inc st)))"
proof -
  have "shape ((put_round (build_round_id e st) r (set_champion_opt inc st))\<lparr>st_current := c\<rparr>) = shape st @ [(build_round_id e st, e)]"
    if "rs_opened_epoch r = e" for r c
    using dense_fresh [OF assms] that by (simp add: shape_def put_round_def update_fresh)
  with dense_append [OF dense_later [OF assms]] show ?thesis
    by (simp add: open_fresh_def Let_def dense_persist count_shape)
qed

lemma ensure_open_dense:
  assumes "dense E (shape st)" "E \<le> e"
  shows "dense e (shape (fst (ensure_open_round cap now e inc st)))"
proof (cases "get_current_round st")
  case (Some cur)
  have "shape (put_round (or_empty (st_current st)) (sync_incumbent now (Some c) cur) (st\<lparr>st_active := c\<rparr>)) = shape st" for c
    by (rule shape_put_current [OF Some]) simp_all
  with Some dense_later [OF assms] open_fresh_dense [OF assms] show ?thesis
    by (auto simp: ensure_open_round_def Let_def dense_persist split: option.split)
qed (use open_fresh_dense [OF assms] in \<open>simp add: ensure_open_round_def\<close>)

lemma local_dense: "local_reach cap E st \<Longrightarrow> dense E (shape st)"
proof (induction rule: local_reach.induct)
  case init
  show ?case by (simp add: dense_def shape_def new_store_def)
next
  case (step E st op)
  from step_shape [OF step.hyps(2,3), of cap st] obtain st1 where "shape st1 = shape st" "rs_apply cap op st \<in> {st1, persist cap st1}"
    unfolding same_shape_def by blast
  with step.IH show ?case using dense_persist by auto
next
  case (opened E st op e)
  show ?case
  proof (cases op)
    case (Op_next now epoch inc)
    with opened ensure_open_dense [OF opened.IH opened.hyps(3)] dense_later [OF opened.IH opened.hyps(3)] show ?thesis
      by (auto simp: open_next_round_def split: option.split)
  qed (use opened ensure_open_dense [OF opened.IH opened.hyps(3)] in auto)
qed

section \<open>Fork pins\<close>

lemma persist_get:
  assumes "store_ok st" "map_of (st_rounds (persist cap st)) rid = Some r"
  shows "map_of (st_rounds st) rid = Some r"
proof (cases cap)
  case (Some c)
  obtain P where "st_rounds (evict_rounds c st) = filter P (st_rounds st)" using evict_rounds_sub by blast
  with assms Some show ?thesis
    by (auto simp: persist_def store_ok_def dest!: map_of_SomeD intro!: map_of_is_SomeI)
qed (use assms in \<open>simp add: persist_def\<close>)

definition pinned_to :: "string \<Rightarrow> (int \<Rightarrow> int option) \<Rightarrow> round_store \<Rightarrow> bool" where
  "pinned_to rid m st \<longleftrightarrow> (\<forall>r. map_of (st_rounds st) rid = Some r \<longrightarrow> (\<exists>e. rs_fork_pins r = Some e \<and> e \<noteq> [] \<and> map_of e = m))"

lemma set_pins_ok: "store_ok st \<Longrightarrow> store_ok (fst (set_round_fork_pins cap now rid pins st))"
  using rs_apply_ok [of st cap "Op_pins now rid pins"] by simp

lemma set_pins_keeps:
  assumes "store_ok st" "pinned_to rid m st" "pins \<noteq> []"
  shows "pinned_to rid m (fst (set_round_fork_pins cap now rid (Some pins) st))"
proof (cases "map_of (st_rounds st) rid")
  case (Some r)
  then obtain e where e: "rs_fork_pins r = Some e" "e \<noteq> []" "map_of e = m" using assms(2) by (auto simp: pinned_to_def)
  show ?thesis
  proof (cases "map_of pins = m")
    case True
    let ?r = "r\<lparr>rs_fork_pins := Some pins, rs_updated_at := now\<rparr>"
    have ok: "store_ok (put_round rid ?r st)" using assms(1) Some by (intro store_ok_put) (auto dest: store_ok_get)
    have "r' = ?r" if "map_of (st_rounds (persist cap (put_round rid ?r st))) rid = Some r'" for r'
      using persist_get [OF ok that] by (simp add: put_round_def update_conv')
    with True Some e assms(3) show ?thesis
      by (auto simp: set_round_fork_pins_def Let_def pins_differ_def dict_eq_iff pinned_to_def)
  next
    case False
    with Some e assms(2,3) show ?thesis by (simp add: set_round_fork_pins_def Let_def pins_differ_def dict_eq_iff)
  qed
qed (use assms(2) in \<open>simp add: set_round_fork_pins_def\<close>)

section \<open>Samples\<close>

definition sample_close :: "int \<Rightarrow> close_args" where
  "sample_close e = \<lparr>cl_epoch = e, cl_pack_hash = Some ''p'', cl_committee_block = None, cl_committee_hash = None,
     cl_quorum_required = Some 2, cl_decision_deadline = None, cl_effective_epoch = None\<rparr>"

definition sample_store :: round_store where
  "sample_store = fold (rs_apply (Some 2))
     [Op_open 600 5 None, Op_close 660 (sample_close 6), Op_next 720 6 None, Op_close 730 (sample_close 7), Op_open 740 7 None] new_store"

lemma sample_store_reach: "rs_reach (Some 2) sample_store"
  unfolding sample_store_def by (simp del: rs_apply.simps) (intro rs_reach.intros)

definition sample_pinned :: round_store where
  "sample_pinned = rs_apply (Some 2) (Op_pins 7 ''round-e7-n1'' (Some [(1, 5)])) sample_store"

lemma sample_pinned_reach: "rs_reach (Some 2) sample_pinned"
  unfolding sample_pinned_def by (rule rs_reach.step [OF sample_store_reach])

lemma sample_store_ids: "map fst (st_rounds sample_store) = [''round-e6-n1'', ''round-e7-n1'']"
  by code_simp

section \<open>Properties\<close>

text \<open>Claim C33: after every sequence of store operations, adoptions and evictions included, each round is
  stored once and under its own id, and the current round, if any, is in the store.\<close>

theorem round_store_invariant:
  assumes "rs_reach cap st"
  shows "wf_dict (st_rounds st) \<and> (\<forall>(rid, r) \<in> set (st_rounds st). rs_round_id r = rid) \<and>
    (\<forall>c. st_current st = Some c \<longrightarrow> c \<in> set (keys_of (st_rounds st)))"
  using reach_store_ok [OF assms] by (auto simp: store_ok_def)

theorem round_store_invariant_witness:
  "st_current sample_store = Some ''round-e7-n1'' \<and> ''round-e7-n1'' \<in> set (keys_of (st_rounds sample_store))"
proof -
  have "st_current sample_store = Some ''round-e7-n1''" by code_simp
  with round_store_invariant [OF sample_store_reach] show ?thesis by blast
qed

text \<open>Claim C4: eviction never drops the current round, the round of the active or of the previous champion or a
  round of the newest epoch; it leaves at most the cap or the number of protected rounds, whichever
  is larger; and every round it drops is older, by opening epoch, then creation time, then id, than
  every unprotected round it keeps.\<close>

theorem eviction_protects_and_bounds:
  assumes "rs_reach c st" "0 < cap"
  shows "(\<forall>(rid, r) \<in> set (st_rounds st). pinned st rid \<or> max_epoch st \<le> rs_opened_epoch r \<longrightarrow>
            (rid, r) \<in> set (st_rounds (evict_rounds cap st))) \<and>
    set (st_rounds (evict_rounds cap st)) \<subseteq> set (st_rounds st) \<and>
    int (length (st_rounds (evict_rounds cap st))) \<le> max cap (int (length (filter (protected_round st) (st_rounds st)))) \<and>
    (\<forall>p \<in> set (st_rounds st) - set (st_rounds (evict_rounds cap st)).
       \<forall>q \<in> set (st_rounds (evict_rounds cap st)). \<not> protected_round st q \<longrightarrow> rank p < rank q)"
proof -
  have wf: "wf_dict (st_rounds st)" using reach_store_ok [OF assms(1)] by (simp add: store_ok_def)
  have "int (length (st_rounds (evict_rounds cap st))) \<le> max cap (int (length (filter (protected_round st) (st_rounds st))))"
    using survivors_length [of cap st] length_filter_keys [OF wf, of "survivors cap st"] assms(2)
    by (auto simp: evict_rounds_def)
  moreover have "set (st_rounds (evict_rounds cap st)) \<subseteq> set (st_rounds st)"
    using evict_rounds_sub [of cap st] by auto
  ultimately show ?thesis using evict_keeps [of _ _ st cap] evicted_rank [OF wf, of _ cap] by blast
qed

theorem eviction_protects_and_bounds_witness:
  "int (length (st_rounds (evict_rounds 1 sample_store))) \<le> max 1 (int (length (filter (protected_round sample_store) (st_rounds sample_store))))"
  using eviction_protects_and_bounds [OF sample_store_reach, of 1] by simp

text \<open>Property: a node that opens its rounds itself, at epochs that never decrease, never gives a round id
  twice: the id of the next round is not in the store, whatever was closed, certified, aborted or
  evicted before.\<close>

theorem next_round_id_is_fresh:
  assumes "local_reach cap E st" "E \<le> epoch"
  shows "get_round (build_round_id epoch st) st = None"
  using dense_fresh [OF local_dense [OF assms(1)] assms(2)] by (simp add: get_round_def map_of_eq_None_iff)

theorem next_round_id_is_fresh_witness:
  "get_round (build_round_id 7 (rs_apply (Some 2) (Op_open 600 5 None) new_store)) (rs_apply (Some 2) (Op_open 600 5 None) new_store) = None"
  by (rule next_round_id_is_fresh [OF local_reach.opened [OF local_reach.init, of _ 5]]) simp_all

definition sample_cert :: champion_certificate where
  "sample_cert = \<lparr>cc_round_id = ''round-e5-n2'', cc_committee_hash = None, cc_candidate_submission_id = Some ''s'',
     cc_candidate_image_id = None, cc_incumbent_image_id = None, cc_benchmark_pack_hash = None,
     cc_shadow_case_log_hash = None, cc_effective_epoch = 6, cc_quorum_required = 1, cc_approvals = [], cc_certified_at = 1\<rparr>"

text \<open>Property: an adopted round breaks the numbering: a node that adopted the leader's second round of epoch 5
  and then opens a round at the same epoch builds the id of the adopted round again and overwrites it,
  its certificate included.\<close>

theorem reopened_id_overwrites_adopted_round:
  "let st = fold (rs_apply None) [Op_adopt 300 ''round-e5-n2'' 5 R_CLOSED None [], Op_certify 310 ''round-e5-n2'' sample_cert,
              Op_activate 320 ''round-e5-n2'' 6] new_store;
       st' = rs_apply None (Op_next 330 5 None) st
   in map_option rs_status (get_round ''round-e5-n2'' st) = Some R_ACTIVATED \<and>
      map_option (\<lambda>r. (rs_status r, rs_certificate r = None)) (get_round ''round-e5-n2'' st') = Some (R_OPEN, True)"
  by code_simp

text \<open>Property: once a round has non-empty fork pins, no sequence of calls of \<open>set_round_fork_pins\<close> with
  non-empty pins changes them.\<close>

theorem fork_pins_fixed_once_set:
  assumes "rs_reach c st" "get_round rid st = Some r" "rs_fork_pins r = Some e" "e \<noteq> []"
    and "\<forall>(now, pins) \<in> set calls. pins \<noteq> []"
    and "get_round rid (fold (\<lambda>(now, pins) s. fst (set_round_fork_pins cap now rid (Some pins) s)) calls st) = Some r'"
  shows "\<exists>e'. rs_fork_pins r' = Some e' \<and> map_of e' = map_of e"
proof -
  have "store_ok s \<and> pinned_to rid (map_of e) s \<Longrightarrow> \<forall>(now, pins) \<in> set calls. pins \<noteq> [] \<Longrightarrow>
      pinned_to rid (map_of e) (fold (\<lambda>(now, pins) s. fst (set_round_fork_pins cap now rid (Some pins) s)) calls s)" for s
    by (induction calls arbitrary: s) (auto simp: set_pins_ok set_pins_keeps)
  moreover have "store_ok st \<and> pinned_to rid (map_of e) st"
    using reach_store_ok [OF assms(1)] assms(2,3,4) by (simp add: pinned_to_def get_round_def)
  ultimately have "pinned_to rid (map_of e) (fold (\<lambda>(now, pins) s. fst (set_round_fork_pins cap now rid (Some pins) s)) calls st)"
    using assms(5) by blast
  then show ?thesis using assms(6) unfolding pinned_to_def get_round_def by blast
qed

theorem fork_pins_fixed_once_set_witness:
  "\<exists>r' e'. get_round ''round-e7-n1'' (fst (set_round_fork_pins None 8 ''round-e7-n1'' (Some [(1, 9)]) sample_pinned)) = Some r' \<and>
     rs_fork_pins r' = Some e' \<and> map_of e' = map_of [(1, 5)]"
proof -
  have "map_option rs_fork_pins (get_round ''round-e7-n1'' sample_pinned) = Some (Some [(1, 5)])" by code_simp
  then obtain r where r: "get_round ''round-e7-n1'' sample_pinned = Some r" "rs_fork_pins r = Some [(1, 5)]" by auto
  have "get_round ''round-e7-n1'' (fst (set_round_fork_pins None 8 ''round-e7-n1'' (Some [(1, 9)]) sample_pinned)) \<noteq> None"
    by code_simp
  then obtain r' where r': "get_round ''round-e7-n1'' (fst (set_round_fork_pins None 8 ''round-e7-n1'' (Some [(1, 9)]) sample_pinned)) = Some r'"
    by auto
  with fork_pins_fixed_once_set [OF sample_pinned_reach r, of "[(8, [(1, 9)])]" None r'] show ?thesis by auto
qed

text \<open>Property: the pins of a round are nevertheless not fixed: clearing them and setting others, or adopting
  the round with other pins, replaces them.\<close>

theorem fork_pins_replaced_through_clear:
  "let st = sample_pinned;
       cleared = fold (rs_apply (Some 2)) [Op_pins 8 ''round-e7-n1'' None, Op_pins 9 ''round-e7-n1'' (Some [(1, 9)])] st;
       adopted = rs_apply (Some 2) (Op_adopt 8 ''round-e7-n1'' 7 R_CLOSED None [U_fork_pins [(1, 9)]]) st
   in map_option rs_fork_pins (get_round ''round-e7-n1'' st) = Some (Some [(1, 5)]) \<and>
      map_option rs_fork_pins (get_round ''round-e7-n1'' cleared) = Some (Some [(1, 9)]) \<and>
      map_option rs_fork_pins (get_round ''round-e7-n1'' adopted) = Some (Some [(1, 9)])"
  by code_simp

text \<open>Property: what \<open>_persist\<close> writes \<open>_load\<close> reads back: a store whose rounds have their time stamps set and
  no empty pin dict comes back unchanged after a restart.\<close>

theorem persisted_store_reloads:
  assumes "rs_reach cap st" "\<forall>(rid, r) \<in> set (st_rounds st). storable r"
  shows "load_store now (store_to_json st) new_store = st"
proof -
  have ok: "store_ok st" using reach_store_ok [OF assms(1)] .
  have "load_round now (rid, JObj (round_to_dict r)) = Inr (rid, r)" if "(rid, r) \<in> set (st_rounds st)" for rid r
  proof -
    have "storable r" using assms(2) that by auto
    moreover have "map_of (round_to_dict r) ''round_id'' \<noteq> None" by (simp add: round_to_dict_def)
    ultimately show ?thesis by (auto simp: load_round_def round_roundtrip)
  qed
  then have "res_map (load_round now) (map (\<lambda>(rid, r). (rid, JObj (round_to_dict r))) (st_rounds st)) = Inr (st_rounds st)"
    by (intro res_map_inverse) auto
  moreover have "(case st_current st of None \<Rightarrow> None | Some c \<Rightarrow> if c \<in> set (keys_of (st_rounds st)) then Some c else None) = st_current st"
    using ok by (auto simp: store_ok_def split: option.splits)
  ultimately show ?thesis
    by (simp add: load_store_def read_store_def store_to_json_def json_simps snapshot_roundtrip)
qed

theorem persisted_store_reloads_witness:
  "load_store 5 (store_to_json sample_store) new_store = sample_store"
proof -
  have "list_all (\<lambda>(rid, r). storable r) (st_rounds sample_store)" by code_simp
  then show ?thesis by (intro persisted_store_reloads [OF sample_store_reach]) (simp add: list_all_iff)
qed

text \<open>Property: the epoch that \<open>opened_epoch_from_round_id\<close> reads from a round id is the epoch the id was built
  for.\<close>

theorem round_id_carries_epoch:
  assumes "0 \<le> epoch"
  shows "opened_epoch_from_round_id (Some (build_round_id epoch st)) = Some epoch"
  using epoch_of_round_id_text [OF assms] by (simp add: build_round_id_def)

theorem round_id_carries_epoch_witness:
  "opened_epoch_from_round_id (Some (build_round_id 29724975 new_store)) = Some 29724975"
  by (rule round_id_carries_epoch) simp

end
