(* ===== verification/Veto.thy ===== *)
theory Veto
  imports Json
begin

text \<open>
  The distributed benchmark veto of \<open>epoch/distributed_veto.py\<close>: the signed slice assignments, the
  responses of the followers, the resolution of a phase and the plan of the leader's re-verification.

  \<open>sha256\<close> stands for \<open>_sha256_hex\<close> and is an argument of every definition that hashes, so the
  theorems hold for every hash function; where collisions matter this is a hypothesis.
\<close>

section \<open>Constants\<close>

definition VETO_VERIFY_BUDGET_ORDERS :: int where "VETO_VERIFY_BUDGET_ORDERS = 10"
definition VETO_AUDIT_ORDERS :: int where "VETO_AUDIT_ORDERS = 3"
definition MAX_VIOLATIONS_PER_RESPONSE :: nat where "MAX_VIOLATIONS_PER_RESPONSE = 64"
definition MAX_CALIBRATION_ROWS :: nat where "MAX_CALIBRATION_ROWS = 16"

definition VIOLATION_CATASTROPHIC :: string where "VIOLATION_CATASTROPHIC = ''catastrophic''"
definition VIOLATION_DROPPED :: string where "VIOLATION_DROPPED = ''dropped''"
definition VIOLATION_KINDS :: "string list" where
  "VIOLATION_KINDS = [VIOLATION_CATASTROPHIC, VIOLATION_DROPPED]"

definition STATUS_COMPLETED :: string where "STATUS_COMPLETED = ''completed''"
definition STATUS_FAILED :: string where "STATUS_FAILED = ''failed''"
definition STATUS_REFUSED :: string where "STATUS_REFUSED = ''refused''"
definition RESPONSE_STATUSES :: "string list" where
  "RESPONSE_STATUSES = [STATUS_COMPLETED, STATUS_FAILED, STATUS_REFUSED]"

definition VERDICT_OK :: string where "VERDICT_OK = ''ok''"
definition VERDICT_VETO :: string where "VERDICT_VETO = ''veto''"

datatype phase_action = Action_Wait | Action_Resolve | Action_Noop

definition RESOLUTION_NO_ASSIGNMENTS :: string where "RESOLUTION_NO_ASSIGNMENTS = ''no_assignments''"
definition RESOLUTION_ALL_TERMINAL :: string where "RESOLUTION_ALL_TERMINAL = ''all_terminal''"
definition RESOLUTION_WINDOW_ELAPSED :: string where "RESOLUTION_WINDOW_ELAPSED = ''window_elapsed''"

lemmas veto_constants = VETO_VERIFY_BUDGET_ORDERS_def VETO_AUDIT_ORDERS_def
  MAX_VIOLATIONS_PER_RESPONSE_def MAX_CALIBRATION_ROWS_def VIOLATION_CATASTROPHIC_def
  VIOLATION_DROPPED_def VIOLATION_KINDS_def STATUS_COMPLETED_def STATUS_FAILED_def STATUS_REFUSED_def
  RESPONSE_STATUSES_def VERDICT_OK_def VERDICT_VETO_def RESOLUTION_NO_ASSIGNMENTS_def
  RESOLUTION_ALL_TERMINAL_def RESOLUTION_WINDOW_ELAPSED_def

section \<open>Violations\<close>

record slice_violation =
  sv_order_id :: string
  sv_kind :: string
  sv_champ_raw :: string
  sv_chal_raw :: string

definition violation_to_dict :: "slice_violation \<Rightarrow> json" where
  "violation_to_dict v = JObj
     [(''order_id'', JStr (sv_order_id v)), (''kind'', JStr (sv_kind v)),
      (''champ_raw'', JStr (sv_champ_raw v)), (''chal_raw'', JStr (sv_chal_raw v))]"

definition violation_from_dict :: "json \<Rightarrow> slice_violation res" where
  "violation_from_dict x = (case x of
     JObj d \<Rightarrow>
       res_bind (str_get d ''order_id'') (\<lambda>oid.
       res_bind (str_get d ''kind'') (\<lambda>kind.
       res_bind (str_get d ''champ_raw'') (\<lambda>champ.
       res_bind (str_get d ''chal_raw'') (\<lambda>chal.
       Inr \<lparr>sv_order_id = oid, sv_kind = kind, sv_champ_raw = champ, sv_chal_raw = chal\<rparr>))))
   | _ \<Rightarrow> Inl AttributeError)"

definition violation_severity_key :: "slice_violation \<Rightarrow> int \<times> int \<times> string" where
  "violation_severity_key v =
     (if sv_kind v = VIOLATION_DROPPED then (0, 0, sv_order_id v)
      else case (py_int (sv_champ_raw v), py_int (sv_chal_raw v)) of
        (Some champ, Some chal) \<Rightarrow>
          (let cut_bps = (if champ > 0 then (champ - chal) * 10000 div champ else 0)
           in (1, - cut_bps, sv_order_id v))
      | _ \<Rightarrow> (1, 0, sv_order_id v))"

section \<open>Assignments\<close>

record slice_assignment =
  sa_round_id :: string
  sa_slice_index :: int
  sa_validator_evm :: string
  sa_candidate_submission_id :: string
  sa_candidate_image_id :: string
  sa_incumbent_image_id :: string
  sa_candidate_image_ref :: string
  sa_incumbent_image_ref :: string
  sa_order_ids :: "string list"
  sa_order_hashes :: "(string \<times> string) list"
  sa_calibration_order_ids :: "string list"
  sa_fork_pins :: "(string \<times> int) list"
  sa_deadline_epoch :: int
  sa_leader_api_url :: string

definition slice_line :: "(string \<times> string) list \<Rightarrow> string \<Rightarrow> string" where
  "slice_line hashes oid = oid @ '':'' @ (case map_of hashes oid of None \<Rightarrow> [] | Some h \<Rightarrow> h)"

definition slice_hash :: "(string \<Rightarrow> string) \<Rightarrow> slice_assignment \<Rightarrow> string" where
  "slice_hash sha256 a = sha256 (py_join [CHR 0x0A] (map (slice_line (sa_order_hashes a)) (sa_order_ids a)))"

text \<open>\<open>_canonical\<close> of a dictionary that holds strings only, so no float is ever printed.\<close>

definition canonical_strs :: "(string \<times> string) list \<Rightarrow> string" where
  "canonical_strs kvs = dumps (\<lambda>_. []) (JObj (map (\<lambda>(k, s). (k, JStr s)) kvs))"

definition assignment_text :: "(string \<Rightarrow> string) \<Rightarrow> slice_assignment \<Rightarrow> string" where
  "assignment_text sha256 a = canonical_strs
     [(''round_id'', sa_round_id a), (''candidate_image_id'', sa_candidate_image_id a),
      (''slice_hash'', slice_hash sha256 a)]"

definition assignment_id :: "(string \<Rightarrow> string) \<Rightarrow> slice_assignment \<Rightarrow> string" where
  "assignment_id sha256 a = take 32 (sha256 (assignment_text sha256 a))"

definition assignment_to_payload :: "(string \<Rightarrow> string) \<Rightarrow> slice_assignment \<Rightarrow> (string \<times> json) list" where
  "assignment_to_payload sha256 a =
     [(''round_id'', JStr (sa_round_id a)), (''slice_index'', JInt (sa_slice_index a)),
      (''validator_evm'', JStr (lower (sa_validator_evm a))),
      (''candidate_submission_id'', JStr (sa_candidate_submission_id a)),
      (''candidate_image_id'', JStr (sa_candidate_image_id a)),
      (''incumbent_image_id'', JStr (sa_incumbent_image_id a)),
      (''candidate_image_ref'', JStr (sa_candidate_image_ref a)),
      (''incumbent_image_ref'', JStr (sa_incumbent_image_ref a)),
      (''order_ids'', JList (map JStr (sa_order_ids a))),
      (''order_hashes'', JObj (map (\<lambda>(k, v). (k, JStr v)) (sa_order_hashes a))),
      (''calibration_order_ids'', JList (map JStr (sa_calibration_order_ids a))),
      (''fork_pins'', JObj (map (\<lambda>(k, v). (k, JInt v)) (sa_fork_pins a))),
      (''deadline_epoch'', JInt (sa_deadline_epoch a)), (''leader_api_url'', JStr (sa_leader_api_url a)),
      (''slice_hash'', JStr (slice_hash sha256 a)), (''assignment_id'', JStr (assignment_id sha256 a))]"

definition assignment_from_payload :: "(string \<times> json) list \<Rightarrow> slice_assignment res" where
  "assignment_from_payload d =
     res_bind (str_get d ''round_id'') (\<lambda>v1.
     res_bind (int_get (- 1) d ''slice_index'') (\<lambda>v2.
     res_bind (str_get d ''validator_evm'') (\<lambda>v3.
     res_bind (str_get d ''candidate_submission_id'') (\<lambda>v4.
     res_bind (str_get d ''candidate_image_id'') (\<lambda>v5.
     res_bind (str_get d ''incumbent_image_id'') (\<lambda>v6.
     res_bind (str_get d ''candidate_image_ref'') (\<lambda>v7.
     res_bind (str_get d ''incumbent_image_ref'') (\<lambda>v8.
     res_bind (list_comp py_str (jget d ''order_ids'')) (\<lambda>v9.
     res_bind (dict_comp py_str (jget d ''order_hashes'')) (\<lambda>v10.
     res_bind (list_comp py_str (jget d ''calibration_order_ids'')) (\<lambda>v11.
     res_bind (dict_comp py_int_of (jget d ''fork_pins'')) (\<lambda>v12.
     res_bind (int_get 0 d ''deadline_epoch'') (\<lambda>v13.
     res_bind (str_get d ''leader_api_url'') (\<lambda>v14.
     Inr \<lparr>sa_round_id = v1, sa_slice_index = v2, sa_validator_evm = lower v3,
       sa_candidate_submission_id = v4, sa_candidate_image_id = v5, sa_incumbent_image_id = v6,
       sa_candidate_image_ref = v7, sa_incumbent_image_ref = v8, sa_order_ids = v9, sa_order_hashes = v10,
       sa_calibration_order_ids = v11, sa_fork_pins = v12, sa_deadline_epoch = v13,
       sa_leader_api_url = v14\<rparr>))))))))))))))"

text \<open>The verdict of the integrity check: \<open>(True, "")\<close> or \<open>(False, reason)\<close>.\<close>

datatype integrity =
    Intact
  | Malformed py_exc
  | Slice_Hash_Mismatch
  | Assignment_Id_Mismatch
  | Empty_Slice
  | Calibration_Overlap
  | Hash_Keys_Mismatch

text \<open>\<open>except (TypeError, ValueError)\<close>: any other exception leaves the function.\<close>

fun caught :: "py_exc \<Rightarrow> bool" where
  "caught TypeError = True"
| "caught (ValueError _) = True"
| "caught _ = False"

definition check_assignment :: "(string \<Rightarrow> string) \<Rightarrow> (string \<times> json) list \<Rightarrow> slice_assignment \<Rightarrow> integrity" where
  "check_assignment sha256 payload a =
     (if jget payload ''slice_hash'' \<noteq> JStr (slice_hash sha256 a) then Slice_Hash_Mismatch
      else if jget payload ''assignment_id'' \<noteq> JStr (assignment_id sha256 a) then Assignment_Id_Mismatch
      else if sa_order_ids a = [] then Empty_Slice
      else if list_ex (\<lambda>i. i \<in> set (sa_calibration_order_ids a)) (sa_order_ids a) then Calibration_Overlap
      else if set (keys_of (sa_order_hashes a)) \<noteq> set (sa_order_ids a @ sa_calibration_order_ids a) then Hash_Keys_Mismatch
      else Intact)"

definition verify_assignment_integrity :: "(string \<Rightarrow> string) \<Rightarrow> (string \<times> json) list \<Rightarrow> integrity res" where
  "verify_assignment_integrity sha256 payload = (case assignment_from_payload payload of
       Inl e \<Rightarrow> if caught e then Inr (Malformed e) else Inl e
     | Inr a \<Rightarrow> Inr (check_assignment sha256 payload a))"

section \<open>Responses\<close>

record veto_response =
  vr_assignment_id :: string
  vr_round_id :: string
  vr_validator_evm :: string
  vr_status :: string
  vr_verdict :: "string option"
  vr_violations :: "slice_violation list"
  vr_counts :: "(string \<times> int) list"
  vr_calibration :: "(string \<times> string) list list"
  vr_error :: "string option"

definition response_to_payload :: "veto_response \<Rightarrow> (string \<times> json) list" where
  "response_to_payload r =
     [(''assignment_id'', JStr (vr_assignment_id r)), (''round_id'', JStr (vr_round_id r)),
      (''validator_evm'', JStr (lower (vr_validator_evm r))), (''status'', JStr (vr_status r)),
      (''verdict'', of_str (vr_verdict r)), (''violations'', JList (map violation_to_dict (vr_violations r))),
      (''counts'', JObj (map (\<lambda>(k, v). (k, JInt v)) (vr_counts r))),
      (''calibration'', JList (map (\<lambda>row. JObj (map (\<lambda>(k, v). (k, JStr v)) row)) (vr_calibration r))),
      (''error'', of_str (vr_error r))]"

definition response_from_payload :: "(string \<times> json) list \<Rightarrow> veto_response res" where
  "response_from_payload d =
     res_bind (str_get d ''assignment_id'') (\<lambda>v1.
     res_bind (str_get d ''round_id'') (\<lambda>v2.
     res_bind (str_get d ''validator_evm'') (\<lambda>v3.
     res_bind (str_get d ''status'') (\<lambda>v4.
     res_bind (opt_str_get d ''verdict'') (\<lambda>v5.
     res_bind (list_comp violation_from_dict (jget d ''violations'')) (\<lambda>v6.
     res_bind (dict_comp py_int_of (jget d ''counts'')) (\<lambda>v7.
     res_bind (list_comp (dict_comp py_str) (jget d ''calibration'')) (\<lambda>v8.
     res_bind (opt_str_get d ''error'') (\<lambda>v9.
     Inr \<lparr>vr_assignment_id = v1, vr_round_id = v2, vr_validator_evm = lower v3, vr_status = v4,
       vr_verdict = v5, vr_violations = v6, vr_counts = v7, vr_calibration = v8, vr_error = v9\<rparr>)))))))))"

datatype rejection_reason =
    Wrong_Assignment | Wrong_Round | Wrong_Validator
  | Unknown_Status string
  | Bad_Verdict "string option"
  | Verdict_Without_Completion
  | Too_Many_Violations | Too_Many_Calibration_Rows
  | Violations_Without_Veto | Veto_Without_Violations
  | Unknown_Violation_Kind string
  | Outside_Slice string
  | Not_A_Calibration_Order

text \<open>The two loops of \<open>validate_response\<close>: the first offending entry decides.\<close>

fun check_violations :: "string set \<Rightarrow> slice_violation list \<Rightarrow> rejection_reason option" where
  "check_violations ids [] = None"
| "check_violations ids (v # vs) =
     (if sv_kind v \<notin> set VIOLATION_KINDS then Some (Unknown_Violation_Kind (sv_kind v))
      else if sv_order_id v \<notin> ids then Some (Outside_Slice (sv_order_id v))
      else check_violations ids vs)"

fun check_calibration :: "string set \<Rightarrow> (string \<times> string) list list \<Rightarrow> rejection_reason option" where
  "check_calibration ids [] = None"
| "check_calibration ids (row # rows) =
     (case map_of row ''order_id'' of
        Some i \<Rightarrow> if i \<in> ids then check_calibration ids rows else Some Not_A_Calibration_Order
      | None \<Rightarrow> Some Not_A_Calibration_Order)"

definition validate_response ::
  "(string \<Rightarrow> string) \<Rightarrow> veto_response \<Rightarrow> slice_assignment \<Rightarrow> rejection_reason option" where
  "validate_response sha256 r a =
     (if vr_assignment_id r \<noteq> assignment_id sha256 a then Some Wrong_Assignment
      else if vr_round_id r \<noteq> sa_round_id a then Some Wrong_Round
      else if lower (vr_validator_evm r) \<noteq> lower (sa_validator_evm a) then Some Wrong_Validator
      else if vr_status r \<notin> set RESPONSE_STATUSES then Some (Unknown_Status (vr_status r))
      else if vr_status r = STATUS_COMPLETED \<and> vr_verdict r \<notin> {Some VERDICT_OK, Some VERDICT_VETO}
        then Some (Bad_Verdict (vr_verdict r))
      else if vr_status r \<noteq> STATUS_COMPLETED \<and> vr_verdict r \<noteq> None then Some Verdict_Without_Completion
      else if length (vr_violations r) > MAX_VIOLATIONS_PER_RESPONSE then Some Too_Many_Violations
      else if length (vr_calibration r) > MAX_CALIBRATION_ROWS then Some Too_Many_Calibration_Rows
      else if vr_violations r \<noteq> [] \<and> vr_verdict r \<noteq> Some VERDICT_VETO then Some Violations_Without_Veto
      else if vr_verdict r = Some VERDICT_VETO \<and> vr_violations r = [] then Some Veto_Without_Violations
      else case check_violations (set (sa_order_ids a)) (vr_violations r) of
        Some e \<Rightarrow> Some e
      | None \<Rightarrow> check_calibration (set (sa_calibration_order_ids a)) (vr_calibration r))"

section \<open>Phase state\<close>

record veto_phase =
  vp_candidate_submission_id :: string
  vp_candidate_image_id :: string
  vp_deadline_epoch :: int
  vp_assignments :: "slice_assignment list"
  vp_responses :: "(string \<times> veto_response) list"
  vp_unsupported :: "string list"
  vp_resolved :: bool
  vp_resolution :: "string option"

definition phase_to_dict :: "(string \<Rightarrow> string) \<Rightarrow> veto_phase \<Rightarrow> (string \<times> json) list" where
  "phase_to_dict sha256 p =
     [(''candidate_submission_id'', JStr (vp_candidate_submission_id p)),
      (''candidate_image_id'', JStr (vp_candidate_image_id p)),
      (''deadline_epoch'', JInt (vp_deadline_epoch p)),
      (''assignments'', JList (map (\<lambda>a. JObj (assignment_to_payload sha256 a)) (vp_assignments p))),
      (''responses'', JObj (map (\<lambda>(evm, r). (evm, JObj (response_to_payload r))) (sort_key fst (vp_responses p)))),
      (''unsupported'', JList (map JStr (sort (vp_unsupported p)))),
      (''resolved'', JBool (vp_resolved p)), (''resolution'', of_str (vp_resolution p))]"

fun from_object :: "((string \<times> json) list \<Rightarrow> 'a res) \<Rightarrow> json \<Rightarrow> 'a res" where
  "from_object f (JObj d) = f d"
| "from_object f _ = Inl AttributeError"

definition lower_keys :: "(string \<times> 'v) list \<Rightarrow> (string \<times> 'v) list" where
  "lower_keys d = dict_of (map (\<lambda>(k, v). (lower k, v)) d)"

definition phase_from_dict :: "(string \<times> json) list \<Rightarrow> veto_phase res" where
  "phase_from_dict d =
     res_bind (str_get d ''candidate_submission_id'') (\<lambda>v1.
     res_bind (str_get d ''candidate_image_id'') (\<lambda>v2.
     res_bind (int_get 0 d ''deadline_epoch'') (\<lambda>v3.
     res_bind (list_comp (from_object assignment_from_payload) (jget d ''assignments'')) (\<lambda>v4.
     res_bind (dict_comp (from_object response_from_payload) (jget d ''responses'')) (\<lambda>v5.
     res_bind (list_comp py_str (jget d ''unsupported'')) (\<lambda>v6.
     res_bind (opt_str_get d ''resolution'') (\<lambda>v7.
     Inr \<lparr>vp_candidate_submission_id = v1, vp_candidate_image_id = v2, vp_deadline_epoch = v3,
       vp_assignments = v4, vp_responses = lower_keys v5, vp_unsupported = map lower v6,
       vp_resolved = (\<not> jfalsy (jget d ''resolved'')), vp_resolution = v7\<rparr>)))))))"

section \<open>Assignment and audit selection\<close>

definition unique_evms :: "string list \<Rightarrow> string list" where
  "unique_evms evms = sort (remdups (map lower (filter (\<lambda>evm. evm \<noteq> []) evms)))"

definition assign_slices ::
  "(string \<Rightarrow> string) \<Rightarrow> string list \<Rightarrow> int \<Rightarrow> string \<Rightarrow> (string \<times> nat) list" where
  "assign_slices sha256 validator_evms n_slices entropy =
     (let ranked = sort_key (\<lambda>evm. sha256 (entropy @ ''|'' @ evm)) (unique_evms validator_evms);
          chosen = take (nat (max 0 n_slices)) ranked
      in zip chosen [0..<length chosen])"

definition pick_audit_target :: "(string \<Rightarrow> string) \<Rightarrow> string list \<Rightarrow> string \<Rightarrow> string option" where
  "pick_audit_target sha256 responder_evms entropy =
     (let unique = unique_evms responder_evms in
      if unique = [] then None
      else Some (arg_min_list (\<lambda>evm. sha256 (entropy @ ''|audit|'' @ evm)) unique))"

definition pick_audit_orders :: "(string \<Rightarrow> string) \<Rightarrow> string list \<Rightarrow> string \<Rightarrow> int \<Rightarrow> string list" where
  "pick_audit_orders sha256 order_ids entropy n =
     take (nat (max 0 n)) (sort_key (\<lambda>oid. sha256 (entropy @ ''|order|'' @ oid)) order_ids)"

section \<open>Resolution and re-verification\<close>

definition response_is_terminal :: "veto_response option \<Rightarrow> bool" where
  "response_is_terminal r = (case r of None \<Rightarrow> False | Some r \<Rightarrow> vr_status r \<in> set RESPONSE_STATUSES)"

definition assignment_terminal :: "(string \<Rightarrow> string) \<Rightarrow> veto_phase \<Rightarrow> slice_assignment \<Rightarrow> bool" where
  "assignment_terminal sha256 p a =
     (if lower (sa_validator_evm a) \<in> lower ` set (vp_unsupported p) then True
      else case map_of (vp_responses p) (lower (sa_validator_evm a)) of
        None \<Rightarrow> False
      | Some r \<Rightarrow> response_is_terminal (Some r) \<and> vr_assignment_id r = assignment_id sha256 a)"

definition resolve_phase :: "(string \<Rightarrow> string) \<Rightarrow> veto_phase \<Rightarrow> int \<Rightarrow> phase_action \<times> string option" where
  "resolve_phase sha256 p current_epoch =
     (if vp_resolved p then (Action_Noop, None)
      else if vp_assignments p = [] then (Action_Resolve, Some RESOLUTION_NO_ASSIGNMENTS)
      else if list_all (assignment_terminal sha256 p) (vp_assignments p)
        then (Action_Resolve, Some RESOLUTION_ALL_TERMINAL)
      else if current_epoch > vp_deadline_epoch p then (Action_Resolve, Some RESOLUTION_WINDOW_ELAPSED)
      else (Action_Wait, None))"

fun first_claims :: "string set \<Rightarrow> slice_violation list \<Rightarrow> slice_violation list" where
  "first_claims seen [] = []"
| "first_claims seen (v # vs) =
     (if sv_order_id v \<in> seen then first_claims seen vs
      else v # first_claims (insert (sv_order_id v) seen) vs)"

definition plan_reverification :: "veto_response \<Rightarrow> int \<Rightarrow> slice_violation list" where
  "plan_reverification r budget =
     (if vr_verdict r \<noteq> Some VERDICT_VETO \<or> vr_violations r = [] then []
      else take (nat (max 0 budget))
             (first_claims {} (sort_key violation_severity_key (vr_violations r))))"

record observe_counts =
  oc_assignments :: nat
  oc_responses :: nat
  oc_completed :: nat
  oc_ok :: nat
  oc_veto :: nat
  oc_failed :: nat
  oc_refused :: nat
  oc_claimed_violations :: nat
  oc_unsupported :: nat

definition count_response :: "observe_counts \<Rightarrow> veto_response \<Rightarrow> observe_counts" where
  "count_response c r =
     (if vr_status r = STATUS_COMPLETED then
        (let c = c\<lparr>oc_completed := Suc (oc_completed c)\<rparr> in
         if vr_verdict r = Some VERDICT_VETO then
           c\<lparr>oc_veto := Suc (oc_veto c),
             oc_claimed_violations := oc_claimed_violations c + length (vr_violations r)\<rparr>
         else if vr_verdict r = Some VERDICT_OK then c\<lparr>oc_ok := Suc (oc_ok c)\<rparr>
         else c)
      else if vr_status r = STATUS_FAILED then c\<lparr>oc_failed := Suc (oc_failed c)\<rparr>
      else if vr_status r = STATUS_REFUSED then c\<lparr>oc_refused := Suc (oc_refused c)\<rparr>
      else c)"

definition phase_observe_counts :: "veto_phase \<Rightarrow> observe_counts" where
  "phase_observe_counts p = foldl count_response
     \<lparr>oc_assignments = length (vp_assignments p), oc_responses = length (vp_responses p), oc_completed = 0,
      oc_ok = 0, oc_veto = 0, oc_failed = 0, oc_refused = 0, oc_claimed_violations = 0,
      oc_unsupported = length (filter (\<lambda>evm. evm \<notin> set (keys_of (vp_responses p))) (vp_unsupported p))\<rparr>
     (vals_of (vp_responses p))"

section \<open>Reading payloads back\<close>

lemma violation_roundtrip: "violation_from_dict (violation_to_dict v) = Inr v"
  by (simp add: violation_from_dict_def violation_to_dict_def json_simps)

definition wf_assignment :: "slice_assignment \<Rightarrow> bool" where
  "wf_assignment a \<longleftrightarrow> wf_dict (sa_order_hashes a) \<and> wf_dict (sa_fork_pins a)"

definition wf_response :: "veto_response \<Rightarrow> bool" where
  "wf_response r \<longleftrightarrow> wf_dict (vr_counts r) \<and> list_all wf_dict (vr_calibration r)"

lemma assignment_roundtrip:
  assumes "wf_assignment a"
  shows "assignment_from_payload (assignment_to_payload sha256 a)
    = Inr (a\<lparr>sa_validator_evm := lower (sa_validator_evm a)\<rparr>)"
proof -
  have h: "dict_comp py_str (JObj (map (\<lambda>(k, v). (k, JStr v)) (sa_order_hashes a))) = Inr (sa_order_hashes a)"
    using dict_comp_JObj [of "sa_order_hashes a" py_str JStr id] assms
    by (simp add: wf_assignment_def map_pair_id)
  have f: "dict_comp py_int_of (JObj (map (\<lambda>(k, v). (k, JInt v)) (sa_fork_pins a))) = Inr (sa_fork_pins a)"
    using dict_comp_JObj [of "sa_fork_pins a" py_int_of JInt id] assms
    by (simp add: wf_assignment_def map_pair_id)
  have l: "list_comp py_str (JList (map JStr xs)) = Inr xs" for xs
    using list_comp_JList [of xs py_str JStr id] by simp
  show ?thesis
    unfolding assignment_from_payload_def assignment_to_payload_def
    by (simp add: json_simps h f l)
qed

lemma response_roundtrip:
  assumes "wf_response r"
  shows "response_from_payload (response_to_payload r)
    = Inr (r\<lparr>vr_validator_evm := lower (vr_validator_evm r)\<rparr>)"
proof -
  have v: "list_comp violation_from_dict (JList (map violation_to_dict xs)) = Inr xs" for xs
    using list_comp_JList [of xs violation_from_dict violation_to_dict id] by (simp add: violation_roundtrip)
  have c: "dict_comp py_int_of (JObj (map (\<lambda>(k, v). (k, JInt v)) (vr_counts r))) = Inr (vr_counts r)"
    using dict_comp_JObj [of "vr_counts r" py_int_of JInt id] assms
    by (simp add: wf_response_def map_pair_id)
  have row: "dict_comp py_str (JObj (map (\<lambda>(k, v). (k, JStr v)) d)) = Inr d" if "wf_dict d" for d
    using dict_comp_JObj [of d py_str JStr id] that by (simp add: map_pair_id)
  have k: "list_comp (dict_comp py_str) (JList (map (\<lambda>row. JObj (map (\<lambda>(k, v). (k, JStr v)) row)) (vr_calibration r)))
      = Inr (vr_calibration r)"
    using list_comp_JList [of "vr_calibration r" "dict_comp py_str" _ id] row assms
    by (simp add: wf_response_def list_all_iff)
  show ?thesis
    unfolding response_from_payload_def response_to_payload_def
    by (simp add: json_simps v c k opt_str_get_of_str)
qed

text \<open>The fields the hashes depend on survive the trip.\<close>

lemma slice_hash_lower [simp]:
  "slice_hash sha256 (a\<lparr>sa_validator_evm := e\<rparr>) = slice_hash sha256 a"
  "assignment_id sha256 (a\<lparr>sa_validator_evm := e\<rparr>) = assignment_id sha256 a"
  by (simp_all add: slice_hash_def assignment_id_def assignment_text_def)

definition proper_slice :: "slice_assignment \<Rightarrow> bool" where
  "proper_slice a \<longleftrightarrow> sa_order_ids a \<noteq> [] \<and> set (sa_order_ids a) \<inter> set (sa_calibration_order_ids a) = {}
     \<and> set (keys_of (sa_order_hashes a)) = set (sa_order_ids a) \<union> set (sa_calibration_order_ids a)"

lemma check_assignment_Intact:
  "check_assignment sha256 d a = Intact \<longleftrightarrow> proper_slice a
     \<and> jget d ''slice_hash'' = JStr (slice_hash sha256 a)
     \<and> jget d ''assignment_id'' = JStr (assignment_id sha256 a)"
  by (auto simp: check_assignment_def proper_slice_def list_ex_iff)

text \<open>
  Property: The follower's integrity check accepts the payload of an assignment exactly when the slice is
  proper (not empty, disjoint from the calibration orders, one replay hash for each of both), and
  whatever payload it accepts reads as a proper slice whose recomputed hash and id are the transmitted ones.
\<close>

theorem assignment_integrity_exact:
  assumes "wf_assignment a"
  shows "(verify_assignment_integrity sha256 (assignment_to_payload sha256 a) = Inr Intact \<longleftrightarrow> proper_slice a)
    \<and> (\<forall>d. verify_assignment_integrity sha256 d = Inr Intact \<longrightarrow>
        (\<exists>b. assignment_from_payload d = Inr b \<and> proper_slice b
           \<and> jget d ''slice_hash'' = JStr (slice_hash sha256 b)
           \<and> jget d ''assignment_id'' = JStr (assignment_id sha256 b)))"
proof -
  have j: "jget (assignment_to_payload sha256 a) ''slice_hash'' = JStr (slice_hash sha256 a)"
    "jget (assignment_to_payload sha256 a) ''assignment_id'' = JStr (assignment_id sha256 a)"
    by (simp_all add: assignment_to_payload_def json_simps)
  have "proper_slice (a\<lparr>sa_validator_evm := e\<rparr>) = proper_slice a" for e by (simp add: proper_slice_def)
  then show ?thesis
    using assms by (auto simp: verify_assignment_integrity_def assignment_roundtrip check_assignment_Intact j
      split: sum.splits if_splits)
qed

definition sample_assignment :: slice_assignment where
  "sample_assignment = \<lparr>sa_round_id = ''round-e1-n1'', sa_slice_index = 0, sa_validator_evm = ''0xA'',
     sa_candidate_submission_id = ''s'', sa_candidate_image_id = ''c'', sa_incumbent_image_id = ''i'',
     sa_candidate_image_ref = ''r@c'', sa_incumbent_image_ref = ''r@i'', sa_order_ids = [''o1'', ''o2''],
     sa_order_hashes = [(''o1'', ''h1''), (''o2'', ''h2''), (''o9'', ''h9'')], sa_calibration_order_ids = [''o9''],
     sa_fork_pins = [(''8453'', 7)], sa_deadline_epoch = 5, sa_leader_api_url = []\<rparr>"

lemma sample_assignment_ok:
  "wf_assignment sample_assignment" "proper_slice sample_assignment"
  by (auto simp: sample_assignment_def wf_assignment_def proper_slice_def)

theorem assignment_integrity_exact_witness:
  "verify_assignment_integrity rev (assignment_to_payload rev sample_assignment) = Inr Intact"
  using assignment_integrity_exact [OF sample_assignment_ok(1), of rev] sample_assignment_ok(2) by blast

section \<open>What the assignment id binds\<close>

lemma assignment_text_eq:
  "assignment_text sha256 a = ''{'' @ json_string ''candidate_image_id'' @ '':'' @ json_string (sa_candidate_image_id a) @ '',''
     @ json_string ''round_id'' @ '':'' @ json_string (sa_round_id a) @ '',''
     @ json_string ''slice_hash'' @ '':'' @ json_string (slice_hash sha256 a) @ ''}''"
  by (simp add: assignment_text_def canonical_strs_def)

lemma assignment_text_inj:
  assumes "assignment_text sha256 a = assignment_text sha256 b"
  shows "sa_candidate_image_id a = sa_candidate_image_id b \<and> sa_round_id a = sa_round_id b
    \<and> slice_hash sha256 a = slice_hash sha256 b"
proof -
  from assms have 1: "json_string (sa_candidate_image_id a) @ '','' @ json_string ''round_id'' @ '':''
      @ json_string (sa_round_id a) @ '','' @ json_string ''slice_hash'' @ '':'' @ json_string (slice_hash sha256 a) @ ''}''
    = json_string (sa_candidate_image_id b) @ '','' @ json_string ''round_id'' @ '':''
      @ json_string (sa_round_id b) @ '','' @ json_string ''slice_hash'' @ '':'' @ json_string (slice_hash sha256 b) @ ''}''"
    unfolding assignment_text_eq by (simp only: same_append_eq)
  from conjunct2 [OF json_string_prefix_free [OF this]]
  have 2: "json_string (sa_round_id a) @ '','' @ json_string ''slice_hash'' @ '':'' @ json_string (slice_hash sha256 a) @ ''}''
    = json_string (sa_round_id b) @ '','' @ json_string ''slice_hash'' @ '':'' @ json_string (slice_hash sha256 b) @ ''}''"
    by (simp only: same_append_eq)
  from conjunct2 [OF json_string_prefix_free [OF this]]
  have 3: "json_string (slice_hash sha256 a) @ ''}'' = json_string (slice_hash sha256 b) @ ''}''"
    by (simp only: same_append_eq)
  show ?thesis
    using json_string_prefix_free [OF 1] json_string_prefix_free [OF 2] json_string_prefix_free [OF 3] by blast
qed

definition slice_text :: "slice_assignment \<Rightarrow> string" where
  "slice_text a = py_join [CHR 0x0A] (map (slice_line (sa_order_hashes a)) (sa_order_ids a))"

text \<open>Order ids without a colon or a line break and hashes without a line break.\<close>

definition plain_ids :: "slice_assignment \<Rightarrow> bool" where
  "plain_ids a \<longleftrightarrow> list_all (\<lambda>i. CHR '':'' \<notin> set i \<and> CHR 0x0A \<notin> set i) (sa_order_ids a)
     \<and> list_all (\<lambda>(i, h). CHR 0x0A \<notin> set h) (sa_order_hashes a)"

lemma split_at_sep: "x @ c # r = y @ c # r' \<Longrightarrow> c \<notin> set x \<Longrightarrow> c \<notin> set y \<Longrightarrow> x = y \<and> r = r'"
  by (induction x arbitrary: y) (case_tac y; auto)+

lemma py_join_inj:
  assumes "list_all (\<lambda>x. c \<notin> set x) xs" "list_all (\<lambda>x. c \<notin> set x) ys" "xs \<noteq> []" "ys \<noteq> []"
    "py_join [c] xs = py_join [c] ys"
  shows "xs = ys"
  using assms
proof (induction "[c]" xs arbitrary: ys rule: py_join.induct)
  case (2 x)
  then obtain y ys' where y: "ys = y # ys'" by (cases ys) auto
  with 2 show ?case by (cases ys') auto
next
  case (3 x x2 xs)
  obtain y ys' where y: "ys = y # ys'" using 3 by (cases ys) auto
  show ?case
  proof (cases ys')
    case Nil
    with y 3 have "c \<notin> set (x @ [c] @ py_join [c] (x2 # xs))" by simp
    then show ?thesis by simp
  next
    case (Cons y2 zs)
    with y 3 split_at_sep [of x c "py_join [c] (x2 # xs)" y "py_join [c] (y2 # zs)"]
    have "x = y" "py_join [c] (x2 # xs) = py_join [c] (y2 # zs)" by auto
    moreover have "x2 # xs = y2 # zs"
      using 3(1) [of "y2 # zs"] 3(2,3) y Cons calculation by simp
    ultimately show ?thesis using y Cons by simp
  qed
qed simp

lemma slice_line_no_break:
  assumes "plain_ids a" "i \<in> set (sa_order_ids a)"
  shows "CHR 0x0A \<notin> set (slice_line (sa_order_hashes a) i)"
proof (cases "map_of (sa_order_hashes a) i")
  case (Some h)
  from map_of_SomeD [OF this] assms Some show ?thesis by (auto simp: plain_ids_def slice_line_def list_all_iff)
qed (use assms in \<open>auto simp: plain_ids_def slice_line_def list_all_iff\<close>)

lemma slice_text_inj:
  assumes "plain_ids a" "plain_ids b" "sa_order_ids a \<noteq> []" "sa_order_ids b \<noteq> []" "slice_text a = slice_text b"
  shows "map (slice_line (sa_order_hashes a)) (sa_order_ids a) = map (slice_line (sa_order_hashes b)) (sa_order_ids b)"
  using assms slice_line_no_break
  by (intro py_join_inj [of "CHR 0x0A"]) (auto simp: slice_text_def list_all_iff)

lemma slice_lines_inj:
  assumes "map (slice_line h) is = map (slice_line h') js"
    "list_all (\<lambda>i. CHR '':'' \<notin> set i) is" "list_all (\<lambda>i. CHR '':'' \<notin> set i) js"
  shows "is = js \<and> (\<forall>i \<in> set is. slice_line h i = slice_line h' i)"
  using assms
proof (induction "is" arbitrary: js)
  case (Cons i "is")
  then obtain j js' where j: "js = j # js'" by (cases js) auto
  have "i @ CHR '':'' # (case map_of h i of None \<Rightarrow> [] | Some h \<Rightarrow> h)
      = j @ CHR '':'' # (case map_of h' j of None \<Rightarrow> [] | Some h \<Rightarrow> h)"
    using Cons.prems j by (simp add: slice_line_def)
  from split_at_sep [OF this] have "i = j" using Cons.prems j by simp
  with Cons j show ?case by auto
qed simp

lemma slice_line_same_hash:
  assumes "slice_line h i = slice_line h' i" "i \<in> set (keys_of h)" "i \<in> set (keys_of h')"
  shows "map_of h i = map_of h' i"
  using assms by (auto simp: slice_line_def map_of_eq_None_iff split: option.splits)

text \<open>
  Property: Assignments with the same id are for the same round, candidate and orders with the same replay
  hashes, unless the hash function collides on the two texts. The canonical JSON text and the lines
  of the slice are unambiguous (order ids hold no colon and no line break). The validator is not part
  of the id.
\<close>

theorem assignment_id_binds_content:
  assumes "assignment_id sha256 a = assignment_id sha256 b"
    and "proper_slice a" "proper_slice b" "plain_ids a" "plain_ids b"
    and "inj_on (\<lambda>t. take 32 (sha256 t)) {assignment_text sha256 a, assignment_text sha256 b}"
    and "inj_on sha256 {slice_text a, slice_text b}"
  shows "sa_round_id a = sa_round_id b \<and> sa_candidate_image_id a = sa_candidate_image_id b
    \<and> sa_order_ids a = sa_order_ids b
    \<and> (\<forall>i \<in> set (sa_order_ids a). map_of (sa_order_hashes a) i = map_of (sa_order_hashes b) i)"
proof -
  have "assignment_text sha256 a = assignment_text sha256 b"
    using assms(1) inj_onD [OF assms(6), of "assignment_text sha256 a" "assignment_text sha256 b"]
    by (simp add: assignment_id_def)
  from assignment_text_inj [OF this]
  have r: "sa_candidate_image_id a = sa_candidate_image_id b" "sa_round_id a = sa_round_id b"
    "slice_hash sha256 a = slice_hash sha256 b" by auto
  have "slice_text a = slice_text b"
    using r(3) inj_onD [OF assms(7), of "slice_text a" "slice_text b"]
    by (simp add: slice_hash_def slice_text_def [symmetric])
  moreover have "sa_order_ids a \<noteq> []" "sa_order_ids b \<noteq> []" using assms(2,3) by (simp_all add: proper_slice_def)
  ultimately have "map (slice_line (sa_order_hashes a)) (sa_order_ids a) = map (slice_line (sa_order_hashes b)) (sa_order_ids b)"
    using slice_text_inj [OF assms(4,5)] by simp
  moreover have "list_all (\<lambda>i. CHR '':'' \<notin> set i) (sa_order_ids a)" "list_all (\<lambda>i. CHR '':'' \<notin> set i) (sa_order_ids b)"
    using assms(4,5) by (auto simp: plain_ids_def list_all_iff)
  ultimately have i: "sa_order_ids a = sa_order_ids b"
    and l: "\<forall>i \<in> set (sa_order_ids a). slice_line (sa_order_hashes a) i = slice_line (sa_order_hashes b) i"
    using slice_lines_inj by blast+
  have "map_of (sa_order_hashes a) i = map_of (sa_order_hashes b) i" if "i \<in> set (sa_order_ids a)" for i
  proof (rule slice_line_same_hash)
    show "slice_line (sa_order_hashes a) i = slice_line (sa_order_hashes b) i" using l that by blast
    show "i \<in> set (keys_of (sa_order_hashes a))" using that assms(2) unfolding proper_slice_def by blast
    show "i \<in> set (keys_of (sa_order_hashes b))" using that i assms(3) unfolding proper_slice_def by auto
  qed
  with r i show ?thesis by simp
qed

theorem assignment_id_binds_content_witness:
  "assignment_id rev (sample_assignment\<lparr>sa_validator_evm := ''0xB''\<rparr>) = assignment_id rev sample_assignment
   \<and> sa_order_ids (sample_assignment\<lparr>sa_validator_evm := ''0xB''\<rparr>) = sa_order_ids sample_assignment"
proof -
  let ?b = "sample_assignment\<lparr>sa_validator_evm := ''0xB''\<rparr>"
  have p: "plain_ids sample_assignment" "plain_ids ?b" by (simp_all add: plain_ids_def sample_assignment_def)
  have s: "proper_slice ?b" by (auto simp: sample_assignment_def proper_slice_def)
  have t: "assignment_text rev ?b = assignment_text rev sample_assignment" "slice_text ?b = slice_text sample_assignment"
    by (simp_all add: assignment_text_def slice_text_def)
  have e: "assignment_id rev ?b = assignment_id rev sample_assignment" by simp
  show ?thesis
    using assignment_id_binds_content [OF e s sample_assignment_ok(2) p(2,1)] e unfolding t by simp
qed

section \<open>Restart\<close>

definition wf_phase :: "veto_phase \<Rightarrow> bool" where
  "wf_phase p \<longleftrightarrow> wf_dict (vp_responses p)
     \<and> (\<forall>(evm, r) \<in> set (vp_responses p). lower evm = evm \<and> wf_response r \<and> lower (vr_validator_evm r) = vr_validator_evm r)
     \<and> (\<forall>a \<in> set (vp_assignments p). wf_assignment a \<and> lower (sa_validator_evm a) = sa_validator_evm a)
     \<and> (\<forall>evm \<in> set (vp_unsupported p). lower evm = evm)"

lemma wf_dict_sort: "wf_dict d \<Longrightarrow> wf_dict (sort_key f d)"
  by (metis distinct_map distinct_sort set_sort)

lemma map_of_sort: "wf_dict d \<Longrightarrow> map_of (sort_key f d) = map_of d"
  using wf_dict_sort [of d f] by (simp add: map_of_inject_set)

lemma lower_keys_id: "wf_dict d \<Longrightarrow> (\<And>k v. (k, v) \<in> set d \<Longrightarrow> lower k = k) \<Longrightarrow> lower_keys d = d"
proof -
  assume wf: "wf_dict d" and l: "\<And>k v. (k, v) \<in> set d \<Longrightarrow> lower k = k"
  have "map (\<lambda>(k, v). (lower k, v)) d = d" using l by (intro map_idI) auto
  with dict_of_wf [OF wf] show ?thesis by (simp add: lower_keys_def)
qed

definition stored_phase :: "veto_phase \<Rightarrow> veto_phase" where
  "stored_phase p = p\<lparr>vp_responses := sort_key fst (vp_responses p), vp_unsupported := sort (vp_unsupported p)\<rparr>"

lemma phase_roundtrip:
  assumes "wf_phase p"
  shows "phase_from_dict (phase_to_dict sha256 p) = Inr (stored_phase p)"
proof -
  have a: "list_comp (from_object assignment_from_payload)
      (JList (map (\<lambda>a. JObj (assignment_to_payload sha256 a)) (vp_assignments p))) = Inr (vp_assignments p)"
    using list_comp_JList [of "vp_assignments p" "from_object assignment_from_payload" _ id] assms
    by (simp add: wf_phase_def assignment_roundtrip)
  have r: "dict_comp (from_object response_from_payload)
      (JObj (map (\<lambda>(evm, r). (evm, JObj (response_to_payload r))) (sort_key fst (vp_responses p))))
      = Inr (sort_key fst (vp_responses p))"
  proof -
    have rt: "response_from_payload (response_to_payload v) = Inr v" if "(k, v) \<in> set (vp_responses p)" for k v
      using that assms response_roundtrip [of v] by (auto simp: wf_phase_def)
    show ?thesis
      using dict_comp_JObj [of "sort_key fst (vp_responses p)" "from_object response_from_payload" "JObj \<circ> response_to_payload" id]
        rt assms by (simp add: wf_phase_def map_pair_id wf_dict_sort)
  qed
  have k: "lower_keys (sort_key fst (vp_responses p)) = sort_key fst (vp_responses p)"
    using assms by (intro lower_keys_id wf_dict_sort) (auto simp: wf_phase_def)
  have u: "list_comp py_str (JList (map JStr (sort (vp_unsupported p)))) = Inr (sort (vp_unsupported p))"
    using list_comp_JList [of "sort (vp_unsupported p)" py_str JStr id] by simp
  have l: "map lower (sort (vp_unsupported p)) = sort (vp_unsupported p)"
    using assms by (intro map_idI) (simp add: wf_phase_def)
  show ?thesis
    unfolding phase_from_dict_def phase_to_dict_def stored_phase_def
    by (simp add: json_simps a r k u l opt_str_get_of_str)
qed

lemma resolve_stored_phase:
  assumes "wf_phase p"
  shows "resolve_phase sha256 (stored_phase p) e = resolve_phase sha256 p e"
proof -
  have "assignment_terminal sha256 (stored_phase p) = assignment_terminal sha256 p"
    using assms by (intro ext) (simp add: assignment_terminal_def stored_phase_def wf_phase_def map_of_sort)
  then show ?thesis by (simp add: resolve_phase_def stored_phase_def)
qed

text \<open>
  Property: A restart does not change a veto phase. The state that the leader persists is read back with the
  same assignments, the same response of every validator and the same unsupported validators (responses
  and unsupported addresses in sorted order), and \<open>resolve_phase\<close> takes the same decision on it at
  every epoch.
\<close>

theorem veto_phase_survives_restart:
  assumes "wf_phase p"
  shows "\<exists>q. phase_from_dict (phase_to_dict sha256 p) = Inr q
    \<and> vp_assignments q = vp_assignments p \<and> map_of (vp_responses q) = map_of (vp_responses p)
    \<and> mset (vp_unsupported q) = mset (vp_unsupported p) \<and> vp_deadline_epoch q = vp_deadline_epoch p
    \<and> (\<forall>e. resolve_phase sha256 q e = resolve_phase sha256 p e)"
  using assms phase_roundtrip [OF assms] resolve_stored_phase [OF assms]
  by (intro exI [of _ "stored_phase p"]) (simp add: stored_phase_def wf_phase_def map_of_sort)

definition sample_response :: veto_response where
  "sample_response = \<lparr>vr_assignment_id = assignment_id rev sample_assignment, vr_round_id = ''round-e1-n1'',
     vr_validator_evm = ''0xa'', vr_status = STATUS_COMPLETED, vr_verdict = Some VERDICT_VETO,
     vr_violations = [\<lparr>sv_order_id = ''o2'', sv_kind = VIOLATION_CATASTROPHIC, sv_champ_raw = ''100'', sv_chal_raw = ''50''\<rparr>,
       \<lparr>sv_order_id = ''o1'', sv_kind = VIOLATION_DROPPED, sv_champ_raw = ''100'', sv_chal_raw = []\<rparr>],
     vr_counts = [(''dropped'', 1)], vr_calibration = [[(''order_id'', ''o9'')]], vr_error = None\<rparr>"

definition sample_phase :: veto_phase where
  "sample_phase = \<lparr>vp_candidate_submission_id = ''s'', vp_candidate_image_id = ''c'', vp_deadline_epoch = 5,
     vp_assignments = [sample_assignment\<lparr>sa_validator_evm := ''0xa''\<rparr>],
     vp_responses = [(''0xa'', sample_response)],
     vp_unsupported = [''0xc'', ''0xb''], vp_resolved = False, vp_resolution = None\<rparr>"

theorem veto_phase_survives_restart_witness:
  "\<exists>q. phase_from_dict (phase_to_dict rev sample_phase) = Inr q \<and> vp_assignments q = vp_assignments sample_phase
     \<and> resolve_phase rev q 3 = (Action_Resolve, Some RESOLUTION_ALL_TERMINAL)"
proof -
  have lo: "lower ''0xa'' = ''0xa''" "lower ''0xb'' = ''0xb''" "lower ''0xc'' = ''0xc''" by code_simp+
  have w: "wf_phase sample_phase"
    by (simp add: wf_phase_def sample_phase_def sample_response_def sample_assignment_def wf_response_def wf_assignment_def lo)
  have "assignment_terminal rev sample_phase (sample_assignment\<lparr>sa_validator_evm := ''0xa''\<rparr>)"
    by (simp add: assignment_terminal_def sample_phase_def lo response_is_terminal_def sample_response_def RESPONSE_STATUSES_def)
  then have "resolve_phase rev sample_phase 3 = (Action_Resolve, Some RESOLUTION_ALL_TERMINAL)"
    by (simp add: resolve_phase_def) (simp add: sample_phase_def)
  with veto_phase_survives_restart [OF w, of rev] show ?thesis by auto
qed

section \<open>Liveness of a phase\<close>



text \<open>
  Property: A payload whose containers have the wrong JSON type is not reported as malformed: reading it
  raises \<open>AttributeError\<close>, which neither the integrity check nor the ingestion of responses catches
  (both catch \<open>TypeError\<close> and \<open>ValueError\<close> only).
\<close>

theorem malformed_payload_escapes:
  "verify_assignment_integrity sha256 [(''order_hashes'', JList [JInt 1])] = Inl AttributeError
   \<and> response_from_payload [(''violations'', JList [JInt 1])] = Inl AttributeError
   \<and> verify_assignment_integrity sha256 [(''slice_index'', JNull)] = Inr (Malformed TypeError)"
  by (simp add: verify_assignment_integrity_def assignment_from_payload_def response_from_payload_def
      str_get_def int_get_def jget_def list_comp_def elems_or_empty_def dict_comp_def items_or_empty_def
      violation_from_dict_def dict_of_def opt_str_get_def)

section \<open>Valid responses\<close>

lemma check_violations_None:
  "check_violations ids vs = None \<longleftrightarrow> (\<forall>v \<in> set vs. sv_kind v \<in> set VIOLATION_KINDS \<and> sv_order_id v \<in> ids)"
  by (induction vs) auto

lemma check_calibration_None:
  "check_calibration ids rows = None \<longleftrightarrow> (\<forall>row \<in> set rows. \<exists>i \<in> ids. map_of row ''order_id'' = Some i)"
  by (induction rows) (auto split: option.splits)

definition bound_to :: "(string \<Rightarrow> string) \<Rightarrow> veto_response \<Rightarrow> slice_assignment \<Rightarrow> bool" where
  "bound_to sha256 r a \<longleftrightarrow> vr_assignment_id r = assignment_id sha256 a \<and> vr_round_id r = sa_round_id a
     \<and> lower (vr_validator_evm r) = lower (sa_validator_evm a)"

lemma validate_response_None:
  "validate_response sha256 r a = None \<longleftrightarrow> bound_to sha256 r a
     \<and> (vr_status r = STATUS_COMPLETED \<and> vr_verdict r \<in> {Some VERDICT_OK, Some VERDICT_VETO}
        \<or> vr_status r \<in> {STATUS_FAILED, STATUS_REFUSED} \<and> vr_verdict r = None)
     \<and> (vr_verdict r = Some VERDICT_VETO \<longleftrightarrow> vr_violations r \<noteq> [])
     \<and> length (vr_violations r) \<le> MAX_VIOLATIONS_PER_RESPONSE
     \<and> length (vr_calibration r) \<le> MAX_CALIBRATION_ROWS
     \<and> (\<forall>v \<in> set (vr_violations r). sv_kind v \<in> set VIOLATION_KINDS \<and> sv_order_id v \<in> set (sa_order_ids a))
     \<and> (\<forall>row \<in> set (vr_calibration r). \<exists>i \<in> set (sa_calibration_order_ids a). map_of row ''order_id'' = Some i)"
proof -
  have s: "STATUS_FAILED \<noteq> STATUS_COMPLETED" "STATUS_REFUSED \<noteq> STATUS_COMPLETED"
    by (simp_all add: veto_constants)
  have m: "x \<in> set RESPONSE_STATUSES \<longleftrightarrow> x = STATUS_COMPLETED \<or> x \<in> {STATUS_FAILED, STATUS_REFUSED}" for x
    by (simp add: RESPONSE_STATUSES_def)
  have o: "(case x of None \<Rightarrow> y | Some e \<Rightarrow> Some e) = None \<longleftrightarrow> x = None \<and> y = None" for x y :: "rejection_reason option"
    by (cases x) simp_all
  show ?thesis
    unfolding validate_response_def bound_to_def m
    using s by (simp add: o check_violations_None check_calibration_None)
qed

text \<open>
  Property: A response that passes validation is bound to its assignment, carries a verdict exactly when it is
  completed and violations exactly when it is a veto, and all its evidence lies in the assigned slice:
  between 1 and 64 violations for a veto, none otherwise, at most 16 calibration rows.
\<close>

theorem valid_veto_has_evidence:
  assumes "validate_response sha256 r a = None"
  shows "vr_assignment_id r = assignment_id sha256 a \<and> vr_round_id r = sa_round_id a
    \<and> lower (vr_validator_evm r) = lower (sa_validator_evm a)
    \<and> (vr_status r = STATUS_COMPLETED \<longleftrightarrow> vr_verdict r \<noteq> None)
    \<and> (vr_verdict r = Some VERDICT_VETO \<longleftrightarrow> 1 \<le> length (vr_violations r))
    \<and> length (vr_violations r) \<le> 64 \<and> length (vr_calibration r) \<le> 16
    \<and> sv_order_id ` set (vr_violations r) \<subseteq> set (sa_order_ids a)
    \<and> response_is_terminal (Some r)"
  using assms unfolding validate_response_None bound_to_def
  by (auto simp: response_is_terminal_def veto_constants Suc_le_eq)

theorem valid_veto_has_evidence_witness:
  "validate_response rev sample_response sample_assignment = None
   \<and> sv_order_id ` set (vr_violations sample_response) \<subseteq> {''o1'', ''o2''}"
proof -
  have v: "validate_response rev sample_response sample_assignment = None" by code_simp
  from valid_veto_has_evidence [OF v] v show ?thesis by (simp add: sample_assignment_def)
qed

section \<open>Assignment of slices\<close>

lemma unique_evms_props:
  "distinct (unique_evms evms)" "set (unique_evms evms) = lower ` (set evms - {[]})" "sorted (unique_evms evms)"
  by (auto simp: unique_evms_def)

lemma unique_evms_cong: "lower ` (set e1 - {[]}) = lower ` (set e2 - {[]}) \<Longrightarrow> unique_evms e1 = unique_evms e2"
  by (metis sorted_distinct_set_unique unique_evms_props)

text \<open>
  Property: The assignment of slices ranks the distinct addresses by their keyed hash: the first
  \<open>n\<close> of them get the slices \<open>0, 1, 2, ...\<close>, no address and no slice occurs twice, and the
  result depends on the set of addresses only, not on their order, spelling or multiplicity.
\<close>

theorem assign_slices_is_a_ranking:
  "keys_of (assign_slices sha256 evms n entropy)
     = take (nat n) (sort_key (\<lambda>evm. sha256 (entropy @ ''|'' @ evm)) (unique_evms evms))
   \<and> wf_dict (assign_slices sha256 evms n entropy)
   \<and> vals_of (assign_slices sha256 evms n entropy) = [0..<min (nat n) (card (lower ` (set evms - {[]})))]
   \<and> set (keys_of (assign_slices sha256 evms n entropy)) \<subseteq> lower ` (set evms - {[]})
   \<and> (\<forall>evms'. lower ` (set evms' - {[]}) = lower ` (set evms - {[]}) \<longrightarrow>
        assign_slices sha256 evms' n entropy = assign_slices sha256 evms n entropy)"
proof -
  let ?r = "sort_key (\<lambda>evm. sha256 (entropy @ ''|'' @ evm)) (unique_evms evms)"
  let ?t = "take (nat n) ?r"
  have a: "assign_slices sha256 evms n entropy = zip ?t [0..<length ?t]"
    by (simp add: assign_slices_def Let_def max_def)
  have "length ?r = card (lower ` (set evms - {[]}))"
    using distinct_card [OF unique_evms_props(1) [of evms]] by (simp add: unique_evms_props(2))
  then have l: "length ?t = min (nat n) (card (lower ` (set evms - {[]})))" by (simp add: min.commute)
  have d: "distinct ?t" by (simp add: unique_evms_props(1))
  have k: "keys_of (assign_slices sha256 evms n entropy) = ?t"
    and v: "vals_of (assign_slices sha256 evms n entropy) = [0..<length ?t]"
    unfolding a by (simp_all only: map_fst_zip map_snd_zip length_upt diff_zero)
  have sub: "set ?t \<subseteq> lower ` (set evms - {[]})"
    using set_take_subset unique_evms_props(2) by fastforce
  have c: "assign_slices sha256 evms' n entropy = assign_slices sha256 evms n entropy"
    if "lower ` (set evms' - {[]}) = lower ` (set evms - {[]})" for evms'
    using unique_evms_cong [OF that] by (simp add: assign_slices_def)
  show ?thesis unfolding k v l using sub d by (intro conjI allI impI c) simp_all
qed

theorem assign_slices_is_a_ranking_witness:
  "assign_slices rev [''0xB'', ''0xa'', ''0xb'', []] 5 ''e'' = assign_slices rev [''0xa'', ''0xb''] 5 ''e''
   \<and> keys_of (assign_slices rev [''0xa'', ''0xb''] 5 ''e'') = [''0xa'', ''0xb'']"
proof
  have "lower ` (set [''0xB'', ''0xa'', ''0xb'', []] - {[]}) = lower ` (set [''0xa'', ''0xb''] - {[]})" by code_simp
  then show "assign_slices rev [''0xB'', ''0xa'', ''0xb'', []] 5 ''e'' = assign_slices rev [''0xa'', ''0xb''] 5 ''e''"
    using assign_slices_is_a_ranking [of rev "[''0xa'', ''0xb'']" 5 "''e''"] by blast
  show "keys_of (assign_slices rev [''0xa'', ''0xb''] 5 ''e'') = [''0xa'', ''0xb'']" by code_simp
qed

lemma arg_min_list_le: "x \<in> set xs \<Longrightarrow> f (arg_min_list f xs) \<le> f x"
  by (subst f_arg_min_list_f) auto

lemma pick_audit_target_is_responder:
  "pick_audit_target sha256 evms entropy = Some e \<Longrightarrow> e \<in> lower ` (set evms - {[]})
     \<and> (\<forall>e' \<in> lower ` (set evms - {[]}). sha256 (entropy @ ''|audit|'' @ e) \<le> sha256 (entropy @ ''|audit|'' @ e'))"
proof -
  let ?f = "\<lambda>evm. sha256 (entropy @ ''|audit|'' @ evm)"
  assume "pick_audit_target sha256 evms entropy = Some e"
  then have ne: "unique_evms evms \<noteq> []" and e: "e = arg_min_list ?f (unique_evms evms)"
    by (auto simp: pick_audit_target_def Let_def split: if_splits)
  have "?f e \<le> ?f e'" if "e' \<in> set (unique_evms evms)" for e'
    using arg_min_list_le [OF that, of ?f] unfolding e .
  moreover have "e \<in> set (unique_evms evms)" unfolding e by (rule arg_min_list_in [OF ne])
  ultimately show ?thesis unfolding unique_evms_props(2) by blast
qed

section \<open>Re-verification plan\<close>

lemma first_claims_subset: "set (first_claims seen vs) \<subseteq> set vs"
  by (induction seen vs rule: first_claims.induct) auto

lemma first_claims_fresh: "v \<in> set (first_claims seen vs) \<Longrightarrow> sv_order_id v \<notin> seen"
  by (induction seen vs rule: first_claims.induct) (auto split: if_splits)

lemma first_claims_distinct: "distinct (map sv_order_id (first_claims seen vs))"
  by (induction seen vs rule: first_claims.induct) (auto dest: first_claims_fresh)

lemma first_claims_sorted: "sorted (map f vs) \<Longrightarrow> sorted (map f (first_claims seen vs))"
  by (induction seen vs rule: first_claims.induct) (auto dest: subsetD [OF first_claims_subset])

lemma first_claims_covers:
  "sorted (map f vs) \<Longrightarrow> v \<in> set vs \<Longrightarrow> sv_order_id v \<notin> seen \<Longrightarrow>
   \<exists>w \<in> set (first_claims seen vs). sv_order_id w = sv_order_id v \<and> f w \<le> f v"
  by (induction seen vs rule: first_claims.induct) (auto, fastforce+)

lemma sorted_take_drop:
  assumes "sorted (map f xs)" "w \<in> set (drop n xs)" "u \<in> set (take n xs)"
  shows "f u \<le> f w"
proof -
  have "sorted (map f (take n xs) @ map f (drop n xs))" using assms(1) by (metis append_take_drop_id map_append)
  then show ?thesis using assms(2,3) by (auto simp: sorted_append)
qed

text \<open>
  Property: The plan for re-verifying a dissent has at most \<open>budget\<close> entries, one per order, each a claim of
  the response, in order of severity. No claim is left out for a less severe one: each claimed order is
  planned with its most severe claim, or the budget is used up by claims at least as severe.
\<close>

theorem reverification_plan:
  assumes "vr_verdict r = Some VERDICT_VETO"
  shows "length (plan_reverification r budget) \<le> nat budget
    \<and> distinct (map sv_order_id (plan_reverification r budget))
    \<and> sorted (map violation_severity_key (plan_reverification r budget))
    \<and> set (plan_reverification r budget) \<subseteq> set (vr_violations r)
    \<and> (\<forall>v \<in> set (vr_violations r).
         (\<exists>w \<in> set (plan_reverification r budget). sv_order_id w = sv_order_id v
            \<and> violation_severity_key w \<le> violation_severity_key v)
         \<or> length (plan_reverification r budget) = nat budget
           \<and> (\<forall>w \<in> set (plan_reverification r budget). violation_severity_key w \<le> violation_severity_key v))"
proof -
  define c where "c = first_claims {} (sort_key violation_severity_key (vr_violations r))"
  have p: "plan_reverification r budget = take (nat budget) c"
    using assms by (auto simp: plan_reverification_def c_def max_def)
  have s: "sorted (map violation_severity_key c)"
    unfolding c_def by (rule first_claims_sorted) simp
  have d: "distinct (map sv_order_id c)" unfolding c_def by (rule first_claims_distinct)
  have sub: "set c \<subseteq> set (vr_violations r)"
    unfolding c_def using first_claims_subset by (metis set_sort)
  have cov: "(\<exists>w \<in> set (take (nat budget) c). sv_order_id w = sv_order_id v
            \<and> violation_severity_key w \<le> violation_severity_key v)
      \<or> length (take (nat budget) c) = nat budget
        \<and> (\<forall>w \<in> set (take (nat budget) c). violation_severity_key w \<le> violation_severity_key v)"
    if v: "v \<in> set (vr_violations r)" for v
  proof -
    obtain w where w: "w \<in> set c" "sv_order_id w = sv_order_id v" "violation_severity_key w \<le> violation_severity_key v"
      using first_claims_covers [of violation_severity_key "sort_key violation_severity_key (vr_violations r)" v "{}"] v
      by (auto simp: c_def)
    show ?thesis
    proof (cases "w \<in> set (take (nat budget) c)")
      case False
      then have dr: "w \<in> set (drop (nat budget) c)" using w(1) by (metis append_take_drop_id set_append Un_iff)
      then have "length (take (nat budget) c) = nat budget" by (cases "length c \<le> nat budget") auto
      moreover have "violation_severity_key u \<le> violation_severity_key w" if "u \<in> set (take (nat budget) c)" for u
        using s dr that by (rule sorted_take_drop)
      ultimately show ?thesis using w(3) order_trans by blast
    qed (use w in blast)
  qed
  have "distinct (map sv_order_id (take (nat budget) c))"
    "sorted (map violation_severity_key (take (nat budget) c))"
    using d s by (simp_all add: take_map [symmetric] sorted_wrt_take)
  moreover have "set (take (nat budget) c) \<subseteq> set (vr_violations r)"
    using sub set_take_subset by fastforce
  moreover have "length (take (nat budget) c) \<le> nat budget" by simp
  ultimately show ?thesis
    unfolding p using cov by simp
qed

theorem reverification_plan_witness:
  "map sv_order_id (plan_reverification sample_response 10) = [''o1'', ''o2'']
   \<and> map sv_order_id (plan_reverification sample_response 1) = [''o1'']
   \<and> length (plan_reverification sample_response 1) \<le> 1"
proof -
  have v: "vr_verdict sample_response = Some VERDICT_VETO" by (simp add: sample_response_def)
  have "map sv_order_id (plan_reverification sample_response 10) = [''o1'', ''o2'']"
    "map sv_order_id (plan_reverification sample_response 1) = [''o1'']" by code_simp+
  with reverification_plan [OF v, of 1] show ?thesis by simp
qed

end
