(* ===== verification/Image_Ref.thy ===== *)
theory Image_Ref
  imports Py_Prelude
begin

text \<open>
  Image references of \<open>harness/image_transport.py\<close>: the bare digest that goes on chain, the local image
  id \<open>sha256:<hex>\<close> and the pullable reference \<open><repo>@sha256:<hex>\<close>. The environment variable is an
  argument.
\<close>

definition is_hex64 :: "string \<Rightarrow> bool" where
  "is_hex64 s \<longleftrightarrow> length s = 64
     \<and> list_all (\<lambda>c. let n = of_char c :: nat in 48 \<le> n \<and> n \<le> 57 \<or> 97 \<le> n \<and> n \<le> 102) s"

text \<open>
  \<open>_REPO_DIGEST.match(s)\<close> on a stripped string: the digest and its marker are the last 72 characters, the
  repository is the rest, which is not empty and has no line break.
\<close>

definition match_repo_digest :: "string \<Rightarrow> (string \<times> string) option" where
  "match_repo_digest s =
     (let repo = take (length s - 72) s; tail = drop (length s - 72) s in
      if repo \<noteq> [] \<and> CHR 0x0A \<notin> set repo \<and> take 8 tail = ''@sha256:'' \<and> is_hex64 (drop 8 tail)
      then Some (repo, drop 8 tail) else None)"

definition DEFAULT_CANDIDATE_REPO :: string where
  "DEFAULT_CANDIDATE_REPO = ''ghcr.io/subnet112/minotaur-solver''"

definition image_env :: "string option \<Rightarrow> string" where
  "image_env v = strip (or_empty v)"

definition candidate_repo :: "string option \<Rightarrow> string" where
  "candidate_repo v = (if image_env v \<noteq> [] then image_env v else DEFAULT_CANDIDATE_REPO)"

definition leader_pushes_digests :: "string option \<Rightarrow> bool" where
  "leader_pushes_digests v \<longleftrightarrow> image_env v \<noteq> []"

definition bare_hex :: "string option \<Rightarrow> string option" where
  "bare_hex ref = (case ref of None \<Rightarrow> None | Some r \<Rightarrow>
     if r = [] then None
     else let s = strip r in
       case match_repo_digest s of
         Some (_, h) \<Rightarrow> Some h
       | None \<Rightarrow>
          let s = (if take 7 (lower s) = ''sha256:'' then drop 7 s else s); s = lower s
          in if is_hex64 s then Some s else None)"

definition is_digest_ref :: "string option \<Rightarrow> bool" where
  "is_digest_ref s \<longleftrightarrow> or_empty s \<noteq> [] \<and> match_repo_digest (strip (or_empty s)) \<noteq> None"

definition is_bare_digest :: "string option \<Rightarrow> bool" where
  "is_bare_digest s \<longleftrightarrow> or_empty s \<noteq> [] \<and> is_hex64 (lower (strip (or_empty s)))"

definition parse_repo_digest :: "string option \<Rightarrow> (string \<times> string) option" where
  "parse_repo_digest s = (if or_empty s = [] then None else match_repo_digest (strip (or_empty s)))"

definition make_digest_ref :: "string \<Rightarrow> string option \<Rightarrow> string option" where
  "make_digest_ref repo r = (case bare_hex r of
     Some h \<Rightarrow> if h \<noteq> [] \<and> repo \<noteq> [] then Some (repo @ ''@sha256:'' @ h) else None
   | None \<Rightarrow> None)"

section \<open>The three shapes carry the same digest\<close>

lemma is_hex64_props:
  assumes "is_hex64 h"
  shows "h \<noteq> []" "\<not> is_space (hd h)" "\<not> is_space (last h)" "lower h = h" "length h = 64" "strip h = h"
proof -
  have l: "length h = 64" and a: "\<And>c. c \<in> set h \<Longrightarrow> 48 \<le> (of_char c :: nat) \<and> of_char c \<le> (57::nat)
      \<or> 97 \<le> (of_char c :: nat) \<and> of_char c \<le> (102::nat)"
    using assms by (auto simp: is_hex64_def list_all_iff Let_def)
  then show ne: "h \<noteq> []" by auto
  from a have s: "\<not> is_space c" "lower_char c = c" if "c \<in> set h" for c
    using that by (fastforce simp: is_space_def lower_char_def Let_def)+
  then show h1: "\<not> is_space (hd h)" "\<not> is_space (last h)" using ne by simp_all
  show "lower h = h" unfolding lower_def using s by (simp add: map_idI)
  show "length h = 64" by (rule l)
  show "strip h = h" using ne h1 by (rule strip_id)
qed

lemma match_repo_digest_ref:
  assumes "is_hex64 h" "repo \<noteq> []" "CHR 0x0A \<notin> set repo"
  shows "match_repo_digest (repo @ ''@sha256:'' @ h) = Some (repo, h)"
proof -
  have "length (repo @ ''@sha256:'' @ h) - 72 = length repo"
    using is_hex64_props(5) [OF assms(1)] by simp
  then show ?thesis unfolding match_repo_digest_def Let_def using assms by simp
qed

lemma match_repo_digest_Some:
  assumes "match_repo_digest s = Some (repo, h)"
  shows "s = repo @ ''@sha256:'' @ h \<and> is_hex64 h \<and> repo \<noteq> []"
proof -
  let ?t = "drop (length s - 72) s"
  have r: "repo = take (length s - 72) s" and h: "h = drop 8 ?t" and t: "take 8 ?t = ''@sha256:''"
    and x: "is_hex64 h" "repo \<noteq> []"
    using assms by (auto simp: match_repo_digest_def Let_def split: if_splits)
  have "s = take (length s - 72) s @ take 8 ?t @ drop 8 ?t" by (simp only: append_take_drop_id)
  then show ?thesis using r h t x by simp
qed

lemma no_digest_without_marker: "length s \<le> 72 \<Longrightarrow> match_repo_digest s = None"
  by (simp add: match_repo_digest_def)

lemma strip_ref:
  assumes "is_hex64 h" "repo \<noteq> []" "strip repo = repo"
  shows "strip (repo @ ''@sha256:'' @ h) = repo @ ''@sha256:'' @ h"
proof (rule strip_id)
  have "\<not> is_space (hd repo)"
  proof
    assume "is_space (hd repo)"
    then have "length (dropWhile is_space repo) < length repo"
      using assms(2) by (cases repo) (auto simp: le_imp_less_Suc length_dropWhile_le)
    moreover have "length (strip repo) \<le> length (dropWhile is_space repo)"
      unfolding strip_def by (metis length_dropWhile_le length_rev)
    ultimately show False using assms(3) by simp
  qed
  then show "\<not> is_space (hd (repo @ ''@sha256:'' @ h))" using assms(2) by simp
  show "\<not> is_space (last (repo @ ''@sha256:'' @ h))" using is_hex64_props(1,3) [OF assms(1)] by simp
qed simp

text \<open>
  Property: The three shapes of an image reference carry the same digest: for a 64-digit digest \<open>h\<close> and a
  repository without surrounding space or line break, \<open>h\<close>, \<open>sha256:h\<close> and \<open>repo@sha256:h\<close> all
  reduce to \<open>h\<close>, the pullable reference is rebuilt from each of them and splits into the repository and
  \<open>h\<close>, and only the first is a bare digest, only the last a pullable one.
\<close>

theorem digest_shapes_agree:
  assumes "is_hex64 h" "repo \<noteq> []" "strip repo = repo" "CHR 0x0A \<notin> set repo"
    and "s \<in> {h, ''sha256:'' @ h, repo @ ''@sha256:'' @ h}"
  shows "bare_hex (Some s) = Some h
    \<and> make_digest_ref repo (Some s) = Some (repo @ ''@sha256:'' @ h)
    \<and> parse_repo_digest (make_digest_ref repo (Some s)) = Some (repo, h)
    \<and> (is_bare_digest (Some s) \<longleftrightarrow> s = h) \<and> (is_digest_ref (Some s) \<longleftrightarrow> s = repo @ ''@sha256:'' @ h)"
proof -
  note hx = is_hex64_props [OF assms(1)]
  have lw: "lower ''sha256:'' = ''sha256:''" by code_simp
  have p: "lower (''sha256:'' @ h) = ''sha256:'' @ h" using hx(4) lw by (simp add: lower_def)
  have st: "strip (''sha256:'' @ h) = ''sha256:'' @ h"
    using hx(1,3) by (intro strip_id) (simp_all add: is_space_def)
  have n: "match_repo_digest h = None" "match_repo_digest (''sha256:'' @ h) = None"
    using hx(5) by (simp_all add: no_digest_without_marker)
  have hp: "take 7 h \<noteq> ''sha256:''"
  proof
    assume "take 7 h = ''sha256:''"
    then have "h = ''sha256:'' @ drop 7 h" by (metis append_take_drop_id)
    then have "CHR ''s'' \<in> set h" by (metis append_Cons list.set_intros(1))
    then show False using assms(1) by (auto simp: is_hex64_def list_all_iff Let_def)
  qed
  note m = match_repo_digest_ref [OF assms(1,2,4)] and sr = strip_ref [OF assms(1-3)]
  have b: "bare_hex (Some s) = Some h"
    using assms(1,5) hx n hp p st m sr by (auto simp: bare_hex_def Let_def)
  have l: "\<not> is_hex64 (lower (strip (repo @ ''@sha256:'' @ h)))" "\<not> is_hex64 (lower (strip (''sha256:'' @ h)))"
    unfolding sr st using hx(5) by (simp_all add: is_hex64_def lower_def)
  have "is_bare_digest (Some s) \<longleftrightarrow> s = h"
    using assms(1,5) hx l by (auto simp: is_bare_digest_def)
  moreover have "is_digest_ref (Some s) \<longleftrightarrow> s = repo @ ''@sha256:'' @ h"
    using assms(5) hx n st m sr by (auto simp: is_digest_ref_def)
  moreover have "make_digest_ref repo (Some s) = Some (repo @ ''@sha256:'' @ h)"
    using b assms(2) hx(1) by (simp add: make_digest_ref_def)
  ultimately show ?thesis using b m sr by (simp add: parse_repo_digest_def)
qed

theorem digest_shapes_agree_witness:
  "make_digest_ref ''ghcr.io/x'' (Some (''sha256:'' @ replicate 64 CHR ''a''))
     = Some (''ghcr.io/x@sha256:'' @ replicate 64 CHR ''a'')"
proof -
  have "is_hex64 (replicate 64 CHR ''a'')" "strip ''ghcr.io/x'' = ''ghcr.io/x''" by code_simp+
  from digest_shapes_agree [OF this(1) _ this(2), of "''sha256:'' @ replicate 64 CHR ''a''"]
  show ?thesis by simp
qed

end
