(* ===== verification/Veto_Wire.thy ===== *)
theory Veto_Wire
  imports Veto Image_Ref
begin

text \<open>
  The wire layer of the distributed veto, \<open>api/routes/submissions/veto_wire.py\<close>: the decisions on
  opening, streaming and gating, the leader's registry of phases with the send bookkeeping of the
  module, the follower's acceptance of assignments, and signing, submission and ingestion of responses.

  The leader's state is the record \<open>veto_leader\<close>: \<open>REGISTRY._phases\<close>, \<open>_SEND_REJECT_STREAKS\<close> and
  \<open>_SIGNED_SERVE_CACHE\<close>. A follower's state is \<open>_ACTIVE_SLICE_TASKS\<close>, with tasks as numbers whose completion
  is observed through the argument \<open>task_done\<close>. Environment variables, HTTP posts, the clock and the
  third-party \<open>eth_account\<close> are arguments.
\<close>

section \<open>Decisions\<close>

datatype open_decision = Veto_Open | Veto_Defer | Veto_Skip

definition veto_open_decision :: "bool \<Rightarrow> bool \<Rightarrow> bool \<Rightarrow> bool \<Rightarrow> open_decision" where
  "veto_open_decision is_certify_state has_finalist phase_exists has_peers =
     (if phase_exists \<or> \<not> is_certify_state \<or> \<not> has_finalist then Veto_Skip
      else if \<not> has_peers then Veto_Defer else Veto_Open)"

definition distributed_veto_enabled :: "string option \<Rightarrow> bool" where
  "distributed_veto_enabled v \<longleftrightarrow>
     lower (strip (case v of None \<Rightarrow> ''1'' | Some s \<Rightarrow> s)) \<in> {''1'', ''true'', ''yes'', ''on''}"

datatype enforce_mode = Enforce_Off | Enforce_Shadow | Enforce_Hard

definition distributed_veto_enforce_mode :: "string option \<Rightarrow> enforce_mode" where
  "distributed_veto_enforce_mode v = (case v of None \<Rightarrow> Enforce_Hard | Some raw \<Rightarrow>
     let raw = lower (strip raw) in
     if raw \<in> {''off'', ''0'', ''false'', ''no'', ''disable'', ''disabled'', ''observe''} then Enforce_Off
     else if raw \<in> {''shadow'', ''dry'', ''dryrun'', ''observe-gate''} then Enforce_Shadow
     else Enforce_Hard)"

definition distributed_veto_reverify_enabled :: "string option \<Rightarrow> bool" where
  "distributed_veto_reverify_enabled v = (case v of None \<Rightarrow> True | Some raw \<Rightarrow>
     lower (strip raw) \<notin> {''0'', ''false'', ''no'', ''off''})"

datatype gate = Gate_Block | Gate_Allow | Gate_Wait

definition veto_gate_decision :: "bool \<Rightarrow> nat \<Rightarrow> bool option \<Rightarrow> bool \<Rightarrow> int \<Rightarrow> int \<Rightarrow> gate" where
  "veto_gate_decision resolved n_veto would_gate_confirmed reverify_enabled current_epoch veto_deadline_epoch =
     (if would_gate_confirmed = Some True then Gate_Block
      else if current_epoch > veto_deadline_epoch then Gate_Allow
      else if \<not> resolved then Gate_Wait
      else if n_veto > 0 \<and> would_gate_confirmed = None \<and> reverify_enabled then Gate_Wait
      else Gate_Allow)"

datatype stream_action = Stream_Spawn | Stream_Write_Result | Stream_Write_None | Stream_Pending | Stream_Noop

definition veto_stream_action :: "bool \<Rightarrow> bool \<Rightarrow> bool \<Rightarrow> bool \<Rightarrow> bool \<Rightarrow> bool \<Rightarrow> bool \<Rightarrow> stream_action" where
  "veto_stream_action reverify_enabled has_veto resolved inflight uncovered result_present confirmed =
     (if confirmed then Stream_Write_Result
      else if \<not> (reverify_enabled \<and> has_veto) then (if resolved then Stream_Write_None else Stream_Noop)
      else if uncovered \<and> \<not> inflight then Stream_Spawn
      else if \<not> resolved then Stream_Noop
      else if inflight \<or> uncovered then Stream_Pending
      else if result_present then Stream_Write_Result
      else Stream_Pending)"

section \<open>The leader's registry\<close>

type_synonym payload = "(string \<times> json) list"

record veto_leader =
  vl_phases :: "(string \<times> veto_phase) list"
  vl_streaks :: "((string \<times> string) \<times> nat) list"
  vl_cache :: "((string \<times> string) \<times> string \<times> payload) list"

definition no_phases :: veto_leader where
  "no_phases = \<lparr>vl_phases = [], vl_streaks = [], vl_cache = []\<rparr>"

definition MAX_ROUNDS :: nat where "MAX_ROUNDS = 8"

definition K_CONSECUTIVE_UNSUPPORTED :: nat where "K_CONSECUTIVE_UNSUPPORTED = 3"

definition forget_round_send_state :: "string \<Rightarrow> veto_leader \<Rightarrow> veto_leader" where
  "forget_round_send_state round_id st =
     st\<lparr>vl_streaks := filter (\<lambda>(k, _). fst k \<noteq> round_id) (vl_streaks st),
        vl_cache := filter (\<lambda>(k, _). fst k \<noteq> round_id) (vl_cache st)\<rparr>"

lemma length_delete_hd: "d \<noteq> [] \<Longrightarrow> length (AList.delete (fst (hd d)) d) < length d"
  by (cases d) (auto simp: AList.delete_eq le_imp_less_Suc)

lemma forget_phases [simp]: "vl_phases (forget_round_send_state r st) = vl_phases st"
  by (simp add: forget_round_send_state_def)

text \<open>The \<open>while\<close> loop of \<open>open_phase\<close>: the oldest phases go, with their send bookkeeping.\<close>

function evict_phases :: "veto_leader \<Rightarrow> veto_leader" where
  "evict_phases st =
     (if length (vl_phases st) > MAX_ROUNDS then
        (let oldest = fst (hd (vl_phases st)) in
         evict_phases (forget_round_send_state oldest (st\<lparr>vl_phases := AList.delete oldest (vl_phases st)\<rparr>)))
      else st)"
  by pat_completeness auto

termination
  by (relation "measure (length \<circ> vl_phases)") (auto intro!: length_delete_hd)

declare evict_phases.simps [simp del]

definition open_phase :: "string \<Rightarrow> veto_phase \<Rightarrow> veto_leader \<Rightarrow> veto_leader" where
  "open_phase round_id p st = evict_phases (st\<lparr>vl_phases := AList.update round_id p (vl_phases st)\<rparr>)"

definition get_phase :: "veto_leader \<Rightarrow> string \<Rightarrow> veto_phase option" where
  "get_phase st round_id = map_of (vl_phases st) round_id"

definition clear_phases :: "veto_leader \<Rightarrow> veto_leader" where
  "clear_phases st = st\<lparr>vl_phases := []\<rparr>"

definition mark_unsupported :: "string \<Rightarrow> string \<Rightarrow> veto_leader \<Rightarrow> veto_leader" where
  "mark_unsupported round_id validator_evm st = (case get_phase st round_id of
     None \<Rightarrow> st
   | Some p \<Rightarrow> (let evm = lower validator_evm in
       if evm \<in> set (vp_unsupported p) then st
       else st\<lparr>vl_phases := AList.update round_id (p\<lparr>vp_unsupported := vp_unsupported p @ [evm]\<rparr>) (vl_phases st)\<rparr>))"

datatype record_result =
    Unknown_Round | No_Assignment | Stale_Assignment | Invalid_Response rejection_reason | Duplicate | Accepted

definition assignment_for :: "veto_phase \<Rightarrow> string \<Rightarrow> slice_assignment option" where
  "assignment_for p evm = find (\<lambda>a. lower (sa_validator_evm a) = evm) (vp_assignments p)"

definition record_response ::
  "(string \<Rightarrow> string) \<Rightarrow> string \<Rightarrow> veto_response \<Rightarrow> veto_leader \<Rightarrow> record_result \<times> veto_leader" where
  "record_response sha256 round_id r st = (case get_phase st round_id of
     None \<Rightarrow> (Unknown_Round, st)
   | Some p \<Rightarrow>
      let evm = lower (vr_validator_evm r) in
      case assignment_for p evm of
        None \<Rightarrow> (No_Assignment, st)
      | Some a \<Rightarrow>
         if vr_assignment_id r \<noteq> assignment_id sha256 a then (Stale_Assignment, st)
         else case validate_response sha256 r a of
           Some e \<Rightarrow> (Invalid_Response e, st)
         | None \<Rightarrow>
            let accept = (Accepted, st\<lparr>vl_phases :=
                  AList.update round_id (p\<lparr>vp_responses := AList.update evm r (vp_responses p)\<rparr>) (vl_phases st)\<rparr>)
            in case map_of (vp_responses p) evm of
                 None \<Rightarrow> accept
               | Some old \<Rightarrow> if vr_assignment_id old = vr_assignment_id r then (Duplicate, st) else accept)"

definition serve_signed_assignment ::
  "(string \<Rightarrow> string) \<Rightarrow> (payload \<Rightarrow> payload) \<Rightarrow> string \<Rightarrow> string \<Rightarrow> veto_leader \<Rightarrow> payload option \<times> veto_leader" where
  "serve_signed_assignment sha256 sign_payload round_id validator st = (case get_phase st round_id of
     None \<Rightarrow> (None, st)
   | Some p \<Rightarrow> (case assignment_for p (lower validator) of
        None \<Rightarrow> (None, st)
      | Some a \<Rightarrow>
         let key = (round_id, lower validator);
             signed = sign_payload (assignment_to_payload sha256 a);
             store = (Some signed, st\<lparr>vl_cache := AList.update key (assignment_id sha256 a, signed) (vl_cache st)\<rparr>)
         in case map_of (vl_cache st) key of
              None \<Rightarrow> store
            | Some (aid, cached) \<Rightarrow> if aid = assignment_id sha256 a then (Some cached, st) else store))"

section \<open>Fan-out\<close>

datatype send_result = Send_Acked | Send_Unsupported | Send_Unreachable

definition ASSIGNMENT_PATH :: string where
  "ASSIGNMENT_PATH = ''/v1/solver/round/internal/veto-assignment''"

definition rstrip_slash :: "string \<Rightarrow> string" where
  "rstrip_slash s = rev (dropWhile (\<lambda>c. c = CHR ''/'') (rev s))"

text \<open>
  \<open>_send_one\<close>: \<open>post\<close> gives the HTTP status, \<open>None\<close> standing for an exception of the transport;
  an exception of \<open>sign_payload\<close> ends the send and is reported as unreachable by the gathering loop.
\<close>

definition send_one ::
  "(string \<Rightarrow> string) \<Rightarrow> (payload \<Rightarrow> payload res) \<Rightarrow> (string \<Rightarrow> payload \<Rightarrow> int option) \<Rightarrow> (string \<times> string) list
   \<Rightarrow> slice_assignment \<Rightarrow> ((string \<times> string) \<times> nat) list \<Rightarrow> send_result \<times> ((string \<times> string) \<times> nat) list" where
  "send_one sha256 sign_payload post peer_urls a streaks =
     (let evm = lower (sa_validator_evm a);
          key = (sa_round_id a, evm);
          base = rstrip_slash (case map_of peer_urls evm of None \<Rightarrow> [] | Some u \<Rightarrow> u);
          reset = AList.delete key streaks
      in if base = [] then (Send_Unreachable, reset)
         else case sign_payload (assignment_to_payload sha256 a) of
           Inl _ \<Rightarrow> (Send_Unreachable, streaks)
         | Inr payload \<Rightarrow> (case post (base @ ASSIGNMENT_PATH) payload of
             None \<Rightarrow> (Send_Unreachable, reset)
           | Some status \<Rightarrow>
              if status \<in> {200, 202} then (Send_Acked, reset)
              else if status \<in> {401, 403, 404, 405, 409, 410, 422} then
                (Send_Unsupported, AList.update key
                   ((case map_of streaks key of None \<Rightarrow> 0 | Some n \<Rightarrow> n) + 1) streaks)
              else (Send_Unreachable, reset)))"

fun fan_out_targets ::
  "(slice_assignment \<Rightarrow> ((string \<times> string) \<times> nat) list \<Rightarrow> send_result \<times> ((string \<times> string) \<times> nat) list)
   \<Rightarrow> slice_assignment list \<Rightarrow> (string \<times> send_result) list \<Rightarrow> ((string \<times> string) \<times> nat) list
   \<Rightarrow> (string \<times> send_result) list \<times> ((string \<times> string) \<times> nat) list" where
  "fan_out_targets send [] results streaks = (results, streaks)"
| "fan_out_targets send (a # as) results streaks =
     (case send a streaks of (res, streaks') \<Rightarrow>
        fan_out_targets send as (AList.update (lower (sa_validator_evm a)) res results) streaks')"

definition fan_out_assignments ::
  "(string \<Rightarrow> string) \<Rightarrow> (payload \<Rightarrow> payload res) \<Rightarrow> (string \<Rightarrow> payload \<Rightarrow> int option) \<Rightarrow> (string \<times> string) list
   \<Rightarrow> string list \<Rightarrow> slice_assignment list \<Rightarrow> veto_leader \<Rightarrow> (string \<times> send_result) list \<times> veto_leader" where
  "fan_out_assignments sha256 sign_payload post peer_urls exclude assignments st =
     (let targets = filter (\<lambda>a. lower (sa_validator_evm a) \<notin> lower ` set exclude) assignments in
      case fan_out_targets (send_one sha256 sign_payload post peer_urls) targets [] (vl_streaks st) of
        (results, streaks) \<Rightarrow> (results, st\<lparr>vl_streaks := streaks\<rparr>))"

definition consecutive_reject_terminal :: "string \<Rightarrow> string \<Rightarrow> veto_leader \<Rightarrow> bool" where
  "consecutive_reject_terminal round_id validator_evm st \<longleftrightarrow>
     (case map_of (vl_streaks st) (round_id, lower validator_evm) of None \<Rightarrow> 0 | Some n \<Rightarrow> n) \<ge> K_CONSECUTIVE_UNSUPPORTED"

section \<open>Acceptance by a follower\<close>

type_synonym active_tasks = "(string \<times> string \<times> nat) list"

definition MAX_ACTIVE_SLICE_ROUNDS :: nat where "MAX_ACTIVE_SLICE_ROUNDS = 12"

text \<open>The backstop loop of \<open>_reap_finished_slice_tasks\<close>, with the tasks it cancels.\<close>

function evict_tasks :: "(nat \<Rightarrow> bool) \<Rightarrow> active_tasks \<Rightarrow> nat list \<Rightarrow> active_tasks \<times> nat list" where
  "evict_tasks task_done active cancelled =
     (if length active > MAX_ACTIVE_SLICE_ROUNDS then
        (case hd active of (oldest, _, t) \<Rightarrow>
           evict_tasks task_done (AList.delete oldest active) (if task_done t then cancelled else cancelled @ [t]))
      else (active, cancelled))"
  by pat_completeness auto

termination
proof (relation "measure (\<lambda>(_, active, _). length active)")
  fix active :: active_tasks and oldest p t and cancelled :: "nat list" and task_done :: "nat \<Rightarrow> bool" and x y
  assume "MAX_ACTIVE_SLICE_ROUNDS < length active" "(oldest, y) = hd active"
  then have "oldest = fst (hd active)" "active \<noteq> []" by (metis fst_conv, auto)
  then show "((task_done, AList.delete oldest active, p), task_done, active, cancelled)
      \<in> measure (\<lambda>(_, active, _). length active)" using length_delete_hd [of active] by simp
qed simp

declare evict_tasks.simps [simp del]

definition reap_finished_slice_tasks :: "(nat \<Rightarrow> bool) \<Rightarrow> active_tasks \<Rightarrow> active_tasks \<times> nat list" where
  "reap_finished_slice_tasks task_done active =
     evict_tasks task_done (filter (\<lambda>(_, _, t). \<not> task_done t) active) []"

datatype accept_ack =
    Ack_Integrity integrity | Ack_Not_Addressed | Ack_Deadline_Elapsed | Ack_Duplicate | Ack_Accepted

definition spawn_slice_task ::
  "(string \<Rightarrow> string) \<Rightarrow> slice_assignment \<Rightarrow> nat \<Rightarrow> (nat \<Rightarrow> bool) \<Rightarrow> nat list \<Rightarrow> active_tasks
   \<Rightarrow> accept_ack \<times> active_tasks \<times> nat list" where
  "spawn_slice_task sha256 a new_task task_done superseded active =
     (case reap_finished_slice_tasks task_done
             (AList.update (sa_round_id a) (assignment_id sha256 a, new_task) active) of
        (active', evicted) \<Rightarrow> (Ack_Accepted, active', superseded @ evicted))"

definition schedule_slice ::
  "(string \<Rightarrow> string) \<Rightarrow> slice_assignment \<Rightarrow> nat \<Rightarrow> (nat \<Rightarrow> bool) \<Rightarrow> active_tasks
   \<Rightarrow> accept_ack \<times> active_tasks \<times> nat list" where
  "schedule_slice sha256 a new_task task_done active = (case map_of active (sa_round_id a) of
       None \<Rightarrow> spawn_slice_task sha256 a new_task task_done [] active
     | Some (active_id, t) \<Rightarrow>
         if active_id = assignment_id sha256 a then (Ack_Duplicate, active, [])
         else spawn_slice_task sha256 a new_task task_done (if task_done t then [] else [t]) active)"

definition accept_assignment ::
  "(string \<Rightarrow> string) \<Rightarrow> payload \<Rightarrow> int \<Rightarrow> string option \<Rightarrow> nat \<Rightarrow> (nat \<Rightarrow> bool) \<Rightarrow> active_tasks
   \<Rightarrow> (accept_ack \<times> active_tasks \<times> nat list) res" where
  "accept_assignment sha256 payload current_epoch own_evm new_task task_done active =
     res_bind (verify_assignment_integrity sha256 payload) (\<lambda>verdict.
     if verdict \<noteq> Intact then Inr (Ack_Integrity verdict, active, [])
     else res_bind (assignment_from_payload payload) (\<lambda>a.
     if or_empty own_evm \<noteq> [] \<and> lower (sa_validator_evm a) \<noteq> lower (or_empty own_evm)
       then Inr (Ack_Not_Addressed, active, [])
     else if current_epoch > sa_deadline_epoch a then Inr (Ack_Deadline_Elapsed, active, [])
     else Inr (schedule_slice sha256 a new_task task_done active)))"

section \<open>Submission of a response\<close>

text \<open>
  The retry loop of \<open>submit_response\<close>. \<open>epochs i\<close> is the epoch read before the post \<open>i\<close> and
  \<open>posts i\<close> its HTTP status, \<open>None\<close> for an exception. The result is paired with the number of posts.
\<close>

definition REJECT_STATUSES :: "int set" where
  "REJECT_STATUSES = {400, 401, 404, 409, 413, 422}"

definition post_transient :: "int option \<Rightarrow> bool" where
  "post_transient p = (case p of None \<Rightarrow> True | Some s \<Rightarrow> s \<noteq> 200 \<and> s \<notin> REJECT_STATUSES)"

function submit_loop ::
  "(nat \<Rightarrow> int) \<Rightarrow> int \<Rightarrow> (nat \<Rightarrow> int option) \<Rightarrow> int \<Rightarrow> nat \<Rightarrow> int \<Rightarrow> bool \<times> nat" where
  "submit_loop epochs deadline posts max_retries i transient =
     (if \<not> epochs i \<le> deadline then (False, i)
      else if post_transient (posts i) then
        (if transient + 1 > max_retries then (False, Suc i)
         else submit_loop epochs deadline posts max_retries (Suc i) (transient + 1))
      else (posts i = Some 200, Suc i))"
  by pat_completeness auto

termination
  by (relation "measure (\<lambda>(_, _, _, m, _, t). nat (m - t))") auto

declare submit_loop.simps [simp del]

definition submit_response ::
  "string \<Rightarrow> string option \<Rightarrow> int \<Rightarrow> (nat \<Rightarrow> int) \<Rightarrow> (nat \<Rightarrow> int option) \<Rightarrow> int \<Rightarrow> bool \<times> nat" where
  "submit_response leader_api_url private_key deadline epochs posts max_transient_retries =
     (if rstrip_slash leader_api_url = [] then (False, 0)
      else if or_empty private_key = [] then (False, 0)
      else submit_loop epochs deadline posts max_transient_retries 0 0)"

section \<open>Signed responses and their ingestion\<close>

text \<open>\<open>eth_account\<close>: the address of a key, \<open>sign_message(encode_defunct(text))\<close> in hexadecimal, and the recovery.\<close>

record personal =
  address_of :: "string \<Rightarrow> string"
  sign_text :: "string \<Rightarrow> string \<Rightarrow> string"
  recover_text :: "string \<Rightarrow> string \<Rightarrow> string res"

definition sign_response_payload ::
  "personal \<Rightarrow> (real \<Rightarrow> string) \<Rightarrow> payload \<Rightarrow> string \<Rightarrow> payload" where
  "sign_response_payload acct flt p private_key =
     (let signed = AList.update ''validator_evm'' (JStr (lower (address_of acct private_key)))
                     (AList.delete ''validator_signature'' p)
      in AList.update ''validator_signature'' (JStr (sign_text acct (dumps flt (JObj signed)) private_key)) signed)"

datatype signer_result = Signer string | Missing_Fields | Recovery_Failed | Signer_Mismatch

definition text_of :: "json \<Rightarrow> string res" where
  "text_of v = (if jfalsy v then Inr [] else py_str v)"

definition verify_response_signature :: "personal \<Rightarrow> (real \<Rightarrow> string) \<Rightarrow> payload \<Rightarrow> signer_result res" where
  "verify_response_signature acct flt raw =
     res_bind (text_of (jget raw ''validator_signature'')) (\<lambda>sig.
     res_bind (text_of (jget raw ''validator_evm'')) (\<lambda>claimed.
     if strip sig = [] \<or> strip claimed = [] then Inr Missing_Fields
     else case recover_text acct (dumps flt (JObj (AList.delete ''validator_signature'' raw))) (strip sig) of
       Inl _ \<Rightarrow> Inr Recovery_Failed
     | Inr recovered \<Rightarrow>
        if lower recovered \<noteq> lower (strip claimed) then Inr Signer_Mismatch
        else Inr (Signer (lower recovered))))"

datatype ingest_body =
    Body_Auth signer_result | Body_Unauthorized | Body_Malformed py_exc | Body_Record record_result

fun record_status :: "record_result \<Rightarrow> int" where
  "record_status Unknown_Round = 404"
| "record_status No_Assignment = 404"
| "record_status Stale_Assignment = 409"
| "record_status (Invalid_Response _) = 409"
| "record_status Duplicate = 200"
| "record_status Accepted = 200"

definition ingest_response ::
  "personal \<Rightarrow> (real \<Rightarrow> string) \<Rightarrow> (string \<Rightarrow> string) \<Rightarrow> (string \<Rightarrow> bool) \<Rightarrow> payload \<Rightarrow> veto_leader
   \<Rightarrow> ((int \<times> ingest_body) \<times> veto_leader) res" where
  "ingest_response acct flt sha256 is_authorized_signer raw st =
     res_bind (verify_response_signature acct flt raw) (\<lambda>who.
     case who of
       Signer evm \<Rightarrow>
         if \<not> is_authorized_signer evm then Inr ((401, Body_Unauthorized), st)
         else (case response_from_payload raw of
           Inl e \<Rightarrow> if caught e then Inr ((422, Body_Malformed e), st) else Inl e
         | Inr r \<Rightarrow> (case record_response sha256 (vr_round_id r) r st of
             (res, st') \<Rightarrow> Inr ((record_status res, Body_Record res), st')))
     | bad \<Rightarrow> Inr ((401, Body_Auth bad), st))"

section \<open>Invariant of the registry\<close>

definition phase_ok :: "(string \<Rightarrow> string) \<Rightarrow> veto_phase \<Rightarrow> bool" where
  "phase_ok sha256 p \<longleftrightarrow> wf_dict (vp_responses p)
     \<and> (\<forall>(evm, r) \<in> set (vp_responses p). lower (vr_validator_evm r) = evm
          \<and> (\<exists>a. assignment_for p evm = Some a \<and> validate_response sha256 r a = None))"

definition registry_ok :: "(string \<Rightarrow> string) \<Rightarrow> veto_leader \<Rightarrow> bool" where
  "registry_ok sha256 st \<longleftrightarrow> wf_dict (vl_phases st) \<and> length (vl_phases st) \<le> MAX_ROUNDS
     \<and> (\<forall>(rid, p) \<in> set (vl_phases st). phase_ok sha256 p)"

text \<open>
  The operations on the leader's state in any order. The coordinator opens a phase without responses,
  marks phases as resolved and forgets their send state.
\<close>

inductive leader_reach :: "(string \<Rightarrow> string) \<Rightarrow> veto_leader \<Rightarrow> bool" for sha256 :: "string \<Rightarrow> string" where
  start: "leader_reach sha256 no_phases"
| opened: "leader_reach sha256 st \<Longrightarrow> vp_responses p = [] \<Longrightarrow> leader_reach sha256 (open_phase rid p st)"
| cleared: "leader_reach sha256 st \<Longrightarrow> leader_reach sha256 (clear_phases st)"
| unsupported: "leader_reach sha256 st \<Longrightarrow> leader_reach sha256 (mark_unsupported rid evm st)"
| recorded: "leader_reach sha256 st \<Longrightarrow> leader_reach sha256 (snd (record_response sha256 rid r st))"
| served: "leader_reach sha256 st \<Longrightarrow> leader_reach sha256 (snd (serve_signed_assignment sha256 sign rid evm st))"
| sent: "leader_reach sha256 st \<Longrightarrow>
    leader_reach sha256 (snd (fan_out_assignments sha256 sign_res post urls excl as st))"
| forgotten: "leader_reach sha256 st \<Longrightarrow> leader_reach sha256 (forget_round_send_state rid st)"
| resolved: "leader_reach sha256 st \<Longrightarrow> get_phase st rid = Some p \<Longrightarrow>
    leader_reach sha256 (st\<lparr>vl_phases := AList.update rid (p\<lparr>vp_resolved := True, vp_resolution := res\<rparr>) (vl_phases st)\<rparr>)"

lemma phase_ok_cong:
  "vp_responses q = vp_responses p \<Longrightarrow> vp_assignments q = vp_assignments p \<Longrightarrow> phase_ok sha256 q = phase_ok sha256 p"
  by (simp add: phase_ok_def assignment_for_def)

lemma evict_phases_props:
  "length (vl_phases (evict_phases st)) \<le> MAX_ROUNDS \<and> set (vl_phases (evict_phases st)) \<subseteq> set (vl_phases st)
   \<and> (wf_dict (vl_phases st) \<longrightarrow> wf_dict (vl_phases (evict_phases st)))"
proof (induction st rule: evict_phases.induct)
  case (1 st)
  show ?case
  proof (cases "length (vl_phases st) > MAX_ROUNDS")
    case True
    let ?o = "fst (hd (vl_phases st))"
    let ?n = "forget_round_send_state ?o (st\<lparr>vl_phases := AList.delete ?o (vl_phases st)\<rparr>)"
    have "evict_phases st = evict_phases ?n" using True by (simp add: evict_phases.simps [of st] Let_def)
    moreover have "set (vl_phases ?n) \<subseteq> set (vl_phases st)" by (auto simp: AList.delete_eq)
    moreover have "wf_dict (vl_phases st) \<longrightarrow> wf_dict (vl_phases ?n)" by (simp add: alist.inv_del)
    ultimately show ?thesis using 1 [OF True refl] by auto
  qed (simp add: evict_phases.simps [of st])
qed

lemma registry_ok_update:
  assumes "registry_ok sha256 st" "get_phase st rid \<noteq> None" "phase_ok sha256 p"
  shows "registry_ok sha256 (st\<lparr>vl_phases := AList.update rid p (vl_phases st)\<rparr>)"
proof -
  have "rid \<in> set (keys_of (vl_phases st))" using assms(2) by (simp add: get_phase_def map_of_None_keys)
  then have "length (AList.update rid p (vl_phases st)) = length (vl_phases st)"
    by (metis length_map update_keys)
  then show ?thesis
    using assms by (auto simp: registry_ok_def distinct_update dest!: in_update)
qed

lemma registry_ok_get: "registry_ok sha256 st \<Longrightarrow> get_phase st rid = Some p \<Longrightarrow> phase_ok sha256 p"
  by (auto simp: registry_ok_def get_phase_def dest!: map_of_SomeD)

lemma record_response_not_accepted:
  "record_response sha256 rid r st = (res, st') \<Longrightarrow> res \<noteq> Accepted \<Longrightarrow> st' = st"
  by (auto simp: record_response_def Let_def split: option.splits if_splits)

lemma record_response_accepted:
  assumes "record_response sha256 rid r st = (Accepted, st')"
  shows "\<exists>p a. get_phase st rid = Some p \<and> assignment_for p (lower (vr_validator_evm r)) = Some a
      \<and> validate_response sha256 r a = None
      \<and> (\<forall>old. map_of (vp_responses p) (lower (vr_validator_evm r)) = Some old \<longrightarrow> vr_assignment_id old \<noteq> vr_assignment_id r)
      \<and> st' = st\<lparr>vl_phases := AList.update rid
         (p\<lparr>vp_responses := AList.update (lower (vr_validator_evm r)) r (vp_responses p)\<rparr>) (vl_phases st)\<rparr>"
  using assms by (auto simp: record_response_def Let_def split: option.splits if_splits)

lemma record_response_cases:
  obtains (same) "snd (record_response sha256 rid r st) = st"
  | (new) p a where "get_phase st rid = Some p" "assignment_for p (lower (vr_validator_evm r)) = Some a"
      "validate_response sha256 r a = None"
      "\<forall>old. map_of (vp_responses p) (lower (vr_validator_evm r)) = Some old \<longrightarrow> vr_assignment_id old \<noteq> vr_assignment_id r"
      "record_response sha256 rid r st = (Accepted, st\<lparr>vl_phases := AList.update rid
         (p\<lparr>vp_responses := AList.update (lower (vr_validator_evm r)) r (vp_responses p)\<rparr>) (vl_phases st)\<rparr>)"
proof -
  obtain res st' where r: "record_response sha256 rid r st = (res, st')" by fastforce
  show thesis
  proof (cases "res = Accepted")
    case True
    from record_response_accepted [OF r [unfolded True]] show thesis using new r True by blast
  next
    case False
    then show thesis using record_response_not_accepted [OF r] same r by simp
  qed
qed

lemma phase_ok_record:
  assumes "phase_ok sha256 p" "assignment_for p (lower (vr_validator_evm r)) = Some a" "validate_response sha256 r a = None"
  shows "phase_ok sha256 (p\<lparr>vp_responses := AList.update (lower (vr_validator_evm r)) r (vp_responses p)\<rparr>)"
  using assms by (auto simp: phase_ok_def assignment_for_def distinct_update dest!: in_update)

lemma leader_reach_ok: "leader_reach sha256 st \<Longrightarrow> registry_ok sha256 st"
proof (induction rule: leader_reach.induct)
  case start
  show ?case by (simp add: registry_ok_def no_phases_def)
next
  case (opened st p rid)
  let ?n = "st\<lparr>vl_phases := AList.update rid p (vl_phases st)\<rparr>"
  have "phase_ok sha256 p" using opened.hyps by (simp add: phase_ok_def)
  then have "\<forall>(rid, p) \<in> set (vl_phases ?n). phase_ok sha256 p"
    using opened.IH by (auto simp: registry_ok_def dest!: in_update)
  then show ?case
    using evict_phases_props [of ?n] opened.IH
    by (auto simp: registry_ok_def open_phase_def distinct_update dest!: subsetD)
next
  case (cleared st)
  then show ?case by (simp add: registry_ok_def clear_phases_def)
next
  case (unsupported st rid evm)
  show ?case
  proof (cases "get_phase st rid")
    case None
    then show ?thesis using unsupported.IH by (simp add: mark_unsupported_def)
  next
    case (Some p)
    let ?q = "p\<lparr>vp_unsupported := vp_unsupported p @ [lower evm]\<rparr>"
    have "phase_ok sha256 ?q"
      using registry_ok_get [OF unsupported.IH Some] phase_ok_cong [of ?q p] by simp
    from registry_ok_update [OF unsupported.IH _ this, of rid] show ?thesis
      using unsupported.IH Some by (simp add: mark_unsupported_def Let_def)
  qed
next
  case (recorded st rid r)
  show ?case
  proof (cases sha256 rid r st rule: record_response_cases)
    case same
    then show ?thesis using recorded.IH by simp
  next
    case (new p a)
    then show ?thesis
      using recorded.IH by (auto intro!: registry_ok_update phase_ok_record intro: registry_ok_get)
  qed
next
  case (served st sign rid evm)
  have "vl_phases (snd (serve_signed_assignment sha256 sign rid evm st)) = vl_phases st"
    by (auto simp: serve_signed_assignment_def Let_def split: option.split prod.split)
  then show ?case using served.IH unfolding registry_ok_def by simp
next
  case (sent st sign_res post urls excl as)
  have "vl_phases (snd (fan_out_assignments sha256 sign_res post urls excl as st)) = vl_phases st"
    by (simp add: fan_out_assignments_def Let_def split: prod.split)
  then show ?case using sent.IH unfolding registry_ok_def by simp
next
  case (forgotten st rid)
  then show ?case by (simp add: registry_ok_def)
next
  case (resolved st rid p res)
  let ?q = "p\<lparr>vp_resolved := True, vp_resolution := res\<rparr>"
  have "phase_ok sha256 ?q"
    using registry_ok_get [OF resolved.IH resolved.hyps(2)] phase_ok_cong [of ?q p] by simp
  from registry_ok_update [OF resolved.IH _ this] resolved.hyps(2) show ?case by simp
qed

text \<open>
  Property: In every reachable state of the leader at most eight phases are held, each round has one phase, and
  each recorded response passed validation against the assignment of the validator it is filed under.
\<close>

theorem registry_holds_valid_responses:
  assumes "leader_reach sha256 st"
  shows "length (vl_phases st) \<le> 8 \<and> wf_dict (vl_phases st)
    \<and> (\<forall>rid p evm r. get_phase st rid = Some p \<longrightarrow> map_of (vp_responses p) evm = Some r \<longrightarrow>
        lower (vr_validator_evm r) = evm
        \<and> (\<exists>a \<in> set (vp_assignments p). lower (sa_validator_evm a) = evm \<and> validate_response sha256 r a = None))"
proof -
  have ok: "registry_ok sha256 st" using assms by (rule leader_reach_ok)
  have "lower (vr_validator_evm r) = evm \<and> (\<exists>a \<in> set (vp_assignments p). lower (sa_validator_evm a) = evm
      \<and> validate_response sha256 r a = None)"
    if p: "get_phase st rid = Some p" and r: "map_of (vp_responses p) evm = Some r" for rid p evm r
  proof -
    obtain a where "lower (vr_validator_evm r) = evm" "assignment_for p evm = Some a" "validate_response sha256 r a = None"
      using registry_ok_get [OF ok p] map_of_SomeD [OF r] by (auto simp: phase_ok_def)
    then show ?thesis by (auto simp: assignment_for_def find_Some_iff)
  qed
  with ok show ?thesis by (auto simp: registry_ok_def MAX_ROUNDS_def)
qed

definition sample_leader :: veto_leader where
  "sample_leader = snd (record_response rev ''round-e1-n1'' sample_response
     (open_phase ''round-e1-n1'' (sample_phase\<lparr>vp_responses := []\<rparr>) no_phases))"

lemma sample_leader_reach: "leader_reach rev sample_leader"
  unfolding sample_leader_def by (intro leader_reach.recorded leader_reach.opened leader_reach.start) simp

lemma sample_leader_response:
  "map_option (\<lambda>p. map_of (vp_responses p) ''0xa'') (get_phase sample_leader ''round-e1-n1'') = Some (Some sample_response)"
  by code_simp

theorem registry_holds_valid_responses_witness:
  "length (vl_phases sample_leader) \<le> 8
   \<and> (\<exists>p r. get_phase sample_leader ''round-e1-n1'' = Some p \<and> map_of (vp_responses p) ''0xa'' = Some r
        \<and> lower (vr_validator_evm r) = ''0xa'')"
  using registry_holds_valid_responses [OF sample_leader_reach] sample_leader_response by auto

text \<open>
  Property: The first response of a validator to its assignment stands: in a reachable state no later call of
  \<open>record_response\<close>, with whatever response, replaces or removes it.
\<close>

theorem first_response_wins:
  assumes "leader_reach sha256 st" "get_phase st rid = Some p" "map_of (vp_responses p) evm = Some r"
  shows "\<exists>p'. get_phase (snd (record_response sha256 rid' r' st)) rid = Some p'
    \<and> map_of (vp_responses p') evm = Some r"
proof (cases sha256 rid' r' st rule: record_response_cases)
  case same
  then show ?thesis using assms by simp
next
  case (new q a)
  show ?thesis
  proof (cases "rid' = rid \<and> lower (vr_validator_evm r') = evm")
    case True
    with new assms(2) have q: "q = p" by simp
    obtain b where "assignment_for p evm = Some b" "validate_response sha256 r b = None"
      using registry_ok_get [OF leader_reach_ok [OF assms(1)] assms(2)] map_of_SomeD [OF assms(3)]
      by (auto simp: phase_ok_def)
    then have "vr_assignment_id r = assignment_id sha256 b" "b = a"
      using new(2) True q by (auto simp: validate_response_None bound_to_def)
    moreover have "vr_assignment_id r' = assignment_id sha256 a"
      using new(3) by (simp add: validate_response_None bound_to_def)
    ultimately show ?thesis using new(4) assms(3) True q by auto
  next
    case False
    then show ?thesis
      using new(1,5) assms by (auto simp: get_phase_def dict_simps)
  qed
qed

theorem first_response_wins_witness:
  "\<exists>p. get_phase (snd (record_response rev ''round-e1-n1'' (sample_response\<lparr>vr_counts := []\<rparr>) sample_leader)) ''round-e1-n1''
       = Some p \<and> map_of (vp_responses p) ''0xa'' = Some sample_response"
proof -
  obtain p where "get_phase sample_leader ''round-e1-n1'' = Some p" "map_of (vp_responses p) ''0xa'' = Some sample_response"
    using sample_leader_response by auto
  from first_response_wins [OF sample_leader_reach this] show ?thesis .
qed

section \<open>Consecutive rejections\<close>

abbreviation REJECTED_SEND :: "int set" where
  "REJECTED_SEND \<equiv> {401, 403, 404, 405, 409, 410, 422}"

definition send_rejected :: "int option \<Rightarrow> bool" where
  "send_rejected p = (case p of None \<Rightarrow> False | Some s \<Rightarrow> s \<in> REJECTED_SEND)"

definition streak :: "string \<Rightarrow> string \<Rightarrow> veto_leader \<Rightarrow> nat" where
  "streak rid evm st = (case map_of (vl_streaks st) (rid, lower evm) of None \<Rightarrow> 0 | Some n \<Rightarrow> n)"

lemma streak_send:
  assumes "rstrip_slash (case map_of urls (lower (sa_validator_evm a)) of None \<Rightarrow> [] | Some u \<Rightarrow> u) \<noteq> []"
    and "sign (assignment_to_payload sha256 a) = Inr p"
  shows "streak (sa_round_id a) (sa_validator_evm a) (snd (fan_out_assignments sha256 sign (\<lambda>_ _. out) urls [] [a] st))
    = (if send_rejected out then Suc (streak (sa_round_id a) (sa_validator_evm a) st) else 0)"
  using assms by (auto simp: fan_out_assignments_def send_one_def Let_def streak_def send_rejected_def dict_simps
      split: option.split)

lemma streak_history:
  assumes "rstrip_slash (case map_of urls (lower (sa_validator_evm a)) of None \<Rightarrow> [] | Some u \<Rightarrow> u) \<noteq> []"
    and "sign (assignment_to_payload sha256 a) = Inr p" "streak (sa_round_id a) (sa_validator_evm a) st = 0"
  shows "streak (sa_round_id a) (sa_validator_evm a)
      (foldl (\<lambda>s out. snd (fan_out_assignments sha256 sign (\<lambda>_ _. out) urls [] [a] s)) st outs)
    = length (takeWhile send_rejected (rev outs))"
  by (induction outs rule: rev_induct) (simp_all add: assms(3) streak_send [where sign = sign and ?sha256.0 = sha256, OF assms(1,2)])

lemma length_takeWhile_ge: "n \<le> length (takeWhile P xs) \<longleftrightarrow> n \<le> length xs \<and> list_all P (take n xs)"
proof (induction xs arbitrary: n)
  case (Cons x xs)
  then show ?case by (cases n) auto
qed simp

text \<open>
  Property: A validator counts as unsupported exactly after three consecutive deterministic rejections: after
  sending an assignment once per entry of \<open>outs\<close>, \<open>consecutive_reject_terminal\<close> holds iff there were
  at least three sends and the last three were answered by a rejecting status. One acknowledgement,
  other status or transport failure starts the count again.
\<close>

theorem unsupported_after_three_rejections:
  assumes "rstrip_slash (case map_of urls (lower (sa_validator_evm a)) of None \<Rightarrow> [] | Some u \<Rightarrow> u) \<noteq> []"
    and "sign (assignment_to_payload sha256 a) = Inr p" "map_of (vl_streaks st) (sa_round_id a, lower (sa_validator_evm a)) = None"
  shows "consecutive_reject_terminal (sa_round_id a) (sa_validator_evm a)
      (foldl (\<lambda>s out. snd (fan_out_assignments sha256 sign (\<lambda>_ _. out) urls [] [a] s)) st outs)
    \<longleftrightarrow> length outs \<ge> 3 \<and> (\<forall>out \<in> set (take 3 (rev outs)). \<exists>s \<in> {401, 403, 404, 405, 409, 410, 422}. out = Some s)"
proof -
  let ?st = "foldl (\<lambda>s out. snd (fan_out_assignments sha256 sign (\<lambda>_ _. out) urls [] [a] s)) st outs"
  have z: "streak (sa_round_id a) (sa_validator_evm a) st = 0" by (simp add: streak_def assms(3))
  have "consecutive_reject_terminal (sa_round_id a) (sa_validator_evm a) ?st
      \<longleftrightarrow> 3 \<le> length (takeWhile send_rejected (rev outs))"
    unfolding streak_history [where sign = sign and ?sha256.0 = sha256, OF assms(1,2) z, symmetric]
    by (simp add: consecutive_reject_terminal_def K_CONSECUTIVE_UNSUPPORTED_def streak_def)
  also have "\<dots> \<longleftrightarrow> 3 \<le> length outs \<and> list_all send_rejected (take 3 (rev outs))"
    by (simp add: length_takeWhile_ge)
  also have "list_all send_rejected xs \<longleftrightarrow> (\<forall>out \<in> set xs. \<exists>s \<in> REJECTED_SEND. out = Some s)" for xs
    by (auto simp: list_all_iff send_rejected_def split: option.splits)
  finally show ?thesis .
qed

theorem unsupported_after_three_rejections_witness:
  "consecutive_reject_terminal ''round-e1-n1'' ''0xA''
     (foldl (\<lambda>s out. snd (fan_out_assignments rev Inr (\<lambda>_ _. out) [(''0xa'', ''http://x/'')] [] [sample_assignment] s))
        no_phases [Some 200, Some 404, Some 409, Some 422])
   \<and> \<not> consecutive_reject_terminal ''round-e1-n1'' ''0xA''
     (foldl (\<lambda>s out. snd (fan_out_assignments rev Inr (\<lambda>_ _. out) [(''0xa'', ''http://x/'')] [] [sample_assignment] s))
        no_phases [Some 404, Some 409, None, Some 422])"
proof -
  have u: "rstrip_slash (case map_of [(''0xa'', ''http://x/'')] (lower (sa_validator_evm sample_assignment)) of
      None \<Rightarrow> [] | Some u \<Rightarrow> u) \<noteq> []" by code_simp
  have f: "sa_round_id sample_assignment = ''round-e1-n1''" "sa_validator_evm sample_assignment = ''0xA''"
    by (simp_all add: sample_assignment_def)
  note t = unsupported_after_three_rejections [where sign = Inr and ?sha256.0 = rev, OF u refl, of no_phases, unfolded f]
  have m: "map_of (vl_streaks no_phases) k = None" for k by (simp add: no_phases_def)
  show ?thesis unfolding t [OF m] by simp
qed

section \<open>Termination of the submission\<close>

lemma submit_loop_posts:
  "snd (submit_loop epochs d posts m i t) \<le> i + (nat (m - t)) + 1 \<and> i \<le> snd (submit_loop epochs d posts m i t)"
proof (induction epochs d posts m i t rule: submit_loop.induct)
  case (1 epochs d posts m i t)
  then show ?case
    by (subst submit_loop.simps, subst submit_loop.simps) (auto split: if_splits)
qed

lemma submit_loop_true:
  assumes "0 \<le> m - t"
  shows "fst (submit_loop epochs d posts m i t) \<longleftrightarrow>
    (\<exists>n \<le> nat (m - t). posts (i + n) = Some 200 \<and> (\<forall>j \<le> n. epochs (i + j) \<le> d)
       \<and> (\<forall>j < n. post_transient (posts (i + j))))"
  using assms
proof (induction epochs d posts m i t rule: submit_loop.induct)
  case (1 epochs d posts m i t)
  have ok: "\<not> post_transient (Some 200)" by (simp add: post_transient_def)
  let ?P = "\<lambda>n. posts (i + n) = Some 200 \<and> (\<forall>j \<le> n. epochs (i + j) \<le> d) \<and> (\<forall>j < n. post_transient (posts (i + j)))"
  consider (late) "\<not> epochs i \<le> d" | (stop) "epochs i \<le> d" "\<not> post_transient (posts i)"
    | (spent) "epochs i \<le> d" "post_transient (posts i)" "t + 1 > m"
    | (again) "epochs i \<le> d" "post_transient (posts i)" "\<not> t + 1 > m" by blast
  then show ?case
  proof cases
    case late
    then have "\<not> ?P n" for n by (metis add.right_neutral le0)
    with late show ?thesis by (subst submit_loop.simps) simp
  next
    case stop
    have "?P n \<longleftrightarrow> n = 0 \<and> posts i = Some 200" for n
    proof (cases n)
      case 0
      then show ?thesis using stop by simp
    next
      case (Suc k)
      then have "\<not> (\<forall>j < n. post_transient (posts (i + j)))" using stop by (auto intro!: exI [of _ 0])
      then show ?thesis using Suc by blast
    qed
    with stop show ?thesis by (subst submit_loop.simps) auto
  next
    case spent
    with 1(2) have "m = t" by simp
    moreover have "\<not> ?P 0" using spent ok by auto
    ultimately show ?thesis using spent by (subst submit_loop.simps) auto
  next
    case again
    have IH: "fst (submit_loop epochs d posts m (Suc i) (t + 1)) \<longleftrightarrow>
      (\<exists>n \<le> nat (m - (t + 1)). posts (Suc i + n) = Some 200 \<and> (\<forall>j \<le> n. epochs (Suc i + j) \<le> d)
         \<and> (\<forall>j < n. post_transient (posts (Suc i + j))))"
      using again 1(2) by (intro 1(1)) auto
    have step: "?P (Suc n) \<longleftrightarrow> posts (Suc i + n) = Some 200 \<and> (\<forall>j \<le> n. epochs (Suc i + j) \<le> d)
         \<and> (\<forall>j < n. post_transient (posts (Suc i + j)))" for n
    proof -
      have le: "(\<forall>j \<le> Suc n. Q j) \<longleftrightarrow> Q 0 \<and> (\<forall>j \<le> n. Q (Suc j))" for Q
        by (simp only: less_Suc_eq_le [symmetric] All_less_Suc2)
      show ?thesis unfolding le All_less_Suc2 using again by simp
    qed
    have z: "\<not> ?P 0" using again ok by auto
    have n: "nat (m - t) = Suc (nat (m - (t + 1)))" using again by simp
    have ex: "(\<exists>n \<le> Suc k. Q n) \<longleftrightarrow> Q 0 \<or> (\<exists>n \<le> k. Q (Suc n))" for k and Q :: "nat \<Rightarrow> bool"
      by (simp only: less_Suc_eq_le [symmetric] Ex_less_Suc2)
    have "(\<exists>n \<le> nat (m - t). ?P n) \<longleftrightarrow> (\<exists>n \<le> nat (m - (t + 1)). ?P (Suc n))"
      unfolding n ex [of _ ?P] using z by (simp only: HOL.simp_thms)
    then show ?thesis using again IH unfolding step by (subst submit_loop.simps) simp
  qed
qed

text \<open>
  Claim C34: Submitting a response always ends, after at most one post more than the allowed transient retries, and
  never posts after the deadline epoch has passed. It reports success exactly when one of these posts is answered
  200, all earlier ones failed in a transient way and the deadline had not passed before any of them.
\<close>

theorem submit_response_terminates:
  assumes "0 \<le> retries" "rstrip_slash url \<noteq> []" "or_empty key \<noteq> []"
  shows "snd (submit_response url key deadline epochs posts retries) \<le> nat retries + 1
    \<and> (fst (submit_response url key deadline epochs posts retries) \<longleftrightarrow>
        (\<exists>n \<le> nat retries. posts n = Some 200 \<and> (\<forall>j \<le> n. epochs j \<le> deadline)
           \<and> (\<forall>j < n. posts j = None \<or> (\<exists>s. posts j = Some s \<and> s \<notin> {200, 400, 401, 404, 409, 413, 422}))))"
proof -
  have t: "post_transient p \<longleftrightarrow> p = None \<or> (\<exists>s. p = Some s \<and> s \<notin> {200, 400, 401, 404, 409, 413, 422})" for p
    by (auto simp: post_transient_def REJECT_STATUSES_def split: option.splits)
  show ?thesis
    using submit_loop_posts [of epochs deadline posts retries 0 0]
      submit_loop_true [of retries 0 epochs deadline posts 0] assms
    by (simp add: submit_response_def t)
qed

theorem submit_response_terminates_witness:
  "submit_response ''http://leader'' (Some ''k'') 5 (\<lambda>_. 3) (\<lambda>n. if n = 2 then Some 200 else None) 8 = (True, 3)
   \<and> snd (submit_response ''http://leader'' (Some ''k'') 5 (\<lambda>_. 3) (\<lambda>n. Some 503) 8) \<le> 9"
proof
  show "submit_response ''http://leader'' (Some ''k'') 5 (\<lambda>_. 3) (\<lambda>n. if n = 2 then Some 200 else None) 8 = (True, 3)"
    by code_simp
  have "rstrip_slash ''http://leader'' \<noteq> []" by code_simp
  from submit_response_terminates [OF _ this, of 8 "Some ''k''" 5 "\<lambda>_. 3" "\<lambda>n. Some 503"]
  show "snd (submit_response ''http://leader'' (Some ''k'') 5 (\<lambda>_. 3) (\<lambda>n. Some 503) 8) \<le> 9" by simp
qed

section \<open>Acceptance and supersession\<close>

lemma evict_tasks_bound: "length (fst (evict_tasks task_done active c)) \<le> MAX_ACTIVE_SLICE_ROUNDS"
proof (induction task_done active c rule: evict_tasks.induct)
  case (1 task_done active c)
  show ?case
  proof (cases "MAX_ACTIVE_SLICE_ROUNDS < length active")
    case True
    obtain r i t where h: "hd active = (r, i, t)" using prod_cases3 by blast
    show ?thesis using 1 [OF True h [symmetric] refl] True h by (subst evict_tasks.simps) simp
  qed (simp add: evict_tasks.simps [of task_done active c])
qed

lemma evict_tasks_within: "length active \<le> MAX_ACTIVE_SLICE_ROUNDS \<Longrightarrow> evict_tasks task_done active c = (active, c)"
  by (subst evict_tasks.simps) simp

lemma map_of_filter_val: "wf_dict d \<Longrightarrow> map_of (filter (\<lambda>(k, v). P v) d) k =
    (case map_of d k of None \<Rightarrow> None | Some v \<Rightarrow> if P v then Some v else None)"
proof (induction d)
  case (Cons p d)
  obtain k' v where p: "p = (k', v)" by fastforce
  have "map_of (filter (\<lambda>(k, v). P v) d) k' = None" if "k' \<notin> set (keys_of d)"
    using that by (auto simp: map_of_eq_None_iff)
  with Cons p show ?case by (auto split: option.splits)
qed simp

lemma reap_within:
  assumes "length active \<le> MAX_ACTIVE_SLICE_ROUNDS"
  shows "reap_finished_slice_tasks task_done active = (filter (\<lambda>(_, _, t). \<not> task_done t) active, [])"
  unfolding reap_finished_slice_tasks_def by (intro evict_tasks_within order_trans [OF length_filter_le assms])

lemma map_of_reaped:
  assumes "wf_dict active"
  shows "map_of (filter (\<lambda>(_, _, t). \<not> task_done t) active) rid =
    (case map_of active rid of None \<Rightarrow> None | Some (i, t) \<Rightarrow> if task_done t then None else Some (i, t))"
  using map_of_filter_val [OF assms, of "\<lambda>(i, t). \<not> task_done t" rid]
  by (simp add: case_prod_unfold split: option.splits)

text \<open>
  Property: A follower starts a slice benchmark only for a well-formed assignment that is addressed to it and whose
  deadline has not passed; it never tracks more than twelve rounds. With fewer than twelve rounds tracked, the
  running tasks of all other rounds stay, and the only task that is cancelled is the running one of the same
  round. A refused or repeated assignment changes nothing.
\<close>

theorem accept_assignment_safe:
  assumes "accept_assignment sha256 payload e own new_task task_done active = Inr (ack, active', cancelled)"
    and "wf_dict active"
  shows "(ack \<noteq> Ack_Accepted \<longrightarrow> active' = active \<and> cancelled = [])
    \<and> (ack = Ack_Accepted \<longrightarrow> length active' \<le> 12
      \<and> (\<exists>a. assignment_from_payload payload = Inr a \<and> proper_slice a \<and> e \<le> sa_deadline_epoch a
          \<and> (own \<noteq> None \<and> own \<noteq> Some [] \<longrightarrow> lower (sa_validator_evm a) = lower (the own))
          \<and> (length active < 12 \<longrightarrow>
              set cancelled \<subseteq> {t. \<exists>i. map_of active (sa_round_id a) = Some (i, t) \<and> i \<noteq> assignment_id sha256 a}
              \<and> (\<not> task_done new_task \<longrightarrow> map_of active' (sa_round_id a) = Some (assignment_id sha256 a, new_task))
              \<and> (\<forall>rid i t. rid \<noteq> sa_round_id a \<longrightarrow> map_of active rid = Some (i, t) \<longrightarrow> \<not> task_done t \<longrightarrow>
                   map_of active' rid = Some (i, t)))))"
proof (cases "ack = Ack_Accepted")
  case False
  have "active' = active \<and> cancelled = []"
    if "schedule_slice sha256 a new_task task_done active = (ack, active', cancelled)" for a
    using that False by (auto simp: schedule_slice_def spawn_slice_task_def split: if_splits option.splits prod.splits)
  then have "active' = active \<and> cancelled = []"
    using assms(1) by (auto simp: accept_assignment_def res_bind_eq_Inr split: if_splits)
  with False show ?thesis by simp
next
  case True
  obtain a where v: "verify_assignment_integrity sha256 payload = Inr Intact" and a: "assignment_from_payload payload = Inr a"
    and o: "\<not> (or_empty own \<noteq> [] \<and> lower (sa_validator_evm a) \<noteq> lower (or_empty own))"
    and e: "e \<le> sa_deadline_epoch a"
    and sp: "schedule_slice sha256 a new_task task_done active = (Ack_Accepted, active', cancelled)"
    using assms(1) True by (auto simp: accept_assignment_def res_bind_eq_Inr split: if_splits)
  have own: "own \<noteq> None \<and> own \<noteq> Some [] \<longrightarrow> lower (sa_validator_evm a) = lower (the own)"
    using o by (cases own) auto
  have act: "\<exists>sup evicted. reap_finished_slice_tasks task_done (AList.update (sa_round_id a) (assignment_id sha256 a, new_task) active)
        = (active', evicted) \<and> cancelled = sup @ evicted
      \<and> set sup \<subseteq> {t. \<exists>i. map_of active (sa_round_id a) = Some (i, t) \<and> i \<noteq> assignment_id sha256 a}"
  proof (cases "map_of active (sa_round_id a)")
    case None
    show ?thesis
      by (rule exI [of _ "[]"], insert sp None) (auto simp: schedule_slice_def spawn_slice_task_def split: prod.splits)
  next
    case (Some it)
    obtain i t where it: "it = (i, t)" by fastforce
    show ?thesis
      by (rule exI [of _ "if task_done t then [] else [t]"], insert it Some sp)
        (auto simp: schedule_slice_def spawn_slice_task_def split: prod.splits if_splits)
  qed
  have p: "proper_slice a" using v a by (simp add: verify_assignment_integrity_def check_assignment_Intact)
  let ?n = "AList.update (sa_round_id a) (assignment_id sha256 a, new_task) active"
  obtain sup evicted where r: "reap_finished_slice_tasks task_done ?n = (active', evicted)" "cancelled = sup @ evicted"
    and sup: "set sup \<subseteq> {t. \<exists>i. map_of active (sa_round_id a) = Some (i, t) \<and> i \<noteq> assignment_id sha256 a}"
    using act by blast
  have b: "length active' \<le> 12"
    using r(1) evict_tasks_bound [of task_done _ "[]"] by (simp add: reap_finished_slice_tasks_def MAX_ACTIVE_SLICE_ROUNDS_def) (metis fst_conv)
  have k: "evicted = [] \<and> (\<forall>rid. map_of active' rid = (case map_of ?n rid of None \<Rightarrow> None
      | Some (i, t) \<Rightarrow> if task_done t then None else Some (i, t)))" if "length active < 12"
  proof -
    have "length ?n \<le> Suc (length active)" using alist.size_put_le [of "sa_round_id a" _ active] by simp
    then have "length ?n \<le> MAX_ACTIVE_SLICE_ROUNDS" using that by (simp add: MAX_ACTIVE_SLICE_ROUNDS_def)
    from reap_within [OF this] r(1) have "active' = filter (\<lambda>(_, _, t). \<not> task_done t) ?n" "evicted = []" by auto
    moreover have "wf_dict ?n" using assms(2) by (rule distinct_update)
    ultimately show ?thesis by (simp add: map_of_reaped)
  qed
  have "length active < 12 \<longrightarrow>
      set cancelled \<subseteq> {t. \<exists>i. map_of active (sa_round_id a) = Some (i, t) \<and> i \<noteq> assignment_id sha256 a}
      \<and> (\<not> task_done new_task \<longrightarrow> map_of active' (sa_round_id a) = Some (assignment_id sha256 a, new_task))
      \<and> (\<forall>rid i t. rid \<noteq> sa_round_id a \<longrightarrow> map_of active rid = Some (i, t) \<longrightarrow> \<not> task_done t \<longrightarrow>
           map_of active' rid = Some (i, t))"
    using k sup r(2) by (simp add: dict_simps)
  with True a p e own b show ?thesis by blast
qed

theorem accept_assignment_safe_witness:
  "accept_assignment rev (assignment_to_payload rev sample_assignment) 3 (Some ''0xA'') 7 (\<lambda>_. False)
     [(''round-e0-n1'', ''x'', 4), (''round-e1-n1'', ''y'', 5)]
   = Inr (Ack_Accepted, [(''round-e0-n1'', ''x'', 4), (''round-e1-n1'', assignment_id rev sample_assignment, 7)], [5])
   \<and> length [(''round-e0-n1'', ''x'', 4::nat), (''round-e1-n1'', assignment_id rev sample_assignment, 7)] \<le> 12"
proof -
  have e: "accept_assignment rev (assignment_to_payload rev sample_assignment) 3 (Some ''0xA'') 7 (\<lambda>_. False)
     [(''round-e0-n1'', ''x'', 4), (''round-e1-n1'', ''y'', 5)]
   = Inr (Ack_Accepted, [(''round-e0-n1'', ''x'', 4), (''round-e1-n1'', assignment_id rev sample_assignment, 7)], [5])"
    by code_simp
  from accept_assignment_safe [OF e] e show ?thesis by simp
qed

section \<open>Ingestion of signed responses\<close>

lemma response_from_payload_cong:
  assumes "\<And>k. k \<noteq> ''validator_signature'' \<Longrightarrow> map_of d k = map_of d' k"
  shows "response_from_payload d = response_from_payload d'"
  using assms by (simp add: response_from_payload_def str_get_def opt_str_get_def jget_def)

lemma signed_response:
  "sign_response_payload acct flt (response_to_payload r) k =
     response_to_payload (r\<lparr>vr_validator_evm := address_of acct k\<rparr>)
     @ [(''validator_signature'', JStr (sign_text acct
         (dumps flt (JObj (response_to_payload (r\<lparr>vr_validator_evm := address_of acct k\<rparr>)))) k))]"
  by (simp add: sign_response_payload_def response_to_payload_def Let_def)

text \<open>What the ingestion relies on of \<open>eth_account\<close>: a signature of a key recovers to the address of
  the key, and neither is empty or has surrounding white space.\<close>

definition recovers :: "personal \<Rightarrow> string \<Rightarrow> bool" where
  "recovers acct k \<longleftrightarrow> (\<forall>t. recover_text acct t (sign_text acct t k) = Inr (address_of acct k)
     \<and> strip (sign_text acct t k) = sign_text acct t k \<and> sign_text acct t k \<noteq> [])
     \<and> strip (address_of acct k) = address_of acct k \<and> address_of acct k \<noteq> []
     \<and> strip (lower (address_of acct k)) = lower (address_of acct k)"

lemma verify_signed_response:
  assumes "recovers acct k"
  shows "verify_response_signature acct flt (sign_response_payload acct flt (response_to_payload r) k)
    = Inr (Signer (lower (address_of acct k)))"
proof -
  let ?p = "response_to_payload (r\<lparr>vr_validator_evm := address_of acct k\<rparr>)"
  let ?s = "sign_text acct (dumps flt (JObj ?p)) k"
  have d: "AList.delete ''validator_signature'' (?p @ [(''validator_signature'', JStr ?s)]) = ?p"
    by (simp add: response_to_payload_def)
  have j: "jget (?p @ [(''validator_signature'', JStr ?s)]) ''validator_signature'' = JStr ?s"
    "jget (?p @ [(''validator_signature'', JStr ?s)]) ''validator_evm'' = JStr (lower (address_of acct k))"
    by (simp_all add: response_to_payload_def json_simps)
  show ?thesis
    using assms unfolding verify_response_signature_def signed_response d j
    by (simp add: text_of_def recovers_def)
qed

lemma signed_response_reads_back:
  assumes "wf_response r"
  shows "response_from_payload (sign_response_payload acct flt (response_to_payload r) k)
    = Inr (r\<lparr>vr_validator_evm := lower (address_of acct k)\<rparr>)"
proof -
  let ?r = "r\<lparr>vr_validator_evm := address_of acct k\<rparr>"
  have "response_from_payload (sign_response_payload acct flt (response_to_payload r) k)
      = response_from_payload (response_to_payload ?r)"
    unfolding signed_response by (rule response_from_payload_cong) (simp add: map_add_def split: option.splits)
  also have "\<dots> = Inr (r\<lparr>vr_validator_evm := lower (address_of acct k)\<rparr>)"
    using response_roundtrip [of ?r] assms by (simp add: wf_response_def)
  finally show ?thesis .
qed

lemma validate_response_evm:
  "validate_response sha256 (r\<lparr>vr_validator_evm := lower (vr_validator_evm r)\<rparr>) a = validate_response sha256 r a"
  by (simp add: validate_response_def split: option.split)

text \<open>
  Property: A signed response of an assigned and authorised validator that is valid for its assignment is ingested:
  the leader recovers the signer, reads the response back and answers 200, and afterwards the phase holds a
  response of this validator to this assignment.
\<close>

theorem valid_response_is_ingested:
  assumes "recovers acct k" "wf_response r" "vr_validator_evm r = address_of acct k"
    and "is_authorized (lower (address_of acct k))"
    and "get_phase st (vr_round_id r) = Some p" "assignment_for p (lower (address_of acct k)) = Some a"
    and "validate_response sha256 r a = None"
  shows "\<exists>res st' p' old. ingest_response acct flt sha256 is_authorized
      (sign_response_payload acct flt (response_to_payload r) k) st = Inr ((200, Body_Record res), st')
    \<and> get_phase st' (vr_round_id r) = Some p' \<and> map_of (vp_responses p') (lower (address_of acct k)) = Some old
    \<and> vr_assignment_id old = assignment_id sha256 a"
proof -
  let ?r = "r\<lparr>vr_validator_evm := lower (address_of acct k)\<rparr>"
  have v: "validate_response sha256 ?r a = None" using assms(3,7) validate_response_evm [of sha256 r a] by simp
  then have i: "vr_assignment_id r = assignment_id sha256 a" by (simp add: validate_response_None bound_to_def)
  obtain res st' where rec: "record_response sha256 (vr_round_id r) ?r st = (res, st')" by fastforce
  have g: "ingest_response acct flt sha256 is_authorized (sign_response_payload acct flt (response_to_payload r) k) st
      = Inr ((record_status res, Body_Record res), st')"
    using rec assms(4) by (simp add: ingest_response_def verify_signed_response [OF assms(1)]
      signed_response_reads_back [OF assms(2)])
  have "record_status res = 200 \<and> (\<exists>p' old. get_phase st' (vr_round_id r) = Some p'
      \<and> map_of (vp_responses p') (lower (address_of acct k)) = Some old \<and> vr_assignment_id old = assignment_id sha256 a)"
    using rec assms(5,6) v i
    by (auto simp: record_response_def Let_def get_phase_def dict_simps split: option.splits if_splits)
  with g show ?thesis by auto
qed

definition toy_account :: personal where
  "toy_account = \<lparr>address_of = (\<lambda>k. k), sign_text = (\<lambda>t k. k), recover_text = (\<lambda>t s. Inr s)\<rparr>"

definition open_leader :: veto_leader where
  "open_leader = open_phase ''round-e1-n1'' (sample_phase\<lparr>vp_responses := []\<rparr>) no_phases"

lemma toy_account_recovers: "recovers toy_account ''0xa''"
proof -
  have "strip ''0xa'' = ''0xa''" "lower ''0xa'' = ''0xa''" by code_simp+
  then show ?thesis by (simp add: recovers_def toy_account_def)
qed

theorem valid_response_is_ingested_witness:
  "\<exists>res st'. ingest_response toy_account (\<lambda>_. []) rev (\<lambda>e. e = ''0xa'')
     (sign_response_payload toy_account (\<lambda>_. []) (response_to_payload sample_response) ''0xa'') open_leader
     = Inr ((200, Body_Record res), st')"
proof -
  have w: "wf_response sample_response" by (simp add: wf_response_def sample_response_def)
  have r: "vr_validator_evm sample_response = address_of toy_account ''0xa''" "vr_round_id sample_response = ''round-e1-n1''"
    by (simp_all add: sample_response_def toy_account_def)
  have l: "lower (address_of toy_account ''0xa'') = ''0xa''" by code_simp
  have a: "get_phase open_leader ''round-e1-n1'' = Some (sample_phase\<lparr>vp_responses := []\<rparr>)"
    by (simp add: open_leader_def open_phase_def no_phases_def evict_phases.simps MAX_ROUNDS_def get_phase_def)
  have b: "assignment_for (sample_phase\<lparr>vp_responses := []\<rparr>) ''0xa'' = Some (sample_assignment\<lparr>sa_validator_evm := ''0xa''\<rparr>)"
    by code_simp
  have v: "validate_response rev sample_response (sample_assignment\<lparr>sa_validator_evm := ''0xa''\<rparr>) = None" by code_simp
  from valid_response_is_ingested [OF toy_account_recovers w r(1), unfolded l r(2), OF _ a b v, of "\<lambda>e. e = ''0xa''" "\<lambda>_. []"]
  show ?thesis by auto
qed

text \<open>
  Claim C35: The leader's registry changes through the ingestion of a payload only when the payload's signature
  recovers to an authorised address that the payload itself claims.
\<close>

theorem ingestion_is_authenticated:
  assumes "ingest_response acct flt sha256 is_authorized raw st = Inr ((status, body), st')"
    and "status = 200 \<or> st' \<noteq> st"
  shows "\<exists>sig claimed signer r. text_of (jget raw ''validator_signature'') = Inr sig
    \<and> text_of (jget raw ''validator_evm'') = Inr claimed
    \<and> recover_text acct (dumps flt (JObj (AList.delete ''validator_signature'' raw))) (strip sig) = Inr signer
    \<and> lower signer = lower (strip claimed) \<and> is_authorized (lower signer)
    \<and> response_from_payload raw = Inr r \<and> st' = snd (record_response sha256 (vr_round_id r) r st)"
proof -
  obtain evm r where w: "verify_response_signature acct flt raw = Inr (Signer evm)" "is_authorized evm"
    and r: "response_from_payload raw = Inr r" "st' = snd (record_response sha256 (vr_round_id r) r st)"
  proof -
    obtain who where who: "verify_response_signature acct flt raw = Inr who"
      using assms(1) by (auto simp: ingest_response_def res_bind_eq_Inr)
    show thesis
    proof (cases who)
      case (Signer evm)
      with who assms that show thesis
        by (auto simp: ingest_response_def split: sum.splits prod.splits if_splits)
    qed (use who assms in \<open>auto simp: ingest_response_def\<close>)
  qed
  from w(1) obtain sig claimed signer where "text_of (jget raw ''validator_signature'') = Inr sig"
    "text_of (jget raw ''validator_evm'') = Inr claimed"
    "recover_text acct (dumps flt (JObj (AList.delete ''validator_signature'' raw))) (strip sig) = Inr signer"
    "lower signer = lower (strip claimed)" "lower signer = evm"
  proof -
    let ?text = "dumps flt (JObj (AList.delete ''validator_signature'' raw))"
    obtain sig claimed where s: "text_of (jget raw ''validator_signature'') = Inr sig"
      "text_of (jget raw ''validator_evm'') = Inr claimed"
      and k: "(if strip sig = [] \<or> strip claimed = [] then Inr Missing_Fields
        else case recover_text acct ?text (strip sig) of
          Inl _ \<Rightarrow> Inr Recovery_Failed
        | Inr recovered \<Rightarrow> if lower recovered \<noteq> lower (strip claimed) then Inr Signer_Mismatch
            else Inr (Signer (lower recovered))) = (Inr (Signer evm) :: signer_result res)"
      using w(1) unfolding verify_response_signature_def res_bind_eq_Inr by blast
    show thesis
    proof (cases "recover_text acct ?text (strip sig)")
      case (Inr signer)
      with k s that show thesis by (simp del: dumps.simps split: if_splits)
    qed (use k in \<open>simp del: dumps.simps split: if_splits\<close>)
  qed
  with w(2) r show ?thesis by metis
qed

theorem ingestion_is_authenticated_witness:
  "\<exists>st' signer. ingest_response toy_account (\<lambda>_. []) rev (\<lambda>e. e = ''0xa'')
     (sign_response_payload toy_account (\<lambda>_. []) (response_to_payload sample_response) ''0xa'') open_leader
     = Inr ((200, Body_Record Accepted), st') \<and> lower signer = ''0xa''"
proof -
  obtain st' where e: "ingest_response toy_account (\<lambda>_. []) rev (\<lambda>e. e = ''0xa'')
     (sign_response_payload toy_account (\<lambda>_. []) (response_to_payload sample_response) ''0xa'') open_leader
     = Inr ((200, Body_Record Accepted), st')"
  proof -
    have "(case ingest_response toy_account (\<lambda>_. []) rev (\<lambda>e. e = ''0xa'')
      (sign_response_payload toy_account (\<lambda>_. []) (response_to_payload sample_response) ''0xa'') open_leader of
        Inl _ \<Rightarrow> False | Inr x \<Rightarrow> fst x = (200, Body_Record Accepted))" by code_simp
    then show thesis using that by (auto split: sum.splits)
  qed
  from ingestion_is_authenticated [OF e] obtain signer where "lower signer = ''0xa''" by auto
  with e show ?thesis by blast
qed

end
