(* ===== verification/Relative_Scoring.thy ===== *)
theory Relative_Scoring
  imports Py_Prelude
begin

text \<open>
  The per-order relative adoption rule, \<open>epoch/relative_scoring.py\<close>: a challenger solver is
  compared with the champion order by order on exact integer outputs and adopted on a
  bounded-regression, net-better rule with three tie-breaks (gas, factorization, dead code).

  A result row (a \<open>BenchmarkResult\<close> or a stored \<open>per_intent\<close> dict) is the record \<open>bench_row\<close>;
  a missing field is \<open>PNone\<close>, so the selectors are the model of \<open>_field\<close>. The loop over the
  sorted order ids is \<open>run_orders\<close> over \<open>order_step\<close>, which carries the loop's accumulators in
  the record \<open>tally\<close>. \<open>int(gas)\<close> raises on an infinite float, which the source does not catch,
  so the step and the verdict are values of \<open>res\<close>. The display-only float \<open>ratio\<close> of a row is
  left out.

  The theory shows that the counters are the numbers of rows with each verdict (\<open>tally_ok\<close>),
  that an adopted challenger cuts no order by more than 1% and drops none, what each tie-break
  requires, that the verdict is a function of the rows per order id and not of their order, and
  where the tie-break fires outside an all-matched comparison.
\<close>

section \<open>Constants\<close>

definition RELATIVE_TOL_BPS :: int where "RELATIVE_TOL_BPS = 10"
definition FLOOR_BPS :: int where "FLOOR_BPS = 100"
definition DETHRONE_WIN_MARGIN :: nat where "DETHRONE_WIN_MARGIN = 1"
definition BLIND_SPOT_BAR_TTL_S :: "real option" where "BLIND_SPOT_BAR_TTL_S = Some (24 * 3600)"
definition BLIND_SPOT_BAR_OBSERVE_TTL_S :: real where "BLIND_SPOT_BAR_OBSERVE_TTL_S = 24 * 3600"
definition FACTOR_MARGIN :: "int option" where "FACTOR_MARGIN = Some 100"
definition GAS_MARGIN_BPS :: "int option" where "GAS_MARGIN_BPS = Some 200"
definition GAS_OUT_GUARD_BPS :: int where "GAS_OUT_GUARD_BPS = 2"
definition GAS_COLLAPSE_FLOOR :: int where "GAS_COLLAPSE_FLOOR = 2"
definition GAS_BASIS :: string where "GAS_BASIS = ''scoreintent_prerefund_v1''"
definition UNPRODUCTIVE_MARGIN :: "int option" where "UNPRODUCTIVE_MARGIN = Some 2000"
definition BPS :: int where "BPS = 10000"
definition MIN_VALID_OUTPUT :: int where "MIN_VALID_OUTPUT = 0"

lemmas scoring_constants = RELATIVE_TOL_BPS_def FLOOR_BPS_def DETHRONE_WIN_MARGIN_def
  BLIND_SPOT_BAR_TTL_S_def BLIND_SPOT_BAR_OBSERVE_TTL_S_def FACTOR_MARGIN_def GAS_MARGIN_BPS_def
  GAS_OUT_GUARD_BPS_def GAS_COLLAPSE_FLOOR_def UNPRODUCTIVE_MARGIN_def BPS_def MIN_VALID_OUTPUT_def

section \<open>Rows and their fields\<close>

record bench_row =
  intent_id :: "string option"
  raw_output :: pyval
  shadow_score :: pyval
  mock_simulation :: pyval
  row_error :: pyval
  gas_basis :: pyval
  gas_metered :: pyval

definition raw_output_of :: "bench_row option \<Rightarrow> pyval" where
  "raw_output_of r = (case r of None \<Rightarrow> PNone
     | Some r \<Rightarrow> if raw_output r = PNone then shadow_score r else raw_output r)"

definition positive_gas :: "int \<Rightarrow> int option" where
  "positive_gas g = (if g > 0 then Some g else None)"

definition gas_of :: "bench_row option \<Rightarrow> int option res" where
  "gas_of r = (case r of None \<Rightarrow> Inr None | Some r \<Rightarrow>
     if truthy (mock_simulation r) then Inr None
     else if row_error r \<noteq> PNone then Inr None
     else if gas_basis r \<noteq> PStr GAS_BASIS then Inr None
     else (case gas_metered r of
         PNone \<Rightarrow> Inr None
       | PBool _ \<Rightarrow> Inr None
       | PInt i \<Rightarrow> Inr (positive_gas i)
       | PFloat x \<Rightarrow> Inr (positive_gas (trunc x))
       | PNaN \<Rightarrow> Inr None
       | PInf \<Rightarrow> Inl OverflowError
       | PStr s \<Rightarrow> Inr (case py_int s of None \<Rightarrow> None | Some g \<Rightarrow> positive_gas g)
       | PObj _ \<Rightarrow> Inr None))"

definition parse_output :: "pyval \<Rightarrow> int option" where
  "parse_output v = (case v of
       PNone \<Rightarrow> None
     | PBool _ \<Rightarrow> None
     | PInt i \<Rightarrow> Some i
     | PFloat x \<Rightarrow> Some (trunc x)
     | PNaN \<Rightarrow> None
     | PInf \<Rightarrow> None
     | PStr s \<Rightarrow> (if strip s = [] then None else py_int (strip s))
     | PObj s \<Rightarrow> (if strip s = [] then None else py_int (strip s)))"

definition delivers :: "int option \<Rightarrow> bool" where
  "delivers v = (case v of None \<Rightarrow> False | Some i \<Rightarrow> i > MIN_VALID_OUTPUT)"

definition has_value :: "pyval \<Rightarrow> bool" where
  "has_value v = delivers (parse_output v)"

definition factor_delta_between :: "int option \<Rightarrow> int option \<Rightarrow> int" where
  "factor_delta_between champion_nodes challenger_nodes =
     (case (champion_nodes, challenger_nodes) of (Some a, Some b) \<Rightarrow> a - b | _ \<Rightarrow> 0)"

definition deadwood_delta_between ::
  "int option \<Rightarrow> int option \<Rightarrow> int option \<Rightarrow> int option \<Rightarrow> int" where
  "deadwood_delta_between champion_nodes challenger_nodes champion_version challenger_version =
     (if champion_version = None \<or> challenger_version = None then 0
      else if champion_version \<noteq> challenger_version then 0
      else factor_delta_between champion_nodes challenger_nodes)"

section \<open>The per-order loop\<close>

datatype verdict = Regression | Win | Matched | Blind_Spot_Repeat | Blind_Spot_Cover | Dropped | Skip

record order_row =
  po_intent :: string
  po_champ :: "string option"
  po_chal :: "string option"
  po_verdict :: verdict
  po_catastrophic :: bool
  po_bar :: "(string \<times> string) option"  \<comment> \<open>\<open>bar\<close> and \<open>bar_verdict\<close>, set together\<close>
  po_champ_gas :: "int option"
  po_chal_gas :: "int option"

record tally =
  n_wins :: nat
  n_regressions :: nat
  n_blind_spots :: nat
  n_matched :: nat
  n_catastrophic :: nat
  n_dropped :: nat
  n_blind_spot_repeats :: nat
  n_blind_spot_repeats_observed :: nat
  scenarios_compared :: nat
  champ_gas_total :: int
  chal_gas_total :: int
  gas_unmeasured :: nat
  gas_order_worse :: nat
  gas_out_ok :: bool
  per_order :: "order_row list"

definition tally0 :: tally where
  "tally0 = \<lparr>n_wins = 0, n_regressions = 0, n_blind_spots = 0, n_matched = 0, n_catastrophic = 0,
     n_dropped = 0, n_blind_spot_repeats = 0, n_blind_spot_repeats_observed = 0,
     scenarios_compared = 0, champ_gas_total = 0, chal_gas_total = 0, gas_unmeasured = 0,
     gas_order_worse = 0, gas_out_ok = True, per_order = []\<rparr>"

definition index_rows :: "bench_row list \<Rightarrow> (string \<times> bench_row) list" where
  "index_rows rows = foldl (\<lambda>d r. case intent_id r of None \<Rightarrow> d | Some i \<Rightarrow> AList.update i r d) [] rows"

definition mk_row :: "string \<Rightarrow> int option \<Rightarrow> int option \<Rightarrow> verdict \<Rightarrow> order_row" where
  "mk_row iid c x v = \<lparr>po_intent = iid, po_champ = map_option show_int c,
     po_chal = map_option show_int x, po_verdict = v, po_catastrophic = False, po_bar = None,
     po_champ_gas = None, po_chal_gas = None\<rparr>"

definition emit :: "order_row \<Rightarrow> tally \<Rightarrow> tally" where
  "emit r t = t\<lparr>per_order := per_order t @ [r]\<rparr>"

text \<open>The matched branch: gas is classified only here, and only while the clause is armed.\<close>

definition matched_step ::
  "string \<Rightarrow> bench_row option \<Rightarrow> bench_row option \<Rightarrow> int \<Rightarrow> int \<Rightarrow> tally \<Rightarrow> tally res" where
  "matched_step iid champ_row chal_row c x t =
     (let t = t\<lparr>n_matched := Suc (n_matched t), scenarios_compared := Suc (scenarios_compared t)\<rparr>;
          r = mk_row iid (Some c) (Some x) Matched in
      case GAS_MARGIN_BPS of
        None \<Rightarrow> Inr (emit r t)
      | Some margin \<Rightarrow>
        (case gas_of champ_row of Inl e \<Rightarrow> Inl e | Inr cg \<Rightarrow>
         (case gas_of chal_row of Inl e \<Rightarrow> Inl e | Inr xg \<Rightarrow>
           (let r = r\<lparr>po_champ_gas := cg, po_chal_gas := xg\<rparr> in
            case (cg, xg) of
              (Some cg, Some xg) \<Rightarrow>
                Inr (emit r (t\<lparr>champ_gas_total := champ_gas_total t + cg,
                  chal_gas_total := chal_gas_total t + xg,
                  gas_order_worse := (if xg * BPS > cg * (BPS + margin)
                    then Suc (gas_order_worse t) else gas_order_worse t),
                  gas_out_ok := (gas_out_ok t \<and> x * BPS \<ge> c * (BPS - GAS_OUT_GUARD_BPS))\<rparr>))
            | _ \<Rightarrow> Inr (emit r (t\<lparr>gas_unmeasured := Suc (gas_unmeasured t)\<rparr>))))))"

definition both_step ::
  "int \<Rightarrow> string \<Rightarrow> bench_row option \<Rightarrow> bench_row option \<Rightarrow> int \<Rightarrow> int \<Rightarrow> tally \<Rightarrow> tally res" where
  "both_step tol iid champ_row chal_row c x t =
     (if x * BPS < c * (BPS - tol) then
        (let catastrophic = x * BPS < c * (BPS - FLOOR_BPS) in
         Inr (emit ((mk_row iid (Some c) (Some x) Regression)\<lparr>po_catastrophic := catastrophic\<rparr>)
           (t\<lparr>n_regressions := Suc (n_regressions t),
              n_catastrophic := (if catastrophic then Suc (n_catastrophic t) else n_catastrophic t),
              scenarios_compared := Suc (scenarios_compared t)\<rparr>)))
      else if x * BPS > c * (BPS + tol) then
        Inr (emit (mk_row iid (Some c) (Some x) Win)
          (t\<lparr>n_wins := Suc (n_wins t), scenarios_compared := Suc (scenarios_compared t)\<rparr>))
      else matched_step iid champ_row chal_row c x t)"

text \<open>The blind-spot branch with the repeat guard. \<open>champ_i\<close> is what the champion's row parsed
  to (absent or not positive).\<close>

definition blind_step ::
  "int \<Rightarrow> (string \<Rightarrow> pyval) \<Rightarrow> real option \<Rightarrow> string \<Rightarrow> int option \<Rightarrow> int \<Rightarrow> tally \<Rightarrow> tally" where
  "blind_step tol bar bar_age iid champ_i x t =
     (let bar_i = parse_output (bar iid);
          bar_has = delivers bar_i;
          exceeds_bar = bar_has \<and> x * BPS > the bar_i * (BPS + tol);
          bar_field = (if bar_has then Some (show_int (the bar_i),
                         if exceeds_bar then ''exceed'' else ''repeat'') else None);
          is_repeat = bar_has \<and> \<not> exceeds_bar \<and> bar_age \<noteq> None;
          t = (if is_repeat \<and> the bar_age \<le> BLIND_SPOT_BAR_OBSERVE_TTL_S
               then t\<lparr>n_blind_spot_repeats_observed := Suc (n_blind_spot_repeats_observed t)\<rparr> else t);
          t = t\<lparr>scenarios_compared := Suc (scenarios_compared t)\<rparr> in
      if (case BLIND_SPOT_BAR_TTL_S of None \<Rightarrow> False
          | Some ttl \<Rightarrow> is_repeat \<and> the bar_age \<le> ttl) then
        emit ((mk_row iid champ_i (Some x) Blind_Spot_Repeat)\<lparr>po_bar := bar_field\<rparr>)
          (t\<lparr>n_blind_spot_repeats := Suc (n_blind_spot_repeats t)\<rparr>)
      else
        emit ((mk_row iid champ_i (Some x) Blind_Spot_Cover)\<lparr>po_bar := bar_field\<rparr>)
          (t\<lparr>n_blind_spots := Suc (n_blind_spots t)\<rparr>))"

definition order_step ::
  "int \<Rightarrow> (string \<Rightarrow> pyval) \<Rightarrow> real option \<Rightarrow> (string \<Rightarrow> bench_row option) \<Rightarrow>
   (string \<Rightarrow> bench_row option) \<Rightarrow> string \<Rightarrow> tally \<Rightarrow> tally res" where
  "order_step tol bar bar_age champ_by chal_by iid t =
     (let champ_i = parse_output (raw_output_of (champ_by iid));
          chal_i = parse_output (raw_output_of (chal_by iid)) in
      if delivers champ_i \<and> delivers chal_i then
        both_step tol iid (champ_by iid) (chal_by iid) (the champ_i) (the chal_i) t
      else if delivers chal_i then Inr (blind_step tol bar bar_age iid champ_i (the chal_i) t)
      else if delivers champ_i then
        Inr (emit (mk_row iid champ_i chal_i Dropped)
          (t\<lparr>n_dropped := Suc (n_dropped t), scenarios_compared := Suc (scenarios_compared t)\<rparr>))
      else Inr (emit (mk_row iid champ_i chal_i Skip) t))"

fun run_orders :: "(string \<Rightarrow> tally \<Rightarrow> tally res) \<Rightarrow> string list \<Rightarrow> tally \<Rightarrow> tally res" where
  "run_orders f [] t = Inr t"
| "run_orders f (i # is) t = (case f i t of Inl e \<Rightarrow> Inl e | Inr t' \<Rightarrow> run_orders f is t')"

definition order_ids :: "(string \<times> bench_row) list \<Rightarrow> (string \<times> bench_row) list \<Rightarrow> string list" where
  "order_ids champ_by chal_by = sort (remdups (keys_of champ_by @ keys_of chal_by))"

text \<open>\<open>(champion_bar or {}).get(iid)\<close>: the adoption-time bar, an absent bar being empty.\<close>

type_synonym bar = "(string \<times> pyval) list option"

definition bar_get :: "bar \<Rightarrow> string \<Rightarrow> pyval" where
  "bar_get bar iid = (case map_of (case bar of None \<Rightarrow> [] | Some b \<Rightarrow> b) iid of
     None \<Rightarrow> PNone | Some v \<Rightarrow> v)"

definition relative_tally ::
  "bench_row list \<Rightarrow> bench_row list \<Rightarrow> int \<Rightarrow> bar \<Rightarrow> real option \<Rightarrow> tally res" where
  "relative_tally champion_results challenger_results tol champion_bar bar_age =
     (let champ_by = index_rows champion_results; chal_by = index_rows challenger_results in
      run_orders (order_step tol (bar_get champion_bar) bar_age (map_of champ_by) (map_of chal_by))
        (order_ids champ_by chal_by) tally0)"

section \<open>The verdict\<close>

definition net_better :: "tally \<Rightarrow> nat" where
  "net_better t = n_wins t + n_blind_spots t"

definition performance_adopt :: "tally \<Rightarrow> bool" where
  "performance_adopt t \<longleftrightarrow> net_better t \<ge> n_regressions t + DETHRONE_WIN_MARGIN"

definition gas_measured_full :: "tally \<Rightarrow> bool" where
  "gas_measured_full t \<longleftrightarrow> GAS_MARGIN_BPS \<noteq> None \<and> n_matched t > 0 \<and> gas_unmeasured t = 0"

definition gas_tie_adopt :: "tally \<Rightarrow> bool" where
  "gas_tie_adopt t = (case GAS_MARGIN_BPS of None \<Rightarrow> False | Some margin \<Rightarrow>
     scenarios_compared t > 0 \<and> net_better t = 0 \<and> n_regressions t = 0 \<and> n_matched t > 0
     \<and> gas_measured_full t \<and> gas_order_worse t = 0
     \<and> chal_gas_total t * BPS < champ_gas_total t * (BPS - margin)
     \<and> gas_out_ok t
     \<and> chal_gas_total t * GAS_COLLAPSE_FLOOR \<ge> champ_gas_total t)"

definition gas_tie_worse :: "tally \<Rightarrow> bool" where
  "gas_tie_worse t = (case GAS_MARGIN_BPS of None \<Rightarrow> False | Some margin \<Rightarrow>
     gas_measured_full t \<and>
     (chal_gas_total t * BPS > champ_gas_total t * (BPS + margin) \<or> gas_order_worse t > 0))"

definition factor_tie_adopt :: "int \<Rightarrow> tally \<Rightarrow> bool" where
  "factor_tie_adopt factor_delta t = (case FACTOR_MARGIN of None \<Rightarrow> False | Some margin \<Rightarrow>
     scenarios_compared t > 0 \<and> net_better t = 0 \<and> n_regressions t = 0
     \<and> factor_delta \<ge> margin \<and> \<not> gas_tie_worse t)"

definition factor_region_tied :: "int \<Rightarrow> bool" where
  "factor_region_tied factor_delta =
     (case FACTOR_MARGIN of None \<Rightarrow> True | Some margin \<Rightarrow> \<bar>factor_delta\<bar> < margin)"

definition deadwood_tie_adopt :: "int \<Rightarrow> int \<Rightarrow> tally \<Rightarrow> bool" where
  "deadwood_tie_adopt factor_delta deadwood_delta t = (case UNPRODUCTIVE_MARGIN of None \<Rightarrow> False
     | Some margin \<Rightarrow> scenarios_compared t > 0 \<and> net_better t = 0 \<and> n_regressions t = 0
     \<and> n_matched t > 0 \<and> factor_region_tied factor_delta \<and> \<not> gas_tie_worse t
     \<and> deadwood_delta \<ge> margin)"

definition adopts :: "int \<Rightarrow> int \<Rightarrow> tally \<Rightarrow> bool" where
  "adopts factor_delta deadwood_delta t \<longleftrightarrow>
     n_catastrophic t = 0 \<and> n_dropped t = 0
     \<and> (performance_adopt t \<or> gas_tie_adopt t \<or> factor_tie_adopt factor_delta t
        \<or> deadwood_tie_adopt factor_delta deadwood_delta t)"

datatype via = Performance | Gas | Factorization | Deadwood

definition adopt_via_of :: "int \<Rightarrow> int \<Rightarrow> tally \<Rightarrow> via option" where
  "adopt_via_of factor_delta deadwood_delta t =
     (let a = adopts factor_delta deadwood_delta t in
      if a \<and> performance_adopt t then Some Performance
      else if a \<and> gas_tie_adopt t then Some Gas
      else if a \<and> factor_tie_adopt factor_delta t then Some Factorization
      else if a then Some Deadwood
      else None)"

text \<open>\<open>nat_str\<close> and \<open>opt_str\<close> render a counter and an armed margin inside an f-string.\<close>

definition nat_str :: "nat \<Rightarrow> string" where "nat_str n = show_int (int n)"

definition opt_str :: "int option \<Rightarrow> string" where
  "opt_str v = (case v of None \<Rightarrow> ''None'' | Some i \<Rightarrow> show_int i)"

text \<open>The reason of a tie that was not adopted, with its hints on how far each tie-break was.\<close>

definition tie_reason :: "int \<Rightarrow> int \<Rightarrow> tally \<Rightarrow> string" where
  "tie_reason factor_delta deadwood_delta t =
     ''matched: no order better or worse''
     @ (if FACTOR_MARGIN \<noteq> None \<and> scenarios_compared t > 0 \<and> factor_delta > 0
        then '' (factor delta '' @ show_int factor_delta @ '' < margin '' @ opt_str FACTOR_MARGIN @ '')''
        else [])
     @ (case GAS_MARGIN_BPS of None \<Rightarrow> [] | Some margin \<Rightarrow>
          if \<not> gas_measured_full t then []
          else if chal_gas_total t * GAS_COLLAPSE_FLOOR < champ_gas_total t
          then '' (gas collapse >50%: implausible, gas clause inert)''
          else if chal_gas_total t < champ_gas_total t
             \<and> \<not> chal_gas_total t * BPS < champ_gas_total t * (BPS - margin)
          then '' (gas -'' @ show_int ((champ_gas_total t - chal_gas_total t) * BPS div champ_gas_total t)
             @ '' bps < margin '' @ show_int margin @ '')''
          else [])
     @ (case UNPRODUCTIVE_MARGIN of None \<Rightarrow> [] | Some margin \<Rightarrow>
          if scenarios_compared t > 0 \<and> 0 < deadwood_delta \<and> deadwood_delta < margin
          then '' (deadwood delta '' @ show_int deadwood_delta @ '' < margin '' @ show_int margin @ '')''
          else [])"

definition reason_of :: "int \<Rightarrow> int \<Rightarrow> tally \<Rightarrow> string" where
  "reason_of factor_delta deadwood_delta t =
     (let a = adopts factor_delta deadwood_delta t; nb = net_better t in
      (if n_catastrophic t > 0 then
         ''reject: '' @ nat_str (n_catastrophic t) @ '' order(s) cut >1% (hard floor)''
       else if n_dropped t > 0 then
         ''reject: dropped '' @ nat_str (n_dropped t) @ '' order(s) the champion serves''
       else if a \<and> \<not> performance_adopt t \<and> gas_tie_adopt t then
         ''dethrone: matched on all '' @ nat_str (n_matched t) @ '' order(s), materially cheaper (gas ''
         @ show_int (chal_gas_total t) @ '' vs '' @ show_int (champ_gas_total t) @ '', -''
         @ show_int ((champ_gas_total t - chal_gas_total t) * BPS div champ_gas_total t)
         @ '' bps >= margin '' @ opt_str GAS_MARGIN_BPS @ '')''
       else if a \<and> \<not> performance_adopt t \<and> factor_tie_adopt factor_delta t then
         ''dethrone: matched on all '' @ nat_str (n_matched t) @ '' order(s), better factored (max region -''
         @ show_int factor_delta @ '' nodes >= margin '' @ opt_str FACTOR_MARGIN @ '')''
       else if a \<and> \<not> performance_adopt t then
         ''dethrone: matched on all '' @ nat_str (n_matched t) @ '' order(s), less dead code (unproductive -''
         @ show_int deadwood_delta @ '' nodes >= margin '' @ opt_str UNPRODUCTIVE_MARGIN @ '')''
       else if a then
         ''dethrone: '' @ nat_str nb @ '' better, '' @ nat_str (n_regressions t)
         @ '' minor regression(s) within 1% floor (net +''
         @ show_int (int nb - int (n_regressions t)) @ '')''
       else if nb = 0 \<and> n_regressions t = 0 then tie_reason factor_delta deadwood_delta t
       else ''reject: net better '' @ nat_str nb @ '' <= regressions '' @ nat_str (n_regressions t)
         @ '' + margin '' @ nat_str DETHRONE_WIN_MARGIN)
      @ (if n_blind_spot_repeats t > 0 then
           '' ('' @ nat_str (n_blind_spot_repeats t) @ '' blind-spot repeat(s) not credited: cover ''
           @ ''does not exceed the incumbent's adoption-time value)''
         else []))"

record adoption =
  adopt :: bool
  reason :: string
  adopt_via :: "via option"
  v_factor_delta :: int
  v_deadwood_delta :: int
  v_gas_measured_full :: bool
  v_tally :: tally  \<comment> \<open>the counters, totals and \<open>per_order\<close> rows of the result dict\<close>

definition evaluate_relative_adoption ::
  "bench_row list \<Rightarrow> bench_row list \<Rightarrow> int \<Rightarrow> bar \<Rightarrow> real option \<Rightarrow> int \<Rightarrow> int \<Rightarrow> adoption res" where
  "evaluate_relative_adoption champion_results challenger_results tol champion_bar bar_age
     factor_delta deadwood_delta =
     (case relative_tally champion_results challenger_results tol champion_bar bar_age of
        Inl e \<Rightarrow> Inl e
      | Inr t \<Rightarrow> Inr \<lparr>adopt = adopts factor_delta deadwood_delta t,
          reason = reason_of factor_delta deadwood_delta t,
          adopt_via = adopt_via_of factor_delta deadwood_delta t,
          v_factor_delta = factor_delta, v_deadwood_delta = deadwood_delta,
          v_gas_measured_full = gas_measured_full t, v_tally = t\<rparr>)"

section \<open>Bars and counts\<close>

text \<open>The persisted bar record \<open>{submission_id, outputs, activated_at}\<close>; \<open>outputs\<close> is \<open>None\<close> when
  the stored value is not a dict.\<close>

record bar_record =
  br_submission_id :: "string option"
  br_outputs :: bar
  br_activated_at :: real

definition bar_kwargs_from_record ::
  "bar_record option \<Rightarrow> string option \<Rightarrow> real \<Rightarrow> bar \<times> real option" where
  "bar_kwargs_from_record record incumbent now = (case record of None \<Rightarrow> (None, None)
     | Some r \<Rightarrow>
       if or_empty incumbent = [] then (None, None)
       else if br_submission_id r \<noteq> incumbent then (None, None)
       else (case br_outputs r of None \<Rightarrow> (None, None)
         | Some outputs \<Rightarrow>
           if outputs = [] \<or> br_activated_at r = 0 then (None, None)
           else (Some outputs, Some (max 0 (now - br_activated_at r)))))"

definition blind_spot_bar_from_rows :: "bench_row list \<Rightarrow> (string \<times> string) list" where
  "blind_spot_bar_from_rows rows = foldl (\<lambda>bar r. case intent_id r of None \<Rightarrow> bar
     | Some i \<Rightarrow> (case parse_output (raw_output_of (Some r)) of None \<Rightarrow> bar
       | Some v \<Rightarrow> if v > MIN_VALID_OUTPUT then AList.update i (show_int v) bar else bar)) [] rows"

record counts =
  c_better :: nat
  c_worse :: nat
  c_matched :: nat
  c_new :: nat
  c_repeats :: nat
  c_compared :: nat
  c_tolerated :: int
  c_lost :: nat
  c_catastrophic :: nat
  c_dropped :: nat
  c_floor_bps :: int
  c_verdict :: string
  c_adopt_via :: "via option"
  c_per_order :: "order_row list"
  c_gas :: "(int \<times> int \<times> bool \<times> nat \<times> nat) option"
    \<comment> \<open>\<open>champ_total\<close>, \<open>chal_total\<close>, \<open>measured_full\<close>, \<open>unmeasured\<close>, \<open>order_worse\<close>\<close>

definition counts_from_verdict :: "adoption \<Rightarrow> counts" where
  "counts_from_verdict res =
     (let t = v_tally res;
          better = n_wins t + n_blind_spots t;
          worse = n_regressions t + n_dropped t;
          repeats = n_blind_spot_repeats t;
          matched = n_matched t + repeats in
      \<lparr>c_better = better, c_worse = worse, c_matched = matched, c_new = n_blind_spots t,
       c_repeats = repeats, c_compared = better + worse + matched,
       c_tolerated = int (n_regressions t) - int (n_catastrophic t),
       c_lost = n_catastrophic t + n_dropped t,
       c_catastrophic = n_catastrophic t, c_dropped = n_dropped t, c_floor_bps = FLOOR_BPS,
       c_verdict = (if adopt res then ''dethrone''
         else if better = 0 \<and> worse = 0 then ''matched'' else ''behind''),
       c_adopt_via = adopt_via res, c_per_order = per_order t,
       c_gas = (if GAS_MARGIN_BPS = None then None
         else Some (champ_gas_total t, chal_gas_total t, v_gas_measured_full res,
           gas_unmeasured t, gas_order_worse t))\<rparr>)"

definition relative_counts ::
  "bench_row list \<Rightarrow> bench_row list \<Rightarrow> int \<Rightarrow> bar \<Rightarrow> real option \<Rightarrow> int \<Rightarrow> int \<Rightarrow> counts res" where
  "relative_counts champion_results challenger_results tol champion_bar bar_age factor_delta
     deadwood_delta =
     map_sum id counts_from_verdict (evaluate_relative_adoption champion_results challenger_results
       tol champion_bar bar_age factor_delta deadwood_delta)"

definition has_raw_output_rows :: "bench_row list \<Rightarrow> bool" where
  "has_raw_output_rows rows = list_ex (\<lambda>r. raw_output_of (Some r) \<noteq> PNone) rows"

definition has_delivered_value_rows :: "bench_row list \<Rightarrow> bool" where
  "has_delivered_value_rows rows = list_ex (\<lambda>r. has_value (raw_output_of (Some r))) rows"

section \<open>What one order contributes\<close>

text \<open>The specification of the loop: the verdict of one order as a function of the two parsed
  outputs and the bar, without accumulators.\<close>

abbreviation out_of :: "(string \<Rightarrow> bench_row option) \<Rightarrow> string \<Rightarrow> int option" where
  "out_of by i \<equiv> parse_output (raw_output_of (by i))"

definition bar_blocks :: "int \<Rightarrow> (string \<Rightarrow> pyval) \<Rightarrow> real option \<Rightarrow> string \<Rightarrow> int \<Rightarrow> bool" where
  "bar_blocks tol bar bar_age i x \<longleftrightarrow> (\<exists>b a ttl. parse_output (bar i) = Some b \<and> 0 < b
     \<and> \<not> x * BPS > b * (BPS + tol) \<and> bar_age = Some a \<and> BLIND_SPOT_BAR_TTL_S = Some ttl \<and> a \<le> ttl)"

definition order_verdict ::
  "int \<Rightarrow> (string \<Rightarrow> pyval) \<Rightarrow> real option \<Rightarrow> (string \<Rightarrow> bench_row option) \<Rightarrow>
   (string \<Rightarrow> bench_row option) \<Rightarrow> string \<Rightarrow> verdict" where
  "order_verdict tol bar bar_age champ_by chal_by i =
     (let c = out_of champ_by i; x = out_of chal_by i in
      if delivers c \<and> delivers x then
        (if the x * BPS < the c * (BPS - tol) then Regression
         else if the x * BPS > the c * (BPS + tol) then Win else Matched)
      else if delivers x then
        (if bar_blocks tol bar bar_age i (the x) then Blind_Spot_Repeat else Blind_Spot_Cover)
      else if delivers c then Dropped else Skip)"

definition order_catastrophic ::
  "int \<Rightarrow> (string \<Rightarrow> bench_row option) \<Rightarrow> (string \<Rightarrow> bench_row option) \<Rightarrow> string \<Rightarrow> bool" where
  "order_catastrophic tol champ_by chal_by i =
     (let c = out_of champ_by i; x = out_of chal_by i in
      delivers c \<and> delivers x \<and> the x * BPS < the c * (BPS - tol)
      \<and> the x * BPS < the c * (BPS - FLOOR_BPS))"

definition gas_pair :: "order_row \<Rightarrow> (int \<times> int) option" where
  "gas_pair r = (case (po_champ_gas r, po_chal_gas r) of (Some a, Some b) \<Rightarrow> Some (a, b) | _ \<Rightarrow> None)"

abbreviation n_with :: "verdict \<Rightarrow> tally \<Rightarrow> nat" where
  "n_with v t \<equiv> length (filter (\<lambda>r. po_verdict r = v) (per_order t))"

text \<open>The loop invariant: every accumulator is determined by the rows emitted so far.\<close>

definition tally_counts :: "tally \<Rightarrow> bool" where
  "tally_counts t \<longleftrightarrow>
     n_wins t = n_with Win t \<and> n_regressions t = n_with Regression t
     \<and> n_blind_spots t = n_with Blind_Spot_Cover t \<and> n_matched t = n_with Matched t
     \<and> n_dropped t = n_with Dropped t \<and> n_blind_spot_repeats t = n_with Blind_Spot_Repeat t
     \<and> n_catastrophic t = length (filter po_catastrophic (per_order t))
     \<and> scenarios_compared t = length (filter (\<lambda>r. po_verdict r \<noteq> Skip) (per_order t))"

definition gas_sum :: "(int \<times> int \<Rightarrow> int) \<Rightarrow> order_row list \<Rightarrow> int" where
  "gas_sum f rs = sum_list (map (\<lambda>r. case gas_pair r of None \<Rightarrow> 0 | Some p \<Rightarrow> f p) rs)"

definition tally_gas ::
  "(string \<Rightarrow> bench_row option) \<Rightarrow> (string \<Rightarrow> bench_row option) \<Rightarrow> tally \<Rightarrow> bool" where
  "tally_gas champ_by chal_by t \<longleftrightarrow>
     gas_unmeasured t = length (filter (\<lambda>r. po_verdict r = Matched \<and> gas_pair r = None) (per_order t))
     \<and> champ_gas_total t = gas_sum fst (per_order t) \<and> chal_gas_total t = gas_sum snd (per_order t)
     \<and> gas_order_worse t = length (filter (\<lambda>r. case gas_pair r of None \<Rightarrow> False
         | Some (a, b) \<Rightarrow> b * BPS > a * (BPS + the GAS_MARGIN_BPS)) (per_order t))
     \<and> (gas_out_ok t \<longleftrightarrow> (\<forall>r \<in> set (per_order t). gas_pair r \<noteq> None \<longrightarrow>
         the (out_of chal_by (po_intent r)) * BPS
           \<ge> the (out_of champ_by (po_intent r)) * (BPS - GAS_OUT_GUARD_BPS)))
     \<and> (\<forall>r \<in> set (per_order t). gas_pair r \<noteq> None \<longrightarrow> po_verdict r = Matched)"

definition row_fits ::
  "int \<Rightarrow> (string \<Rightarrow> pyval) \<Rightarrow> real option \<Rightarrow> (string \<Rightarrow> bench_row option) \<Rightarrow>
   (string \<Rightarrow> bench_row option) \<Rightarrow> string \<Rightarrow> order_row \<Rightarrow> bool" where
  "row_fits tol bar bar_age champ_by chal_by i r \<longleftrightarrow> po_intent r = i
     \<and> po_verdict r = order_verdict tol bar bar_age champ_by chal_by i
     \<and> po_catastrophic r = order_catastrophic tol champ_by chal_by i
     \<and> (po_verdict r = Matched \<longrightarrow> gas_of (champ_by i) = Inr (po_champ_gas r)
          \<and> gas_of (chal_by i) = Inr (po_chal_gas r))"

lemmas step_defs = order_step_def both_step_def matched_step_def blind_step_def emit_def mk_row_def
  Let_def

lemma bar_blocks_code:
  "bar_blocks tol bar bar_age i x \<longleftrightarrow> (let b = parse_output (bar i) in
     delivers b \<and> \<not> x * BPS > the b * (BPS + tol) \<and> bar_age \<noteq> None
     \<and> (case BLIND_SPOT_BAR_TTL_S of None \<Rightarrow> False | Some ttl \<Rightarrow> the bar_age \<le> ttl))"
  by (auto simp: bar_blocks_def delivers_def MIN_VALID_OUTPUT_def BLIND_SPOT_BAR_TTL_S_def Let_def
      split: option.splits)

lemma order_step_row:
  assumes "order_step tol bar bar_age champ_by chal_by i t = Inr t'"
  shows "\<exists>r. per_order t' = per_order t @ [r] \<and> row_fits tol bar bar_age champ_by chal_by i r"
  using assms
  by (auto simp: step_defs row_fits_def order_verdict_def order_catastrophic_def bar_blocks_code
      scoring_constants split: if_splits sum.splits option.splits)

lemma order_step_counts:
  assumes "order_step tol bar bar_age champ_by chal_by i t = Inr t'" "tally_counts t"
  shows "tally_counts t'"
  using assms
  by (auto simp: step_defs tally_counts_def scoring_constants split: if_splits sum.splits option.splits)

lemma gas_sum_simps [simp]:
  "gas_sum f [] = 0"
  "gas_sum f (rs @ [r]) = gas_sum f rs + (case gas_pair r of None \<Rightarrow> 0 | Some p \<Rightarrow> f p)"
  by (simp_all add: gas_sum_def)

text \<open>The gas accumulators move only on the matched branch.\<close>

definition gas_fields :: "tally \<Rightarrow> int \<times> int \<times> nat \<times> nat \<times> bool" where
  "gas_fields t = (champ_gas_total t, chal_gas_total t, gas_unmeasured t, gas_order_worse t, gas_out_ok t)"

definition gas_after :: "tally \<Rightarrow> int \<Rightarrow> int \<Rightarrow> (int \<times> int) option \<Rightarrow> int \<times> int \<times> nat \<times> nat \<times> bool" where
  "gas_after t c x p = (case p of
       None \<Rightarrow> (champ_gas_total t, chal_gas_total t, Suc (gas_unmeasured t), gas_order_worse t, gas_out_ok t)
     | Some (a, b) \<Rightarrow> (champ_gas_total t + a, chal_gas_total t + b, gas_unmeasured t,
         (if b * BPS > a * (BPS + the GAS_MARGIN_BPS) then Suc (gas_order_worse t) else gas_order_worse t),
         gas_out_ok t \<and> x * BPS \<ge> c * (BPS - GAS_OUT_GUARD_BPS)))"

lemma tally_gas_frame:
  assumes "tally_gas champ_by chal_by t" "per_order u = per_order t @ [r]" "gas_pair r = None"
    "po_verdict r \<noteq> Matched" "gas_fields u = gas_fields t"
  shows "tally_gas champ_by chal_by u"
  using assms by (auto simp: tally_gas_def gas_fields_def)

lemma matched_step_cases:
  assumes "matched_step iid champ_row chal_row c x t = Inr t'"
  obtains cg xg r where "gas_of champ_row = Inr cg" "gas_of chal_row = Inr xg"
    "per_order t' = per_order t @ [r]" "po_intent r = iid" "po_verdict r = Matched"
    "gas_pair r = (case (cg, xg) of (Some a, Some b) \<Rightarrow> Some (a, b) | _ \<Rightarrow> None)"
    "gas_fields t' = gas_after t c x (gas_pair r)"
proof -
  obtain cg xg where g: "gas_of champ_row = Inr cg" "gas_of chal_row = Inr xg"
    using assms by (auto simp: matched_step_def GAS_MARGIN_BPS_def Let_def split: sum.splits)
  let ?r = "(mk_row iid (Some c) (Some x) Matched)\<lparr>po_champ_gas := cg, po_chal_gas := xg\<rparr>"
  show ?thesis
    by (rule that [of cg xg ?r]; cases cg; cases xg;
      insert assms g; simp add: matched_step_def GAS_MARGIN_BPS_def Let_def emit_def mk_row_def
        gas_fields_def gas_pair_def gas_after_def; fastforce)
qed

lemma matched_step_gas:
  assumes m: "matched_step i champ_row chal_row (the (out_of champ_by i)) (the (out_of chal_by i)) t = Inr t'"
    and t: "tally_gas champ_by chal_by t"
  shows "tally_gas champ_by chal_by t'"
proof -
  obtain r where r: "per_order t' = per_order t @ [r]" "po_intent r = i"
    "po_verdict r = Matched"
    and f: "gas_fields t' = gas_after t (the (out_of champ_by i)) (the (out_of chal_by i)) (gas_pair r)"
    by (rule matched_step_cases [OF m]) blast
  show ?thesis
  proof (cases "gas_pair r")
    case None
    with r f t show ?thesis by (auto simp: tally_gas_def gas_fields_def gas_after_def)
  next
    case (Some p)
    obtain a b where "p = (a, b)" by fastforce
    with Some r f t show ?thesis by (auto simp: tally_gas_def gas_fields_def gas_after_def)
  qed
qed

lemma order_step_gas:
  assumes s: "order_step tol bar bar_age champ_by chal_by i t = Inr t'"
    and t: "tally_gas champ_by chal_by t"
  shows "tally_gas champ_by chal_by t'"
proof (cases "\<exists>cr xr. matched_step i cr xr (the (out_of champ_by i)) (the (out_of chal_by i)) t = Inr t'")
  case True
  with t show ?thesis by (blast intro: matched_step_gas)
next
  case False
  then have "\<exists>r. per_order t' = per_order t @ [r] \<and> gas_pair r = None \<and> po_verdict r \<noteq> Matched
      \<and> gas_fields t' = gas_fields t"
    using s by (auto simp: order_step_def both_step_def blind_step_def emit_def mk_row_def Let_def
        gas_fields_def gas_pair_def split: if_splits)
  with t show ?thesis by (blast intro: tally_gas_frame)
qed

lemma tally0_ok: "tally_counts tally0" "tally_gas champ_by chal_by tally0" "per_order tally0 = []"
  by (auto simp: tally_counts_def tally_gas_def tally0_def)

text \<open>The whole loop.\<close>

lemma run_orders_spec:
  assumes "run_orders (order_step tol bar bar_age champ_by chal_by) is t = Inr t'"
    and "tally_counts t" "tally_gas champ_by chal_by t"
  shows "tally_counts t' \<and> tally_gas champ_by chal_by t'
    \<and> (\<exists>rs. per_order t' = per_order t @ rs
         \<and> list_all2 (row_fits tol bar bar_age champ_by chal_by) is rs)"
  using assms
proof (induction "is" arbitrary: t)
  case Nil
  then show ?case by simp
next
  case (Cons i "is")
  from Cons.prems(1) obtain u where u: "order_step tol bar bar_age champ_by chal_by i t = Inr u"
    and run: "run_orders (order_step tol bar bar_age champ_by chal_by) is u = Inr t'"
    by (auto split: sum.splits)
  obtain r where r: "per_order u = per_order t @ [r]" "row_fits tol bar bar_age champ_by chal_by i r"
    using order_step_row [OF u] by blast
  from Cons.IH [OF run order_step_counts [OF u Cons.prems(2)] order_step_gas [OF u Cons.prems(3)]]
  obtain rs where "tally_counts t'" "tally_gas champ_by chal_by t'" "per_order t' = per_order u @ rs"
    "list_all2 (row_fits tol bar bar_age champ_by chal_by) is rs" by blast
  with r show ?case by (intro conjI exI [of _ "r # rs"]) auto
qed

text \<open>The contract of the loop for a whole comparison: the rows are those of the sorted distinct
  order ids, each with the verdict of the specification, and the counters count them.\<close>

definition comparison ::
  "bench_row list \<Rightarrow> bench_row list \<Rightarrow> int \<Rightarrow> bar \<Rightarrow> real option \<Rightarrow> tally \<Rightarrow> bool" where
  "comparison champion_results challenger_results tol champion_bar bar_age t \<longleftrightarrow>
     (let champ_by = map_of (index_rows champion_results);
          chal_by = map_of (index_rows challenger_results) in
      tally_counts t \<and> tally_gas champ_by chal_by t
      \<and> list_all2 (row_fits tol (bar_get champion_bar) bar_age champ_by chal_by)
          (order_ids (index_rows champion_results) (index_rows challenger_results)) (per_order t))"

lemma relative_tally_comparison:
  assumes "relative_tally cr xr tol cb age = Inr t"
  shows "comparison cr xr tol cb age t"
  using run_orders_spec [OF assms [unfolded relative_tally_def Let_def] tally0_ok(1) tally0_ok(2)]
  by (auto simp: comparison_def Let_def tally0_ok(3))

lemma set_order_ids: "set (order_ids c x) = fst ` set c \<union> fst ` set x"
  by (auto simp: order_ids_def)

lemma distinct_order_ids: "distinct (order_ids c x)"
  by (simp add: order_ids_def)

lemma index_rows_snoc: "index_rows (rs @ [r]) =
    (case intent_id r of None \<Rightarrow> index_rows rs | Some i \<Rightarrow> AList.update i r (index_rows rs))"
  by (simp add: index_rows_def split: option.split)

lemma index_rows_keys: "fst ` set (index_rows rs) = {i. \<exists>r \<in> set rs. intent_id r = Some i}"
  by (induction rs rule: rev_induct)
    (auto simp: index_rows_def dom_update image_iff split: option.splits)

lemma in_comparison:
  assumes "comparison cr xr tol cb age t"
    and "map_of (index_rows cr) i \<noteq> None \<or> map_of (index_rows xr) i \<noteq> None"
  obtains r where "r \<in> set (per_order t)"
    "row_fits tol (bar_get cb) age (map_of (index_rows cr)) (map_of (index_rows xr)) i r"
proof -
  have "i \<in> set (order_ids (index_rows cr) (index_rows xr))"
    using assms(2) by (auto simp: set_order_ids map_of_eq_None_iff)
  then show ?thesis
    using assms(1) that unfolding comparison_def Let_def
    by (metis in_set_conv_nth list_all2_conv_all_nth)
qed

section \<open>Properties of the verdict\<close>

definition delivered :: "bench_row list \<Rightarrow> string \<Rightarrow> int option" where
  "delivered rows i = out_of (map_of (index_rows rows)) i"

abbreviation verdict_of ::
  "bench_row list \<Rightarrow> bench_row list \<Rightarrow> int \<Rightarrow> bar \<Rightarrow> real option \<Rightarrow> string \<Rightarrow> verdict" where
  "verdict_of cr xr tol cb age i \<equiv>
     order_verdict tol (bar_get cb) age (map_of (index_rows cr)) (map_of (index_rows xr)) i"

abbreviation compared_ids :: "bench_row list \<Rightarrow> bench_row list \<Rightarrow> string list" where
  "compared_ids cr xr \<equiv> order_ids (index_rows cr) (index_rows xr)"

lemma evaluate_Inr:
  assumes "evaluate_relative_adoption cr xr tol cb age fd dd = Inr v"
  shows "comparison cr xr tol cb age (v_tally v)" "adopt v = adopts fd dd (v_tally v)"
    "adopt_via v = adopt_via_of fd dd (v_tally v)" "reason v = reason_of fd dd (v_tally v)"
  using assms relative_tally_comparison
  by (auto simp: evaluate_relative_adoption_def split: sum.splits)

lemma delivered_Some_row: "delivered rows i = Some c \<Longrightarrow> map_of (index_rows rows) i \<noteq> None"
  by (cases "map_of (index_rows rows) i") (auto simp: delivered_def raw_output_of_def parse_output_def)

lemma comparison_verdicts:
  assumes "comparison cr xr tol cb age t"
  shows "map po_verdict (per_order t) = map (verdict_of cr xr tol cb age) (compared_ids cr xr)"
    "map po_catastrophic (per_order t) =
       map (order_catastrophic tol (map_of (index_rows cr)) (map_of (index_rows xr))) (compared_ids cr xr)"
    "map po_intent (per_order t) = compared_ids cr xr"
  using assms unfolding comparison_def Let_def list_all2_conv_all_nth row_fits_def
  by (auto intro!: nth_equalityI)

abbreviation n_ids ::
  "(verdict \<Rightarrow> bool) \<Rightarrow> bench_row list \<Rightarrow> bench_row list \<Rightarrow> int \<Rightarrow> bar \<Rightarrow> real option \<Rightarrow> nat" where
  "n_ids P cr xr tol cb age \<equiv> length (filter (\<lambda>i. P (verdict_of cr xr tol cb age i)) (compared_ids cr xr))"

lemma comparison_counts:
  assumes "comparison cr xr tol cb age t"
  shows "n_wins t = n_ids (\<lambda>v. v = Win) cr xr tol cb age"
    "n_regressions t = n_ids (\<lambda>v. v = Regression) cr xr tol cb age"
    "n_blind_spots t = n_ids (\<lambda>v. v = Blind_Spot_Cover) cr xr tol cb age"
    "n_matched t = n_ids (\<lambda>v. v = Matched) cr xr tol cb age"
    "n_dropped t = n_ids (\<lambda>v. v = Dropped) cr xr tol cb age"
    "n_blind_spot_repeats t = n_ids (\<lambda>v. v = Blind_Spot_Repeat) cr xr tol cb age"
    "scenarios_compared t = n_ids (\<lambda>v. v \<noteq> Skip) cr xr tol cb age"
    "n_catastrophic t = length (filter (order_catastrophic tol (map_of (index_rows cr))
       (map_of (index_rows xr))) (compared_ids cr xr))"
proof -
  have tc: "tally_counts t" using assms by (simp add: comparison_def Let_def)
  note l = length_filter_map_eq [OF comparison_verdicts(1) [OF assms]]
  show "n_wins t = n_ids (\<lambda>v. v = Win) cr xr tol cb age"
    "n_regressions t = n_ids (\<lambda>v. v = Regression) cr xr tol cb age"
    "n_blind_spots t = n_ids (\<lambda>v. v = Blind_Spot_Cover) cr xr tol cb age"
    "n_matched t = n_ids (\<lambda>v. v = Matched) cr xr tol cb age"
    "n_dropped t = n_ids (\<lambda>v. v = Dropped) cr xr tol cb age"
    "n_blind_spot_repeats t = n_ids (\<lambda>v. v = Blind_Spot_Repeat) cr xr tol cb age"
    "scenarios_compared t = n_ids (\<lambda>v. v \<noteq> Skip) cr xr tol cb age"
    using tc l [of "\<lambda>v. v = Win"]
      l [of "\<lambda>v. v = Regression"]
      l [of "\<lambda>v. v = Blind_Spot_Cover"]
      l [of "\<lambda>v. v = Matched"]
      l [of "\<lambda>v. v = Dropped"]
      l [of "\<lambda>v. v = Blind_Spot_Repeat"]
      l [of "\<lambda>v. v \<noteq> Skip"]
    by (simp_all add: tally_counts_def)
  show "n_catastrophic t = length (filter (order_catastrophic tol (map_of (index_rows cr))
       (map_of (index_rows xr))) (compared_ids cr xr))"
    using tc length_filter_map_eq [OF comparison_verdicts(2) [OF assms], of "\<lambda>b. b"]
    by (simp add: tally_counts_def)
qed

lemma compared_idI: "delivered cr i = Some c \<Longrightarrow> i \<in> set (compared_ids cr xr)"
  "delivered xr i = Some c \<Longrightarrow> i \<in> set (compared_ids cr xr)"
  using delivered_Some_row [of cr i c] delivered_Some_row [of xr i c]
  by (auto simp: set_order_ids map_of_eq_None_iff)

text \<open>With no cut beyond the floor and no dropped order, every delivered order keeps its value.\<close>

lemma floor_kept:
  assumes cmp: "comparison cr xr tol cb age t" and z: "n_catastrophic t = 0" "n_dropped t = 0" and tol: "tol \<le> FLOOR_BPS"
    and c: "delivered cr i = Some c" "0 < c"
  shows "\<exists>x. delivered xr i = Some x \<and> 0 < x \<and> x * 10000 \<ge> c * 9900"
proof -
  from z comparison_counts(8,5) [OF cmp] compared_idI(1) [OF c(1), of xr]
  have "\<not> order_catastrophic tol (map_of (index_rows cr)) (map_of (index_rows xr)) i"
    "verdict_of cr xr tol cb age i \<noteq> Dropped"
    by (simp_all add: filter_empty_conv)
  moreover have cd: "out_of (map_of (index_rows cr)) i = Some c" using c(1) by (simp add: delivered_def)
  ultimately obtain x where x: "out_of (map_of (index_rows xr)) i = Some x" "0 < x"
    "\<not> (x * BPS < c * (BPS - tol) \<and> x * BPS < c * (BPS - FLOOR_BPS))"
    using c(2)
    by (auto simp: order_verdict_def order_catastrophic_def delivers_def MIN_VALID_OUTPUT_def Let_def
        split: if_splits option.splits)
  have "c * 9900 \<le> c * (BPS - tol)" using c(2) tol
    by (intro mult_left_mono) (simp_all add: BPS_def FLOOR_BPS_def)
  with x show ?thesis by (auto simp: delivered_def BPS_def FLOOR_BPS_def not_less)
qed

text \<open>Claim C1: an adopted challenger cuts no order by more than the 1% floor and drops none: on
  every order where the champion's row delivers a positive output \<open>c\<close>, the challenger delivers a
  positive output \<open>x\<close> with \<open>x * 10000 \<ge> c * 9900\<close>, for any noise band up to the floor.\<close>

theorem adopt_bounds_every_order:
  assumes ev: "evaluate_relative_adoption cr xr tol cb age fd dd = Inr v"
    and a: "adopt v" and tol: "tol \<le> FLOOR_BPS"
    and c: "delivered cr i = Some c" "0 < c"
  shows "\<exists>x. delivered xr i = Some x \<and> 0 < x \<and> x * 10000 \<ge> c * 9900"
proof (rule floor_kept [OF evaluate_Inr(1) [OF ev] _ _ tol c])
  show "n_catastrophic (v_tally v) = 0" "n_dropped (v_tally v) = 0"
    using a evaluate_Inr(2) [OF ev] by (simp_all add: adopts_def)
qed

definition sample_row :: "string \<Rightarrow> pyval \<Rightarrow> pyval \<Rightarrow> bench_row" where
  "sample_row i out gas = \<lparr>intent_id = Some i, raw_output = out, shadow_score = PNone,
     mock_simulation = PNone, row_error = PNone, gas_basis = PStr GAS_BASIS, gas_metered = gas\<rparr>"

lemmas evaluate_simps = evaluate_relative_adoption_def relative_tally_def index_rows_def order_ids_def
  step_defs raw_output_of_def parse_output_def delivers_def scoring_constants tally0_def
  adopts_def performance_adopt_def net_better_def sample_row_def gas_of_def positive_gas_def truthy_def
  bar_get_def delivered_def

theorem adopt_bounds_every_order_witness:
  "delivered [sample_row ''a'' (PInt 100) PNone] ''a'' = Some 100
   \<and> (\<exists>x. delivered [sample_row ''a'' (PInt 200) PNone] ''a'' = Some x \<and> 0 < x \<and> x * 10000 \<ge> 100 * 9900)"
proof -
  let ?ev = "evaluate_relative_adoption [sample_row ''a'' (PInt 100) PNone]
    [sample_row ''a'' (PInt 200) PNone] RELATIVE_TOL_BPS None None 0 0"
  have "\<exists>v. ?ev = Inr v \<and> adopt v" by (simp add: evaluate_simps)
  then obtain v where v: "?ev = Inr v" "adopt v" by blast
  have d: "delivered [sample_row ''a'' (PInt 100) PNone] ''a'' = Some 100" by (simp add: evaluate_simps)
  show ?thesis
    using adopt_bounds_every_order [OF v _ d] d by (auto simp: RELATIVE_TOL_BPS_def FLOOR_BPS_def)
qed

text \<open>Claim C27: an adoption by performance rests on real improvements: the orders on which the
  challenger delivers more than the champion beyond the noise band, or covers an order the champion
  does not serve without the repeat guard blocking it, outnumber the orders cut beyond the band.\<close>

theorem performance_adoption_outnumbers_regressions:
  assumes ev: "evaluate_relative_adoption cr xr tol cb age fd dd = Inr v"
    and via: "adopt_via v = Some Performance"
  shows "length (filter (\<lambda>i. \<exists>x. delivered xr i = Some x \<and> 0 < x
            \<and> (if delivers (delivered cr i) then x * 10000 > the (delivered cr i) * (10000 + tol)
               else \<not> bar_blocks tol (bar_get cb) age i x)) (compared_ids cr xr))
         > length (filter (\<lambda>i. \<exists>c x. delivered cr i = Some c \<and> delivered xr i = Some x \<and> 0 < c \<and> 0 < x
            \<and> x * 10000 < c * (10000 - tol)) (compared_ids cr xr))"
    (is "length (filter ?better ?ids) > length (filter ?worse ?ids)")
proof -
  note cmp = evaluate_Inr(1) [OF ev]
  let ?v = "verdict_of cr xr tol cb age"
  have "performance_adopt (v_tally v)"
    using via evaluate_Inr(3) [OF ev] by (auto simp: adopt_via_of_def Let_def split: if_splits)
  then have gt: "n_wins (v_tally v) + n_blind_spots (v_tally v) > n_regressions (v_tally v)"
    by (simp add: performance_adopt_def net_better_def DETHRONE_WIN_MARGIN_def)
  have w: "?v i = Regression \<longleftrightarrow> ?worse i" for i
    by (auto simp: order_verdict_def delivered_def delivers_def scoring_constants Let_def split: option.splits)
  have b: "?v i = Win \<or> ?v i = Blind_Spot_Cover \<Longrightarrow> ?better i" for i
    by (auto simp: order_verdict_def delivered_def delivers_def scoring_constants Let_def
        split: option.splits if_splits)
  have "length (filter (\<lambda>i. ?v i = Win) ?ids) + length (filter (\<lambda>i. ?v i = Blind_Spot_Cover) ?ids)
      = length (filter (\<lambda>i. ?v i = Win \<or> ?v i = Blind_Spot_Cover) ?ids)"
    by (rule length_filter_disjoint) simp
  also have "\<dots> \<le> length (filter ?better ?ids)"
    by (rule length_filter_mono) (rule b)
  finally show ?thesis using gt comparison_counts(1,2,3) [OF cmp] by (simp add: w)
qed

theorem performance_adoption_outnumbers_regressions_witness:
  "length (filter (\<lambda>i. \<exists>x. delivered [sample_row ''a'' (PInt 200) PNone] i = Some x \<and> 0 < x
      \<and> (if delivers (delivered [sample_row ''a'' (PInt 100) PNone] i)
         then x * 10000 > the (delivered [sample_row ''a'' (PInt 100) PNone] i) * (10000 + 10)
         else \<not> bar_blocks 10 (bar_get None) None i x))
      (compared_ids [sample_row ''a'' (PInt 100) PNone] [sample_row ''a'' (PInt 200) PNone])) > 0"
proof -
  let ?ev = "evaluate_relative_adoption [sample_row ''a'' (PInt 100) PNone]
    [sample_row ''a'' (PInt 200) PNone] 10 None None 0 0"
  have "\<exists>v. ?ev = Inr v \<and> adopt_via v = Some Performance"
    by (simp add: evaluate_simps adopt_via_of_def)
  then obtain v where "?ev = Inr v" "adopt_via v = Some Performance" by blast
  from performance_adoption_outnumbers_regressions [OF this] show ?thesis by linarith
qed

subsection \<open>Tie-breaks\<close>

lemma tie_verdicts:
  assumes cmp: "comparison cr xr tol cb age t"
    and "net_better t = 0" "n_regressions t = 0" "n_dropped t = 0" "i \<in> set (compared_ids cr xr)"
  shows "verdict_of cr xr tol cb age i \<in> {Matched, Blind_Spot_Repeat, Skip}"
proof -
  let ?v = "verdict_of cr xr tol cb age i"
  have "?v \<noteq> Win" "?v \<noteq> Blind_Spot_Cover" "?v \<noteq> Regression" "?v \<noteq> Dropped"
    using assms(2-5) comparison_counts(1,2,3,5) [OF cmp]
    by (simp_all add: net_better_def filter_empty_conv)
  then show ?thesis by (cases ?v) auto
qed

lemma tie_adopt_facts:
  "gas_tie_adopt t \<Longrightarrow> net_better t = 0 \<and> n_regressions t = 0"
  "factor_tie_adopt fd t \<Longrightarrow> net_better t = 0 \<and> n_regressions t = 0"
  "deadwood_tie_adopt fd dd t \<Longrightarrow> net_better t = 0 \<and> n_regressions t = 0"
  by (simp_all add: gas_tie_adopt_def factor_tie_adopt_def deadwood_tie_adopt_def scoring_constants)

lemma adopt_via_facts:
  assumes "adopt_via_of fd dd t = Some w" "w \<noteq> Performance"
  shows "n_catastrophic t = 0" "n_dropped t = 0" "net_better t = 0" "n_regressions t = 0"
    "w = Gas \<Longrightarrow> gas_tie_adopt t"
    "w = Factorization \<Longrightarrow> factor_tie_adopt fd t"
    "w = Deadwood \<Longrightarrow> deadwood_tie_adopt fd dd t"
proof -
  have a: "adopts fd dd t" and w: "\<not> performance_adopt t"
    "w = Gas \<and> gas_tie_adopt t \<or> w = Factorization \<and> factor_tie_adopt fd t
     \<or> w = Deadwood \<and> \<not> gas_tie_adopt t \<and> \<not> factor_tie_adopt fd t"
    using assms by (simp_all add: adopt_via_of_def Let_def split: if_splits)
  from a show "n_catastrophic t = 0" "n_dropped t = 0" by (simp_all add: adopts_def)
  have d: "w = Deadwood \<Longrightarrow> deadwood_tie_adopt fd dd t" using a w by (auto simp: adopts_def)
  with w show "w = Gas \<Longrightarrow> gas_tie_adopt t" "w = Factorization \<Longrightarrow> factor_tie_adopt fd t"
    "w = Deadwood \<Longrightarrow> deadwood_tie_adopt fd dd t" by auto
  from w(2) d tie_adopt_facts show "net_better t = 0" "n_regressions t = 0" by blast+
qed

text \<open>Claim C28: a tie-break adopts only on a tie and in the ladder's order. Unless the adoption is
  by performance, every compared order is matched, a repeat or served by neither side, so the
  champion's delivery on every order is met within the band; factorization needs a node delta of at
  least 100, and dead code needs a delta of at least 2000 while the factor race itself is tied.\<close>

theorem tie_break_only_on_tie:
  assumes ev: "evaluate_relative_adoption cr xr tol cb age fd dd = Inr v"
    and via: "adopt_via v = Some w" "w \<noteq> Performance"
  shows "(\<forall>i \<in> set (compared_ids cr xr). verdict_of cr xr tol cb age i \<in> {Matched, Blind_Spot_Repeat, Skip})
    \<and> (w = Factorization \<longrightarrow> fd \<ge> 100)
    \<and> (w = Deadwood \<longrightarrow> dd \<ge> 2000 \<and> \<bar>fd\<bar> < 100)
    \<and> (w \<noteq> Factorization \<longrightarrow> (\<exists>i \<in> set (compared_ids cr xr). verdict_of cr xr tol cb age i = Matched))"
proof -
  note cmp = evaluate_Inr(1) [OF ev]
  note f = adopt_via_facts [OF via(1) [unfolded evaluate_Inr(3) [OF ev]] via(2)]
  have m: "n_matched (v_tally v) > 0 \<Longrightarrow>
      \<exists>i \<in> set (compared_ids cr xr). verdict_of cr xr tol cb age i = Matched"
    using comparison_counts(4) [OF cmp] by (auto simp: filter_empty_conv)
  have "w = Gas \<or> w = Factorization \<or> w = Deadwood" using via(2) by (cases w) auto
  with f m tie_verdicts [OF cmp f(3,4,2)] show ?thesis
    by (auto simp: gas_tie_adopt_def factor_tie_adopt_def deadwood_tie_adopt_def factor_region_tied_def
        scoring_constants)
qed

theorem tie_break_only_on_tie_witness:
  "\<exists>v. evaluate_relative_adoption [sample_row ''a'' (PInt 100) (PInt 1000)]
     [sample_row ''a'' (PInt 100) (PInt 900)] 10 None None 0 0 = Inr v \<and> adopt_via v = Some Gas
   \<and> (\<exists>i \<in> set (compared_ids [sample_row ''a'' (PInt 100) (PInt 1000)] [sample_row ''a'' (PInt 100) (PInt 900)]).
        verdict_of [sample_row ''a'' (PInt 100) (PInt 1000)] [sample_row ''a'' (PInt 100) (PInt 900)]
          10 None None i = Matched)"
proof -
  let ?ev = "evaluate_relative_adoption [sample_row ''a'' (PInt 100) (PInt 1000)]
    [sample_row ''a'' (PInt 100) (PInt 900)] 10 None None 0 0"
  have "\<exists>v. ?ev = Inr v \<and> adopt_via v = Some Gas"
    by (simp add: evaluate_simps adopt_via_of_def gas_tie_adopt_def gas_measured_full_def)
  then obtain v where v: "?ev = Inr v" "adopt_via v = Some Gas" by blast
  with tie_break_only_on_tie [OF v] show ?thesis by auto
qed

text \<open>Claim C29: a gas adoption never sells output for gas. Every order the champion delivers on is
  matched with gas measured on both sides, the challenger delivers at least 99.98% of the champion's
  output and burns at most 2% more gas on it, and over all matched orders its total gas is more
  than 2% lower but not less than half.\<close>

theorem gas_adoption_pareto:
  assumes ev: "evaluate_relative_adoption cr xr tol cb age fd dd = Inr v"
    and via: "adopt_via v = Some Gas"
    and c: "delivered cr i = Some c" "0 < c"
  shows "(\<exists>x g h. delivered xr i = Some x \<and> x * 10000 \<ge> c * 9998
      \<and> gas_of (map_of (index_rows cr) i) = Inr (Some g) \<and> gas_of (map_of (index_rows xr) i) = Inr (Some h)
      \<and> h * 10000 \<le> g * 10200)
    \<and> chal_gas_total (v_tally v) * 10000 < champ_gas_total (v_tally v) * 9800
    \<and> champ_gas_total (v_tally v) \<le> 2 * chal_gas_total (v_tally v)"
proof -
  note cmp = evaluate_Inr(1) [OF ev]
  let ?t = "v_tally v"
  note f = adopt_via_facts [OF via [unfolded evaluate_Inr(3) [OF ev]]]
  have g: "gas_tie_adopt ?t" "n_regressions ?t = 0" "n_dropped ?t = 0" "net_better ?t = 0"
    using f by auto
  have i: "i \<in> set (compared_ids cr xr)" by (rule compared_idI(1) [OF c(1)])
  then obtain r where r: "r \<in> set (per_order ?t)"
    "row_fits tol (bar_get cb) age (map_of (index_rows cr)) (map_of (index_rows xr)) i r"
    using in_comparison [OF cmp] delivered_Some_row [OF c(1)] by blast
  have "verdict_of cr xr tol cb age i \<in> {Matched, Blind_Spot_Repeat, Skip}"
    using tie_verdicts [OF cmp] g i by blast
  then have m: "verdict_of cr xr tol cb age i = Matched" and x: "\<exists>x. delivered xr i = Some x"
    using c by (auto simp: order_verdict_def delivered_def delivers_def MIN_VALID_OUTPUT_def Let_def
        split: if_splits option.splits)
  then have rm: "po_verdict r = Matched" "po_intent r = i"
    and go: "gas_of (map_of (index_rows cr) i) = Inr (po_champ_gas r)"
      "gas_of (map_of (index_rows xr) i) = Inr (po_chal_gas r)"
    using r(2) by (auto simp: row_fits_def)
  have tg: "tally_gas (map_of (index_rows cr)) (map_of (index_rows xr)) ?t"
    using cmp by (simp add: comparison_def Let_def)
  have "gas_pair r \<noteq> None"
    using tg g(1) rm r(1)
    by (auto simp: tally_gas_def gas_tie_adopt_def gas_measured_full_def GAS_MARGIN_BPS_def filter_empty_conv)
  then obtain a b where ab: "gas_pair r = Some (a, b)" "po_champ_gas r = Some a" "po_chal_gas r = Some b"
    by (auto simp: gas_pair_def split: option.splits)
  have "b * 10000 \<le> a * 10200"
    using tg g(1) r(1) ab
    by (fastforce simp: tally_gas_def gas_tie_adopt_def scoring_constants filter_empty_conv)
  moreover have "the (delivered xr i) * 10000 \<ge> c * 9998"
    using tg g(1) r(1) ab rm c(1)
    by (fastforce simp: tally_gas_def gas_tie_adopt_def scoring_constants delivered_def)
  ultimately show ?thesis
    using x go ab g(1) by (auto simp: gas_tie_adopt_def scoring_constants)
qed

theorem gas_adoption_pareto_witness:
  "\<exists>x g h. delivered [sample_row ''a'' (PInt 100) (PInt 900)] ''a'' = Some x \<and> x * 10000 \<ge> 100 * 9998
     \<and> gas_of (map_of (index_rows [sample_row ''a'' (PInt 100) (PInt 1000)]) ''a'') = Inr (Some g)
     \<and> gas_of (map_of (index_rows [sample_row ''a'' (PInt 100) (PInt 900)]) ''a'') = Inr (Some h)
     \<and> h * 10000 \<le> g * 10200"
proof -
  let ?ev = "evaluate_relative_adoption [sample_row ''a'' (PInt 100) (PInt 1000)]
    [sample_row ''a'' (PInt 100) (PInt 900)] 10 None None 0 0"
  have "\<exists>v. ?ev = Inr v \<and> adopt_via v = Some Gas"
    by (simp add: evaluate_simps adopt_via_of_def gas_tie_adopt_def gas_measured_full_def)
  then obtain v where v: "?ev = Inr v" "adopt_via v = Some Gas" by blast
  have "delivered [sample_row ''a'' (PInt 100) (PInt 1000)] ''a'' = Some 100" by (simp add: evaluate_simps)
  from gas_adoption_pareto [OF v this] show ?thesis by simp
qed

text \<open>Property: the factorization tie-break also fires when no order matched at all. A comparison
  whose only order is a blind-spot repeat has a compared order, no win and no regression, so a
  challenger with a node delta of 100 is adopted with zero matched orders, although the clause is
  documented as firing only on an all-matched tie.\<close>

theorem factor_tie_without_matched_order:
  "\<exists>v. evaluate_relative_adoption [] [sample_row ''a'' (PInt 7) PNone] RELATIVE_TOL_BPS
       (Some [(''a'', PStr ''7'')]) (Some 60) 100 0 = Inr v
     \<and> adopt v \<and> adopt_via v = Some Factorization \<and> n_matched (v_tally v) = 0
     \<and> n_blind_spot_repeats (v_tally v) = 1"
  by (simp add: evaluate_simps adopt_via_of_def gas_tie_adopt_def gas_tie_worse_def gas_measured_full_def
      factor_tie_adopt_def py_int_def parse_nat_def strip_def is_space_def is_digit_def digit_val_def)

subsection \<open>Determinism, totality, self-comparison\<close>

lemma index_rows_Nil [simp]: "index_rows [] = []"
  by (simp add: index_rows_def)

lemma map_of_index_rows_snoc: "map_of (index_rows (rs @ [r])) i =
    (if intent_id r = Some i then Some r else map_of (index_rows rs) i)"
  by (simp add: index_rows_snoc update_conv' split: option.split)

lemma map_of_index_rows_distinct:
  assumes "distinct (map intent_id rs)"
  shows "map_of (index_rows rs) i = Some r \<longleftrightarrow> r \<in> set rs \<and> intent_id r = Some i"
  using assms
proof (induction rs rule: rev_induct)
  case Nil
  then show ?case by (simp add: index_rows_def)
next
  case (snoc y ys)
  then show ?case by (auto simp: map_of_index_rows_snoc image_iff)
qed

lemma index_rows_perm:
  assumes "mset rs = mset rs'" "distinct (map intent_id rs)"
  shows "map_of (index_rows rs) = map_of (index_rows rs')"
proof
  fix i
  have d: "distinct (map intent_id rs')"
    using assms by (metis mset_map mset_eq_imp_distinct_iff)
  have "map_of (index_rows rs) i = Some r \<longleftrightarrow> map_of (index_rows rs') i = Some r" for r
    using mset_eq_setD [OF assms(1)]
    by (simp add: map_of_index_rows_distinct [OF assms(2)] map_of_index_rows_distinct [OF d])
  then show "map_of (index_rows rs) i = map_of (index_rows rs') i"
    by (metis option.exhaust)
qed

lemma order_ids_cong:
  assumes "map_of c = map_of c'" "map_of x = map_of x'"
  shows "order_ids c x = order_ids c' x'"
proof -
  have "fst ` set c = fst ` set c'" "fst ` set x = fst ` set x'"
    using assms by (metis dom_map_of_conv_image_fst)+
  then show ?thesis unfolding order_ids_def by (intro sort_set_eq) auto
qed

text \<open>Claim C30: the verdict does not depend on the order in which the benchmark rows arrive. Two
  hosts holding the same champion and challenger rows in different orders, one row per order id,
  compute the same result, counters, rows and reason included.\<close>

theorem verdict_independent_of_row_order:
  assumes "mset cr = mset cr'" "distinct (map intent_id cr)"
    and "mset xr = mset xr'" "distinct (map intent_id xr)"
  shows "evaluate_relative_adoption cr xr tol cb age fd dd = evaluate_relative_adoption cr' xr' tol cb age fd dd"
proof -
  have e: "map_of (index_rows cr) = map_of (index_rows cr')" "map_of (index_rows xr) = map_of (index_rows xr')"
    using index_rows_perm [OF assms(1,2)] index_rows_perm [OF assms(3,4)] by blast+
  show ?thesis
    by (simp add: evaluate_relative_adoption_def relative_tally_def Let_def e order_ids_cong [OF e])
qed

theorem verdict_independent_of_row_order_witness:
  "evaluate_relative_adoption [sample_row ''a'' (PInt 1) PNone, sample_row ''b'' (PInt 2) PNone] [] 10 None None 0 0
   = evaluate_relative_adoption [sample_row ''b'' (PInt 2) PNone, sample_row ''a'' (PInt 1) PNone] [] 10 None None 0 0"
  by (rule verdict_independent_of_row_order) (simp_all add: sample_row_def add_mset_commute)

lemma run_orders_total:
  "(\<And>i t. i \<in> set is \<Longrightarrow> \<exists>t'. f i t = Inr t') \<Longrightarrow> \<exists>t'. run_orders f is t = Inr t'"
proof (induction "is" arbitrary: t)
  case (Cons i "is")
  obtain u where "f i t = Inr u" using Cons.prems [of i t] by auto
  moreover obtain t' where "run_orders f is u = Inr t'" using Cons.IH [of u] Cons.prems by auto
  ultimately show ?case by simp
qed simp

lemma gas_of_total:
  assumes "\<And>r. row = Some r \<Longrightarrow> gas_metered r \<noteq> PInf"
  shows "\<exists>g. gas_of row = Inr g"
  using assms by (cases row) (auto simp: gas_of_def split: pyval.split)

lemma index_rows_in: "map_of (index_rows rs) i = Some r \<Longrightarrow> r \<in> set rs"
  by (induction rs rule: rev_induct) (auto simp: map_of_index_rows_snoc index_rows_Nil split: if_splits)

text \<open>Property: the rule always decides: on any rows in which no gas reading is an infinite float,
  malformed outputs, missing fields and gas readings of any other type included, the evaluation
  returns a verdict and raises nothing.\<close>

theorem evaluate_total:
  assumes "\<forall>r \<in> set cr \<union> set xr. gas_metered r \<noteq> PInf"
  shows "\<exists>v. evaluate_relative_adoption cr xr tol cb age fd dd = Inr v"
proof -
  let ?c = "map_of (index_rows cr)" and ?x = "map_of (index_rows xr)"
  have g: "\<exists>g. gas_of (?c i) = Inr g" "\<exists>g. gas_of (?x i) = Inr g" for i
    using assms by (auto intro!: gas_of_total dest: index_rows_in)
  have "\<exists>t'. order_step tol (bar_get cb) age ?c ?x i t = Inr t'" for i t
    using g [of i]
    by (auto simp: order_step_def both_step_def matched_step_def Let_def GAS_MARGIN_BPS_def split: option.split)
  then have "\<exists>t. relative_tally cr xr tol cb age = Inr t"
    unfolding relative_tally_def Let_def by (intro run_orders_total)
  then show ?thesis by (auto simp: evaluate_relative_adoption_def)
qed

theorem evaluate_total_witness:
  "\<exists>v. evaluate_relative_adoption [sample_row ''a'' (PStr ''garbage'') (PFloat 2)]
     [sample_row ''a'' (PObj ''[]'') PNaN] 10 None None 0 0 = Inr v"
  by (rule evaluate_total) (simp add: sample_row_def)

text \<open>Property: an infinite gas reading on a matched order is not treated as unmeasured: the
  conversion raises \<open>OverflowError\<close>, which the gas reader does not catch, and the whole evaluation
  raises.\<close>

theorem infinite_gas_raises:
  "evaluate_relative_adoption [sample_row ''a'' (PInt 100) PInf] [sample_row ''a'' (PInt 100) (PInt 1)]
     RELATIVE_TOL_BPS None None 0 0 = Inl OverflowError"
  by (simp add: evaluate_simps)

lemma comparison_row:
  assumes "comparison cr xr tol cb age t" "r \<in> set (per_order t)"
  shows "\<exists>i. row_fits tol (bar_get cb) age (map_of (index_rows cr)) (map_of (index_rows xr)) i r"
  using assms unfolding comparison_def Let_def by (metis in_set_conv_nth list_all2_conv_all_nth)

lemma self_verdict:
  assumes "0 \<le> tol"
  shows "verdict_of rs rs tol cb age i \<in> {Matched, Skip}"
proof -
  have "c > 0 \<Longrightarrow> \<not> c * BPS < c * (BPS - tol) \<and> \<not> c * BPS > c * (BPS + tol)" for c :: int
    using assms by (simp add: mult_le_cancel_left)
  then show ?thesis
    by (auto simp: order_verdict_def delivers_def MIN_VALID_OUTPUT_def Let_def split: option.splits)
qed

text \<open>Property: a solver never dethrones its own copy. Comparing rows with themselves, with both
  structural deltas below their margins, is never an adoption.\<close>

theorem self_comparison_never_adopts:
  assumes ev: "evaluate_relative_adoption rs rs tol cb age fd dd = Inr v"
    and "0 \<le> tol" "fd < 100" "dd < 2000"
  shows "\<not> adopt v"
proof
  assume a: "adopt v"
  let ?t = "v_tally v"
  note cmp = evaluate_Inr(1) [OF ev]
  have "verdict_of rs rs tol cb age i \<noteq> Win" "verdict_of rs rs tol cb age i \<noteq> Blind_Spot_Cover" for i
    using self_verdict [OF \<open>0 \<le> tol\<close>, of cb age rs i] by auto
  then have "net_better ?t = 0"
    using comparison_counts(1,3) [OF cmp] by (simp add: net_better_def)
  then have np: "\<not> performance_adopt ?t" by (simp add: performance_adopt_def scoring_constants)
  have nf: "\<not> factor_tie_adopt fd ?t" "\<not> deadwood_tie_adopt fd dd ?t"
    using assms by (simp_all add: factor_tie_adopt_def deadwood_tie_adopt_def scoring_constants)
  have tg: "tally_gas (map_of (index_rows rs)) (map_of (index_rows rs)) ?t"
    using cmp by (simp add: comparison_def Let_def)
  have gp: "po_champ_gas r = po_chal_gas r" if r: "r \<in> set (per_order ?t)" "gas_pair r \<noteq> None" for r
  proof -
    have "po_verdict r = Matched" using tg r by (simp add: tally_gas_def)
    moreover obtain i where
      "row_fits tol (bar_get cb) age (map_of (index_rows rs)) (map_of (index_rows rs)) i r"
      using comparison_row [OF cmp r(1)] by blast
    ultimately show ?thesis by (auto simp: row_fits_def)
  qed
  have "gas_sum fst (per_order ?t) = gas_sum snd (per_order ?t)"
    unfolding gas_sum_def by (intro arg_cong [where f = sum_list] map_cong refl)
      (auto simp: gas_pair_def split: option.splits dest!: gp)
  then have eq: "champ_gas_total ?t = chal_gas_total ?t" using tg by (simp add: tally_gas_def)
  have "\<not> gas_tie_adopt ?t"
    using eq by (auto simp: gas_tie_adopt_def scoring_constants)
  with np nf a show False using evaluate_Inr(2) [OF ev] by (simp add: adopts_def)
qed

theorem self_comparison_never_adopts_witness:
  "\<exists>v. evaluate_relative_adoption [sample_row ''a'' (PInt 100) (PInt 5)] [sample_row ''a'' (PInt 100) (PInt 5)]
     10 None None 99 1999 = Inr v \<and> \<not> adopt v"
proof -
  let ?rs = "[sample_row ''a'' (PInt 100) (PInt 5)]"
  obtain v where "evaluate_relative_adoption ?rs ?rs 10 None None 99 1999 = Inr v"
    using evaluate_relative_adoption_def by (auto simp: evaluate_simps)
  with self_comparison_never_adopts [OF this] show ?thesis by auto
qed

subsection \<open>Reported counts and the repeat bar\<close>

lemma catastrophic_le_regressions: "comparison cr xr tol cb age t \<Longrightarrow> n_catastrophic t \<le> n_regressions t"
  using comparison_counts(2,8) [of cr xr tol cb age t]
  by (auto intro!: length_filter_mono simp: order_catastrophic_def order_verdict_def Let_def)

lemma verdict_partition:
  "length (filter (\<lambda>i. f i \<noteq> Skip) is) =
     length (filter (\<lambda>i. f i = Win) is) + length (filter (\<lambda>i. f i = Blind_Spot_Cover) is)
   + length (filter (\<lambda>i. f i = Regression) is) + length (filter (\<lambda>i. f i = Dropped) is)
   + length (filter (\<lambda>i. f i = Matched) is) + length (filter (\<lambda>i. f i = Blind_Spot_Repeat) is)"
proof (induction "is")
  case (Cons i "is")
  then show ?case by (cases "f i") auto
qed simp

text \<open>Property: the reported counts partition the comparison: every order that at least one side
  delivers on is counted exactly once as better, worse or matched, worse splits into the tolerated
  and the lost orders with no negative part, and the badge says dethrone exactly when the rule adopts.\<close>

theorem relative_counts_partition:
  assumes "relative_counts cr xr tol cb age fd dd = Inr k"
  shows "int (c_worse k) = c_tolerated k + int (c_lost k) \<and> 0 \<le> c_tolerated k
    \<and> c_compared k = c_better k + c_worse k + c_matched k
    \<and> c_compared k = length (filter (\<lambda>i. delivers (delivered cr i) \<or> delivers (delivered xr i)) (compared_ids cr xr))
    \<and> (c_verdict k = ''dethrone'' \<longleftrightarrow> (\<exists>v. evaluate_relative_adoption cr xr tol cb age fd dd = Inr v \<and> adopt v))"
proof -
  obtain v where ev: "evaluate_relative_adoption cr xr tol cb age fd dd = Inr v"
    and k: "k = counts_from_verdict v"
    using assms unfolding relative_counts_def
    by (cases "evaluate_relative_adoption cr xr tol cb age fd dd") auto
  note cmp = evaluate_Inr(1) [OF ev]
  have skip: "verdict_of cr xr tol cb age i \<noteq> Skip \<longleftrightarrow> delivers (delivered cr i) \<or> delivers (delivered xr i)" for i
    by (auto simp: order_verdict_def delivered_def Let_def)
  have "c_compared k = scenarios_compared (v_tally v)"
    using comparison_counts [OF cmp] verdict_partition [of "verdict_of cr xr tol cb age" "compared_ids cr xr"]
    by (simp add: k counts_from_verdict_def Let_def)
  then have "c_compared k = length (filter (\<lambda>i. delivers (delivered cr i) \<or> delivers (delivered xr i)) (compared_ids cr xr))"
    using comparison_counts(7) [OF cmp] by (simp add: skip)
  moreover have "0 \<le> c_tolerated k"
    using catastrophic_le_regressions [OF cmp] by (simp add: k counts_from_verdict_def Let_def)
  moreover have "c_verdict k = ''dethrone'' \<longleftrightarrow> adopt v"
    by (simp add: k counts_from_verdict_def Let_def)
  ultimately show ?thesis using ev by (auto simp: k counts_from_verdict_def Let_def)
qed

theorem relative_counts_partition_witness:
  "\<exists>k. relative_counts [sample_row ''a'' (PInt 100) PNone, sample_row ''b'' (PInt 5) PNone]
       [sample_row ''a'' (PInt 200) PNone] 10 None None 0 0 = Inr k
     \<and> int (c_worse k) = c_tolerated k + int (c_lost k)"
proof -
  let ?cr = "[sample_row ''a'' (PInt 100) PNone, sample_row ''b'' (PInt 5) PNone]"
  let ?xr = "[sample_row ''a'' (PInt 200) PNone]"
  obtain k where k: "relative_counts ?cr ?xr 10 None None 0 0 = Inr k"
    by (auto simp: relative_counts_def evaluate_simps)
  with relative_counts_partition [OF k] show ?thesis by blast
qed

lemma blind_spot_bar_snoc: "blind_spot_bar_from_rows (rs @ [r]) =
    (case (intent_id r, parse_output (raw_output_of (Some r))) of
       (Some i, Some v) \<Rightarrow> if 0 < v then AList.update i (show_int v) (blind_spot_bar_from_rows rs)
                          else blind_spot_bar_from_rows rs
     | _ \<Rightarrow> blind_spot_bar_from_rows rs)"
  by (simp add: blind_spot_bar_from_rows_def MIN_VALID_OUTPUT_def split: option.split)

lemma blind_spot_bar_Nil [simp]: "blind_spot_bar_from_rows [] = []"
  by (simp add: blind_spot_bar_from_rows_def)

lemma strip_show_nat: "strip (show_nat n) = show_nat n"
  using show_nat_ends by (intro strip_id) auto

lemma parse_output_show_int: "0 \<le> v \<Longrightarrow> parse_output (PStr (show_int v)) = Some v"
  using py_int_show_int [of v] by (simp add: parse_output_def show_int_def strip_show_nat)

lemma blind_spot_bar_covers:
  "r \<in> set rows \<Longrightarrow> intent_id r = Some i \<Longrightarrow> has_value (raw_output_of (Some r)) \<Longrightarrow>
   map_of (blind_spot_bar_from_rows rows) i \<noteq> None"
proof (induction rows rule: rev_induct)
  case (snoc y ys)
  then show ?case
    by (auto simp: blind_spot_bar_snoc update_conv' has_value_def delivers_def MIN_VALID_OUTPUT_def
        split: option.splits)
qed simp

lemma blind_spot_bar_sound:
  "map_of (blind_spot_bar_from_rows rows) i = Some s \<Longrightarrow>
   \<exists>r \<in> set rows. intent_id r = Some i \<and> (\<exists>b > 0. parse_output (raw_output_of (Some r)) = Some b \<and> s = show_int b)"
proof (induction rows rule: rev_induct)
  case (snoc y ys)
  then show ?case
    by (auto simp: blind_spot_bar_snoc update_conv' split: option.splits if_splits)
qed simp

text \<open>Property: a photocopied cover earns nothing. When the bar is the snapshot of the incumbent's
  rows at adoption and is at most 24 hours old, a challenger that covers an order the incumbent no
  longer serves with no more than what each of the incumbent's rows delivered on it is graded a
  repeat, which counts neither as a win nor as a regression.\<close>

theorem photocopied_cover_is_repeat:
  assumes old: "r \<in> set old" "intent_id r = Some i" "has_value (raw_output_of (Some r))"
    and le: "\<forall>r \<in> set old. intent_id r = Some i \<longrightarrow> (\<forall>b. parse_output (raw_output_of (Some r)) = Some b \<and> 0 < b \<longrightarrow> x \<le> b)"
    and now: "\<not> delivers (delivered cr i)" "delivered xr i = Some x" "0 < x" "0 \<le> tol" "a \<le> 86400"
  shows "verdict_of cr xr tol (Some (map (\<lambda>(k, s). (k, PStr s)) (blind_spot_bar_from_rows old))) (Some a) i
    = Blind_Spot_Repeat"
proof -
  let ?bar = "Some (map (\<lambda>(k, s). (k, PStr s)) (blind_spot_bar_from_rows old))"
  obtain s where s: "map_of (blind_spot_bar_from_rows old) i = Some s"
    using blind_spot_bar_covers [OF old] by blast
  obtain r' b where b: "r' \<in> set old" "intent_id r' = Some i" "0 < b" "s = show_int b"
    "parse_output (raw_output_of (Some r')) = Some b"
    using blind_spot_bar_sound [OF s] by blast
  have "bar_get ?bar i = PStr s" using s by (simp add: bar_get_def map_of_map)
  then have p: "parse_output (bar_get ?bar i) = Some b" using b parse_output_show_int by simp
  have "x \<le> b" using le b by blast
  then have "x * BPS \<le> b * BPS" by (simp add: BPS_def)
  also have "\<dots> \<le> b * (BPS + tol)" using b now(4) by (intro mult_left_mono) auto
  finally have "bar_blocks tol (bar_get ?bar) (Some a) i x"
    unfolding bar_blocks_def using p b now(5) by (auto simp: BLIND_SPOT_BAR_TTL_S_def)
  with now show ?thesis
    by (simp add: order_verdict_def delivered_def delivers_def MIN_VALID_OUTPUT_def Let_def)
qed

theorem photocopied_cover_is_repeat_witness:
  "verdict_of [] [sample_row ''a'' (PInt 7) PNone] 10
     (Some (map (\<lambda>(k, s). (k, PStr s)) (blind_spot_bar_from_rows [sample_row ''a'' (PInt 7) PNone]))) (Some 60) ''a''
   = Blind_Spot_Repeat"
  by (rule photocopied_cover_is_repeat [where r = "sample_row ''a'' (PInt 7) PNone" and x = 7])
    (auto simp: evaluate_simps has_value_def)

end
