(* ===== verification/Veto_Bench.thy ===== *)
theory Veto_Bench
  imports Veto_Wire Relative_Scoring
begin

text \<open>
  The benchmark side of the distributed veto (\<open>veto_wire.py\<close>): building the assignments, the follower's slice
  benchmark and the evidence both sides read off the relative verdict.

  A corpus order is the record \<open>corpus_order\<close> of the fields these functions read. The benchmark of an image on
  orders at a fork block is the argument \<open>bench\<close>, whose exceptions are the constructors of
  \<open>bench_outcome\<close>; the order store, the image pull, SHA-256 and the text of floats are arguments too.
\<close>

section \<open>Corpus orders\<close>

record corpus_order =
  co_order_id :: string
  co_app_id :: string
  co_chain_id :: int
  co_intent_function :: string
  co_params :: "(string \<times> json) list"

definition order_replay_hash :: "(string \<Rightarrow> string) \<Rightarrow> (real \<Rightarrow> string) \<Rightarrow> corpus_order \<Rightarrow> string" where
  "order_replay_hash sha256 flt ord = sha256 (dumps flt (JObj
     [(''order_id'', JStr (co_order_id ord)), (''app_id'', JStr (co_app_id ord)), (''chain_id'', JInt (co_chain_id ord)),
      (''intent_function'', JStr (co_intent_function ord)), (''params'', JObj (sort_key fst (co_params ord)))]))"

definition order_label :: "corpus_order \<Rightarrow> string" where
  "order_label ord = co_app_id ord @ '':'' @ (if take 2 (co_order_id ord) = ''q_'' then ''quote'' else ''hist'') @ '':'' @ co_order_id ord"

section \<open>Evidence\<close>

definition is_catastrophic :: "string option \<Rightarrow> string option \<Rightarrow> bool" where
  "is_catastrophic champ chal = (case (champ, chal) of
     (Some c, Some x) \<Rightarrow> (case (py_int c, py_int x) of
        (Some champ_i, Some chal_i) \<Rightarrow> champ_i > 0 \<and> chal_i * 10000 < champ_i * (10000 - FLOOR_BPS)
      | _ \<Rightarrow> False)
   | _ \<Rightarrow> False)"

record evidence =
  ev_violations :: "slice_violation list"
  ev_counts :: "(string \<times> int) list"
  ev_calibration :: "(string \<times> string) list list"
  ev_matched :: nat

definition bump :: "string \<Rightarrow> evidence \<Rightarrow> evidence" where
  "bump k ev = ev\<lparr>ev_counts := AList.update k (the (map_of (ev_counts ev) k) + 1) (ev_counts ev)\<rparr>"

definition no_evidence :: evidence where
  "no_evidence = \<lparr>ev_violations = [], ev_counts = map (\<lambda>k. (k, 0)) [''wins'', ''regressions'', ''catastrophic'',
     ''dropped'', ''blind_spot_covers'', ''matched'', ''compared'', ''bench_error''], ev_calibration = [], ev_matched = 0\<rparr>"

definition claim :: "string \<Rightarrow> string \<Rightarrow> string option \<Rightarrow> string option \<Rightarrow> slice_violation" where
  "claim oid kind champ_raw chal_raw = \<lparr>sv_order_id = oid, sv_kind = kind, sv_champ_raw = or_empty champ_raw,
     sv_chal_raw = or_empty chal_raw\<rparr>"

definition add_violation :: "slice_violation \<Rightarrow> evidence \<Rightarrow> evidence" where
  "add_violation v ev = ev\<lparr>ev_violations := ev_violations ev @ [v]\<rparr>"

definition labels :: "corpus_order list \<Rightarrow> corpus_order list \<Rightarrow> (string \<times> string) list" where
  "labels slice_orders calib_orders =
     foldl (\<lambda>d ord. AList.update (order_label ord) (co_order_id ord) d) [] (slice_orders @ calib_orders)"

definition chal_errored :: "bench_row list \<Rightarrow> (string \<times> bool) list" where
  "chal_errored chal_results = dict_of (map (\<lambda>r. (case intent_id r of None \<Rightarrow> ''None'' | Some i \<Rightarrow> i, truthy (row_error r))) chal_results)"

definition evidence_row ::
  "(string \<times> string) list \<Rightarrow> string set \<Rightarrow> (string \<times> bool) list \<Rightarrow> evidence \<Rightarrow> order_row \<Rightarrow> evidence" where
  "evidence_row label_to_oid calib_ids errored ev row =
     (case map_of label_to_oid (po_intent row) of
        None \<Rightarrow> ev
      | Some oid \<Rightarrow>
         let ev = ev\<lparr>ev_matched := Suc (ev_matched ev)\<rparr>; champ_raw = po_champ row; chal_raw = po_chal row in
         if oid \<in> calib_ids then ev\<lparr>ev_calibration := ev_calibration ev @
           [[(''order_id'', oid), (''champ_raw'', or_empty champ_raw), (''chal_raw'', or_empty chal_raw)]]\<rparr>
         else
           let ev = (if po_verdict row \<noteq> Skip then bump ''compared'' ev else ev) in
           case po_verdict row of
             Win \<Rightarrow> bump ''wins'' ev
           | Blind_Spot_Cover \<Rightarrow> bump ''blind_spot_covers'' ev
           | Matched \<Rightarrow> bump ''matched'' ev
           | Dropped \<Rightarrow>
               if map_of errored (po_intent row) = Some True then bump ''bench_error'' ev
               else add_violation (claim oid VIOLATION_DROPPED champ_raw chal_raw) (bump ''dropped'' ev)
           | Regression \<Rightarrow>
               let ev = bump ''regressions'' ev in
               if is_catastrophic champ_raw chal_raw
               then add_violation (claim oid VIOLATION_CATASTROPHIC champ_raw chal_raw) (bump ''catastrophic'' ev)
               else ev
           | _ \<Rightarrow> ev)"

definition extract_slice_evidence ::
  "adoption \<Rightarrow> corpus_order list \<Rightarrow> corpus_order list \<Rightarrow> bench_row list \<Rightarrow> evidence" where
  "extract_slice_evidence v slice_orders calib_orders chal_results =
     foldl (evidence_row (labels slice_orders calib_orders) (co_order_id ` set calib_orders) (chal_errored chal_results))
       no_evidence (per_order (v_tally v))"

section \<open>The follower's slice benchmark\<close>

datatype bench_outcome =
    Rows "bench_row list"
  | Order_Unavailable string string  \<comment> \<open>reason and order id\<close>
  | No_Real_Sim
  | Bench_Error string

type_synonym bench_fun = "string \<Rightarrow> int \<Rightarrow> corpus_order list \<Rightarrow> bench_outcome"

definition abstain :: "string \<Rightarrow> (string \<Rightarrow> string) \<Rightarrow> slice_assignment \<Rightarrow> string \<Rightarrow> veto_response" where
  "abstain status sha256 a why = \<lparr>vr_assignment_id = assignment_id sha256 a, vr_round_id = sa_round_id a,
     vr_validator_evm = sa_validator_evm a, vr_status = status, vr_verdict = None, vr_violations = [],
     vr_counts = [], vr_calibration = [], vr_error = Some why\<rparr>"

abbreviation refused :: "(string \<Rightarrow> string) \<Rightarrow> slice_assignment \<Rightarrow> string \<Rightarrow> veto_response" where
  "refused \<equiv> abstain STATUS_REFUSED"

abbreviation failed :: "(string \<Rightarrow> string) \<Rightarrow> slice_assignment \<Rightarrow> string \<Rightarrow> veto_response" where
  "failed \<equiv> abstain STATUS_FAILED"

text \<open>Rebuilding the order set: the reason of a refusal, or the slice and the calibration orders.\<close>

fun collect_orders ::
  "(string \<Rightarrow> corpus_order option) \<Rightarrow> (corpus_order \<Rightarrow> string) \<Rightarrow> slice_assignment \<Rightarrow> string list
   \<Rightarrow> corpus_order list \<Rightarrow> corpus_order list \<Rightarrow> string + corpus_order list \<times> corpus_order list" where
  "collect_orders lookup replay a [] slice calib = Inr (slice, calib)"
| "collect_orders lookup replay a (oid # oids) slice calib =
     (case lookup oid of
        None \<Rightarrow> Inl (''corpus_missing:'' @ oid)
      | Some rec \<Rightarrow>
         if Some (replay rec) \<noteq> map_of (sa_order_hashes a) oid then Inl (''corpus_mismatch:'' @ oid)
         else if oid \<in> set (sa_calibration_order_ids a) then collect_orders lookup replay a oids slice (calib @ [rec])
         else collect_orders lookup replay a oids (slice @ [rec]) calib)"

text \<open>The text of a list of strings, as \<open>repr\<close> gives it for chain ids.\<close>

definition repr_ids :: "string list \<Rightarrow> string" where
  "repr_ids xs = ''['' @ py_join '', '' (map (\<lambda>x. [CHR 0x27] @ x @ [CHR 0x27]) xs) @ '']''"

definition bench_pair ::
  "bench_fun \<Rightarrow> string \<Rightarrow> string \<Rightarrow> int \<Rightarrow> corpus_order list \<Rightarrow> bench_outcome + bench_row list \<times> bench_row list" where
  "bench_pair bench incumbent_ref candidate_ref pin orders = (case bench incumbent_ref pin orders of
       Rows champ \<Rightarrow> (case bench candidate_ref pin orders of Rows chal \<Rightarrow> Inr (champ, chal) | e \<Rightarrow> Inl e)
     | e \<Rightarrow> Inl e)"

definition bench_abstain :: "(string \<Rightarrow> string) \<Rightarrow> slice_assignment \<Rightarrow> bench_outcome \<Rightarrow> veto_response" where
  "bench_abstain sha256 a e = (case e of
       Order_Unavailable why oid \<Rightarrow> refused sha256 a (why @ '' (order '' @ oid @ '')'')
     | No_Real_Sim \<Rightarrow> failed sha256 a ''no_real_sim''
     | Bench_Error exc \<Rightarrow> failed sha256 a (''bench_error:'' @ exc)
     | Rows _ \<Rightarrow> failed sha256 a [])"

definition slice_verdict ::
  "(string \<Rightarrow> string) \<Rightarrow> slice_assignment \<Rightarrow> corpus_order list \<Rightarrow> corpus_order list \<Rightarrow> bench_row list
   \<Rightarrow> bench_row list \<Rightarrow> veto_response res" where
  "slice_verdict sha256 a slice_orders calib_orders champ chal =
     res_bind (evaluate_relative_adoption champ chal RELATIVE_TOL_BPS None None 0 0) (\<lambda>v.
     let ev = extract_slice_evidence v slice_orders calib_orders chal;
         expected = length slice_orders + length calib_orders in
     Inr (if ev_matched ev \<noteq> expected
       then refused sha256 a (''row_coverage:'' @ show_nat (ev_matched ev) @ ''/'' @ show_nat expected)
       else \<lparr>vr_assignment_id = assignment_id sha256 a, vr_round_id = sa_round_id a,
         vr_validator_evm = sa_validator_evm a, vr_status = STATUS_COMPLETED,
         vr_verdict = Some (if ev_violations ev \<noteq> [] then VERDICT_VETO else VERDICT_OK),
         vr_violations = ev_violations ev, vr_counts = ev_counts ev, vr_calibration = ev_calibration ev,
         vr_error = None\<rparr>))"

definition bench_slice ::
  "(string \<Rightarrow> string) \<Rightarrow> bench_fun \<Rightarrow> (string \<Rightarrow> bool) \<Rightarrow> slice_assignment \<Rightarrow> corpus_order list \<Rightarrow> corpus_order list
   \<Rightarrow> int \<Rightarrow> veto_response res" where
  "bench_slice sha256 bench pull_image a slice_orders calib_orders pin =
     (if \<not> is_digest_ref (Some (sa_candidate_image_ref a)) then Inr (refused sha256 a ''candidate_not_digest_ref'')
      else if \<not> is_digest_ref (Some (sa_incumbent_image_ref a)) then Inr (refused sha256 a ''incumbent_not_digest_ref'')
      else if \<not> pull_image (sa_candidate_image_ref a) then Inr (failed sha256 a ''pull_failed:candidate'')
      else if \<not> pull_image (sa_incumbent_image_ref a) then Inr (failed sha256 a ''pull_failed:incumbent'')
      else case bench_pair bench (sa_incumbent_image_ref a) (sa_candidate_image_ref a) pin (slice_orders @ calib_orders) of
          Inl e \<Rightarrow> Inr (bench_abstain sha256 a e)
        | Inr (champ, chal) \<Rightarrow> slice_verdict sha256 a slice_orders calib_orders champ chal)"

definition bench_collected ::
  "(string \<Rightarrow> string) \<Rightarrow> bench_fun \<Rightarrow> (string \<Rightarrow> bool) \<Rightarrow> slice_assignment \<Rightarrow> corpus_order list \<Rightarrow> corpus_order list
   \<Rightarrow> veto_response res" where
  "bench_collected sha256 bench pull_image a slice_orders calib_orders =
     (case remdups (map co_chain_id (slice_orders @ calib_orders)) of
        [chain] \<Rightarrow>
          (let pin = (case map_of (sa_fork_pins a) (show_int chain) of None \<Rightarrow> 0 | Some b \<Rightarrow> b) in
           if pin = 0 then Inr (refused sha256 a (''no_pin:'' @ show_int chain))
           else bench_slice sha256 bench pull_image a slice_orders calib_orders pin)
      | cs \<Rightarrow> Inr (refused sha256 a (''multi_chain_slice:'' @ repr_ids (sort (map show_int cs)))))"

definition run_slice_bench ::
  "(string \<Rightarrow> string) \<Rightarrow> (real \<Rightarrow> string) \<Rightarrow> (string \<Rightarrow> corpus_order option) \<Rightarrow> bench_fun \<Rightarrow> (string \<Rightarrow> bool)
   \<Rightarrow> slice_assignment \<Rightarrow> veto_response res" where
  "run_slice_bench sha256 flt order_lookup bench pull_image a =
     (case collect_orders order_lookup (order_replay_hash sha256 flt) a
             (sa_order_ids a @ sa_calibration_order_ids a) [] [] of
        Inl why \<Rightarrow> Inr (refused sha256 a why)
      | Inr (slice_orders, calib_orders) \<Rightarrow> bench_collected sha256 bench pull_image a slice_orders calib_orders)"

section \<open>Building the assignments\<close>

text \<open>
  \<open>build_assignments\<close> from the point where the corpus is partitioned: the slices of
  \<open>partition_follower_slices\<close> and the calibration orders of \<open>calibration_overlap\<close> are arguments.
\<close>

definition slice_calibration :: "corpus_order list \<Rightarrow> corpus_order list \<Rightarrow> corpus_order list" where
  "slice_calibration calibration orders = (case orders of
       [] \<Rightarrow> []
     | ord # _ \<Rightarrow> filter (\<lambda>c. co_chain_id c = co_chain_id ord) calibration)"

definition build_assignments ::
  "(string \<Rightarrow> string) \<Rightarrow> (real \<Rightarrow> string) \<Rightarrow> string option \<Rightarrow> string \<Rightarrow> string \<Rightarrow> string \<Rightarrow> string
   \<Rightarrow> (int \<times> int) list \<Rightarrow> int \<Rightarrow> string list \<Rightarrow> string \<Rightarrow> string \<Rightarrow> corpus_order list list
   \<Rightarrow> corpus_order list \<Rightarrow> slice_assignment list" where
  "build_assignments sha256 flt repo_env round_id candidate_submission_id candidate_image_id incumbent_image_id
     fork_pins deadline_epoch validator_evms entropy leader_api_url slices calibration =
     (if \<not> is_bare_digest (Some candidate_image_id) \<or> \<not> is_bare_digest (Some incumbent_image_id) then []
      else
        let repo = candidate_repo repo_env;
            candidate_ref = or_empty (make_digest_ref repo (Some candidate_image_id));
            incumbent_ref = or_empty (make_digest_ref repo (Some incumbent_image_id)) in
        if candidate_ref = [] \<or> incumbent_ref = [] then []
        else if slices = [] then []
        else
          map (\<lambda>(evm, idx).
            let orders = slices ! idx; calib = slice_calibration calibration orders in
            \<lparr>sa_round_id = round_id, sa_slice_index = int idx, sa_validator_evm = evm,
             sa_candidate_submission_id = candidate_submission_id, sa_candidate_image_id = candidate_image_id,
             sa_incumbent_image_id = incumbent_image_id, sa_candidate_image_ref = candidate_ref,
             sa_incumbent_image_ref = incumbent_ref, sa_order_ids = map co_order_id orders,
             sa_order_hashes = dict_of (map (\<lambda>ord. (co_order_id ord, order_replay_hash sha256 flt ord)) (orders @ calib)),
             sa_calibration_order_ids = map co_order_id calib,
             sa_fork_pins = dict_of (map (\<lambda>(c, b). (show_int c, b)) fork_pins),
             sa_deadline_epoch = deadline_epoch, sa_leader_api_url = leader_api_url\<rparr>)
          (sort_key snd (assign_slices sha256 validator_evms (int (length slices)) entropy)))"

section \<open>The evidence as a comprehension over the rows\<close>

definition row_claim ::
  "(string \<times> string) list \<Rightarrow> string set \<Rightarrow> (string \<times> bool) list \<Rightarrow> order_row \<Rightarrow> slice_violation option" where
  "row_claim L C E row = (case map_of L (po_intent row) of None \<Rightarrow> None | Some oid \<Rightarrow>
     if oid \<in> C then None
     else if po_verdict row = Dropped \<and> map_of E (po_intent row) \<noteq> Some True
       then Some (claim oid VIOLATION_DROPPED (po_champ row) (po_chal row))
     else if po_verdict row = Regression \<and> is_catastrophic (po_champ row) (po_chal row)
       then Some (claim oid VIOLATION_CATASTROPHIC (po_champ row) (po_chal row))
     else None)"

definition row_calibration :: "(string \<times> string) list \<Rightarrow> string set \<Rightarrow> order_row \<Rightarrow> (string \<times> string) list option" where
  "row_calibration L C row = (case map_of L (po_intent row) of None \<Rightarrow> None | Some oid \<Rightarrow>
     if oid \<in> C then Some [(''order_id'', oid), (''champ_raw'', or_empty (po_champ row)), (''chal_raw'', or_empty (po_chal row))]
     else None)"

lemma bump_fields [simp]:
  "ev_violations (bump k ev) = ev_violations ev" "ev_calibration (bump k ev) = ev_calibration ev"
  "ev_matched (bump k ev) = ev_matched ev" "keys_of (ev_counts (bump k ev)) =
     (if k \<in> set (keys_of (ev_counts ev)) then keys_of (ev_counts ev) else keys_of (ev_counts ev) @ [k])"
  by (simp_all add: bump_def update_keys)

lemma add_violation_fields [simp]:
  "ev_violations (add_violation v ev) = ev_violations ev @ [v]" "ev_calibration (add_violation v ev) = ev_calibration ev"
  "ev_matched (add_violation v ev) = ev_matched ev" "ev_counts (add_violation v ev) = ev_counts ev"
  by (simp_all add: add_violation_def)

lemma evidence_row_fields:
  "ev_violations (evidence_row L C E ev row) = ev_violations ev @ (case row_claim L C E row of None \<Rightarrow> [] | Some v \<Rightarrow> [v])"
  "ev_calibration (evidence_row L C E ev row) = ev_calibration ev @ (case row_calibration L C row of None \<Rightarrow> [] | Some v \<Rightarrow> [v])"
  "ev_matched (evidence_row L C E ev row) = ev_matched ev + (if map_of L (po_intent row) = None then 0 else 1)"
  by (auto simp: evidence_row_def row_claim_def row_calibration_def Let_def split: option.splits verdict.splits)

lemma evidence_row_counts: "wf_dict (ev_counts ev) \<Longrightarrow> wf_dict (ev_counts (evidence_row L C E ev row))"
  by (auto simp: evidence_row_def Let_def split: option.splits verdict.splits)

lemma map_filter_snoc: "List.map_filter f (xs @ [x]) = List.map_filter f xs @ (case f x of None \<Rightarrow> [] | Some y \<Rightarrow> [y])"
  by (simp add: map_filter_def split: option.split)

lemma evidence_fold:
  fixes L C E and rows :: "order_row list"
  defines "ev \<equiv> foldl (evidence_row L C E) no_evidence rows"
  shows "ev_violations ev = List.map_filter (row_claim L C E) rows"
    "ev_calibration ev = List.map_filter (row_calibration L C) rows"
    "ev_matched ev = length (filter (\<lambda>row. map_of L (po_intent row) \<noteq> None) rows)"
    "wf_dict (ev_counts ev)"
  unfolding ev_def
proof (induction rows rule: rev_induct)
  case Nil
  { case 1 show ?case by (simp add: no_evidence_def map_filter_def) }
  { case 2 show ?case by (simp add: no_evidence_def map_filter_def) }
  { case 3 show ?case by (simp add: no_evidence_def) }
  { case 4 show ?case by (simp add: no_evidence_def) }
next
  case (snoc row rows)
  { case 1 show ?case using snoc(1) by (simp add: evidence_row_fields map_filter_snoc) }
  { case 2 show ?case using snoc(2) by (simp add: evidence_row_fields map_filter_snoc) }
  { case 3 show ?case using snoc(3) by (simp add: evidence_row_fields) }
  { case 4 show ?case using snoc(4) by (simp add: evidence_row_counts) }
qed

lemma labels_get: "map_of (foldl (\<lambda>d ord. AList.update (order_label ord) (co_order_id ord) d) d0 os) l = Some i \<Longrightarrow>
    map_of d0 l = Some i \<or> (\<exists>ord \<in> set os. order_label ord = l \<and> co_order_id ord = i)"
  by (induction os arbitrary: d0) (fastforce simp: dict_simps split: if_splits)+

lemma labels_dom: "map_of (foldl (\<lambda>d ord. AList.update (order_label ord) (co_order_id ord) d) d0 os) l = None \<longleftrightarrow>
    map_of d0 l = None \<and> l \<notin> order_label ` set os"
  by (induction os arbitrary: d0) (auto simp: dict_simps)

lemma labels_Some:
  "map_of (labels so co) l = Some i \<Longrightarrow> \<exists>ord \<in> set so \<union> set co. order_label ord = l \<and> co_order_id ord = i"
  unfolding labels_def by (drule labels_get) auto

lemma labels_None: "map_of (labels so co) l = None \<longleftrightarrow> l \<notin> order_label ` (set so \<union> set co)"
  unfolding labels_def by (auto simp: labels_dom)

section \<open>The response of a follower is valid\<close>

lemma collect_orders_ids:
  assumes "collect_orders lookup replay a oids so co = Inr (so', co')"
    and "\<And>i rec. lookup i = Some rec \<Longrightarrow> co_order_id rec = i"
  shows "map co_order_id so' = map co_order_id so @ filter (\<lambda>i. i \<notin> set (sa_calibration_order_ids a)) oids
    \<and> map co_order_id co' = map co_order_id co @ filter (\<lambda>i. i \<in> set (sa_calibration_order_ids a)) oids"
  using assms(1)
proof (induction oids arbitrary: so co)
  case (Cons oid oids)
  from Cons.prems obtain rec where r: "lookup oid = Some rec" by (cases "lookup oid") auto
  with assms(2) have "co_order_id rec = oid" by simp
  with Cons r show ?case by (fastforce split: if_splits)
qed simp

lemma collected:
  assumes "collect_orders lookup replay a (sa_order_ids a @ sa_calibration_order_ids a) [] [] = Inr (so, co)"
    and "\<And>i rec. lookup i = Some rec \<Longrightarrow> co_order_id rec = i" "proper_slice a"
  shows "map co_order_id so = sa_order_ids a" "map co_order_id co = sa_calibration_order_ids a"
proof -
  have "filter (\<lambda>i. i \<notin> set (sa_calibration_order_ids a)) (sa_order_ids a) = sa_order_ids a"
    "filter (\<lambda>i. i \<in> set (sa_calibration_order_ids a)) (sa_order_ids a) = []"
    using assms(3) by (auto simp: proper_slice_def filter_id_conv filter_empty_conv)
  then show "map co_order_id so = sa_order_ids a" "map co_order_id co = sa_calibration_order_ids a"
    using collect_orders_ids [OF assms(1,2)] by (simp_all add: filter_id_conv filter_empty_conv)
qed

lemma abstain_valid:
  "status \<in> {STATUS_FAILED, STATUS_REFUSED} \<Longrightarrow> validate_response sha256 (abstain status sha256 a why) a = None"
  by (auto simp: validate_response_None abstain_def bound_to_def veto_constants)

lemma bench_abstain_valid: "validate_response sha256 (bench_abstain sha256 a e) a = None"
  by (cases e) (simp_all add: bench_abstain_def abstain_valid)

lemma map_filter_length: "length (List.map_filter f xs) = length (filter (\<lambda>x. f x \<noteq> None) xs)"
  by (simp add: map_filter_def)

lemma row_calibration_Some:
  "row_calibration L C row \<noteq> None \<longleftrightarrow> (\<exists>oid \<in> C. map_of L (po_intent row) = Some oid)"
  by (auto simp: row_calibration_def split: option.split)

lemma row_calibration_length:
  assumes "distinct (map po_intent rows)" "co_order_id ` set so \<inter> co_order_id ` set co = {}"
  shows "length (List.map_filter (row_calibration (labels so co) (co_order_id ` set co)) rows) \<le> length co"
proof -
  let ?f = "\<lambda>row. row_calibration (labels so co) (co_order_id ` set co) row \<noteq> None"
  have "po_intent ` set (filter ?f rows) \<subseteq> order_label ` set co"
  proof
    fix l assume "l \<in> po_intent ` set (filter ?f rows)"
    then obtain row where r: "l = po_intent row" "?f row" by auto
    from r(2) obtain oid where l: "oid \<in> co_order_id ` set co" "map_of (labels so co) (po_intent row) = Some oid"
      unfolding row_calibration_Some by blast
    from labels_Some [OF l(2)] obtain ord where "ord \<in> set so \<union> set co" "order_label ord = l" "co_order_id ord = oid"
      using r(1) by auto
    with l(1) assms(2) show "l \<in> order_label ` set co" by blast
  qed
  then have "card (po_intent ` set (filter ?f rows)) \<le> length co"
    by (metis card_image_le card_length card_mono finite_imageI finite_set le_trans)
  moreover have "card (po_intent ` set (filter ?f rows)) = length (filter ?f rows)"
    using distinct_card [OF distinct_map_filter [OF assms(1), of ?f]] by simp
  ultimately show ?thesis by (simp add: map_filter_length)
qed

lemma slice_verdict_valid:
  assumes "slice_verdict sha256 a so co champ chal = Inr r"
    and "map co_order_id so = sa_order_ids a" "map co_order_id co = sa_calibration_order_ids a" "proper_slice a"
    and "length so + length co \<le> 64" "length co \<le> 16"
  shows "validate_response sha256 r a = None"
proof -
  obtain v where v: "evaluate_relative_adoption champ chal RELATIVE_TOL_BPS None None 0 0 = Inr v"
    using assms(1) by (auto simp: slice_verdict_def res_bind_eq_Inr)
  define ev where "ev = extract_slice_evidence v so co chal"
  define C where "C = co_order_id ` set co"
  define L where "L = labels so co"
  note f = evidence_fold [of L C "chal_errored chal" "per_order (v_tally v)", folded extract_slice_evidence_def ev_def]
  have e: "ev = foldl (evidence_row L C (chal_errored chal)) no_evidence (per_order (v_tally v))"
    by (simp add: ev_def extract_slice_evidence_def L_def C_def)
  have dis: "co_order_id ` set so \<inter> co_order_id ` set co = {}"
    using assms(2-4) by (metis proper_slice_def list.set_map)
  show ?thesis
  proof (cases "ev_matched ev = length so + length co")
    case False
    then have "\<exists>why. r = refused sha256 a why"
      using assms(1) v by (auto simp: slice_verdict_def Let_def ev_def)
    then show ?thesis by (auto simp: abstain_valid)
  next
    case True
    then have r: "r = \<lparr>vr_assignment_id = assignment_id sha256 a, vr_round_id = sa_round_id a,
         vr_validator_evm = sa_validator_evm a, vr_status = STATUS_COMPLETED,
         vr_verdict = Some (if ev_violations ev \<noteq> [] then VERDICT_VETO else VERDICT_OK),
         vr_violations = ev_violations ev, vr_counts = ev_counts ev, vr_calibration = ev_calibration ev,
         vr_error = None\<rparr>"
      using assms(1) v by (simp add: slice_verdict_def Let_def ev_def)
    have "length (ev_violations ev) \<le> ev_matched ev"
      unfolding e evidence_fold map_filter_length
      by (rule length_filter_mono) (auto simp: row_claim_def split: option.splits)
    then have lv: "length (ev_violations ev) \<le> 64" using True assms(5) by simp
    have "distinct (map po_intent (per_order (v_tally v)))"
      using comparison_verdicts(3) [OF evaluate_Inr(1) [OF v]] distinct_order_ids by metis
    from row_calibration_length [OF this dis]
    have lc: "length (ev_calibration ev) \<le> 16" unfolding e evidence_fold L_def C_def using assms(6) by simp
    have vs: "sv_kind w \<in> set VIOLATION_KINDS \<and> sv_order_id w \<in> set (sa_order_ids a)" if "w \<in> set (ev_violations ev)" for w
    proof -
      from that obtain row where "row_claim L C (chal_errored chal) row = Some w"
        unfolding e evidence_fold by (auto simp: map_filter_def)
      then obtain oid where o: "map_of L (po_intent row) = Some oid" "oid \<notin> C" "sv_order_id w = oid"
        "sv_kind w \<in> {VIOLATION_DROPPED, VIOLATION_CATASTROPHIC}"
        by (auto simp: row_claim_def claim_def split: option.splits if_splits)
      have "oid \<in> co_order_id ` set so" using labels_Some [OF o(1) [unfolded L_def]] o(2) by (auto simp: C_def)
      then show ?thesis using o(3,4) assms(2) by (auto simp: VIOLATION_KINDS_def simp flip: assms(2))
    qed
    have cs: "\<exists>i \<in> set (sa_calibration_order_ids a). map_of row ''order_id'' = Some i"
      if "row \<in> set (ev_calibration ev)" for row
    proof -
      from that obtain x where "row_calibration L C x = Some row"
        unfolding e evidence_fold by (auto simp: map_filter_def)
      then have "\<exists>i \<in> C. map_of row ''order_id'' = Some i"
        by (auto simp: row_calibration_def split: option.splits if_splits)
      moreover have "C = set (sa_calibration_order_ids a)" unfolding C_def assms(3) [symmetric] by simp
      ultimately show ?thesis by simp
    qed
    show ?thesis
      unfolding validate_response_None r bound_to_def using lv lc vs cs by (simp add: veto_constants)
  qed
qed

text \<open>
  Property: Whatever happens on a follower, its slice benchmark of a proper assignment yields a response that
  the leader's validation accepts: missing or changed orders, a missing pin, an unusable image and a failed
  benchmark become terminal abstentions, and a verdict carries evidence from the slice only. The assignment
  holds at most 64 orders, 16 of them for calibration, and the follower's store finds an order under its id.
\<close>

theorem slice_bench_response_is_valid:
  assumes "run_slice_bench sha256 flt lookup bench pull_image a = Inr r"
    and "proper_slice a" "\<And>i rec. lookup i = Some rec \<Longrightarrow> co_order_id rec = i"
    and "length (sa_order_ids a) + length (sa_calibration_order_ids a) \<le> 64" "length (sa_calibration_order_ids a) \<le> 16"
  shows "validate_response sha256 r a = None"
proof (cases "collect_orders lookup (order_replay_hash sha256 flt) a (sa_order_ids a @ sa_calibration_order_ids a) [] []")
  case (Inl why)
  with assms(1) show ?thesis by (auto simp: run_slice_bench_def abstain_valid)
next
  case (Inr sc)
  obtain so co where sc: "sc = (so, co)" by fastforce
  note ids = collected [OF Inr [unfolded sc] assms(3,2)]
  have l: "length so + length co \<le> 64" "length co \<le> 16"
    using assms(4,5) by (simp_all flip: ids)
  from assms(1) Inr sc have c: "bench_collected sha256 bench pull_image a so co = Inr r" by (simp add: run_slice_bench_def)
  have b: "(\<exists>why. r = refused sha256 a why \<or> r = failed sha256 a why) \<or> (\<exists>e. r = bench_abstain sha256 a e)
    \<or> (\<exists>champ chal. slice_verdict sha256 a so co champ chal = Inr r)"
    if "bench_slice sha256 bench pull_image a so co pin = Inr r" for pin
    using that by (fastforce simp: bench_slice_def split: if_splits sum.splits prod.splits)
  have "(\<exists>why. r = refused sha256 a why \<or> r = failed sha256 a why) \<or> (\<exists>e. r = bench_abstain sha256 a e)
    \<or> (\<exists>champ chal. slice_verdict sha256 a so co champ chal = Inr r)"
  proof (cases "remdups (map co_chain_id (so @ co))")
    case Nil
    with c show ?thesis unfolding bench_collected_def by auto
  next
    case (Cons ch cs)
    show ?thesis
    proof (cases cs)
      case Nil
      let ?pin = "case map_of (sa_fork_pins a) (show_int ch) of None \<Rightarrow> 0 | Some b \<Rightarrow> b"
      have "(if ?pin = 0 then Inr (refused sha256 a (''no_pin:'' @ show_int ch))
          else bench_slice sha256 bench pull_image a so co ?pin) = Inr r"
        using c unfolding bench_collected_def Cons Nil Let_def by simp
      then show ?thesis using b by (auto split: if_splits)
    next
      case (Cons c2 cs')
      with c \<open>remdups (map co_chain_id (so @ co)) = ch # cs\<close> show ?thesis unfolding bench_collected_def by auto
    qed
  qed
  then show ?thesis
  proof (elim disjE exE)
    fix champ chal assume "slice_verdict sha256 a so co champ chal = Inr r"
    from slice_verdict_valid [OF this ids assms(2) l] show ?thesis .
  qed (simp_all add: abstain_valid bench_abstain_valid)
qed

section \<open>The evidence is exactly the hard violations\<close>

definition row_raw :: "(string \<Rightarrow> bench_row option) \<Rightarrow> (string \<Rightarrow> bench_row option) \<Rightarrow> string \<Rightarrow> order_row \<Rightarrow> bool" where
  "row_raw champ_by chal_by i r \<longleftrightarrow> po_champ r = map_option show_int (out_of champ_by i)
     \<and> po_chal r = map_option show_int (out_of chal_by i)"

lemma delivered_raw: "delivers v \<Longrightarrow> Some (show_int (the v)) = map_option show_int v"
  by (cases v) (simp_all add: delivers_def)

lemma order_step_raw:
  assumes "order_step tol bar bar_age champ_by chal_by i t = Inr t'"
  shows "\<exists>r. per_order t' = per_order t @ [r] \<and> row_raw champ_by chal_by i r"
  using assms by (auto simp: step_defs row_raw_def delivered_raw scoring_constants split: if_splits sum.splits option.splits)

lemma run_orders_raw:
  "run_orders (order_step tol bar bar_age champ_by chal_by) is t = Inr t' \<Longrightarrow>
   \<exists>rs. per_order t' = per_order t @ rs \<and> list_all2 (row_raw champ_by chal_by) is rs"
proof (induction "is" arbitrary: t)
  case (Cons i "is")
  then obtain t1 where t1: "order_step tol bar bar_age champ_by chal_by i t = Inr t1"
    "run_orders (order_step tol bar bar_age champ_by chal_by) is t1 = Inr t'" by (auto split: sum.splits)
  from order_step_raw [OF t1(1)] Cons.IH [OF t1(2)] show ?case by fastforce
qed simp

lemma comparison_rows:
  assumes "evaluate_relative_adoption cr xr tol cb age fd dd = Inr v"
  shows "list_all2 (\<lambda>i r. row_fits tol (bar_get cb) age (map_of (index_rows cr)) (map_of (index_rows xr)) i r
      \<and> row_raw (map_of (index_rows cr)) (map_of (index_rows xr)) i r) (compared_ids cr xr) (per_order (v_tally v))"
proof -
  let ?c = "map_of (index_rows cr)" and ?x = "map_of (index_rows xr)"
  have t: "relative_tally cr xr tol cb age = Inr (v_tally v)"
    using assms by (auto simp: evaluate_relative_adoption_def split: sum.splits)
  have "\<exists>rs. per_order (v_tally v) = per_order tally0 @ rs \<and> list_all2 (row_raw ?c ?x) (compared_ids cr xr) rs"
    using t unfolding relative_tally_def Let_def by (rule run_orders_raw)
  then have "list_all2 (row_raw ?c ?x) (compared_ids cr xr) (per_order (v_tally v))"
    by (auto simp: tally0_def)
  moreover have "list_all2 (row_fits tol (bar_get cb) age ?c ?x) (compared_ids cr xr) (per_order (v_tally v))"
    using relative_tally_comparison [OF t] by (simp add: comparison_def Let_def)
  ultimately show ?thesis by (simp add: list_all2_conv_all_nth)
qed

text \<open>A hard violation of the relative rule, as a follower may claim it: the challenger drops an order the champion
  delivers without a harness error of its own, or delivers less than the floor.\<close>

definition hard_violation :: "bench_row list \<Rightarrow> bench_row list \<Rightarrow> string \<Rightarrow> bool" where
  "hard_violation champ chal l \<longleftrightarrow>
     verdict_of champ chal RELATIVE_TOL_BPS None None l = Dropped \<and> map_of (chal_errored chal) l \<noteq> Some True
     \<or> order_catastrophic RELATIVE_TOL_BPS (map_of (index_rows champ)) (map_of (index_rows chal)) l"

lemma is_catastrophic_raw:
  assumes "row_raw cb xb i r" "order_verdict tol bar age cb xb i = Regression"
  shows "is_catastrophic (po_champ r) (po_chal r) \<longleftrightarrow> order_catastrophic tol cb xb i"
proof -
  from assms(2) have d: "delivers (out_of cb i)" "delivers (out_of xb i)"
    "the (out_of xb i) * BPS < the (out_of cb i) * (BPS - tol)"
    by (auto simp: order_verdict_def Let_def split: if_splits)
  then obtain c x where "out_of cb i = Some c" "out_of xb i = Some x" "c > 0"
    by (auto simp: delivers_def scoring_constants split: option.splits)
  then show ?thesis
    using assms(1) d by (simp add: row_raw_def is_catastrophic_def order_catastrophic_def Let_def scoring_constants)
qed

lemma catastrophic_is_regression:
  "order_catastrophic tol cb xb i \<Longrightarrow> order_verdict tol bar age cb xb i = Regression"
  by (simp add: order_catastrophic_def order_verdict_def Let_def)

lemma row_claim_hard:
  assumes "row_fits RELATIVE_TOL_BPS (bar_get None) None (map_of (index_rows champ)) (map_of (index_rows chal)) l row"
    and "row_raw (map_of (index_rows champ)) (map_of (index_rows chal)) l row"
  shows "row_claim L C (chal_errored chal) row \<noteq> None \<longleftrightarrow>
      (\<exists>oid. map_of L l = Some oid \<and> oid \<notin> C \<and> hard_violation champ chal l)"
proof -
  have i: "po_intent row = l" and v: "po_verdict row = verdict_of champ chal RELATIVE_TOL_BPS None None l"
    using assms(1) by (simp_all add: row_fits_def)
  have "is_catastrophic (po_champ row) (po_chal row) \<longleftrightarrow>
      order_catastrophic RELATIVE_TOL_BPS (map_of (index_rows champ)) (map_of (index_rows chal)) l"
    if "po_verdict row = Regression" using is_catastrophic_raw [OF assms(2)] that v by simp
  moreover have "po_verdict row = Regression"
    if "order_catastrophic RELATIVE_TOL_BPS (map_of (index_rows champ)) (map_of (index_rows chal)) l"
    using catastrophic_is_regression [OF that] v by simp
  ultimately show ?thesis
    unfolding row_claim_def hard_violation_def i v [symmetric] by (auto split: option.split)
qed

lemma row_claim_id: "row_claim L C E row = Some w \<Longrightarrow> map_of L (po_intent row) = Some (sv_order_id w)"
  by (auto simp: row_claim_def claim_def split: option.splits if_splits)

lemma hard_violation_compared: "hard_violation champ chal l \<Longrightarrow> l \<in> set (compared_ids champ chal)"
proof (rule ccontr)
  assume h: "hard_violation champ chal l" and "l \<notin> set (compared_ids champ chal)"
  then have "map_of (index_rows champ) l = None" "map_of (index_rows chal) l = None"
    by (auto simp: set_order_ids map_of_eq_None_iff)
  with h show False
    by (simp add: hard_violation_def order_verdict_def order_catastrophic_def raw_output_of_def parse_output_def delivers_def Let_def)
qed

lemma labels_distinct:
  assumes "distinct (map order_label (so @ co))" "ord \<in> set (so @ co)"
  shows "map_of (labels so co) (order_label ord) = Some (co_order_id ord)"
proof -
  obtain i where i: "map_of (labels so co) (order_label ord) = Some i"
    using labels_None [of so co "order_label ord"] assms(2) by auto
  from labels_Some [OF this] obtain o2 where "o2 \<in> set (so @ co)" "order_label o2 = order_label ord" "co_order_id o2 = i"
    by auto
  with assms i show ?thesis by (metis distinct_map inj_on_eq_iff)
qed

lemma list_all2_in1: "list_all2 P xs ys \<Longrightarrow> x \<in> set xs \<Longrightarrow> \<exists>y \<in> set ys. P x y"
  by (induction rule: list_all2_induct) auto

lemma evidence_rows:
  assumes "evaluate_relative_adoption champ chal RELATIVE_TOL_BPS None None 0 0 = Inr v"
    and "w \<in> set (ev_violations (extract_slice_evidence v so co chal))"
  shows "\<exists>ord \<in> set so. co_order_id ord = sv_order_id w \<and> hard_violation champ chal (order_label ord)"
proof -
  let ?L = "labels so co" and ?C = "co_order_id ` set co"
  obtain r where r: "r \<in> set (per_order (v_tally v))" "row_claim ?L ?C (chal_errored chal) r = Some w"
    using assms(2) unfolding extract_slice_evidence_def evidence_fold by (auto simp: map_filter_def)
  from comparison_rows [OF assms(1)] r(1) obtain l where
    l: "row_fits RELATIVE_TOL_BPS (bar_get None) None (map_of (index_rows champ)) (map_of (index_rows chal)) l r"
      "row_raw (map_of (index_rows champ)) (map_of (index_rows chal)) l r"
    by (auto simp: list_all2_conv_all_nth in_set_conv_nth)
  have h: "hard_violation champ chal l" "sv_order_id w \<notin> ?C" "map_of ?L l = Some (sv_order_id w)"
    using row_claim_hard [OF l, of ?L ?C] r(2) row_claim_id [OF r(2)] l(1) by (auto simp: row_fits_def)
  from labels_Some [OF h(3)] obtain ord where o: "ord \<in> set so \<union> set co" "order_label ord = l" "co_order_id ord = sv_order_id w" by blast
  then have "ord \<in> set so" using h(2) by (metis Un_iff imageI)
  with o h(1) show ?thesis by blast
qed

lemma evidence_exact:
  assumes "evaluate_relative_adoption champ chal RELATIVE_TOL_BPS None None 0 0 = Inr v"
    and "distinct (map order_label (so @ co))" "co_order_id ` set so \<inter> co_order_id ` set co = {}"
  shows "sv_order_id ` set (ev_violations (extract_slice_evidence v so co chal))
    = {co_order_id ord | ord. ord \<in> set so \<and> hard_violation champ chal (order_label ord)}"
proof -
  let ?L = "labels so co" and ?C = "co_order_id ` set co" and ?E = "chal_errored chal" and ?rows = "per_order (v_tally v)"
  note rows = comparison_rows [OF assms(1)]
  have s: "set (ev_violations (extract_slice_evidence v so co chal)) = {w. \<exists>row \<in> set ?rows. row_claim ?L ?C ?E row = Some w}"
    unfolding extract_slice_evidence_def evidence_fold by (auto simp: map_filter_def image_iff) (metis option.sel)
  show ?thesis
  proof (intro set_eqI iffI)
    fix i assume "i \<in> sv_order_id ` set (ev_violations (extract_slice_evidence v so co chal))"
    then obtain w where w: "w \<in> set (ev_violations (extract_slice_evidence v so co chal))" "i = sv_order_id w" by blast
    from evidence_rows [OF assms(1) w(1)] obtain ord where "ord \<in> set so" "sv_order_id w = co_order_id ord"
      "hard_violation champ chal (order_label ord)" by metis
    with w(2) show "i \<in> {co_order_id ord | ord. ord \<in> set so \<and> hard_violation champ chal (order_label ord)}" by blast
  next
    fix i assume "i \<in> {co_order_id ord | ord. ord \<in> set so \<and> hard_violation champ chal (order_label ord)}"
    then obtain ord where o: "ord \<in> set so" "i = co_order_id ord" "hard_violation champ chal (order_label ord)" by blast
    from list_all2_in1 [OF rows hard_violation_compared [OF o(3)]] obtain r where r: "r \<in> set ?rows"
      "row_fits RELATIVE_TOL_BPS (bar_get None) None (map_of (index_rows champ)) (map_of (index_rows chal)) (order_label ord) r"
      "row_raw (map_of (index_rows champ)) (map_of (index_rows chal)) (order_label ord) r"
      by blast
    have "map_of ?L (order_label ord) = Some i" using labels_distinct [OF assms(2), of ord] o by simp
    moreover have "i \<notin> ?C" using o assms(3) by blast
    ultimately obtain w where w: "row_claim ?L ?C ?E r = Some w" using row_claim_hard [OF r(2,3), of ?L ?C] o(3) by auto
    moreover have "sv_order_id w = i"
      using row_claim_id [OF w] r(2) \<open>map_of ?L (order_label ord) = Some i\<close> by (simp add: row_fits_def)
    ultimately show "i \<in> sv_order_id ` set (ev_violations (extract_slice_evidence v so co chal))"
      unfolding s using r(1) by blast
  qed
qed

text \<open>
  Claim C7: The verdict of a completed slice benchmark is exact: it claims precisely the slice orders on which the relative
  rule finds a hard violation (a dropped order that is not a harness error, or a cut below the floor), and it is a
  veto exactly when there is one. Calibration orders never contribute.
\<close>

theorem slice_verdict_exact:
  assumes "slice_verdict sha256 a so co champ chal = Inr r" "vr_status r = STATUS_COMPLETED"
    and "distinct (map order_label (so @ co))" "co_order_id ` set so \<inter> co_order_id ` set co = {}"
  shows "sv_order_id ` set (vr_violations r) = {co_order_id ord | ord. ord \<in> set so \<and> hard_violation champ chal (order_label ord)}
    \<and> (vr_verdict r = Some VERDICT_VETO \<longleftrightarrow> (\<exists>ord \<in> set so. hard_violation champ chal (order_label ord)))"
proof -
  obtain v where v: "evaluate_relative_adoption champ chal RELATIVE_TOL_BPS None None 0 0 = Inr v"
    using assms(1) by (auto simp: slice_verdict_def res_bind_eq_Inr)
  let ?ev = "extract_slice_evidence v so co chal"
  have c: "vr_violations r = ev_violations ?ev"
    "vr_verdict r = Some (if ev_violations ?ev \<noteq> [] then VERDICT_VETO else VERDICT_OK)"
    using assms(1,2) v by (auto simp: slice_verdict_def Let_def abstain_def veto_constants split: if_splits)
  note e = evidence_exact [OF v assms(3,4)]
  have "ev_violations ?ev \<noteq> [] \<longleftrightarrow> sv_order_id ` set (ev_violations ?ev) \<noteq> {}" by simp
  also have "\<dots> \<longleftrightarrow> (\<exists>ord \<in> set so. hard_violation champ chal (order_label ord))" unfolding e by blast
  finally have "ev_violations ?ev \<noteq> [] \<longleftrightarrow> (\<exists>ord \<in> set so. hard_violation champ chal (order_label ord))" .
  then show ?thesis using c e by (simp add: veto_constants)
qed

section \<open>Concrete runs of the slice benchmark\<close>

definition demo_assignment :: slice_assignment where
  "demo_assignment = sample_assignment\<lparr>sa_validator_evm := ''0xa'',
     sa_candidate_image_ref := ''r@sha256:'' @ replicate 64 CHR ''c'',
     sa_incumbent_image_ref := ''r@sha256:'' @ replicate 64 CHR ''a'', sa_fork_pins := [(''8'', 7)]\<rparr>"

definition demo_order :: "string \<Rightarrow> corpus_order" where
  "demo_order i = \<lparr>co_order_id = i, co_app_id = ''app'', co_chain_id = 8, co_intent_function = ''swap'', co_params = []\<rparr>"

definition demo_bench :: bench_fun where
  "demo_bench ref pin orders = Rows (map (\<lambda>ord. sample_row (order_label ord)
     (PInt (if ref = sa_incumbent_image_ref demo_assignment then 100 else 50)) (PInt 1)) orders)"

definition demo_slice :: slice_assignment where
  "demo_slice = demo_assignment\<lparr>sa_order_hashes :=
     map (\<lambda>i. (i, order_replay_hash rev (\<lambda>_. []) (demo_order i))) [''o1'', ''o2'', ''o9'']\<rparr>"

theorem slice_bench_response_is_valid_witness:
  "\<exists>r. run_slice_bench rev (\<lambda>_. []) (Some \<circ> demo_order) demo_bench (\<lambda>_. True) demo_slice = Inr r
     \<and> vr_verdict r = Some VERDICT_VETO \<and> validate_response rev r demo_slice = None"
proof -
  have "(case run_slice_bench rev (\<lambda>_. []) (Some \<circ> demo_order) demo_bench (\<lambda>_. True) demo_slice of
      Inl _ \<Rightarrow> False | Inr r \<Rightarrow> vr_verdict r = Some VERDICT_VETO)" by code_simp
  then obtain r where r: "run_slice_bench rev (\<lambda>_. []) (Some \<circ> demo_order) demo_bench (\<lambda>_. True) demo_slice = Inr r"
    "vr_verdict r = Some VERDICT_VETO" by (auto split: sum.splits)
  have p: "proper_slice demo_slice" by (auto simp: proper_slice_def demo_slice_def demo_assignment_def sample_assignment_def)
  have "validate_response rev r demo_slice = None"
    by (rule slice_bench_response_is_valid [OF r(1) p])
      (auto simp: demo_order_def demo_slice_def demo_assignment_def sample_assignment_def)
  with r show ?thesis by blast
qed

theorem slice_verdict_exact_witness:
  "\<exists>r. slice_verdict rev demo_slice [demo_order ''o1'', demo_order ''o2''] [demo_order ''o9'']
       (map (\<lambda>i. sample_row (''app:hist:'' @ i) (PInt 100) (PInt 1)) [''o1'', ''o2'', ''o9''])
       (map (\<lambda>i. sample_row (''app:hist:'' @ i) (PInt (if i = ''o1'' then 50 else 100)) (PInt 1)) [''o1'', ''o2'', ''o9'']) = Inr r
     \<and> map sv_order_id (vr_violations r) = [''o1'']
     \<and> (\<exists>ord \<in> {demo_order ''o1'', demo_order ''o2''}. hard_violation
          (map (\<lambda>i. sample_row (''app:hist:'' @ i) (PInt 100) (PInt 1)) [''o1'', ''o2'', ''o9''])
          (map (\<lambda>i. sample_row (''app:hist:'' @ i) (PInt (if i = ''o1'' then 50 else 100)) (PInt 1)) [''o1'', ''o2'', ''o9''])
          (order_label ord))"
proof -
  let ?c = "map (\<lambda>i. sample_row (''app:hist:'' @ i) (PInt 100) (PInt 1)) [''o1'', ''o2'', ''o9'']"
  let ?x = "map (\<lambda>i. sample_row (''app:hist:'' @ i) (PInt (if i = ''o1'' then 50 else 100)) (PInt 1)) [''o1'', ''o2'', ''o9'']"
  let ?so = "[demo_order ''o1'', demo_order ''o2'']" and ?co = "[demo_order ''o9'']"
  have "(case slice_verdict rev demo_slice ?so ?co ?c ?x of Inl _ \<Rightarrow> False
      | Inr r \<Rightarrow> vr_status r = STATUS_COMPLETED \<and> vr_verdict r = Some VERDICT_VETO \<and> map sv_order_id (vr_violations r) = [''o1''])"
    by code_simp
  then obtain r where r: "slice_verdict rev demo_slice ?so ?co ?c ?x = Inr r" "vr_status r = STATUS_COMPLETED"
    "vr_verdict r = Some VERDICT_VETO" "map sv_order_id (vr_violations r) = [''o1'']" by (auto split: sum.splits)
  have d: "distinct (map order_label (?so @ ?co))" "co_order_id ` set ?so \<inter> co_order_id ` set ?co = {}"
    by (simp_all add: demo_order_def order_label_def)
  have "\<exists>ord \<in> set ?so. hard_violation ?c ?x (order_label ord)"
    using conjunct2 [OF slice_verdict_exact [OF r(1,2) d]] r(3) by blast
  with r(1,4) show ?thesis by (intro exI [of _ r]) simp
qed

end
