(* ===== verification/Veto_Gate.thy ===== *)
theory Veto_Gate
  imports Veto_Bench
begin

text \<open>
  The leader's re-verification of claimed vetoes and the observe record (\<open>veto_wire.py\<close>), and the steps of the
  coordinator that stream re-verifications and gate the certification of a round (closures of
  \<open>api/startup.py\<close>). The result is an end-to-end property: certification is aborted only on a violation that
  a follower claimed and the leader reproduced, and it is never held back up to the decision deadline.
\<close>

section \<open>Re-verification by the leader\<close>

record reverify =
  rv_ran :: bool
  rv_planned :: nat
  rv_confirmed :: nat
  rv_discarded :: nat
  rv_orders :: "(string \<times> bool) list"

definition empty_reverify :: reverify where
  "empty_reverify = \<lparr>rv_ran = False, rv_planned = 0, rv_confirmed = 0, rv_discarded = 0, rv_orders = []\<rparr>"

definition included :: "string list option \<Rightarrow> (string \<times> veto_response) list \<Rightarrow> veto_response list" where
  "included include_responders responses =
     map snd (filter (\<lambda>(evm, _). case include_responders of None \<Rightarrow> True | Some inc \<Rightarrow> evm \<in> set inc) responses)"

text \<open>The union of the plans; \<open>seen\<close> is threaded through all of them.\<close>

definition planned_violations :: "veto_phase \<Rightarrow> string list option \<Rightarrow> int \<Rightarrow> slice_violation list" where
  "planned_violations p include_responders budget_orders =
     take (nat (budget_orders * max 1 (int (length (vp_assignments p)))))
       (first_claims {} (concat (map (\<lambda>r. plan_reverification r budget_orders)
          (included include_responders (vp_responses p)))))"

text \<open>One pass over the chains; \<open>None\<close> when the benchmark or the comparison raises.\<close>

fun reverify_chains ::
  "bench_fun \<Rightarrow> slice_assignment \<Rightarrow> corpus_order list \<Rightarrow> int list \<Rightarrow> string list \<Rightarrow> string list
   \<Rightarrow> (string list \<times> string list) option" where
  "reverify_chains bench a orders [] confirmed benched = Some (confirmed, benched)"
| "reverify_chains bench a orders (c # cs) confirmed benched =
     (let chain_orders = filter (\<lambda>ord. co_chain_id ord = c) orders;
          pin = (case map_of (sa_fork_pins a) (show_int c) of None \<Rightarrow> 0 | Some b \<Rightarrow> b) in
      if pin = 0 then reverify_chains bench a orders cs confirmed benched
      else case bench_pair bench (sa_incumbent_image_ref a) (sa_candidate_image_ref a) pin chain_orders of
        Inl _ \<Rightarrow> None
      | Inr (champ, chal) \<Rightarrow>
         (case evaluate_relative_adoption champ chal RELATIVE_TOL_BPS None None 0 0 of
            Inl _ \<Rightarrow> None
          | Inr v \<Rightarrow> reverify_chains bench a orders cs
              (confirmed @ map sv_order_id (ev_violations (extract_slice_evidence v chain_orders [] chal)))
              (benched @ filter (\<lambda>i. i \<noteq> []) (map co_order_id chain_orders))))"

definition reverify_dissents ::
  "veto_phase \<Rightarrow> (string \<Rightarrow> corpus_order option) \<Rightarrow> bench_fun \<Rightarrow> (string \<Rightarrow> bool) \<Rightarrow> string list option \<Rightarrow> int
   \<Rightarrow> reverify \<times> string list" where
  "reverify_dissents p order_lookup bench pull_image include_responders budget_orders =
     (case vp_assignments p of
        [] \<Rightarrow> (empty_reverify, [])
      | a0 # _ \<Rightarrow>
         let planned = planned_violations p include_responders budget_orders;
             orders = List.map_filter (\<lambda>v. order_lookup (sv_order_id v)) planned in
         if planned = [] then (empty_reverify, [])
         else if \<not> (is_digest_ref (Some (sa_candidate_image_ref a0)) \<and> is_digest_ref (Some (sa_incumbent_image_ref a0)))
           then (empty_reverify, [])
         else if orders = [] then (empty_reverify, [])
         else if \<not> pull_image (sa_candidate_image_ref a0) \<or> \<not> pull_image (sa_incumbent_image_ref a0)
           then (empty_reverify, [])
         else case reverify_chains bench a0 orders (sort_key show_int (remdups (map co_chain_id orders))) [] [] of
           None \<Rightarrow> (empty_reverify, [])
         | Some (confirmed_ids, benched_ids) \<Rightarrow>
            if benched_ids = [] then (empty_reverify, [])
            else
              let per_order = map (\<lambda>v. (sv_order_id v, sv_order_id v \<in> set confirmed_ids)) planned;
                  n_confirmed = length (filter snd per_order) in
              (\<lparr>rv_ran = True, rv_planned = length planned, rv_confirmed = n_confirmed,
                rv_discarded = length planned - n_confirmed, rv_orders = per_order\<rparr>, benched_ids))"

definition merge_reverify_results :: "reverify option \<Rightarrow> reverify option \<Rightarrow> reverify" where
  "merge_reverify_results prev new =
     (let new = (case new of None \<Rightarrow> empty_reverify | Some n \<Rightarrow> n);
          prev = (case prev of None \<Rightarrow> empty_reverify | Some r \<Rightarrow> r);
          orders = foldl (\<lambda>d (k, v). AList.update k v d) (rv_orders prev) (rv_orders new);
          n_conf = length (filter snd orders) in
      \<lparr>rv_ran = (rv_ran prev \<or> rv_ran new), rv_planned = length orders, rv_confirmed = n_conf,
       rv_discarded = length orders - n_conf, rv_orders = orders\<rparr>)"

section \<open>The observe record\<close>

record observe_summary =
  os_round_id :: string
  os_candidate_submission_id :: string
  os_resolution :: string
  os_counts :: observe_counts
  os_reverify :: "reverify option"
  os_would_gate_claims :: bool
  os_would_gate_confirmed :: "bool option"
  os_violations :: "(slice_violation \<times> bool) list"

definition MAX_REPORT_VIOLATIONS :: nat where "MAX_REPORT_VIOLATIONS = 24"

definition make_observe_summary :: "string \<Rightarrow> veto_phase \<Rightarrow> string \<Rightarrow> reverify option \<Rightarrow> observe_summary" where
  "make_observe_summary round_id p resolution rv =
     (let counts = phase_observe_counts p;
          ran = (case rv of None \<Rightarrow> False | Some r \<Rightarrow> rv_ran r);
          confirmed_map = (case rv of None \<Rightarrow> [] | Some r \<Rightarrow> rv_orders r);
          rows = take MAX_REPORT_VIOLATIONS (first_claims {} (concat (map vr_violations (vals_of (vp_responses p)))));
          tagged = map (\<lambda>v. (v, map_of confirmed_map (sv_order_id v) = Some True)) rows in
      \<lparr>os_round_id = round_id, os_candidate_submission_id = vp_candidate_submission_id p, os_resolution = resolution,
       os_counts = counts, os_reverify = rv, os_would_gate_claims = (oc_veto counts > 0),
       os_would_gate_confirmed = (if ran then Some (rv_confirmed (the rv) > 0) else None),
       os_violations = sort_key (\<lambda>(v, c). (\<not> c, sv_order_id v)) tagged\<rparr>)"

section \<open>Streaming and the certification gate\<close>

text \<open>
  The coordinator's view of one round: the phase object, its entry of \<open>_VETO_REVERIFY_STATE\<close> (a running
  re-verification is kept with the phase it was started on), the record on the round store and the send
  bookkeeping.
\<close>

datatype observe_record = Obs_None | Obs_Opened nat | Obs_Skipped string | Obs_Summary observe_summary

record veto_round =
  vd_phase :: veto_phase
  vd_covered :: "string list"
  vd_inflight :: "(string list \<times> veto_phase) option"
  vd_result :: "reverify option"
  vd_done :: bool
  vd_observe :: observe_record
  vd_sends :: veto_leader

definition veto_phase_deadline :: "int \<Rightarrow> int option \<Rightarrow> int" where
  "veto_phase_deadline now ddl =
     (let upper = (case ddl of None \<Rightarrow> now + 20 | Some d \<Rightarrow> min (now + 20) (d - 1)) in max (now + 1) upper)"

definition open_veto_round :: "veto_phase \<Rightarrow> veto_leader \<Rightarrow> veto_round" where
  "open_veto_round p sends = \<lparr>vd_phase = p, vd_covered = [], vd_inflight = None, vd_result = None, vd_done = False,
     vd_observe = Obs_Opened (length (vp_assignments p)), vd_sends = sends\<rparr>"

definition veto_responders :: "veto_phase \<Rightarrow> string list" where
  "veto_responders p = keys_of (filter (\<lambda>(_, r). vr_verdict r = Some VERDICT_VETO) (vp_responses p))"

definition finish_round :: "string \<Rightarrow> string \<Rightarrow> reverify option \<Rightarrow> veto_round \<Rightarrow> veto_round" where
  "finish_round round_id res rv d =
     (let p = (vd_phase d)\<lparr>vp_resolved := True, vp_resolution := Some res\<rparr> in
      d\<lparr>vd_phase := p, vd_sends := forget_round_send_state round_id (vd_sends d),
        vd_observe := Obs_Summary (make_observe_summary round_id p res rv), vd_done := True\<rparr>)"

definition confirmed_result :: "veto_round \<Rightarrow> bool" where
  "confirmed_result d = (case vd_result d of None \<Rightarrow> False | Some r \<Rightarrow> rv_confirmed r > 0)"

definition veto_stream_step :: "(string \<Rightarrow> string) \<Rightarrow> bool \<Rightarrow> string \<Rightarrow> int \<Rightarrow> veto_round \<Rightarrow> veto_round" where
  "veto_stream_step sha256 reverify_on round_id now d =
     (if vd_done d then d
      else
        let responders = veto_responders (vd_phase d);
            uncovered = filter (\<lambda>evm. evm \<notin> set (vd_covered d)) responders in
        case resolve_phase sha256 (vd_phase d) now of (action, resolution) \<Rightarrow>
        let is_resolved = (action = Action_Resolve);
            res = (if is_resolved then or_empty resolution else ''reverified'') in
        case veto_stream_action reverify_on (responders \<noteq> []) is_resolved (vd_inflight d \<noteq> None)
               (uncovered \<noteq> []) (vd_result d \<noteq> None) (confirmed_result d) of
          Stream_Spawn \<Rightarrow> d\<lparr>vd_inflight := Some (uncovered, vd_phase d)\<rparr>
        | Stream_Write_Result \<Rightarrow> finish_round round_id res (vd_result d) d
        | Stream_Write_None \<Rightarrow> finish_round round_id res None d
        | Stream_Pending \<Rightarrow> d
        | Stream_Noop \<Rightarrow> d)"

definition newly_covered :: "veto_phase \<Rightarrow> string list \<Rightarrow> string list \<Rightarrow> string list" where
  "newly_covered p include_responders benched = filter (\<lambda>evm. case map_of (vp_responses p) evm of
       None \<Rightarrow> False
     | Some r \<Rightarrow> let pids = map sv_order_id (plan_reverification r VETO_VERIFY_BUDGET_ORDERS) in
         pids \<noteq> [] \<and> set pids \<subseteq> set benched) include_responders"

text \<open>The completion of a re-verification; \<open>None\<close> is a pass that raised.\<close>

definition reverify_complete :: "string \<Rightarrow> (reverify \<times> string list) option \<Rightarrow> veto_round \<Rightarrow> veto_round" where
  "reverify_complete round_id outcome d = (case vd_inflight d of
     None \<Rightarrow> d
   | Some (include_responders, _) \<Rightarrow>
      let benched = (case outcome of None \<Rightarrow> [] | Some (_, b) \<Rightarrow> b);
          d' = d\<lparr>vd_inflight := None,
                 vd_result := Some (merge_reverify_results (vd_result d) (map_option fst outcome)),
                 vd_covered := vd_covered d @ newly_covered (vd_phase d) include_responders benched\<rparr> in
      if confirmed_result d' \<and> \<not> vd_done d'
      then finish_round round_id (if or_empty (vp_resolution (vd_phase d)) \<noteq> [] then or_empty (vp_resolution (vd_phase d))
             else ''reverified'') (vd_result d') d'
      else d')"

text \<open>What \<open>_maybe_certify_round\<close> reads off the record, and its decision.\<close>

definition observe_view :: "observe_record \<Rightarrow> bool \<times> nat \<times> bool option" where
  "observe_view r = (case r of
       Obs_None \<Rightarrow> (False, 0, None)
     | Obs_Opened _ \<Rightarrow> (False, 0, None)
     | Obs_Skipped _ \<Rightarrow> (True, 0, Some False)
     | Obs_Summary s \<Rightarrow> (True, oc_veto (os_counts s), os_would_gate_confirmed s))"

datatype certify_step = Hold | Abort_Veto | Proceed

definition certify_gate ::
  "enforce_mode \<Rightarrow> bool \<Rightarrow> int \<Rightarrow> int option \<Rightarrow> bool \<Rightarrow> bool \<Rightarrow> observe_record \<Rightarrow> certify_step" where
  "certify_gate mode reverify_enabled now ddl phase_exists has_peers record =
     (if mode = Enforce_Off then Proceed
      else case ddl of None \<Rightarrow> Proceed | Some d \<Rightarrow>
        let gate = (if \<not> phase_exists \<and> \<not> has_peers then Gate_Allow
              else case (if phase_exists then observe_view record else (False, 0, None)) of
                (is_resolved, n_veto, wgc) \<Rightarrow> veto_gate_decision is_resolved n_veto wgc reverify_enabled now (d - 2)) in
        case gate of
          Gate_Wait \<Rightarrow> Hold
        | Gate_Block \<Rightarrow> if mode = Enforce_Hard then Abort_Veto else Proceed
        | Gate_Allow \<Rightarrow> Proceed)"

section \<open>What a confirmation means\<close>

text \<open>The leader's own benchmark of both images at the pin of a chain finds a hard violation on the order.\<close>

definition reproduced :: "bench_fun set \<Rightarrow> slice_assignment \<Rightarrow> string \<Rightarrow> bool" where
  "reproduced benches a oid \<longleftrightarrow> (\<exists>bench \<in> benches. \<exists>c pin orders champ chal ord.
     map_of (sa_fork_pins a) (show_int c) = Some pin \<and> pin \<noteq> 0 \<and> (\<forall>q \<in> set orders. co_chain_id q = c)
     \<and> bench (sa_incumbent_image_ref a) pin orders = Rows champ \<and> bench (sa_candidate_image_ref a) pin orders = Rows chal
     \<and> ord \<in> set orders \<and> co_order_id ord = oid \<and> hard_violation champ chal (order_label ord))"

definition claimed :: "veto_phase \<Rightarrow> string \<Rightarrow> bool" where
  "claimed p oid \<longleftrightarrow> (\<exists>evm r. map_of (vp_responses p) evm = Some r \<and> vr_verdict r = Some VERDICT_VETO
     \<and> oid \<in> sv_order_id ` set (vr_violations r))"

lemma bench_pair_Inr:
  "bench_pair bench i c pin orders = Inr (champ, chal) \<longleftrightarrow> bench i pin orders = Rows champ \<and> bench c pin orders = Rows chal"
  by (auto simp: bench_pair_def split: bench_outcome.splits)

lemma reverify_chains_sound:
  assumes "reverify_chains bench a orders cs conf ben = Some (conf', ben')" "bench \<in> benches"
    and "\<forall>i \<in> set conf. reproduced benches a i"
  shows "\<forall>i \<in> set conf'. reproduced benches a i"
  using assms(1,3)
proof (induction cs arbitrary: conf ben)
  case (Cons c cs)
  let ?orders = "filter (\<lambda>ord. co_chain_id ord = c) orders"
  let ?pin = "case map_of (sa_fork_pins a) (show_int c) of None \<Rightarrow> 0 | Some b \<Rightarrow> b"
  show ?case
  proof (cases "?pin = 0")
    case True
    with Cons show ?thesis by (simp add: Let_def)
  next
    case False
    then obtain pin where pin: "map_of (sa_fork_pins a) (show_int c) = Some pin" "pin \<noteq> 0" "?pin = pin"
      by (auto split: option.splits)
    from Cons.prems(1) False obtain champ chal v where
      b: "bench_pair bench (sa_incumbent_image_ref a) (sa_candidate_image_ref a) pin ?orders = Inr (champ, chal)"
      and v: "evaluate_relative_adoption champ chal RELATIVE_TOL_BPS None None 0 0 = Inr v"
      and rest: "reverify_chains bench a orders cs
          (conf @ map sv_order_id (ev_violations (extract_slice_evidence v ?orders [] chal)))
          (ben @ filter (\<lambda>i. i \<noteq> []) (map co_order_id ?orders)) = Some (conf', ben')"
      unfolding pin(3) by (auto simp: Let_def pin split: sum.splits)
    have "reproduced benches a (sv_order_id w)" if w: "w \<in> set (ev_violations (extract_slice_evidence v ?orders [] chal))" for w
    proof -
      from evidence_rows [OF v w] obtain ord where "ord \<in> set ?orders" "co_order_id ord = sv_order_id w"
        "hard_violation champ chal (order_label ord)" by blast
      then show ?thesis
        unfolding reproduced_def using pin(1,2) b [unfolded bench_pair_Inr] assms(2)
        by (intro bexI [of _ bench] exI [of _ c] exI [of _ pin] exI [of _ ?orders] exI [of _ champ] exI [of _ chal]
          exI [of _ ord]) auto
    qed
    with Cons.prems(2) have "\<forall>i \<in> set (conf @ map sv_order_id (ev_violations (extract_slice_evidence v ?orders [] chal))). reproduced benches a i"
      by auto
    from Cons.IH [OF rest this] show ?thesis .
  qed
qed simp

lemma planned_claimed:
  assumes "w \<in> set (planned_violations p inc budget)" "wf_dict (vp_responses p)"
  shows "claimed p (sv_order_id w)"
proof -
  from assms(1) obtain r where r: "r \<in> set (included inc (vp_responses p))" "w \<in> set (plan_reverification r budget)"
    unfolding planned_violations_def by (auto dest!: in_set_takeD subsetD [OF first_claims_subset])
  then obtain evm where e: "(evm, r) \<in> set (vp_responses p)" by (auto simp: included_def)
  have "vr_verdict r = Some VERDICT_VETO" "w \<in> set (vr_violations r)"
    using r(2) by (auto simp: plan_reverification_def split: if_splits dest!: in_set_takeD subsetD [OF first_claims_subset])
  moreover have "map_of (vp_responses p) evm = Some r" using e assms(2) by simp
  ultimately show ?thesis unfolding claimed_def by blast
qed

lemma reverify_dissents_sound:
  assumes "(oid, True) \<in> set (rv_orders (fst (reverify_dissents p lookup bench pull inc budget)))"
    and "bench \<in> benches" "wf_dict (vp_responses p)"
  shows "vp_assignments p \<noteq> [] \<and> claimed p oid \<and> reproduced benches (hd (vp_assignments p)) oid"
proof (cases "vp_assignments p")
  case Nil
  with assms(1) show ?thesis by (simp add: reverify_dissents_def empty_reverify_def)
next
  case (Cons a0 as)
  let ?planned = "planned_violations p inc budget"
  let ?orders = "List.map_filter (\<lambda>v. lookup (sv_order_id v)) ?planned"
  let ?run = "reverify_chains bench a0 ?orders (sort_key show_int (remdups (map co_chain_id ?orders))) [] []"
  obtain conf ben where run: "?run = Some (conf, ben)" and o: "(oid, True) \<in> set (map (\<lambda>v. (sv_order_id v, sv_order_id v \<in> set conf)) ?planned)"
    using assms(1) Cons by (auto simp: reverify_dissents_def empty_reverify_def Let_def split: if_splits option.splits)
  from o obtain w where w: "w \<in> set ?planned" "sv_order_id w = oid" "oid \<in> set conf" by auto
  have "reproduced benches a0 oid" using reverify_chains_sound [OF run assms(2)] w(3) by simp
  with planned_claimed [OF w(1) assms(3)] w(2) Cons show ?thesis by simp
qed

lemma foldl_update_in:
  "(k, v) \<in> set (foldl (\<lambda>d (k, v). AList.update k v d) d es) \<Longrightarrow> (k, v) \<in> set d \<or> (k, v) \<in> set es"
proof (induction es arbitrary: d)
  case (Cons e es)
  obtain k' v' where e: "e = (k', v')" by fastforce
  from Cons.IH [of "AList.update k' v' d"] Cons.prems e have "(k, v) \<in> set (AList.update k' v' d) \<or> (k, v) \<in> set es" by simp
  then show ?case using in_update [of k v k' v' d] e by auto
qed simp

lemma merge_orders_in:
  assumes "(oid, b) \<in> set (rv_orders (merge_reverify_results prev new))"
  shows "(\<exists>r. prev = Some r \<and> (oid, b) \<in> set (rv_orders r)) \<or> (\<exists>r. new = Some r \<and> (oid, b) \<in> set (rv_orders r))"
  using foldl_update_in [of oid b] assms
  by (fastforce simp: merge_reverify_results_def Let_def empty_reverify_def split: option.splits)

lemma merge_confirmed:
  "rv_confirmed (merge_reverify_results prev new) = length (filter snd (rv_orders (merge_reverify_results prev new)))"
  by (simp add: merge_reverify_results_def Let_def)

section \<open>Runs of the coordinator for one round\<close>

text \<open>
  Responses are recorded (validated, the first of a validator stands), endpoints marked unsupported, the streaming
  step runs at any epoch, and a running re-verification completes with the result of \<open>reverify_dissents\<close> on the phase
  it was started for, with any benchmark of \<open>benches\<close>, or raises.
\<close>

inductive veto_run :: "(string \<Rightarrow> string) \<Rightarrow> bench_fun set \<Rightarrow> string \<Rightarrow> veto_round \<Rightarrow> bool"
  for sha256 :: "string \<Rightarrow> string" and benches :: "bench_fun set" and rid :: string where
  opened: "vp_responses p = [] \<Longrightarrow> veto_run sha256 benches rid (open_veto_round p sends)"
| answered: "veto_run sha256 benches rid d \<Longrightarrow> map_of (vp_responses (vd_phase d)) evm = None \<Longrightarrow>
    assignment_for (vd_phase d) evm = Some a \<Longrightarrow> validate_response sha256 r a = None \<Longrightarrow>
    veto_run sha256 benches rid (d\<lparr>vd_phase := (vd_phase d)\<lparr>vp_responses := AList.update evm r (vp_responses (vd_phase d))\<rparr>\<rparr>)"
| unsupported: "veto_run sha256 benches rid d \<Longrightarrow>
    veto_run sha256 benches rid (d\<lparr>vd_phase := (vd_phase d)\<lparr>vp_unsupported := vp_unsupported (vd_phase d) @ [evm]\<rparr>\<rparr>)"
| ticked: "veto_run sha256 benches rid d \<Longrightarrow> veto_run sha256 benches rid (veto_stream_step sha256 on rid now d)"
| reverified: "veto_run sha256 benches rid d \<Longrightarrow> vd_inflight d = Some (inc, p) \<Longrightarrow> bench \<in> benches \<Longrightarrow>
    veto_run sha256 benches rid (reverify_complete rid
      (Some (reverify_dissents p lookup bench pull (Some inc) VETO_VERIFY_BUDGET_ORDERS)) d)"
| raised: "veto_run sha256 benches rid d \<Longrightarrow> veto_run sha256 benches rid (reverify_complete rid None d)"

definition substantiated :: "bench_fun set \<Rightarrow> veto_phase \<Rightarrow> string \<Rightarrow> bool" where
  "substantiated benches p oid \<longleftrightarrow> vp_assignments p \<noteq> [] \<and> claimed p oid \<and> reproduced benches (hd (vp_assignments p)) oid"

definition phase_le :: "veto_phase \<Rightarrow> veto_phase \<Rightarrow> bool" where
  "phase_le p q \<longleftrightarrow> vp_assignments p = vp_assignments q \<and> map_of (vp_responses p) \<subseteq>\<^sub>m map_of (vp_responses q)"

lemma substantiated_mono: "substantiated benches p oid \<Longrightarrow> phase_le p q \<Longrightarrow> substantiated benches q oid"
  unfolding substantiated_def phase_le_def claimed_def map_le_def by (metis domI)

definition round_ok :: "bench_fun set \<Rightarrow> veto_round \<Rightarrow> bool" where
  "round_ok benches d \<longleftrightarrow> wf_dict (vp_responses (vd_phase d))
     \<and> (\<forall>inc p. vd_inflight d = Some (inc, p) \<longrightarrow> wf_dict (vp_responses p) \<and> phase_le p (vd_phase d))
     \<and> (\<forall>r. vd_result d = Some r \<longrightarrow> rv_confirmed r = length (filter snd (rv_orders r))
          \<and> (\<forall>oid. (oid, True) \<in> set (rv_orders r) \<longrightarrow> substantiated benches (vd_phase d) oid))
     \<and> (snd (snd (observe_view (vd_observe d))) = Some True \<longrightarrow> (\<exists>oid. substantiated benches (vd_phase d) oid))"

lemma round_ok_phase:
  assumes "round_ok benches d" "phase_le (vd_phase d) q" "wf_dict (vp_responses q)"
  shows "round_ok benches (d\<lparr>vd_phase := q\<rparr>)"
proof -
  have "phase_le p q" if "phase_le p (vd_phase d)" for p
    using that assms(2) by (auto simp: phase_le_def intro: map_le_trans)
  then show ?thesis
    using assms substantiated_mono [OF _ assms(2), of benches] by (fastforce simp: round_ok_def)
qed

lemma confirmed_substantiated:
  assumes "round_ok benches d" "vd_result d = Some r" "rv_confirmed r > 0"
  shows "\<exists>oid. substantiated benches (vd_phase d) oid"
proof -
  have "filter snd (rv_orders r) \<noteq> []" using assms unfolding round_ok_def by auto
  then obtain x where "x \<in> set (rv_orders r)" "snd x" by (auto simp: filter_empty_conv)
  then have "(fst x, True) \<in> set (rv_orders r)" by (metis prod.collapse)
  then show ?thesis using assms(1,2) unfolding round_ok_def by blast
qed

lemma finish_round_ok:
  assumes "round_ok benches d" "rv = None \<or> rv = vd_result d"
  shows "round_ok benches (finish_round rid res rv d)"
proof -
  let ?p = "(vd_phase d)\<lparr>vp_resolved := True, vp_resolution := Some res\<rparr>"
  have le: "phase_le (vd_phase d) ?p" by (simp add: phase_le_def)
  have ok: "round_ok benches (d\<lparr>vd_phase := ?p\<rparr>)"
    using assms(1) by (intro round_ok_phase le) (simp_all add: round_ok_def)
  have "\<exists>oid. substantiated benches ?p oid"
    if "os_would_gate_confirmed (make_observe_summary rid ?p res rv) = Some True"
  proof -
    from that obtain r where "rv = Some r" "rv_confirmed r > 0"
      by (auto simp: make_observe_summary_def Let_def split: if_splits option.splits)
    moreover from this assms(2) have "vd_result d = Some r" by auto
    ultimately obtain oid where "substantiated benches (vd_phase d) oid" using confirmed_substantiated [OF assms(1)] by blast
    from substantiated_mono [OF this le] show ?thesis ..
  qed
  with ok show ?thesis
    by (simp add: round_ok_def finish_round_def Let_def observe_view_def)
qed

lemma stream_step_ok:
  assumes "round_ok benches d"
  shows "round_ok benches (veto_stream_step sha256 on rid now d)"
proof (cases "vd_done d")
  case False
  have s: "round_ok benches (d\<lparr>vd_inflight := Some (inc, vd_phase d)\<rparr>)" for inc
    using assms by (auto simp: round_ok_def phase_le_def)
  show ?thesis
    using False assms s by (auto simp: veto_stream_step_def Let_def split: prod.split stream_action.split intro!: finish_round_ok)
qed (use assms in \<open>simp add: veto_stream_step_def\<close>)

lemma reverify_complete_ok:
  assumes "round_ok benches d" "vd_inflight d = Some (inc, p)"
    and "\<And>rv b oid. outcome = Some (rv, b) \<Longrightarrow> (oid, True) \<in> set (rv_orders rv) \<Longrightarrow> substantiated benches p oid"
  shows "round_ok benches (reverify_complete rid outcome d)"
proof -
  let ?r = "merge_reverify_results (vd_result d) (map_option fst outcome)"
  let ?cov = "\<lambda>benched. vd_covered d @ newly_covered (vd_phase d) inc benched"
  have le: "phase_le p (vd_phase d)" using assms(1,2) by (simp add: round_ok_def)
  have "substantiated benches (vd_phase d) oid" if "(oid, True) \<in> set (rv_orders ?r)" for oid
    using merge_orders_in [OF that]
  proof
    assume "\<exists>r. vd_result d = Some r \<and> (oid, True) \<in> set (rv_orders r)"
    then show ?thesis using assms(1) by (auto simp: round_ok_def)
  next
    assume "\<exists>r. map_option fst outcome = Some r \<and> (oid, True) \<in> set (rv_orders r)"
    then show ?thesis using assms(3) substantiated_mono [OF _ le] by fastforce
  qed
  then have ok: "round_ok benches (d\<lparr>vd_inflight := None, vd_result := Some ?r, vd_covered := ?cov benched\<rparr>)" for benched
    using assms(1) merge_confirmed by (auto simp: round_ok_def)
  show ?thesis
    using ok assms(2) by (auto simp: reverify_complete_def Let_def intro!: finish_round_ok)
qed

lemma reverify_idle: "vd_inflight d = None \<Longrightarrow> reverify_complete rid outcome d = d"
  by (simp add: reverify_complete_def)

lemma veto_run_ok: "veto_run sha256 benches rid d \<Longrightarrow> round_ok benches d"
proof (induction rule: veto_run.induct)
  case (opened p sends)
  then show ?case by (simp add: round_ok_def open_veto_round_def observe_view_def)
next
  case (answered d evm a r)
  have "map_of (vp_responses (vd_phase d)) \<subseteq>\<^sub>m map_of (AList.update evm r (vp_responses (vd_phase d)))"
    using answered.hyps(2) by (auto simp: update_conv' map_le_def)
  then show ?case
    using answered.IH by (intro round_ok_phase) (simp_all add: phase_le_def round_ok_def distinct_update)
next
  case (unsupported d evm)
  then show ?case by (intro round_ok_phase) (simp_all add: phase_le_def round_ok_def)
next
  case (ticked d on now)
  then show ?case by (intro stream_step_ok)
next
  case (reverified d inc p bench lookup pull)
  have "wf_dict (vp_responses p)" using reverified.IH reverified.hyps(2) by (simp add: round_ok_def)
  note wf = this
  show ?case
  proof (rule reverify_complete_ok [OF reverified.IH reverified.hyps(2)])
    fix rv b oid
    assume "Some (reverify_dissents p lookup bench pull (Some inc) VETO_VERIFY_BUDGET_ORDERS) = Some (rv, b)"
      "(oid, True) \<in> set (rv_orders rv)"
    then have "(oid, True) \<in> set (rv_orders (fst (reverify_dissents p lookup bench pull (Some inc) VETO_VERIFY_BUDGET_ORDERS)))"
      by simp
    from reverify_dissents_sound [OF this reverified.hyps(3) wf] show "substantiated benches p oid"
      by (simp add: substantiated_def)
  qed
next
  case (raised d)
  show ?case
  proof (cases "vd_inflight d")
    case None
    then show ?thesis using raised.IH by (simp add: reverify_idle)
  next
    case (Some ip)
    obtain inc p where "ip = (inc, p)" by fastforce
    with Some reverify_complete_ok [OF raised.IH, of inc p None rid] show ?thesis by simp
  qed
qed

text \<open>
  Claim C3: A false veto cannot reject a challenger. Whenever the certification gate aborts a round, enforcement is hard and
  some order was both claimed in a validated follower's veto and reproduced as a hard violation by the leader's own
  benchmark of the two images at the pinned block; a raw claim alone never aborts. And the gate never holds a
  round for good: it holds only up to two epochs before the decision deadline.
\<close>

theorem veto_gate_aborts_only_reproduced:
  assumes "veto_run sha256 benches rid d"
  shows "(certify_gate mode rv now ddl phase_exists has_peers (vd_observe d) = Abort_Veto \<longrightarrow>
      mode = Enforce_Hard
      \<and> (\<exists>oid evm r. map_of (vp_responses (vd_phase d)) evm = Some r \<and> vr_verdict r = Some VERDICT_VETO
          \<and> oid \<in> sv_order_id ` set (vr_violations r)
          \<and> reproduced benches (hd (vp_assignments (vd_phase d))) oid))
    \<and> (certify_gate mode rv now ddl phase_exists has_peers (vd_observe d) = Hold \<longrightarrow>
        mode \<noteq> Enforce_Off \<and> (\<exists>deadline. ddl = Some deadline \<and> now \<le> deadline - 2))"
proof -
  have g: "snd (snd (observe_view (vd_observe d))) = Some True \<and> mode = Enforce_Hard"
    if "certify_gate mode rv now ddl phase_exists has_peers (vd_observe d) = Abort_Veto"
    using that by (auto simp: certify_gate_def veto_gate_decision_def Let_def
      split: if_splits option.splits prod.splits gate.splits)
  have "\<exists>oid. substantiated benches (vd_phase d) oid"
    if "certify_gate mode rv now ddl phase_exists has_peers (vd_observe d) = Abort_Veto"
    using g [OF that] veto_run_ok [OF assms] by (simp add: round_ok_def)
  moreover have "mode \<noteq> Enforce_Off \<and> (\<exists>deadline. ddl = Some deadline \<and> now \<le> deadline - 2)"
    if "certify_gate mode rv now ddl phase_exists has_peers (vd_observe d) = Hold"
    using that by (auto simp: certify_gate_def veto_gate_decision_def Let_def
      split: if_splits option.splits prod.splits gate.splits)
  ultimately show ?thesis using g unfolding substantiated_def claimed_def by blast
qed

text \<open>A run in which the leader reproduces the claim of a follower.\<close>

definition demo_phase :: veto_phase where
  "demo_phase = sample_phase\<lparr>vp_assignments := [demo_assignment], vp_responses := [], vp_unsupported := []\<rparr>"

definition demo_answered :: veto_round where
  "demo_answered = (open_veto_round demo_phase no_phases)\<lparr>vd_phase := demo_phase\<lparr>vp_responses := [(''0xa'', sample_response)]\<rparr>\<rparr>"

definition demo_running :: veto_round where
  "demo_running = veto_stream_step rev True ''round-e1-n1'' 1 demo_answered"

definition demo_blocked :: veto_round where
  "demo_blocked = reverify_complete ''round-e1-n1'' (Some (reverify_dissents (vd_phase demo_answered) (Some \<circ> demo_order)
     demo_bench (\<lambda>_. True) (Some [''0xa'']) VETO_VERIFY_BUDGET_ORDERS)) demo_running"

lemma demo_run_running: "veto_run rev {demo_bench} ''round-e1-n1'' demo_running"
proof -
  have v: "validate_response rev sample_response demo_assignment = None" "assignment_for demo_phase ''0xa'' = Some demo_assignment"
    by code_simp+
  have "veto_run rev {demo_bench} ''round-e1-n1'' (open_veto_round demo_phase no_phases)"
    by (rule veto_run.opened) (simp add: demo_phase_def)
  from veto_run.answered [OF this, of "''0xa''" demo_assignment sample_response] v
  have "veto_run rev {demo_bench} ''round-e1-n1'' demo_answered"
    by (simp add: demo_answered_def open_veto_round_def demo_phase_def)
  then show ?thesis unfolding demo_running_def by (rule veto_run.ticked)
qed

lemma demo_run: "veto_run rev {demo_bench} ''round-e1-n1'' demo_blocked"
proof -
  have i: "vd_inflight demo_running = Some ([''0xa''], vd_phase demo_answered)" by code_simp
  show ?thesis
    unfolding demo_blocked_def by (rule veto_run.reverified [OF demo_run_running i]) simp
qed

theorem veto_gate_aborts_only_reproduced_witness:
  "certify_gate Enforce_Hard True 1 (Some 9) True True (vd_observe demo_blocked) = Abort_Veto
   \<and> (\<exists>oid. reproduced {demo_bench} (hd (vp_assignments (vd_phase demo_blocked))) oid)
   \<and> certify_gate Enforce_Hard True 8 (Some 9) True True (vd_observe demo_running) \<noteq> Hold"
proof -
  have b: "certify_gate Enforce_Hard True 1 (Some 9) True True (vd_observe demo_blocked) = Abort_Veto" by code_simp
  have "\<exists>oid. reproduced {demo_bench} (hd (vp_assignments (vd_phase demo_blocked))) oid"
    using veto_gate_aborts_only_reproduced [OF demo_run, of Enforce_Hard True 1 "Some 9" True True] b by blast
  moreover have "certify_gate Enforce_Hard True 8 (Some 9) True True (vd_observe demo_running) \<noteq> Hold"
    using conjunct2 [OF veto_gate_aborts_only_reproduced [OF demo_run_running, of Enforce_Hard True 8 "Some 9" True True]] by simp
  ultimately show ?thesis using b by blast
qed

section \<open>Streaming\<close>

text \<open>
  Property: The streaming step finishes a round without a confirmed violation only on complete evidence: while re-verification is
  enabled and some follower vetoes, the record is written exactly when the phase resolves, no re-verification is running,
  every vetoing follower is covered and a result has landed. A confirmed violation is written at once, and a round without
  a veto is finished as soon as the phase resolves.
\<close>

theorem stream_finishes_on_full_coverage:
  assumes "\<not> vd_done d"
  shows "vd_done (veto_stream_step sha256 on rid now d) \<longleftrightarrow>
    (if confirmed_result d then True
     else if \<not> on \<or> veto_responders (vd_phase d) = [] then fst (resolve_phase sha256 (vd_phase d) now) = Action_Resolve
     else fst (resolve_phase sha256 (vd_phase d) now) = Action_Resolve \<and> vd_inflight d = None
       \<and> set (veto_responders (vd_phase d)) \<subseteq> set (vd_covered d) \<and> vd_result d \<noteq> None)"
proof -
  have f: "vd_done (finish_round rid res rv d)" for res rv by (simp add: finish_round_def Let_def)
  have u: "filter (\<lambda>evm. evm \<notin> set (vd_covered d)) (veto_responders (vd_phase d)) = []
      \<longleftrightarrow> set (veto_responders (vd_phase d)) \<subseteq> set (vd_covered d)" by (auto simp: filter_empty_conv)
  obtain act res where r: "resolve_phase sha256 (vd_phase d) now = (act, res)" by fastforce
  show ?thesis
    using assms f unfolding veto_stream_step_def Let_def r u
    by (cases "vd_inflight d") (auto simp: veto_stream_action_def split: stream_action.splits)
qed

theorem stream_finishes_on_full_coverage_witness:
  "vd_done (veto_stream_step rev True ''round-e1-n1'' 9 demo_running) = False
   \<and> vd_inflight demo_running \<noteq> None \<and> confirmed_result demo_running = False"
proof -
  have "\<not> vd_done demo_running \<and> vd_inflight demo_running \<noteq> None \<and> \<not> confirmed_result demo_running
    \<and> veto_responders (vd_phase demo_running) \<noteq> []" by code_simp
  then have d: "\<not> vd_done demo_running" "vd_inflight demo_running \<noteq> None" "\<not> confirmed_result demo_running"
    "veto_responders (vd_phase demo_running) \<noteq> []" by simp_all
  show ?thesis using stream_finishes_on_full_coverage [OF d(1), of rev True "''round-e1-n1''" 9] d by simp
qed

text \<open>
  Property: The deadline of a phase lies after the current epoch and at most 20 epochs later, but it is interior to the decision
  deadline only when the phase is opened early enough: one opened in or after the last epoch before the decision deadline gets
  a deadline that is not below it.
\<close>

theorem phase_deadline_interior_only_if_early:
  "now < veto_phase_deadline now ddl \<and> veto_phase_deadline now ddl \<le> now + 20
   \<and> (\<forall>dl. ddl = Some dl \<longrightarrow> (veto_phase_deadline now ddl < dl \<longleftrightarrow> now + 1 < dl))"
  by (auto simp: veto_phase_deadline_def Let_def split: option.split)

theorem phase_deadline_interior_only_if_early_witness:
  "veto_phase_deadline 5 (Some 30) = 25 \<and> \<not> veto_phase_deadline 5 (Some 6) < 6"
  using phase_deadline_interior_only_if_early [of 5 "Some 6"] by (simp add: veto_phase_deadline_def)

definition crowded_phase :: veto_phase where
  "crowded_phase = sample_phase\<lparr>vp_responses := [(''0xa'', sample_response\<lparr>vr_violations :=
     map (\<lambda>n. claim (show_nat n) VIOLATION_DROPPED None None) [0..<25]\<rparr>)]\<rparr>"

text \<open>
  Property: The report of a round can omit the order that blocked it: the violations are cut at 24 before they are sorted with the
  confirmed ones first, so with 25 claimed orders the only confirmed one can be missing.
\<close>

theorem report_can_omit_confirmed_order:
  "let s = make_observe_summary ''r'' crowded_phase RESOLUTION_ALL_TERMINAL
        (Some \<lparr>rv_ran = True, rv_planned = 1, rv_confirmed = 1, rv_discarded = 0, rv_orders = [(''24'', True)]\<rparr>)
   in os_would_gate_confirmed s = Some True \<and> length (os_violations s) = 24 \<and> list_all (\<lambda>(v, c). \<not> c) (os_violations s)"
  by code_simp

end
