(* ===== verification/Weights.thy ===== *)
theory Weights
  imports Py_Prelude
begin

text \<open>
  Emission weights. The first section models \<open>weight_policy.py\<close> (who is paid: the champion's fixed
  share, the remainder to the subnet owner), the second \<open>validator/weight_policy.py\<close>
  (\<open>ChampionWeights\<close>, the local epoch clock) and the third \<open>validator/weights_emitter.py\<close>
  (hotkeys to UIDs, normalisation, submission and reconnection). A weight is an exact real; the
  environment variables, the clock readings, the metagraph and the chain client are arguments.

  The locale \<open>emission_policy\<close> is the interface between the policies and the emitter: a policy
  yields non-negative weights with distinct hotkeys that sum to one, and the emitter turns every such
  mapping into the distribution it stands for.
\<close>

type_synonym weights = "(string \<times> real) list"

section \<open>Policy\<close>

definition GENESIS_HOTKEY :: string where "GENESIS_HOTKEY = ''__genesis__''"

definition get_subnet_owner_hotkey :: "string option \<Rightarrow> string option \<Rightarrow> string" where
  "get_subnet_owner_hotkey subnet_owner owner =
     (let a = strip (or_empty subnet_owner) in if a \<noteq> [] then a else strip (or_empty owner))"

text \<open>The answer of the chain query: it raises, is \<open>None\<close>, or is an object with a \<open>value\<close> attribute
  (\<open>None\<close> when absent) and a rendering as text.\<close>

datatype owner_query = Query_Raised | No_Answer | Answer "string option" string

definition lookup_subnet_owner_from_chain :: "owner_query \<Rightarrow> string" where
  "lookup_subnet_owner_from_chain q =
     (case q of Query_Raised \<Rightarrow> [] | No_Answer \<Rightarrow> []
      | Answer value text \<Rightarrow> strip (case value of None \<Rightarrow> text | Some v \<Rightarrow> v))"

definition resolve_subnet_owner_hotkey :: "owner_query option \<Rightarrow> string \<Rightarrow> string" where
  "resolve_subnet_owner_hotkey chain env_owner =
     (case chain of None \<Rightarrow> env_owner
      | Some q \<Rightarrow> let chain_owner = lookup_subnet_owner_from_chain q in
          if chain_owner \<noteq> [] then chain_owner else env_owner)"

definition is_real_miner_hotkey :: "string option \<Rightarrow> bool" where
  "is_real_miner_hotkey hotkey = (let value = strip (or_empty hotkey) in value \<noteq> [] \<and> value \<noteq> GENESIS_HOTKEY)"

definition CHAMPION_MINER_WEIGHT_FRACTION :: real where
  "CHAMPION_MINER_WEIGHT_FRACTION = 75 / 100"

text \<open>\<open>env_owner\<close> is \<open>get_subnet_owner_hotkey()\<close>.\<close>

definition owner_or_env :: "string \<Rightarrow> string option \<Rightarrow> string" where
  "owner_or_env env_owner owner_hotkey =
     (let a = strip (or_empty owner_hotkey) in if a \<noteq> [] then a else env_owner)"

definition clamp_fraction :: "real option \<Rightarrow> real" where
  "clamp_fraction miner_fraction =
     min 1 (max 0 (case miner_fraction of None \<Rightarrow> CHAMPION_MINER_WEIGHT_FRACTION | Some f \<Rightarrow> f))"

definition apply_champion_burn_ramp :: "string \<Rightarrow> weights \<Rightarrow> string option \<Rightarrow> real option \<Rightarrow> weights" where
  "apply_champion_burn_ramp env_owner miner_weights owner_hotkey miner_fraction =
     (if miner_weights = [] then miner_weights
      else
        let fraction = clamp_fraction miner_fraction;
            owner = owner_or_env env_owner owner_hotkey in
        if owner = [] then miner_weights
        else
          let miners = filter (\<lambda>(hk, w). hk \<noteq> owner) miner_weights;
              total = sum_list (vals_of miners) in
          if miners = [] then [(owner, 1)]
          else if total \<le> 0 then [(owner, 1)]
          else AList.update owner (1 - fraction) (map (\<lambda>(hk, w). (hk, w / total * fraction)) miners))"

definition build_bootstrap_or_champion_weights :: "string \<Rightarrow> string option \<Rightarrow> string option \<Rightarrow> weights" where
  "build_bootstrap_or_champion_weights env_owner champion_hotkey owner_hotkey =
     (if is_real_miner_hotkey champion_hotkey
      then apply_champion_burn_ramp env_owner [(strip (or_empty champion_hotkey), 1)] owner_hotkey None
      else
        let owner = owner_or_env env_owner owner_hotkey in
        if owner \<noteq> [] then [(owner, 1)] else [])"

section \<open>The local epoch clock\<close>

text \<open>Every call of \<open>time.time()\<close> reads the next value of \<open>clock\<close>.\<close>

record epoch_entry =
  ee_start :: real
  ee_end :: real
  ee_champion :: "string option"
  ee_weights :: weights

record champion_weights =
  cw_epoch_seconds :: int
  cw_owner_hotkey :: string
  cw_epoch_start :: real
  cw_history :: "epoch_entry list"
  cw_last_empty_warn_at :: real

definition new_champion_weights :: "int \<Rightarrow> string option \<Rightarrow> (nat \<Rightarrow> real) \<Rightarrow> champion_weights" where
  "new_champion_weights epoch_seconds owner_hotkey clock =
     \<lparr>cw_epoch_seconds = epoch_seconds, cw_owner_hotkey = strip (or_empty owner_hotkey),
      cw_epoch_start = clock 0, cw_history = [], cw_last_empty_warn_at = 0\<rparr>"

definition seed_epoch_clock_from_last_emit :: "real \<Rightarrow> (nat \<Rightarrow> real) \<Rightarrow> champion_weights \<Rightarrow> champion_weights" where
  "seed_epoch_clock_from_last_emit seconds_since_last_emit clock cw =
     cw\<lparr>cw_epoch_start := clock 0 - max 0 seconds_since_last_emit\<rparr>"

definition get_weights :: "string \<Rightarrow> string option \<Rightarrow> champion_weights \<Rightarrow> weights" where
  "get_weights env_owner champion_miner_id cw =
     build_bootstrap_or_champion_weights env_owner champion_miner_id (Some (cw_owner_hotkey cw))"

definition close_epoch_now ::
  "string \<Rightarrow> string option \<Rightarrow> (nat \<Rightarrow> real) \<Rightarrow> champion_weights \<Rightarrow> weights option \<times> champion_weights" where
  "close_epoch_now env_owner champion_miner_id clock cw =
     (let w = get_weights env_owner champion_miner_id cw in
      if w = [] then
        (None, if clock 0 - cw_last_empty_warn_at cw > 300 then cw\<lparr>cw_last_empty_warn_at := clock 1\<rparr> else cw)
      else
        (Some w, cw\<lparr>cw_history := cw_history cw @
             [\<lparr>ee_start = cw_epoch_start cw, ee_end = clock 0, ee_champion = champion_miner_id, ee_weights = w\<rparr>],
           cw_epoch_start := clock 1\<rparr>))"

definition maybe_emit ::
  "string \<Rightarrow> string option \<Rightarrow> (nat \<Rightarrow> real) \<Rightarrow> champion_weights \<Rightarrow> weights option \<times> champion_weights" where
  "maybe_emit env_owner champion_miner_id clock cw =
     (if clock 0 - cw_epoch_start cw < of_int (cw_epoch_seconds cw) then (None, cw)
      else close_epoch_now env_owner champion_miner_id (\<lambda>n. clock (Suc n)) cw)"

section \<open>The emitter\<close>

definition hotkey_to_uid :: "string list \<Rightarrow> (string \<times> nat) list" where
  "hotkey_to_uid hotkeys = foldl (\<lambda>d (uid, hk). AList.update hk uid d) [] (enumerate 0 hotkeys)"

definition weight_at :: "('k \<times> real) list \<Rightarrow> 'k \<Rightarrow> real" where
  "weight_at d k = (case map_of d k of None \<Rightarrow> 0 | Some w \<Rightarrow> w)"

definition target_uid :: "string list \<Rightarrow> string \<Rightarrow> string \<Rightarrow> nat option" where
  "target_uid hotkeys owner_hotkey hotkey =
     (case map_of (hotkey_to_uid hotkeys) hotkey of
        Some uid \<Rightarrow> Some uid
      | None \<Rightarrow> if owner_hotkey = [] then None else map_of (hotkey_to_uid hotkeys) owner_hotkey)"

definition route_weight :: "string list \<Rightarrow> string \<Rightarrow> (nat \<times> real) list \<Rightarrow> string \<times> real \<Rightarrow> (nat \<times> real) list" where
  "route_weight hotkeys owner_hotkey uid_weight = (\<lambda>(hotkey, weight).
     case target_uid hotkeys owner_hotkey hotkey of
       None \<Rightarrow> uid_weight
     | Some uid \<Rightarrow> AList.update uid (weight_at uid_weight uid + weight) uid_weight)"

text \<open>The UIDs and normalised weights that are submitted, \<open>None\<close> when no hotkey has a target.\<close>

definition emission :: "string list \<Rightarrow> string \<Rightarrow> weights \<Rightarrow> (nat \<times> real) list option" where
  "emission hotkeys owner_hotkey weights_mapping =
     (let uid_weight = foldl (route_weight hotkeys owner_hotkey) [] weights_mapping;
          total = sum_list (vals_of uid_weight) in
      if uid_weight = [] then None
      else Some (if total > 0 then map (\<lambda>(u, w). (u, w / total)) uid_weight
                 else map (\<lambda>(u, w). (u, 1 / real (length uid_weight))) uid_weight))"

text \<open>The chain client: reading the metagraph and setting the weights may raise, as may connecting.\<close>

record 'c chain_api =
  metagraph_hotkeys :: "'c \<Rightarrow> string list res"
  set_weights :: "'c \<Rightarrow> (nat \<times> real) list \<Rightarrow> bool res"
  connect :: "string \<Rightarrow> 'c res"

record 'c emitter =
  em_subtensor :: 'c
  em_subtensor_url :: "string option"

definition emit_blocking :: "'c chain_api \<Rightarrow> string \<Rightarrow> weights \<Rightarrow> 'c \<Rightarrow> bool res" where
  "emit_blocking api owner_hotkey weights_mapping client =
     res_bind (metagraph_hotkeys api client) (\<lambda>hotkeys.
       case emission hotkeys owner_hotkey weights_mapping of
         None \<Rightarrow> Inr False
       | Some uw \<Rightarrow> set_weights api client uw)"

definition reconnect_subtensor :: "'c chain_api \<Rightarrow> 'c emitter \<Rightarrow> 'c emitter" where
  "reconnect_subtensor api em =
     (case em_subtensor_url em of
        None \<Rightarrow> em
      | Some url \<Rightarrow> if url = [] then em
          else case connect api url of Inl _ \<Rightarrow> em | Inr client \<Rightarrow> em\<lparr>em_subtensor := client\<rparr>)"

definition emit_async :: "'c chain_api \<Rightarrow> string \<Rightarrow> weights \<Rightarrow> 'c emitter \<Rightarrow> bool \<times> 'c emitter" where
  "emit_async api owner_hotkey weights_mapping em =
     (if weights_mapping = [] then (False, em)
      else case emit_blocking api owner_hotkey weights_mapping (em_subtensor em) of
        Inr ok \<Rightarrow> (ok, em)
      | Inl _ \<Rightarrow> (False, reconnect_subtensor api em))"


section \<open>The ramp\<close>

lemma sum_scaled: "sum_list (vals_of (map (\<lambda>(k, w). (k, w / t * f)) d)) = sum_list (vals_of d) / t * (f::real)"
  by (induction d) (auto simp: add_divide_distrib distrib_right)

lemma weight_at_update: "weight_at (AList.update k x d) k' = (if k' = k then x else weight_at d k')"
  by (simp add: weight_at_def dict_simps)

lemma weight_at_append: "k \<notin> set (keys_of d) \<Longrightarrow> weight_at (d @ [(k, x)]) k' = (if k' = k then x else weight_at d k')"
  by (induction d) (auto simp: weight_at_def)

lemma weight_at_miners:
  "weight_at (map (\<lambda>(hk, w). (hk, w / t * f)) (filter (\<lambda>(hk, w). hk \<noteq> ow) d)) hk
     = (if hk = ow then 0 else weight_at d hk / t * f)"
  by (induction d) (auto simp: weight_at_def)

lemma wf_filter_keys: "wf_dict d \<Longrightarrow> wf_dict (map (\<lambda>(hk, w). (hk, g w)) (filter P d))"
  by (induction d) (auto simp: image_iff)

definition miner_total :: "string \<Rightarrow> weights \<Rightarrow> real" where
  "miner_total ow w = sum_list (vals_of (filter (\<lambda>(hk, w). hk \<noteq> ow) w))"

lemma ramp_eq:
  assumes "w \<noteq> []" "owner_or_env env o1 = ow" "ow \<noteq> []"
  shows "apply_champion_burn_ramp env w o1 f =
    (if 0 < miner_total ow w
     then map (\<lambda>(hk, x). (hk, x / miner_total ow w * clamp_fraction f)) (filter (\<lambda>(hk, x). hk \<noteq> ow) w) @ [(ow, 1 - clamp_fraction f)]
     else [(ow, 1)])"
proof -
  have "ow \<notin> set (keys_of (map (\<lambda>(hk, x). (hk, x / miner_total ow w * clamp_fraction f)) (filter (\<lambda>(hk, x). hk \<noteq> ow) w)))" by auto
  from update_fresh [OF this] show ?thesis
    using assms by (auto simp: apply_champion_burn_ramp_def Let_def miner_total_def)
qed

lemma clamp_fraction_bounds: "0 \<le> clamp_fraction f" "clamp_fraction f \<le> 1"
  by (simp_all add: clamp_fraction_def)

lemma miner_total_nonneg: "(\<And>hk x. (hk, x) \<in> set w \<Longrightarrow> 0 \<le> x) \<Longrightarrow> 0 \<le> miner_total ow w"
  unfolding miner_total_def by (rule sum_list_nonneg) auto

definition distribution :: "('k \<times> real) list \<Rightarrow> bool" where
  "distribution d \<longleftrightarrow> wf_dict d \<and> (\<forall>(k, x) \<in> set d. 0 \<le> x) \<and> sum_list (vals_of d) = 1"

lemma ramp_distribution:
  assumes "wf_dict w" "\<forall>(hk, x) \<in> set w. 0 \<le> x" "w \<noteq> []" "owner_or_env env o1 \<noteq> []"
  shows "distribution (apply_champion_burn_ramp env w o1 f)"
proof -
  let ?ow = "owner_or_env env o1"
  show ?thesis
  proof (cases "0 < miner_total ?ow w")
    case True
    let ?s = "map (\<lambda>(hk, x). (hk, x / miner_total ?ow w * clamp_fraction f)) (filter (\<lambda>(hk, x). hk \<noteq> ?ow) w)"
    have r: "apply_champion_burn_ramp env w o1 f = ?s @ [(?ow, 1 - clamp_fraction f)]"
      using True by (simp only: ramp_eq [OF assms(3) refl assms(4)] if_True)
    have "sum_list (vals_of ?s) = clamp_fraction f"
      unfolding sum_scaled using True by (simp add: miner_total_def)
    moreover have "wf_dict ?s" using assms(1) by (rule wf_filter_keys)
    moreover have "\<forall>(k, x) \<in> set ?s. 0 \<le> x"
      using assms(2) True clamp_fraction_bounds(1) [of f] by auto
    ultimately show ?thesis
      unfolding r distribution_def using clamp_fraction_bounds(2) [of f] by auto
  next
    case False
    then show ?thesis by (simp add: ramp_eq [OF assms(3) refl assms(4)] distribution_def)
  qed
qed

text \<open>
  Property: The champion ramp yields a distribution: hotkeys occur once, weights are non-negative and sum to one. If the
  miners other than the owner have a positive total, they share exactly the (clamped) miner fraction in
  the proportion of their weights and the owner gets exactly the rest, whatever weight the owner
  itself had; otherwise the owner gets everything.
\<close>

theorem burn_ramp_splits_exactly:
  assumes "wf_dict w" "\<forall>(hk, x) \<in> set w. 0 \<le> x" "w \<noteq> []"
    and "owner = owner_or_env env o1" "owner \<noteq> []"
    and "r = apply_champion_burn_ramp env w o1 f" "t = (\<Sum>(hk, x) \<leftarrow> w. if hk = owner then 0 else x)"
  shows "distribution r
    \<and> (0 < t \<longrightarrow> weight_at r owner = 1 - clamp_fraction f
        \<and> (\<forall>hk. hk \<noteq> owner \<longrightarrow> weight_at r hk = weight_at w hk / t * clamp_fraction f))
    \<and> (t = 0 \<longrightarrow> r = [(owner, 1)])"
proof -
  have "(\<Sum>(hk, x) \<leftarrow> w. if hk = owner then 0 else x) = miner_total owner w"
    unfolding miner_total_def by (induction w) auto
  then have t: "t = miner_total owner w" using assms(7) by simp
  have o: "owner_or_env env o1 = owner" using assms(4) by simp
  let ?s = "map (\<lambda>(hk, x). (hk, x / t * clamp_fraction f)) (filter (\<lambda>(hk, x). hk \<noteq> owner) w)"
  have r: "r = (if 0 < t then ?s @ [(owner, 1 - clamp_fraction f)] else [(owner, 1)])"
    unfolding assms(6) t by (rule ramp_eq [OF assms(3) o assms(5)])
  have k: "owner \<notin> set (keys_of ?s)" by auto
  have "distribution r"
    unfolding assms(6) using assms(5) by (intro ramp_distribution [OF assms(1-3)]) (simp add: o)
  moreover have "weight_at r hk = (if hk = owner then 1 - clamp_fraction f else weight_at w hk / t * clamp_fraction f)"
    if "0 < t" for hk using that by (simp add: r weight_at_append [OF k] weight_at_miners del: times_divide_eq_left)
  ultimately show ?thesis using r by auto
qed

text \<open>
  Property: The ramp is a projection for every fraction: applying it again to its own result changes no hotkey's weight.
\<close>

theorem burn_ramp_is_a_projection:
  "weight_at (apply_champion_burn_ramp env (apply_champion_burn_ramp env w o1 f) o1 f)
     = weight_at (apply_champion_burn_ramp env w o1 f)"
proof (cases "w = [] \<or> owner_or_env env o1 = []")
  case True
  then show ?thesis by (auto simp: apply_champion_burn_ramp_def Let_def)
next
  case False
  define ow where "ow = owner_or_env env o1"
  have o: "owner_or_env env o1 = ow" "ow \<noteq> []" "w \<noteq> []" using False by (simp_all add: ow_def)
  let ?t = "miner_total ow w" and ?f = "clamp_fraction f"
  let ?s = "map (\<lambda>(hk, x). (hk, x / ?t * ?f)) (filter (\<lambda>(hk, x). hk \<noteq> ow) w)"
  show ?thesis
  proof (cases "0 < ?t")
    case True
    let ?r = "?s @ [(ow, 1 - ?f)]"
    have flt: "filter (\<lambda>(hk, x). hk \<noteq> ow) ?r = ?s" by (induction w) auto
    have "sum_list (vals_of ?s) = ?t / ?t * ?f"
      unfolding sum_scaled by (simp add: miner_total_def)
    then have t: "miner_total ow ?r = ?f"
      using True unfolding miner_total_def flt by simp
    have k: "ow \<notin> set (keys_of ?s)" by auto
    have sc: "map (\<lambda>(hk, x). (hk, x / ?f * ?f)) ?s = ?s" if "0 < ?f" using that by auto
    have "weight_at (if 0 < ?f then ?r else [(ow, 1)]) = weight_at ?r"
    proof (cases "0 < ?f")
      case False
      then have "?f = 0" using clamp_fraction_bounds(1) [of f] by simp
      then show ?thesis
        unfolding fun_eq_iff weight_at_append [OF k] weight_at_miners by (simp add: weight_at_def)
    qed simp
    moreover have "apply_champion_burn_ramp env ?r o1 f = (if 0 < ?f then ?r else [(ow, 1)])"
    proof -
      have "?r \<noteq> []" by simp
      show ?thesis unfolding ramp_eq [OF \<open>?r \<noteq> []\<close> o(1,2)] t flt by (intro if_cong refl) (simp only: sc)
    qed
    moreover have "apply_champion_burn_ramp env w o1 f = ?r" using True by (simp only: ramp_eq [OF o(3,1,2)] if_True)
    ultimately show ?thesis by (simp only:)
  next
    case False
    then show ?thesis
      by (simp add: ramp_eq [OF o(3,1,2)] ramp_eq [OF _ o(1,2), of "[(ow, 1)]"] miner_total_def)
  qed
qed


definition sample_miners :: weights where
  "sample_miners = [(''m1'', 3), (''own'', 5), (''m2'', 1)]"

theorem burn_ramp_splits_exactly_witness:
  "weight_at (apply_champion_burn_ramp [] sample_miners (Some ''own'') (Some (1/2))) ''m1'' = 3 / 8
   \<and> weight_at (apply_champion_burn_ramp [] sample_miners (Some ''own'') (Some (1/2))) ''own'' = 1 / 2"
proof -
  have s: "strip ''own'' = ''own''" by code_simp
  have "owner_or_env [] (Some ''own'') = ''own''" by (simp add: owner_or_env_def Let_def s)
  from burn_ramp_splits_exactly [of sample_miners, OF _ _ _ this [symmetric] _ refl refl, of "Some (1/2)"]
  show ?thesis by (simp add: sample_miners_def clamp_fraction_def weight_at_def)
qed

section \<open>Routing and normalisation\<close>

lemma sum_update: "wf_dict d \<Longrightarrow> sum_list (vals_of (AList.update k v d)) = sum_list (vals_of d) - weight_at d k + v"
  by (induction d) (auto simp: weight_at_def map_of_None_keys [symmetric] split: option.splits)

lemma update_not_Nil: "AList.update k v d \<noteq> []"
  by (cases d) auto

definition routed :: "string list \<Rightarrow> string \<Rightarrow> weights \<Rightarrow> nat \<Rightarrow> real" where
  "routed hotkeys ow w u = (\<Sum>(hk, x) \<leftarrow> w. if target_uid hotkeys ow hk = Some u then x else 0)"

lemma route_fold:
  assumes "wf_dict d"
  shows "wf_dict (foldl (route_weight hotkeys ow) d w)"
    and "sum_list (vals_of (foldl (route_weight hotkeys ow) d w))
      = sum_list (vals_of d) + (\<Sum>(hk, x) \<leftarrow> w. if target_uid hotkeys ow hk = None then 0 else x)"
    and "weight_at (foldl (route_weight hotkeys ow) d w) u = weight_at d u + routed hotkeys ow w u"
    and "foldl (route_weight hotkeys ow) d w = [] \<longleftrightarrow> d = [] \<and> (\<forall>hk \<in> set (keys_of w). target_uid hotkeys ow hk = None)"
    and "\<lbrakk>\<forall>(u, x) \<in> set d. 0 \<le> x; \<forall>(hk, x) \<in> set w. 0 \<le> x\<rbrakk> \<Longrightarrow> (u, y) \<in> set (foldl (route_weight hotkeys ow) d w) \<Longrightarrow> 0 \<le> y"
proof -
  have step: "wf_dict (route_weight hotkeys ow e p)" if "wf_dict e" for e p
    using that by (auto simp: route_weight_def distinct_update split: option.splits prod.splits)
  show "wf_dict (foldl (route_weight hotkeys ow) d w)"
    using assms by (induction w arbitrary: d) (simp_all add: step)
  show "sum_list (vals_of (foldl (route_weight hotkeys ow) d w))
      = sum_list (vals_of d) + (\<Sum>(hk, x) \<leftarrow> w. if target_uid hotkeys ow hk = None then 0 else x)"
    using assms
  proof (induction w arbitrary: d)
    case (Cons p w)
    from Cons.IH [OF step [OF Cons.prems]] Cons.prems show ?case
      by (auto simp: route_weight_def sum_update split: option.splits prod.splits)
  qed simp
  show "weight_at (foldl (route_weight hotkeys ow) d w) u = weight_at d u + routed hotkeys ow w u"
    by (induction w arbitrary: d) (auto simp: routed_def route_weight_def weight_at_update split: option.splits prod.splits)
  show "foldl (route_weight hotkeys ow) d w = [] \<longleftrightarrow> d = [] \<and> (\<forall>hk \<in> set (keys_of w). target_uid hotkeys ow hk = None)"
    by (induction w arbitrary: d) (auto simp: route_weight_def update_not_Nil split: option.splits prod.splits)
  show "0 \<le> y" if "\<forall>(u, x) \<in> set d. 0 \<le> x" "\<forall>(hk, x) \<in> set w. 0 \<le> x" "(u, y) \<in> set (foldl (route_weight hotkeys ow) d w)"
    using that
  proof (induction w arbitrary: d)
    case (Cons p w)
    obtain hk x where p: "p = (hk, x)" by fastforce
    have "0 \<le> weight_at d v" for v
      using Cons.prems(1) by (auto simp: weight_at_def dest!: map_of_SomeD split: option.splits)
    then have "\<forall>(u, z) \<in> set (route_weight hotkeys ow d p). 0 \<le> z"
      using Cons.prems(1,2) by (auto simp: p route_weight_def split: option.splits dest!: in_update)
    from Cons.IH [OF this] Cons.prems(2,3) show ?case by simp
  qed auto
qed

lemma hotkey_to_uid_spec:
  "map_of (hotkey_to_uid hs) hk = None \<longleftrightarrow> hk \<notin> set hs"
  "map_of (hotkey_to_uid hs) hk = Some u \<Longrightarrow> u < length hs \<and> hs ! u = hk"
proof -
  have e: "hotkey_to_uid (xs @ [y]) = AList.update y (length xs) (hotkey_to_uid xs)" for xs y
    by (simp add: hotkey_to_uid_def enumerate_append_eq)
  show "map_of (hotkey_to_uid hs) hk = None \<longleftrightarrow> hk \<notin> set hs"
  proof (induction hs rule: rev_induct)
    case Nil
    then show ?case by (simp add: hotkey_to_uid_def)
  qed (simp add: e dict_simps)
  show "map_of (hotkey_to_uid hs) hk = Some u \<Longrightarrow> u < length hs \<and> hs ! u = hk"
  proof (induction hs rule: rev_induct)
    case Nil
    then show ?case by (simp add: hotkey_to_uid_def)
  next
    case (snoc y xs)
    then show ?case by (auto simp: e dict_simps nth_append split: if_splits)
  qed
qed

lemma target_uid_owner:
  "target_uid hs ow hk = None \<longleftrightarrow> hk \<notin> set hs \<and> (ow = [] \<or> ow \<notin> set hs)"
  using hotkey_to_uid_spec(1) [of hs hk] hotkey_to_uid_spec(1) [of hs ow] by (auto simp: target_uid_def split: option.splits)

lemma weight_at_scaled: "weight_at (map (\<lambda>(u, w). (u, w / t)) d) k = weight_at d k / t"
  by (induction d) (auto simp: weight_at_def)


lemma emission_full:
  assumes "distribution w" "\<And>hk. hk \<in> set (keys_of w) \<Longrightarrow> target_uid hotkeys ow hk \<noteq> None"
  shows "\<exists>e. emission hotkeys ow w = Some e \<and> distribution e \<and> weight_at e = routed hotkeys ow w"
proof -
  let ?e = "foldl (route_weight hotkeys ow) [] w"
  have nil: "wf_dict ([] :: (nat \<times> real) list)" by simp
  have d: "wf_dict w" "\<forall>(k, x) \<in> set w. 0 \<le> x" "sum_list (vals_of w) = 1" using assms(1) by (auto simp: distribution_def)
  then have ne: "w \<noteq> []" by auto
  have "(\<Sum>(hk, x) \<leftarrow> w. if target_uid hotkeys ow hk = None then 0 else x) = sum_list (vals_of w)"
    using assms(2) by (intro arg_cong [of _ _ sum_list] map_cong) (force simp del: not_None_eq)+
  then have t: "sum_list (vals_of ?e) = 1" using route_fold(2) [OF nil] d(3) by simp
  have "?e \<noteq> []" using t by auto
  then have e: "emission hotkeys ow w = Some (map (\<lambda>(u, x). (u, x / 1)) ?e)"
    by (simp only: emission_def Let_def t if_False if_True zero_less_one)
  have i: "map (\<lambda>(u, x). (u, x / 1)) ?e = ?e" by (simp add: case_prod_unfold)
  have "distribution ?e"
    unfolding distribution_def using route_fold(1) [OF nil] route_fold(5) [OF nil _ d(2)] t by auto
  moreover have "weight_at ?e = routed hotkeys ow w"
    using route_fold(3) [OF nil] by (auto simp: fun_eq_iff weight_at_def)
  ultimately show ?thesis using e unfolding i by blast
qed

text \<open>What the emitter relies on. Inside the locale the owner receives what the policy gives it and what is
  meant for absent hotkeys.\<close>

locale emission_policy =
  fixes policy :: "'i \<Rightarrow> weights" and admissible :: "'i \<Rightarrow> bool"
  assumes policy_distribution: "admissible i \<Longrightarrow> distribution (policy i)"
begin

lemma emits_distribution:
  assumes "admissible i" "ow \<noteq> []" "ow \<in> set hotkeys"
  shows "\<exists>e. emission hotkeys ow (policy i) = Some e \<and> distribution e \<and> weight_at e = routed hotkeys ow (policy i)"
  using assms by (intro emission_full policy_distribution) (auto simp: target_uid_owner)

lemma emits_when_registered:
  assumes "admissible i" "set (keys_of (policy i)) \<subseteq> set hotkeys"
  shows "\<exists>e. emission hotkeys ow (policy i) = Some e \<and> distribution e \<and> weight_at e = routed hotkeys ow (policy i)"
  using assms by (intro emission_full policy_distribution) (auto simp: target_uid_owner)

end

definition champion_policy :: "string \<times> string option \<times> string option \<Rightarrow> weights" where
  "champion_policy = (\<lambda>(env, champ, ow). build_bootstrap_or_champion_weights env champ ow)"

definition champion_admissible :: "string \<times> string option \<times> string option \<Rightarrow> bool" where
  "champion_admissible = (\<lambda>(env, champ, ow). owner_or_env env ow \<noteq> [] \<or> is_real_miner_hotkey champ)"

lemma champion_split:
  assumes "owner_or_env env ow = own" "own \<noteq> []"
  shows "build_bootstrap_or_champion_weights env champ ow =
    (if is_real_miner_hotkey champ \<and> strip (or_empty champ) \<noteq> own
     then [(strip (or_empty champ), 3/4), (own, 1/4)] else [(own, 1)])"
  using assms by (auto simp: build_bootstrap_or_champion_weights_def ramp_eq [OF _ assms] miner_total_def
      clamp_fraction_def CHAMPION_MINER_WEIGHT_FRACTION_def)

interpretation champion: emission_policy champion_policy champion_admissible
proof
  fix i assume a: "champion_admissible i"
  obtain env champ ow where i: "i = (env, champ, ow)" by (cases i) auto
  show "distribution (champion_policy i)"
  proof (cases "owner_or_env env ow = []")
    case True
    then show ?thesis
      using a by (auto simp: i champion_policy_def champion_admissible_def build_bootstrap_or_champion_weights_def
          apply_champion_burn_ramp_def distribution_def)
  next
    case False
    then show ?thesis by (auto simp: i champion_policy_def champion_split [OF refl False] distribution_def)
  qed
qed


lemma target_uid_index:
  assumes "distinct hs" "u < length hs"
  shows "target_uid hs ow hk = Some u \<longleftrightarrow> hs ! u = (if hk \<in> set hs then hk else ow) \<and> (hk \<in> set hs \<or> ow \<noteq> [])"
proof -
  have m: "map_of (hotkey_to_uid hs) k = Some u \<longleftrightarrow> hs ! u = k" for k
  proof
    assume "hs ! u = k"
    then have "k \<in> set hs" using assms(2) by auto
    then obtain v where v: "map_of (hotkey_to_uid hs) k = Some v" using hotkey_to_uid_spec(1) [of hs k] by auto
    from hotkey_to_uid_spec(2) [OF this] \<open>hs ! u = k\<close> assms(2) have "v = u"
      using nth_eq_iff_index_eq [OF assms(1), of v u] by simp
    with v show "map_of (hotkey_to_uid hs) k = Some u" by simp
  qed (simp add: hotkey_to_uid_spec(2))
  show ?thesis
  proof (cases "hk \<in> set hs")
    case True
    then obtain v where "map_of (hotkey_to_uid hs) hk = Some v" using hotkey_to_uid_spec(1) [of hs hk] by auto
    then have "target_uid hs ow hk = map_of (hotkey_to_uid hs) hk" by (simp add: target_uid_def)
    then show ?thesis using True m by simp
  next
    case False
    then have "map_of (hotkey_to_uid hs) hk = None" by (simp add: hotkey_to_uid_spec(1))
    then show ?thesis using False m by (simp add: target_uid_def)
  qed
qed

text \<open>
  Claim C24: What the chain pays for a real champion. With a registered owner the submitted weights are a
  distribution that gives three quarters to the champion and one quarter to the owner. If the
  champion is no longer registered, its share goes to the hotkey configured in the environment when
  that is registered, and otherwise to the owner that the policy resolved (the remaining weight is
  normalised).
\<close>

theorem champion_emission_split:
  assumes "is_real_miner_hotkey champ" "ch = strip (or_empty champ)"
    and "own = owner_or_env env ow" "own \<noteq> []" "own \<noteq> ch" "own \<in> set hotkeys" "distinct hotkeys"
    and "payee = (if ch \<in> set hotkeys then ch else if env_owner \<noteq> [] \<and> env_owner \<in> set hotkeys then env_owner else own)"
  shows "\<exists>e. emission hotkeys env_owner (build_bootstrap_or_champion_weights env champ ow) = Some e \<and> distribution e
    \<and> (\<forall>u < length hotkeys. weight_at e u = (if hotkeys ! u = payee then 3/4 else 0) + (if hotkeys ! u = own then 1/4 else 0))"
proof -
  let ?w = "build_bootstrap_or_champion_weights env champ ow"
  have w: "?w = [(ch, 3/4), (own, 1/4)]" using assms by (simp add: champion_split [OF _ assms(4)])
  have d: "distribution ?w" using champion.policy_distribution [of "(env, champ, ow)"] assms
    by (simp add: champion_policy_def champion_admissible_def)
  show ?thesis
  proof (cases "target_uid hotkeys env_owner ch = None")
    case False
    have "\<exists>e. emission hotkeys env_owner ?w = Some e \<and> distribution e \<and> weight_at e = routed hotkeys env_owner ?w"
      using d by (rule emission_full) (use False assms(6) in \<open>auto simp: w target_uid_owner\<close>)
    then obtain e where e: "emission hotkeys env_owner ?w = Some e" "distribution e" "weight_at e = routed hotkeys env_owner ?w" by blast
    have "payee = (if ch \<in> set hotkeys then ch else env_owner)" "ch \<in> set hotkeys \<or> env_owner \<noteq> []"
      using False assms(8) by (auto simp: target_uid_owner)
    then have "weight_at e u = (if hotkeys ! u = payee then 3/4 else 0) + (if hotkeys ! u = own then 1/4 else 0)"
      if "u < length hotkeys" for u
      using assms(6) that unfolding e(3) routed_def w by (simp add: target_uid_index [OF assms(7)])
    with e show ?thesis by blast
  next
    case True
    then have p: "payee = own" using assms(8) by (auto simp: target_uid_owner)
    obtain v where v: "target_uid hotkeys env_owner own = Some v"
      using assms(6) target_uid_owner [of hotkeys env_owner own] by auto
    have "emission hotkeys env_owner ?w = Some [(v, 1)]"
      by (simp add: w emission_def route_weight_def True v weight_at_def Let_def)
    moreover have "weight_at [(v, 1)] u = (if hotkeys ! u = own then 1 else 0)" if "u < length hotkeys" for u
      using v target_uid_index [OF assms(7) that, of env_owner own] assms(6) by (auto simp: weight_at_def)
    ultimately show ?thesis using p by (intro exI [of _ "[(v, 1)]"]) (auto simp: distribution_def)
  qed
qed

theorem champion_emission_split_witness:
  "\<exists>e. emission [''v'', ''own'', ''env''] ''env'' (build_bootstrap_or_champion_weights ''env'' (Some ''gone'') (Some ''own'')) = Some e
     \<and> weight_at e 2 = 3/4 \<and> weight_at e 1 = 1/4 \<and> weight_at e 0 = 0"
proof -
  have s: "is_real_miner_hotkey (Some ''gone'')" "strip (or_empty (Some ''gone'')) = ''gone''"
    "owner_or_env ''env'' (Some ''own'') = ''own''" by code_simp+
  from champion_emission_split [OF s(1) s(2) [symmetric] s(3) [symmetric], of "[''v'', ''own'', ''env'']" _ "''env''", OF _ _ _ _ refl]
  obtain e where "emission [''v'', ''own'', ''env''] ''env'' (build_bootstrap_or_champion_weights ''env'' (Some ''gone'') (Some ''own'')) = Some e"
    and e: "\<forall>u < 3. weight_at e u = (if [''v'', ''own'', ''env''] ! u = ''env'' then 3/4 else 0) + (if [''v'', ''own'', ''env''] ! u = ''own'' then 1/4 else 0)"
    by auto
  with e [rule_format, of 0] e [rule_format, of 1] e [rule_format, of 2] show ?thesis by auto
qed

section \<open>Emitting\<close>

text \<open>
  Property: Closing an epoch never loses one: without weights the epoch stays open (the clock is not advanced, so the
  next tick tries again) and nothing is recorded; with weights exactly one entry is recorded, with
  the weights that are returned, and the next wall-clock emission waits for a full epoch from the
  closing. Weights are missing exactly when there is neither a real champion nor an owner.
\<close>

theorem epoch_closes_only_with_weights:
  assumes "close_epoch_now env champ clock cw = (r, cw')"
  shows "(r = None \<longleftrightarrow> \<not> is_real_miner_hotkey champ \<and> owner_or_env env (Some (cw_owner_hotkey cw)) = [])
    \<and> (r = None \<longrightarrow> cw_epoch_start cw' = cw_epoch_start cw \<and> cw_history cw' = cw_history cw)
    \<and> (\<forall>w. r = Some w \<longrightarrow> w = get_weights env champ cw \<and> distribution w
        \<and> map ee_weights (cw_history cw') = map ee_weights (cw_history cw) @ [w]
        \<and> (\<forall>clock'. clock' 0 < clock 1 + of_int (cw_epoch_seconds cw) \<longrightarrow> maybe_emit env champ' clock' cw' = (None, cw')))"
proof -
  let ?i = "(env, champ, Some (cw_owner_hotkey cw))"
  have g: "get_weights env champ cw = champion_policy ?i" by (simp add: get_weights_def champion_policy_def)
  have "champion_policy ?i = [] \<longleftrightarrow> \<not> champion_admissible ?i"
    using champion.policy_distribution [of ?i]
    by (auto simp: distribution_def champion_admissible_def champion_policy_def build_bootstrap_or_champion_weights_def Let_def)
  then show ?thesis
    using assms champion.policy_distribution [of ?i]
    by (auto simp: close_epoch_now_def Let_def g champion_admissible_def maybe_emit_def split: if_splits)
qed

theorem epoch_closes_only_with_weights_witness:
  "\<exists>w cw'. close_epoch_now [] (Some ''m'') (\<lambda>_. 100) (new_champion_weights 60 (Some ''own'') (\<lambda>_. 0)) = (Some w, cw')
     \<and> distribution w \<and> maybe_emit [] (Some ''m'') (\<lambda>_. 159) cw' = (None, cw')"
proof -
  let ?c = "new_champion_weights 60 (Some ''own'') (\<lambda>_. 0)"
  obtain r cw' where e: "close_epoch_now [] (Some ''m'') (\<lambda>_. 100) ?c = (r, cw')" by fastforce
  have m: "is_real_miner_hotkey (Some ''m'')" by code_simp
  from epoch_closes_only_with_weights [OF e, of "Some ''m''"] m obtain w where w: "r = Some w" "distribution w"
    "\<forall>clock'. clock' 0 < 100 + of_int (cw_epoch_seconds ?c) \<longrightarrow> maybe_emit [] (Some ''m'') clock' cw' = (None, cw')" by auto
  from w(3) [rule_format, of "\<lambda>_. 159"] have "maybe_emit [] (Some ''m'') (\<lambda>_. 159) cw' = (None, cw')"
    by (simp add: new_champion_weights_def)
  with e w show ?thesis by blast
qed

text \<open>
  Property: A raised emission heals itself: it reports failure and replaces the client by a fresh connection when the
  URL is configured and reachable, so the next emission of the same weights uses the new client; an
  emission that does not raise never touches the client.
\<close>

theorem emitter_reconnects_after_raise:
  assumes "w \<noteq> []" "emit_async api ow w em = (ok, em')"
  shows "(\<forall>b. emit_blocking api ow w (em_subtensor em) = Inr b \<longrightarrow> ok = b \<and> em' = em)
    \<and> (\<forall>x url c. emit_blocking api ow w (em_subtensor em) = Inl x \<longrightarrow> em_subtensor_url em = Some url \<longrightarrow> url \<noteq> [] \<longrightarrow>
        connect api url = Inr c \<longrightarrow> \<not> ok \<and> em' = em\<lparr>em_subtensor := c\<rparr>
        \<and> (\<forall>b. emit_blocking api ow w c = Inr b \<longrightarrow> emit_async api ow w em' = (b, em')))"
  using assms by (auto simp: emit_async_def reconnect_subtensor_def)

end
