(* ===== verification/Throne_Time.thy ===== *)
theory Throne_Time
  imports Weights
begin

text \<open>
  Time-weighted emission, \<open>epoch/reign_attribution.py\<close>: the accumulator that credits the epochs between
  two samples to the current champion, its settlement and the mapping from throne time to weights.

  The abstract view is a throne log with one entry per observed epoch, naming the hotkey that is
  credited with it or nobody; \<open>accumulator_refines_log\<close> shows that the accumulator keeps exactly
  the tallies of this log over every sequence of samples. The mapping is a second instance of the
  interface \<open>emission_policy\<close>.
\<close>

definition TEMPO_EPOCHS :: int where "TEMPO_EPOCHS = 72"
definition DEFAULT_MIN_REIGN_EPOCHS :: int where "DEFAULT_MIN_REIGN_EPOCHS = 0"
definition MAX_SAMPLE_GAP_EPOCHS :: int where "MAX_SAMPLE_GAP_EPOCHS = 2"

record attribution =
  per_hotkey_epochs :: "(string \<times> int) list"
  unattributed_epochs :: int

definition window_epochs :: "attribution \<Rightarrow> int" where
  "window_epochs a = sum_list (vals_of (per_hotkey_epochs a)) + unattributed_epochs a"

record accumulator =
  ta_tempo_index :: "int option"
  ta_cursor_epoch :: "int option"
  ta_epochs :: "(string \<times> int) list"
  ta_unattributed :: int

definition new_accumulator :: accumulator where
  "new_accumulator = \<lparr>ta_tempo_index = None, ta_cursor_epoch = None, ta_epochs = [], ta_unattributed = 0\<rparr>"

definition int_at :: "(string \<times> int) list \<Rightarrow> string \<Rightarrow> int" where
  "int_at d k = (case map_of d k of None \<Rightarrow> 0 | Some n \<Rightarrow> n)"

definition credited_of :: "int \<Rightarrow> int option \<Rightarrow> int" where
  "credited_of s max_gap_epochs = (case max_gap_epochs of None \<Rightarrow> s | Some g \<Rightarrow> min s (max 0 g))"

definition throne_sample :: "int \<Rightarrow> int \<Rightarrow> string option \<Rightarrow> int option \<Rightarrow> accumulator \<Rightarrow> accumulator" where
  "throne_sample now_epoch tempo_index champion_hotkey max_gap_epochs acc =
     (if ta_tempo_index acc \<noteq> Some tempo_index
      then acc\<lparr>ta_tempo_index := Some tempo_index, ta_epochs := [], ta_unattributed := 0, ta_cursor_epoch := Some now_epoch\<rparr>
      else case ta_cursor_epoch acc of
        None \<Rightarrow> acc\<lparr>ta_cursor_epoch := Some now_epoch\<rparr>
      | Some cursor \<Rightarrow>
          let span = now_epoch - cursor in
          if span \<le> 0 then acc
          else
            let credited = credited_of span max_gap_epochs;
                gap = span - credited;
                acc = (if is_real_miner_hotkey champion_hotkey
                  then let hk = strip (or_empty champion_hotkey) in
                    acc\<lparr>ta_epochs := AList.update hk (int_at (ta_epochs acc) hk + credited) (ta_epochs acc)\<rparr>
                  else acc\<lparr>ta_unattributed := ta_unattributed acc + credited\<rparr>) in
            acc\<lparr>ta_unattributed := ta_unattributed acc + gap, ta_cursor_epoch := Some now_epoch\<rparr>)"

definition settle :: "int \<Rightarrow> accumulator \<Rightarrow> attribution" where
  "settle min_reign_epochs acc =
     (let floor = max 0 min_reign_epochs;
          kept = (if floor > 0 then filter (\<lambda>(hk, e). e \<ge> floor) (ta_epochs acc) else ta_epochs acc);
          dropped = sum_list (vals_of (ta_epochs acc)) - sum_list (vals_of kept) in
      \<lparr>per_hotkey_epochs = kept, unattributed_epochs = ta_unattributed acc + dropped\<rparr>)"

record throne_debug =
  td_tempo_index :: "int option"
  td_cursor_epoch :: "int option"
  td_hotkeys :: nat
  td_accrued_epochs :: int
  td_unattributed_epochs :: int

definition throne_debug_state :: "accumulator \<Rightarrow> throne_debug" where
  "throne_debug_state acc =
     \<lparr>td_tempo_index = ta_tempo_index acc, td_cursor_epoch = ta_cursor_epoch acc, td_hotkeys = length (ta_epochs acc),
      td_accrued_epochs = sum_list (vals_of (ta_epochs acc)), td_unattributed_epochs = ta_unattributed acc\<rparr>"

definition build_time_weighted_mapping :: "string \<Rightarrow> attribution \<Rightarrow> string option \<Rightarrow> real \<Rightarrow> weights" where
  "build_time_weighted_mapping env_owner a owner_hotkey miner_fraction =
     (let attributed = sum_list (vals_of (per_hotkey_epochs a)) in
      if window_epochs a \<le> 0 \<or> attributed \<le> 0
      then let owner = strip (or_empty owner_hotkey) in if owner \<noteq> [] then [(owner, 1)] else []
      else
        let effective_fraction = miner_fraction * real_of_int attributed / real_of_int (window_epochs a);
            miner_weights = map (\<lambda>(hk, e). (hk, real_of_int e)) (sort_key fst (per_hotkey_epochs a)) in
        apply_champion_burn_ramp env_owner miner_weights owner_hotkey (Some effective_fraction))"

section \<open>The throne log\<close>

text \<open>One observation of the coordinator.\<close>

record observation =
  ob_now :: int
  ob_tempo :: int
  ob_champion :: "string option"

definition sample_all :: "int option \<Rightarrow> observation list \<Rightarrow> accumulator \<Rightarrow> accumulator" where
  "sample_all max_gap obs acc = foldl (\<lambda>a ob. throne_sample (ob_now ob) (ob_tempo ob) (ob_champion ob) max_gap a) acc obs"

record throne_log =
  tl_tempo :: int
  tl_anchor :: int
  tl_log :: "string option list"

definition holder :: "string option \<Rightarrow> string option" where
  "holder champ = (if is_real_miner_hotkey champ then Some (strip (or_empty champ)) else None)"

definition tl_end :: "throne_log \<Rightarrow> int" where
  "tl_end l = tl_anchor l + int (length (tl_log l))"

text \<open>An observation starts a new log when the tempo has changed; otherwise it appends one entry per epoch
  since the end of the log: the holder of the throne for at most \<open>max_gap\<close> of them, nobody for the rest.\<close>

definition log_step :: "int option \<Rightarrow> throne_log option \<Rightarrow> observation \<Rightarrow> throne_log option" where
  "log_step max_gap l ob =
     (case l of
        None \<Rightarrow> Some \<lparr>tl_tempo = ob_tempo ob, tl_anchor = ob_now ob, tl_log = []\<rparr>
      | Some l \<Rightarrow>
          if tl_tempo l \<noteq> ob_tempo ob then Some \<lparr>tl_tempo = ob_tempo ob, tl_anchor = ob_now ob, tl_log = []\<rparr>
          else let credited = nat (credited_of (max 0 (ob_now ob - tl_end l)) max_gap) in
            Some (l\<lparr>tl_log := tl_log l @ replicate credited (holder (ob_champion ob))
              @ replicate (nat (ob_now ob - tl_end l) - credited) None\<rparr>))"

definition keeps_tallies :: "accumulator \<Rightarrow> throne_log option \<Rightarrow> bool" where
  "keeps_tallies acc l = (case l of
      None \<Rightarrow> acc = new_accumulator
    | Some l \<Rightarrow> ta_tempo_index acc = Some (tl_tempo l) \<and> ta_cursor_epoch acc = Some (tl_end l) \<and> wf_dict (ta_epochs acc)
        \<and> (\<forall>hk. int_at (ta_epochs acc) hk = int (count_list (tl_log l) (Some hk)))
        \<and> ta_unattributed acc = int (count_list (tl_log l) None)
        \<and> sum_list (vals_of (ta_epochs acc)) + ta_unattributed acc = int (length (tl_log l)))"

lemma count_replicate: "count_list (replicate n x) y = (if x = y then n else 0)"
  by (induction n) auto

lemma int_at_update: "int_at (AList.update k v d) k' = (if k' = k then v else int_at d k')"
  by (simp add: int_at_def dict_simps)

lemma int_at_simps [simp]: "int_at [] k = 0" "int_at ((k', v) # d) k = (if k = k' then v else int_at d k)"
  by (simp_all add: int_at_def)

lemma int_at_absent: "k \<notin> set (keys_of d) \<Longrightarrow> int_at d k = 0"
  by (induction d) auto

lemma int_sum_update: "wf_dict d \<Longrightarrow> sum_list (vals_of (AList.update k v d)) = sum_list (vals_of d) - int_at d k + v"
  by (induction d) (auto simp: int_at_def map_of_None_keys [symmetric] split: option.splits)

lemma credited_bounds: "0 \<le> s \<Longrightarrow> 0 \<le> credited_of s g \<and> credited_of s g \<le> s"
  by (auto simp: credited_of_def split: option.splits)

lemma sample_keeps_tallies:
  assumes "keeps_tallies acc l"
  shows "keeps_tallies (throne_sample (ob_now ob) (ob_tempo ob) (ob_champion ob) max_gap acc) (log_step max_gap l ob)"
proof (cases l)
  case None
  then show ?thesis
    using assms by (simp add: keeps_tallies_def log_step_def throne_sample_def new_accumulator_def tl_end_def int_at_def)
next
  case (Some m)
  have t: "ta_tempo_index acc = Some (tl_tempo m)" "ta_cursor_epoch acc = Some (tl_end m)" "wf_dict (ta_epochs acc)"
    "int_at (ta_epochs acc) hk = int (count_list (tl_log m) (Some hk))" "ta_unattributed acc = int (count_list (tl_log m) None)"
    "sum_list (vals_of (ta_epochs acc)) + int (count_list (tl_log m) None) = int (length (tl_log m))" for hk
    using assms by (auto simp: Some keeps_tallies_def)
  let ?span = "ob_now ob - tl_end m" and ?l = "log_step max_gap l ob"
  consider "tl_tempo m \<noteq> ob_tempo ob" | "tl_tempo m = ob_tempo ob" "?span \<le> 0" | "tl_tempo m = ob_tempo ob" "0 < ?span" by linarith
  then show ?thesis
  proof cases
    case 1
    then show ?thesis by (simp add: Some keeps_tallies_def log_step_def throne_sample_def t tl_end_def int_at_def)
  next
    case 2
    have "credited_of (max 0 ?span) max_gap = 0" using credited_bounds [of "max 0 ?span" max_gap] 2(2) by simp
    then have "?l = Some m" using 2 by (simp add: Some log_step_def Let_def)
    then show ?thesis using 2 t assms by (simp add: Some throne_sample_def Let_def)
  next
    case 3
    let ?c = "credited_of ?span max_gap"
    have c: "0 \<le> ?c" "?c \<le> ?span" using credited_bounds [of ?span max_gap] 3(2) by simp_all
    have "max 0 ?span = ?span" using 3(2) by simp
    then have l: "?l = Some (m\<lparr>tl_log := tl_log m @ replicate (nat ?c) (holder (ob_champion ob)) @ replicate (nat ?span - nat ?c) None\<rparr>)"
      using 3(1) by (simp add: Some log_step_def Let_def)
    have n: "tl_anchor m + (int (length (tl_log m)) + (int (nat ?c) + int (nat ?span - nat ?c))) = ob_now ob"
      using c 3(2) by (simp add: tl_end_def of_nat_diff nat_le_eq_zle)
    have k: "int (nat ?span - nat ?c) = ?span - ?c" using c 3(2) by (simp add: of_nat_diff nat_le_eq_zle)
    show ?thesis
      unfolding l using 3 c n k t(1-3,6)
      by (auto simp: keeps_tallies_def throne_sample_def Let_def t(4,5) tl_end_def holder_def count_replicate int_at_update
          distinct_update int_sum_update)
  qed
qed

lemma tallies_fold:
  "keeps_tallies acc l \<Longrightarrow> keeps_tallies (sample_all max_gap obs acc) (foldl (log_step max_gap) l obs)"
  by (induction obs arbitrary: acc l) (simp_all add: sample_all_def sample_keeps_tallies)


lemma kept_window:
  "window_epochs (settle reign acc) = sum_list (vals_of (ta_epochs acc)) + ta_unattributed acc"
  by (simp add: settle_def window_epochs_def Let_def)

lemma int_at_filter: "wf_dict d \<Longrightarrow> int_at (filter (\<lambda>(hk, e). e \<ge> f) d) k = (if f \<le> int_at d k then int_at d k else 0)"
  by (induction d) (auto simp: int_at_absent image_iff split: if_splits)

lemma settle_at:
  assumes "wf_dict (ta_epochs acc)" "0 \<le> int_at (ta_epochs acc) hk"
  shows "int_at (per_hotkey_epochs (settle reign acc)) hk =
    (if reign \<le> int_at (ta_epochs acc) hk then int_at (ta_epochs acc) hk else 0)"
  using assms by (auto simp: settle_def Let_def int_at_filter)

text \<open>
  Claim C23: The accumulator implements the throne log. After any sequence of observations it holds, for the tempo of the
  last one, exactly the tallies of a log with one entry per epoch from the first observation of the
  tempo to the latest epoch seen: each hotkey's epochs, the epochs of nobody, and the end of the log as
  its cursor. Settling loses no epoch: the window is the length of the log, a hotkey keeps its tally
  or, below the floor, gives it to the owner's remainder.
\<close>

theorem accumulator_refines_log:
  assumes "obs \<noteq> []" "acc = sample_all max_gap obs new_accumulator"
  shows "\<exists>l. foldl (log_step max_gap) None obs = Some l \<and> ta_tempo_index acc = Some (tl_tempo l) \<and> ta_cursor_epoch acc = Some (tl_end l)
    \<and> (\<forall>hk. int_at (ta_epochs acc) hk = int (count_list (tl_log l) (Some hk)))
    \<and> ta_unattributed acc = int (count_list (tl_log l) None)
    \<and> window_epochs (settle reign acc) = int (length (tl_log l))
    \<and> (\<forall>hk. int_at (per_hotkey_epochs (settle reign acc)) hk =
          (if reign \<le> int (count_list (tl_log l) (Some hk)) then int (count_list (tl_log l) (Some hk)) else 0))"
proof -
  have k: "keeps_tallies acc (foldl (log_step max_gap) None obs)"
    unfolding assms(2) by (rule tallies_fold) (simp add: keeps_tallies_def)
  have some: "\<exists>l. foldl (log_step max_gap) (Some m) os = Some l" for m os
    by (induction os arbitrary: m) (auto simp: log_step_def Let_def)
  obtain ob os where "obs = ob # os" using assms(1) by (cases obs) auto
  then obtain l where l: "foldl (log_step max_gap) None obs = Some l"
    using some [of "\<lparr>tl_tempo = ob_tempo ob, tl_anchor = ob_now ob, tl_log = []\<rparr>" os] by (auto simp: log_step_def)
  show ?thesis
    using k unfolding l keeps_tallies_def by (simp add: kept_window settle_at)
qed

definition sample_obs :: "observation list" where
  "sample_obs = [\<lparr>ob_now = 10, ob_tempo = 1, ob_champion = Some ''m''\<rparr>, \<lparr>ob_now = 11, ob_tempo = 1, ob_champion = Some ''m''\<rparr>,
     \<lparr>ob_now = 16, ob_tempo = 1, ob_champion = Some ''n''\<rparr>]"

theorem accumulator_refines_log_witness:
  "\<exists>l. foldl (log_step (Some 2)) None sample_obs = Some l \<and> tl_log l = [Some ''m'', Some ''n'', Some ''n'', None, None, None]
     \<and> int_at (ta_epochs (sample_all (Some 2) sample_obs new_accumulator)) ''n'' = 2
     \<and> window_epochs (settle 0 (sample_all (Some 2) sample_obs new_accumulator)) = 6"
proof -
  have ne: "sample_obs \<noteq> []" by (simp add: sample_obs_def)
  have e: "map_option tl_log (foldl (log_step (Some 2)) None sample_obs) = Some [Some ''m'', Some ''n'', Some ''n'', None, None, None]"
    by code_simp
  from accumulator_refines_log [OF ne refl, of "Some 2" 0] obtain l where l: "foldl (log_step (Some 2)) None sample_obs = Some l"
    "\<forall>hk. int_at (ta_epochs (sample_all (Some 2) sample_obs new_accumulator)) hk = int (count_list (tl_log l) (Some hk))"
    "window_epochs (settle 0 (sample_all (Some 2) sample_obs new_accumulator)) = int (length (tl_log l))" by blast
  with e show ?thesis by auto
qed

section \<open>Weights from throne time\<close>

definition valid_attribution :: "attribution \<Rightarrow> bool" where
  "valid_attribution a \<longleftrightarrow> wf_dict (per_hotkey_epochs a) \<and> (\<forall>(hk, e) \<in> set (per_hotkey_epochs a). 0 \<le> e) \<and> 0 \<le> unattributed_epochs a"

definition throne_weights :: "attribution \<Rightarrow> weights" where
  "throne_weights a = map (\<lambda>(hk, e). (hk, real_of_int e)) (sort_key fst (per_hotkey_epochs a))"

lemma throne_weights_props:
  assumes "valid_attribution a"
  shows "wf_dict (throne_weights a)" "\<forall>(hk, x) \<in> set (throne_weights a). 0 \<le> x"
    "weight_at (throne_weights a) hk = real_of_int (int_at (per_hotkey_epochs a) hk)"
    "(\<Sum>(hk, x) \<leftarrow> throne_weights a. if hk = ow then 0 else x)
       = real_of_int (sum_list (vals_of (per_hotkey_epochs a)) - int_at (per_hotkey_epochs a) ow)"
proof -
  let ?d = "per_hotkey_epochs a" and ?s = "sort_key fst (per_hotkey_epochs a)"
  have d: "wf_dict ?d" using assms by (simp add: valid_attribution_def)
  have p: "mset ?s = mset ?d" by simp
  have ws: "wf_dict ?s" using d by (metis mset_map mset_sort distinct_count_atmost_1 mset_eq_imp_distinct_iff)
  have fst_eq: "map fst (map (\<lambda>(hk, e). (hk, real_of_int e)) ?s) = map fst ?s" by (simp add: case_prod_unfold)
  show "wf_dict (throne_weights a)" unfolding throne_weights_def fst_eq by (rule ws)
  show "\<forall>(hk, x) \<in> set (throne_weights a). 0 \<le> x" using assms by (auto simp: throne_weights_def valid_attribution_def)
  have "map_of ?s = map_of ?d" using ws d map_of_eqI by (metis map_of_inject_set set_sort)
  moreover have "weight_at (map (\<lambda>(hk, e). (hk, real_of_int e)) xs) hk = real_of_int (int_at xs hk)" for xs
    by (induction xs) (auto simp: weight_at_def int_at_def)
  ultimately show "weight_at (throne_weights a) hk = real_of_int (int_at ?d hk)"
    by (simp add: throne_weights_def int_at_def)
  have "(\<Sum>(hk, x) \<leftarrow> map (\<lambda>(hk, e). (hk, real_of_int e)) xs. if hk = ow then 0 else x) =
      real_of_int (sum_list (vals_of xs) - int_at xs ow)" if "wf_dict xs" for xs
    using that by (induction xs) (auto simp: int_at_absent)
  from this [OF ws] show "(\<Sum>(hk, x) \<leftarrow> throne_weights a. if hk = ow then 0 else x) = real_of_int (sum_list (vals_of ?d) - int_at ?d ow)"
    using p \<open>map_of ?s = map_of ?d\<close> by (simp add: throne_weights_def int_at_def flip: sum_mset_sum_list)
qed


lemma mapping_eq:
  assumes "valid_attribution a" "0 < sum_list (vals_of (per_hotkey_epochs a))"
  shows "build_time_weighted_mapping env a o1 f = apply_champion_burn_ramp env (throne_weights a) o1
      (Some (f * real_of_int (sum_list (vals_of (per_hotkey_epochs a))) / real_of_int (window_epochs a)))"
    and "throne_weights a \<noteq> []"
proof -
  have "0 < window_epochs a" using assms by (simp add: window_epochs_def valid_attribution_def)
  then show "build_time_weighted_mapping env a o1 f = apply_champion_burn_ramp env (throne_weights a) o1
      (Some (f * real_of_int (sum_list (vals_of (per_hotkey_epochs a))) / real_of_int (window_epochs a)))"
    using assms(2) by (simp add: build_time_weighted_mapping_def throne_weights_def Let_def)
  have "length (throne_weights a) = length (per_hotkey_epochs a)" by (simp add: throne_weights_def)
  then show "throne_weights a \<noteq> []" using assms(2) by auto
qed

text \<open>
  Property: Weights from throne time. With a resolved owner the mapping is a distribution. If somebody other than the
  owner held the throne, a miner gets the miner fraction times its share of the window, when the owner
  itself held no epoch; if the owner held epochs, its part is divided among the other miners
  in proportion to their own epochs. The owner gets the rest: \<open>f\<close> times the unattributed share
  of the window, and the remaining \<open>1 - f\<close>.
\<close>

theorem throne_time_weights:
  assumes "valid_attribution a" "0 < sum_list (vals_of (per_hotkey_epochs a))" "0 \<le> f" "f \<le> 1"
    and "owner = owner_or_env env o1" "owner \<noteq> []"
    and "held = real_of_int (sum_list (vals_of (per_hotkey_epochs a)))"
    and "others = held - real_of_int (int_at (per_hotkey_epochs a) owner)" "0 < others"
    and "r = build_time_weighted_mapping env a o1 f"
  shows "distribution r
    \<and> (\<forall>hk. hk \<noteq> owner \<longrightarrow> weight_at r hk = f * real_of_int (int_at (per_hotkey_epochs a) hk) / real_of_int (window_epochs a) * (held / others))
    \<and> weight_at r owner = (1 - f) + f * real_of_int (unattributed_epochs a) / real_of_int (window_epochs a)"
proof -
  let ?w = "real_of_int (window_epochs a)"
  have u: "0 \<le> unattributed_epochs a" using assms(1) by (simp add: valid_attribution_def)
  then have w: "0 < ?w" "held \<le> ?w" "0 < held" using assms(2) by (simp_all add: window_epochs_def assms(7))
  then have "f * held \<le> 1 * ?w" using assms(3,4) by (intro mult_mono) auto
  then have "f * held / ?w \<le> 1" "0 \<le> f * held / ?w" using w assms(3) by (simp_all add: divide_simps)
  then have c: "clamp_fraction (Some (f * held / ?w)) = f * held / ?w" by (simp add: clamp_fraction_def)
  note b = burn_ramp_splits_exactly [OF throne_weights_props(1,2) [OF assms(1)] mapping_eq(2) [OF assms(1,2)] assms(5,6) refl refl,
      of "Some (f * held / ?w)", unfolded throne_weights_props(3,4) [OF assms(1)] c]
  have r: "r = apply_champion_burn_ramp env (throne_weights a) o1 (Some (f * held / ?w))"
    unfolding assms(10,7) by (rule mapping_eq(1) [OF assms(1,2)])
  have o: "real_of_int (sum_list (vals_of (per_hotkey_epochs a)) - int_at (per_hotkey_epochs a) owner) = others"
    by (simp add: assms(7,8))
  have d: "distribution r" "weight_at r owner = 1 - f * held / ?w"
    "hk \<noteq> owner \<Longrightarrow> weight_at r hk = real_of_int (int_at (per_hotkey_epochs a) hk) / others * (f * held / ?w)" for hk
    using b assms(9) unfolding r [symmetric] o by auto
  have "?w = held + real_of_int (unattributed_epochs a)" by (simp add: window_epochs_def assms(7))
  then have "1 - f * held / ?w = (1 - f) + f * real_of_int (unattributed_epochs a) / ?w"
    using w by (simp add: field_simps)
  then show ?thesis using d by (simp add: mult_ac)
qed

definition sample_reigns :: attribution where
  "sample_reigns = \<lparr>per_hotkey_epochs = [(''m'', 1), (''own'', 7)], unattributed_epochs = 2\<rparr>"

theorem throne_time_weights_witness:
  "weight_at (build_time_weighted_mapping [] sample_reigns (Some ''own'') (3/4)) ''m'' = 3/5
   \<and> weight_at (build_time_weighted_mapping [] sample_reigns (Some ''own'') (3/4)) ''own'' = 2/5"
proof -
  have v: "valid_attribution sample_reigns" "0 < sum_list (vals_of (per_hotkey_epochs sample_reigns))"
    by (simp_all add: valid_attribution_def sample_reigns_def)
  have o: "''own'' = owner_or_env [] (Some ''own'')" by code_simp
  from throne_time_weights [OF v _ _ o _ refl refl _ refl, of "3/4"] show ?thesis
    by (simp add: sample_reigns_def int_at_def window_epochs_def)
qed

definition throne_policy :: "string \<times> attribution \<times> string option \<times> real \<Rightarrow> weights" where
  "throne_policy = (\<lambda>(env, a, o1, f). build_time_weighted_mapping env a o1 f)"

definition throne_admissible :: "string \<times> attribution \<times> string option \<times> real \<Rightarrow> bool" where
  "throne_admissible = (\<lambda>(env, a, o1, f). valid_attribution a \<and> strip (or_empty o1) \<noteq> [])"

interpretation throne: emission_policy throne_policy throne_admissible
proof
  fix i assume "throne_admissible i"
  moreover obtain env a o1 f where i: "i = (env, a, o1, f)" by (cases i) auto
  ultimately have a: "valid_attribution a" "strip (or_empty o1) \<noteq> []" by (simp_all add: throne_admissible_def)
  then have o: "owner_or_env env o1 \<noteq> []" by (simp add: owner_or_env_def)
  show "distribution (throne_policy i)"
  proof (cases "0 < sum_list (vals_of (per_hotkey_epochs a))")
    case True
    show ?thesis
      unfolding i throne_policy_def prod.case mapping_eq(1) [OF a(1) True]
      by (rule ramp_distribution [OF throne_weights_props(1,2) [OF a(1)] mapping_eq(2) [OF a(1) True] o])
  next
    case False
    then show ?thesis using a(2) by (simp add: i throne_policy_def build_time_weighted_mapping_def distribution_def Let_def)
  qed
qed

text \<open>
  Property: The weights of a settled tempo reach the chain unchanged: after any observations, settled with any floor, the emitter
  submits a distribution that gives every UID exactly what the mapping gives to the hotkeys routed
  to it, provided the owner is registered.
\<close>

theorem throne_time_reaches_chain:
  assumes "obs \<noteq> []" "strip (or_empty o1) = ow" "ow \<noteq> []" "ow \<in> set hotkeys"
    and "a = settle reign (sample_all max_gap obs new_accumulator)"
  shows "\<exists>e. emission hotkeys ow (build_time_weighted_mapping env a o1 f) = Some e \<and> distribution e
    \<and> weight_at e = routed hotkeys ow (build_time_weighted_mapping env a o1 f)"
proof -
  let ?acc = "sample_all max_gap obs new_accumulator"
  have "keeps_tallies ?acc (foldl (log_step max_gap) None obs)"
    by (rule tallies_fold) (simp add: keeps_tallies_def)
  then have t: "wf_dict (ta_epochs ?acc)" "0 \<le> int_at (ta_epochs ?acc) hk" "0 \<le> ta_unattributed ?acc" for hk
    by (cases "foldl (log_step max_gap) None obs"; simp add: keeps_tallies_def new_accumulator_def)+
  have nn: "0 \<le> e" if "(hk, e) \<in> set (ta_epochs ?acc)" for hk e
    using t(2) [of hk] that t(1) by (simp add: int_at_def)
  have s: "sum_list (vals_of (filter P d)) \<le> sum_list (vals_of d)" if "\<forall>(hk, e) \<in> set d. 0 \<le> e" for P and d :: "(string \<times> int) list"
    using that by (induction d) auto
  have "sum_list (vals_of (filter P (ta_epochs ?acc))) \<le> sum_list (vals_of (ta_epochs ?acc))" for P using s nn by auto
  from this [of "\<lambda>(hk, e). reign \<le> e"] have "valid_attribution a"
    using nn t(1,3) wf_filter_keys [OF t(1), of "\<lambda>e. e"]
    by (auto simp: assms(5) valid_attribution_def settle_def Let_def)
  then have "throne_admissible (env, a, o1, f)" using assms(2,3) by (simp add: throne_admissible_def)
  from throne.emits_distribution [OF this assms(3,4)] show ?thesis by (simp add: throne_policy_def)
qed

theorem throne_time_reaches_chain_witness:
  "\<exists>e. emission [''m'', ''own''] ''own'' (build_time_weighted_mapping [] (settle 0 (sample_all (Some 2) sample_obs new_accumulator)) (Some ''own'') (3/4)) = Some e
     \<and> distribution e"
proof -
  have s: "sample_obs \<noteq> []" "strip (or_empty (Some ''own'')) = ''own''" by (simp add: sample_obs_def) code_simp
  have "''own'' \<noteq> []" "''own'' \<in> set [''m'', ''own'']" by simp_all
  from throne_time_reaches_chain [OF s this refl] show ?thesis by blast
qed

end
