(* ===== verification/Tempo_Gate.thy ===== *)
theory Tempo_Gate
  imports Py_Prelude
begin

text \<open>
  The commit schedule, \<open>validator/tempo_gate.py\<close>: the gate re-anchors its estimate of the next epoch step
  on the chain at most every \<open>resync_seconds\<close>, extrapolates the block height from the local clock in
  between, and opens once per tempo epoch in the \<open>lead_blocks\<close> blocks before the step. \<open>None\<close> as
  answer sends the caller back to its wall clock.

  The chain query is an argument (\<open>None\<close> when it raises). The readings of the monotonic clock during one
  tick are \<open>clock 0\<close> (start of the resync), \<open>clock 1\<close> (after a successful query) and \<open>clock 2\<close>
  (for the estimate).
\<close>

definition DEFAULT_LEAD_BLOCKS :: int where "DEFAULT_LEAD_BLOCKS = 20"
definition DEFAULT_RESYNC_SECONDS :: real where "DEFAULT_RESYNC_SECONDS = 300"
definition SYNC_RETRY_BACKOFF_SECONDS :: real where "SYNC_RETRY_BACKOFF_SECONDS = 30"

record tempo_gate =
  tg_block_time :: real
  tg_lead_blocks :: int
  tg_resync_seconds :: real
  tg_tempo :: "int option"
  tg_synced_block :: "int option"
  tg_synced_at :: "real option"
  tg_next_boundary_block :: "int option"
  tg_committed_boundary :: "int option"
  tg_last_sync_attempt :: "real option"

definition new_tempo_gate :: "real \<Rightarrow> int \<Rightarrow> real \<Rightarrow> tempo_gate" where
  "new_tempo_gate block_time lead_blocks resync_seconds =
     \<lparr>tg_block_time = max (1 / 100) block_time, tg_lead_blocks = max 1 lead_blocks, tg_resync_seconds = resync_seconds,
      tg_tempo = None, tg_synced_block = None, tg_synced_at = None, tg_next_boundary_block = None,
      tg_committed_boundary = None, tg_last_sync_attempt = None\<rparr>"

text \<open>\<open>(block, tempo, blocks_since_last_step)\<close>, or \<open>None\<close> when a query raises.\<close>

type_synonym chain_sync = "(int \<times> int \<times> int) option"

definition maybe_resync :: "chain_sync \<Rightarrow> (nat \<Rightarrow> real) \<Rightarrow> tempo_gate \<Rightarrow> tempo_gate" where
  "maybe_resync sync clock g =
     (let now = clock 0;
          fresh = (case tg_synced_at g of None \<Rightarrow> False | Some t \<Rightarrow> now - t \<le> tg_resync_seconds g);
          backed_off = (case tg_last_sync_attempt g of None \<Rightarrow> False | Some t \<Rightarrow> now - t < SYNC_RETRY_BACKOFF_SECONDS) in
      if fresh then g
      else if backed_off then g
      else
        let g = g\<lparr>tg_last_sync_attempt := Some now\<rparr> in
        case sync of
          None \<Rightarrow> g
        | Some (block, tempo, since) \<Rightarrow>
            if tempo \<le> 0 then g\<lparr>tg_tempo := None\<rparr>
            else g\<lparr>tg_tempo := Some tempo, tg_synced_block := Some block, tg_synced_at := Some (clock 1),
                   tg_next_boundary_block := Some (block + max 0 (tempo - since))\<rparr>)"

text \<open>\<open>None\<close> when the assertion fails.\<close>

definition estimated_block :: "real \<Rightarrow> tempo_gate \<Rightarrow> int option" where
  "estimated_block now g =
     (case (tg_synced_block g, tg_synced_at g) of
        (Some b, Some t) \<Rightarrow> Some (b + \<lfloor>max 0 (now - t) / tg_block_time g\<rfloor>)
      | _ \<Rightarrow> None)"

text \<open>The loop that moves the boundary past the estimate. The period is positive whenever the loop is entered
  (\<open>gate_ok\<close> below); the guard makes the function total.\<close>

function advance_boundary :: "int \<Rightarrow> int \<Rightarrow> int \<Rightarrow> int" where
  "advance_boundary est period boundary =
     (if est > boundary \<and> period > 0 then advance_boundary est period (boundary + period) else boundary)"
  by pat_completeness auto
termination by (relation "measure (\<lambda>(est, period, boundary). nat (est - boundary))") auto

declare advance_boundary.simps [simp del]

definition should_emit_now :: "chain_sync \<Rightarrow> (nat \<Rightarrow> real) \<Rightarrow> tempo_gate \<Rightarrow> (bool option \<times> tempo_gate) res" where
  "should_emit_now sync clock g =
     (let g = maybe_resync sync clock g in
      case (tg_tempo g, tg_next_boundary_block g) of
        (Some tempo, Some boundary) \<Rightarrow>
          (case estimated_block (clock 2) g of
             None \<Rightarrow> Inl AssertionError
           | Some est \<Rightarrow>
               let period = tempo + 1;
                   boundary = advance_boundary est period boundary;
                   g = g\<lparr>tg_next_boundary_block := Some boundary\<rparr> in
               if boundary - est > tg_lead_blocks g then Inr (Some False, g)
               else case tg_committed_boundary g of
                 None \<Rightarrow> Inr (Some True, g)
               | Some c \<Rightarrow> Inr (Some (\<not> \<bar>boundary - c\<bar> < period div 2), g))
      | _ \<Rightarrow> Inr (None, g))"

definition mark_committed :: "tempo_gate \<Rightarrow> tempo_gate" where
  "mark_committed g = g\<lparr>tg_committed_boundary := tg_next_boundary_block g\<rparr>"

record gate_debug =
  gd_active :: bool
  gd_tempo :: "int option"
  gd_lead_blocks :: int
  gd_next_boundary_block :: "int option"
  gd_committed_boundary_block :: "int option"
  gd_estimated_block :: "int option"
  gd_blocks_until_boundary :: "int option"

definition gate_debug_state :: "real \<Rightarrow> tempo_gate \<Rightarrow> gate_debug res" where
  "gate_debug_state now g =
     res_bind (if tg_tempo g \<noteq> None \<and> tg_synced_block g \<noteq> None
               then (case estimated_block now g of None \<Rightarrow> Inl AssertionError | Some e \<Rightarrow> Inr (Some e)) else Inr None)
       (\<lambda>est. Inr
         \<lparr>gd_active = (tg_tempo g \<noteq> None), gd_tempo = tg_tempo g, gd_lead_blocks = tg_lead_blocks g,
          gd_next_boundary_block = tg_next_boundary_block g, gd_committed_boundary_block = tg_committed_boundary g,
          gd_estimated_block = est,
          gd_blocks_until_boundary = (case (est, tg_next_boundary_block g) of (Some e, Some b) \<Rightarrow> Some (b - e) | _ \<Rightarrow> None)\<rparr>)"

section \<open>Invariant\<close>

definition gate_ok :: "tempo_gate \<Rightarrow> bool" where
  "gate_ok g \<longleftrightarrow> 0 < tg_block_time g \<and> 1 \<le> tg_lead_blocks g \<and> (\<forall>t. tg_tempo g = Some t \<longrightarrow> 0 < t)
     \<and> (tg_tempo g \<noteq> None \<longrightarrow> tg_next_boundary_block g \<noteq> None)
     \<and> (tg_next_boundary_block g \<noteq> None \<longrightarrow> tg_synced_block g \<noteq> None \<and> tg_synced_at g \<noteq> None)"

lemma gate_ok_new: "gate_ok (new_tempo_gate bt lb rs)"
  by (simp add: gate_ok_def new_tempo_gate_def less_max_iff_disj)

lemma gate_ok_resync: "gate_ok g \<Longrightarrow> gate_ok (maybe_resync sync clock g)"
  by (auto simp: gate_ok_def maybe_resync_def Let_def split: option.splits)

lemma gate_ok_mark: "gate_ok g \<Longrightarrow> gate_ok (mark_committed g)"
  by (auto simp: gate_ok_def mark_committed_def)

lemma advance_boundary_spec:
  "0 < period \<Longrightarrow> est \<le> advance_boundary est period b \<and> (\<exists>n. advance_boundary est period b = b + int n * period)
     \<and> (advance_boundary est period b = b \<or> advance_boundary est period b < est + period)"
proof (induction est period b rule: advance_boundary.induct)
  case (1 est period b)
  show ?case
  proof (cases "est > b")
    case True
    then have e: "advance_boundary est period b = advance_boundary est period (b + period)"
      using 1(2) by (subst advance_boundary.simps) simp
    from 1(1) [OF conjI [OF True 1(2)] 1(2)] obtain n where
      "est \<le> advance_boundary est period (b + period)" "advance_boundary est period (b + period) = b + period + int n * period"
      "advance_boundary est period (b + period) = b + period \<or> advance_boundary est period (b + period) < est + period" by blast
    then show ?thesis
      unfolding e using True by (auto intro!: exI [of _ "Suc n"] simp: algebra_simps)
  next
    case False
    then have "advance_boundary est period b = b" by (subst advance_boundary.simps) simp
    then show ?thesis using False by (auto intro!: exI [of _ 0])
  qed
qed

text \<open>The gate after a resync and the moved boundary.\<close>

lemma should_emit_cases:
  assumes "gate_ok g"
  obtains (unknown) "should_emit_now sync clock g = Inr (None, maybe_resync sync clock g)" "tg_tempo (maybe_resync sync clock g) = None"
  | (known) tempo b est b' where "tg_tempo (maybe_resync sync clock g) = Some tempo" "0 < tempo"
      "tg_next_boundary_block (maybe_resync sync clock g) = Some b" "estimated_block (clock 2) (maybe_resync sync clock g) = Some est"
      "b' = advance_boundary est (tempo + 1) b"
      "should_emit_now sync clock g = Inr (Some (b' - est \<le> tg_lead_blocks g
          \<and> (\<forall>c. tg_committed_boundary g = Some c \<longrightarrow> (tempo + 1) div 2 \<le> \<bar>b' - c\<bar>)),
         (maybe_resync sync clock g)\<lparr>tg_next_boundary_block := Some b'\<rparr>)"
proof -
  let ?g = "maybe_resync sync clock g"
  have ok: "gate_ok ?g" using assms by (rule gate_ok_resync)
  have f: "tg_lead_blocks ?g = tg_lead_blocks g" "tg_committed_boundary ?g = tg_committed_boundary g"
    by (simp_all add: maybe_resync_def Let_def split: option.splits)
  show thesis
  proof (cases "tg_tempo ?g")
    case None
    then show thesis by (intro unknown) (simp_all add: should_emit_now_def)
  next
    case (Some tempo)
    then obtain b sb sa where n: "tg_next_boundary_block ?g = Some b" "tg_synced_block ?g = Some sb" "tg_synced_at ?g = Some sa" "0 < tempo"
      using ok by (auto simp: gate_ok_def)
    then obtain est where e: "estimated_block (clock 2) ?g = Some est" by (simp add: estimated_block_def)
    show thesis
      by (rule known [OF Some n(4,1) e refl])
        (auto simp: should_emit_now_def Let_def Some n(1) e f split: option.splits)
  qed
qed


section \<open>One commit per epoch\<close>

text \<open>The chain: steps at \<open>origin + k * (tempo + 1)\<close>. A sync is honest when its answer lies within \<open>skew\<close>
  blocks of such a step (the two queries may straddle a block), and the local extrapolation is
  off by at most \<open>drift\<close> blocks.\<close>

record chain_clock =
  cl_tempo :: int
  cl_origin :: int
  cl_skew :: int
  cl_drift :: int

definition step_block :: "chain_clock \<Rightarrow> int \<Rightarrow> int" where
  "step_block cl k = cl_origin cl + k * (cl_tempo cl + 1)"

definition honest_sync :: "chain_clock \<Rightarrow> chain_sync \<Rightarrow> bool" where
  "honest_sync cl sync = (case sync of None \<Rightarrow> True | Some (block, tempo, since) \<Rightarrow>
     tempo = cl_tempo cl \<and> (\<exists>k. \<bar>block + max 0 (tempo - since) - step_block cl k\<bar> \<le> cl_skew cl))"

definition good_clock :: "chain_clock \<Rightarrow> int \<Rightarrow> bool" where
  "good_clock cl lead \<longleftrightarrow> 0 < cl_tempo cl \<and> 0 \<le> cl_skew cl \<and> 0 \<le> cl_drift cl \<and> 2 * cl_skew cl < (cl_tempo cl + 1) div 2
     \<and> lead + 2 * cl_drift cl + 2 * cl_skew cl < cl_tempo cl + 1"

text \<open>Runs of the gate. \<open>blk\<close> is the true block height of the last tick and \<open>ks\<close> lists the steps that were
  committed for, latest first. A tick whose decision is to emit may fail to emit; then nothing is marked.\<close>

inductive gate_run :: "chain_clock \<Rightarrow> tempo_gate \<Rightarrow> int \<Rightarrow> int list \<Rightarrow> bool" for cl :: chain_clock where
  start: "gate_run cl (new_tempo_gate bt lead rs) blk []"
| tick: "\<lbrakk>gate_run cl g blk ks; blk \<le> blk'; honest_sync cl sync; should_emit_now sync clock g = Inr (r, g');
     \<And>e. estimated_block (clock 2) g' = Some e \<Longrightarrow> \<bar>e - blk'\<bar> \<le> cl_drift cl\<rbrakk> \<Longrightarrow> gate_run cl g' blk' ks"
| commit: "\<lbrakk>gate_run cl g blk ks; blk \<le> blk'; honest_sync cl sync; should_emit_now sync clock g = Inr (Some True, g');
     \<And>e. estimated_block (clock 2) g' = Some e \<Longrightarrow> \<bar>e - blk'\<bar> \<le> cl_drift cl;
     tg_next_boundary_block g' = Some b; \<bar>b - step_block cl k\<bar> \<le> cl_skew cl\<rbrakk> \<Longrightarrow> gate_run cl (mark_committed g') blk' (k # ks)"

definition run_ok :: "chain_clock \<Rightarrow> tempo_gate \<Rightarrow> int \<Rightarrow> int list \<Rightarrow> bool" where
  "run_ok cl g blk ks \<longleftrightarrow> gate_ok g \<and> (\<forall>t. tg_tempo g = Some t \<longrightarrow> t = cl_tempo cl)
     \<and> (\<forall>b. tg_next_boundary_block g = Some b \<longrightarrow> (\<exists>k. \<bar>b - step_block cl k\<bar> \<le> cl_skew cl))
     \<and> (case ks of [] \<Rightarrow> tg_committed_boundary g = None
        | k # _ \<Rightarrow> (\<exists>c. tg_committed_boundary g = Some c \<and> \<bar>c - step_block cl k\<bar> \<le> cl_skew cl)
            \<and> step_block cl k \<le> blk + tg_lead_blocks g + cl_drift cl + cl_skew cl)
     \<and> sorted_wrt (>) ks \<and> good_clock cl (tg_lead_blocks g)"

lemma estimated_block_frame: "estimated_block t (g\<lparr>tg_next_boundary_block := x\<rparr>) = estimated_block t g"
  by (simp add: estimated_block_def split: option.splits)

lemma resync_frame:
  "tg_lead_blocks (maybe_resync sync clock g) = tg_lead_blocks g" "tg_committed_boundary (maybe_resync sync clock g) = tg_committed_boundary g"
  by (simp_all add: maybe_resync_def Let_def split: option.splits)

lemma resync_honest:
  assumes "honest_sync cl sync" "\<forall>t. tg_tempo g = Some t \<longrightarrow> t = cl_tempo cl"
    and "\<forall>b. tg_next_boundary_block g = Some b \<longrightarrow> (\<exists>k. \<bar>b - step_block cl k\<bar> \<le> cl_skew cl)"
  shows "\<forall>t. tg_tempo (maybe_resync sync clock g) = Some t \<longrightarrow> t = cl_tempo cl"
    and "\<forall>b. tg_next_boundary_block (maybe_resync sync clock g) = Some b \<longrightarrow> (\<exists>k. \<bar>b - step_block cl k\<bar> \<le> cl_skew cl)"
  using assms by (auto simp: maybe_resync_def Let_def honest_sync_def split: option.splits)

lemma tick_ok:
  assumes "run_ok cl g blk ks" "blk \<le> blk'" "honest_sync cl sync" "should_emit_now sync clock g = Inr (r, g')"
  shows "run_ok cl g' blk' ks" "tg_lead_blocks g' = tg_lead_blocks g" "tg_committed_boundary g' = tg_committed_boundary g"
proof -
  let ?g = "maybe_resync sync clock g"
  have ok: "gate_ok g" "good_clock cl (tg_lead_blocks g)" using assms(1) by (simp_all add: run_ok_def)
  have h: "\<forall>t. tg_tempo ?g = Some t \<longrightarrow> t = cl_tempo cl"
    "\<forall>b. tg_next_boundary_block ?g = Some b \<longrightarrow> (\<exists>k. \<bar>b - step_block cl k\<bar> \<le> cl_skew cl)"
    by (rule resync_honest [OF assms(3)]; use assms(1) in \<open>simp add: run_ok_def\<close>)+
  have base: "run_ok cl ?g blk' ks"
    using assms(1,2) h gate_ok_resync [OF ok(1)] by (auto simp: run_ok_def resync_frame split: list.splits)
  have "run_ok cl g' blk' ks \<and> tg_lead_blocks g' = tg_lead_blocks g \<and> tg_committed_boundary g' = tg_committed_boundary g"
    using ok(1)
  proof (cases rule: should_emit_cases [of g sync clock])
    case unknown
    then show ?thesis using base assms(4) by (simp add: resync_frame)
  next
    case (known tempo b est b')
    have g': "g' = ?g\<lparr>tg_next_boundary_block := Some b'\<rparr>" using known(6) assms(4) by simp
    obtain n where n: "b' = b + int n * (tempo + 1)"
      using advance_boundary_spec [of "tempo + 1" est b] known(2,5) by auto
    obtain k where "\<bar>b - step_block cl k\<bar> \<le> cl_skew cl" using h(2) known(3) by blast
    then have "\<bar>b' - step_block cl (k + int n)\<bar> \<le> cl_skew cl"
      using h(1) known(1) n by (simp add: step_block_def algebra_simps)
    moreover have "gate_ok g'" using base known(3) by (auto simp: g' run_ok_def gate_ok_def)
    ultimately show ?thesis using base by (auto simp: run_ok_def g' resync_frame split: list.splits)
  qed
  then show "run_ok cl g' blk' ks" "tg_lead_blocks g' = tg_lead_blocks g" "tg_committed_boundary g' = tg_committed_boundary g" by simp_all
qed

lemma commit_ok:
  assumes "run_ok cl g blk ks" "blk \<le> blk'" "honest_sync cl sync" "should_emit_now sync clock g = Inr (Some True, g')"
    and "\<And>e. estimated_block (clock 2) g' = Some e \<Longrightarrow> \<bar>e - blk'\<bar> \<le> cl_drift cl"
    and "tg_next_boundary_block g' = Some b'" "\<bar>b' - step_block cl k\<bar> \<le> cl_skew cl"
  shows "run_ok cl (mark_committed g') blk' (k # ks)"
    and "\<bar>step_block cl k - blk'\<bar> \<le> tg_lead_blocks g + cl_drift cl + cl_skew cl"
proof -
  have t: "run_ok cl g' blk' ks" "tg_lead_blocks g' = tg_lead_blocks g" "tg_committed_boundary g' = tg_committed_boundary g"
    using tick_ok [OF assms(1-4)] by simp_all
  have ok: "gate_ok g" and gc: "good_clock cl (tg_lead_blocks g)" and lead: "1 \<le> tg_lead_blocks g"
    using assms(1) by (simp_all add: run_ok_def gate_ok_def)
  show near: "\<bar>step_block cl k - blk'\<bar> \<le> tg_lead_blocks g + cl_drift cl + cl_skew cl"
    and "run_ok cl (mark_committed g') blk' (k # ks)"
  proof -
    obtain tempo b est where kn: "tg_tempo g' = Some tempo" "0 < tempo" "estimated_block (clock 2) g' = Some est" "est \<le> b'" "b' - est \<le> tg_lead_blocks g"
      "\<And>c. tg_committed_boundary g = Some c \<Longrightarrow> (tempo + 1) div 2 \<le> \<bar>b' - c\<bar>"
      using ok
    proof (cases rule: should_emit_cases [of g sync clock])
      case unknown
      then show thesis using assms(4) by simp
    next
      case (known tempo b est b2)
      have g': "g' = (maybe_resync sync clock g)\<lparr>tg_next_boundary_block := Some b2\<rparr>" "b2 = b'"
        using known(6) assms(4,6) by auto
      have "est \<le> b2" using advance_boundary_spec [of "tempo + 1" est b] known(2,5) by simp
      moreover have "estimated_block (clock 2) g' = Some est" using known(4) by (simp add: g' estimated_block_frame)
      ultimately show thesis using known assms(4) by (intro that [of tempo est]) (auto simp: g')
    qed
    have tm: "tempo = cl_tempo cl" using t(1) kn(1) by (auto simp: run_ok_def)
    have e: "\<bar>est - blk'\<bar> \<le> cl_drift cl" using assms(5) kn(3) by blast
    show near: "\<bar>step_block cl k - blk'\<bar> \<le> tg_lead_blocks g + cl_drift cl + cl_skew cl"
      using e kn(4,5) assms(7) lead by linarith
    have lt: "k' < k" if mem: "k' \<in> set ks" for k'
    proof -
      obtain k1 ks' where ks: "ks = k1 # ks'" using mem by (cases ks) auto
      obtain c where c: "tg_committed_boundary g = Some c" "\<bar>c - step_block cl k1\<bar> \<le> cl_skew cl"
        "step_block cl k1 \<le> blk' + tg_lead_blocks g + cl_drift cl + cl_skew cl"
        using t(1) unfolding run_ok_def ks t(2,3) by auto
      have "k \<noteq> k1"
      proof
        assume eq: "k = k1"
        have "\<bar>b' - c\<bar> \<le> 2 * cl_skew cl" using c(2) assms(7) unfolding eq by linarith
        with kn(6) [OF c(1)] gc show False by (simp add: good_clock_def tm)
      qed
      moreover have "\<not> k < k1"
      proof
        assume "k < k1"
        then have "k + 1 \<le> k1" by simp
        then have "(k + 1) * (cl_tempo cl + 1) \<le> k1 * (cl_tempo cl + 1)"
          using gc by (intro mult_right_mono) (auto simp: good_clock_def)
        then have "step_block cl k + (cl_tempo cl + 1) \<le> step_block cl k1" by (simp add: step_block_def algebra_simps)
        moreover have "blk' - cl_drift cl - cl_skew cl \<le> step_block cl k" using e kn(4) assms(7) by linarith
        ultimately show False using c(3) gc by (simp add: good_clock_def)
      qed
      ultimately have "k1 < k" by simp
      moreover have "k' \<le> k1" using mem t(1) by (auto simp: run_ok_def ks)
      ultimately show ?thesis by simp
    qed
    show "run_ok cl (mark_committed g') blk' (k # ks)"
      using t(1) gate_ok_mark [of g'] lt near assms(6,7) by (auto simp: run_ok_def mark_committed_def t(2))
  qed
qed

lemma gate_run_ok: "gate_run cl g blk ks \<Longrightarrow> good_clock cl (tg_lead_blocks g) \<Longrightarrow> run_ok cl g blk ks"
proof (induction rule: gate_run.induct)
  case (start bt lead rs blk)
  then show ?case by (simp add: run_ok_def gate_ok_new) (simp add: new_tempo_gate_def)
next
  case (tick g blk ks blk' sync clock r g')
  have "tg_lead_blocks g' = tg_lead_blocks g"
    using tick.hyps(4) by (auto simp: should_emit_now_def Let_def resync_frame split: option.splits if_splits)
  with tick show ?case using tick_ok(1) by simp
next
  case (commit g blk ks blk' sync clock g' b k)
  have "tg_lead_blocks (mark_committed g') = tg_lead_blocks g"
    using commit.hyps(4) by (auto simp: should_emit_now_def Let_def resync_frame mark_committed_def split: option.splits if_splits)
  with commit show ?case using commit_ok(1) by simp
qed

text \<open>
  Property: Against an honest chain the validator commits at most once per tempo epoch: in every run the steps it committed
  for are strictly increasing, however often it re-synchronises, and each commit happens near the
  step it is for, at most the lead, the drift and the skew before it. Required are a skew below a quarter
  of the period and a lead plus twice drift and skew below the period.
\<close>

theorem gate_commits_once_per_epoch:
  assumes "gate_run cl g blk ks" "good_clock cl (tg_lead_blocks g)"
  shows "sorted_wrt (>) ks \<and> distinct ks
    \<and> (\<forall>k. ks \<noteq> [] \<and> k = hd ks \<longrightarrow> step_block cl k \<le> blk + tg_lead_blocks g + cl_drift cl + cl_skew cl)"
proof -
  have "run_ok cl g blk ks" using assms by (rule gate_run_ok)
  then have s: "sorted_wrt (>) ks" "ks \<noteq> [] \<Longrightarrow> step_block cl (hd ks) \<le> blk + tg_lead_blocks g + cl_drift cl + cl_skew cl"
    by (auto simp: run_ok_def split: list.splits)
  have "distinct ks" using s(1) by (induction ks) auto
  with s show ?thesis by auto
qed


definition finney :: chain_clock where
  "finney = \<lparr>cl_tempo = 6, cl_origin = 0, cl_skew = 1, cl_drift = 1\<rparr>"

definition demo_gate :: tempo_gate where "demo_gate = new_tempo_gate 12 2 300"

theorem gate_commits_once_per_epoch_witness:
  "\<exists>g. gate_run finney g 6 [1] \<and> sorted_wrt (>) [1 :: int] \<and> step_block finney 1 \<le> 6 + tg_lead_blocks g + 1 + 1"
proof -
  let ?g = "demo_gate\<lparr>tg_tempo := Some 6, tg_synced_block := Some 6, tg_synced_at := Some 0, tg_next_boundary_block := Some 7,
      tg_last_sync_attempt := Some 0\<rparr>"
  have e: "should_emit_now (Some (6, 6, 5)) (\<lambda>_. 0) demo_gate = Inr (Some True, ?g)"
    by (simp add: should_emit_now_def demo_gate_def new_tempo_gate_def maybe_resync_def estimated_block_def
        Let_def advance_boundary.simps)
  have h: "honest_sync finney (Some (6, 6, 5))" by (auto simp: honest_sync_def finney_def step_block_def intro!: exI [of _ 1])
  have s: "gate_run finney demo_gate 6 []" unfolding demo_gate_def by (rule gate_run.start)
  have "gate_run finney (mark_committed ?g) 6 [1]"
    by (rule gate_run.commit [OF s order.refl h e])
      (auto simp: estimated_block_def finney_def step_block_def demo_gate_def new_tempo_gate_def)
  moreover have "good_clock finney (tg_lead_blocks (mark_committed ?g))"
    by (simp add: good_clock_def finney_def mark_committed_def demo_gate_def new_tempo_gate_def)
  ultimately show ?thesis
    using gate_commits_once_per_epoch [of finney "mark_committed ?g" 6 "[1]"] by (auto simp: finney_def)
qed

text \<open>
  Property: The gate decides without raising, whatever the chain answers: it returns \<open>None\<close> exactly while no positive tempo is known, and
  otherwise opens exactly when the estimated block is within the lead of the next boundary (the first one
  at or after the estimate) and the last commit is at least half a period away.
\<close>

theorem gate_decides_exactly:
  assumes "gate_ok g"
  shows "\<exists>r g'. should_emit_now sync clock g = Inr (r, g') \<and> gate_ok g'
    \<and> (r = None \<longleftrightarrow> tg_tempo g' = None)
    \<and> (\<forall>tempo. tg_tempo g' = Some tempo \<longrightarrow> (\<exists>est b. estimated_block (clock 2) g' = Some est \<and> tg_next_boundary_block g' = Some b \<and> est \<le> b
        \<and> (r = Some True \<longleftrightarrow> b - est \<le> tg_lead_blocks g \<and> (\<forall>c. tg_committed_boundary g = Some c \<longrightarrow> (tempo + 1) div 2 \<le> \<bar>b - c\<bar>))))"
  using assms
proof (cases rule: should_emit_cases [of g sync clock])
  case unknown
  then show ?thesis using gate_ok_resync [OF assms] by simp
next
  case (known tempo b est b')
  let ?g = "(maybe_resync sync clock g)\<lparr>tg_next_boundary_block := Some b'\<rparr>"
  have "gate_ok ?g" using gate_ok_resync [OF assms, of sync clock] known(3) by (auto simp: gate_ok_def)
  moreover have "est \<le> b'" using advance_boundary_spec [of "tempo + 1" est b] known(2,5) by simp
  moreover have "estimated_block (clock 2) ?g = Some est" using known(4) by (simp add: estimated_block_frame)
  ultimately show ?thesis using known(1,6) by (intro exI [of _ "Some _"] exI [of _ ?g]) auto
qed

theorem gate_decides_exactly_witness:
  "\<exists>r g'. should_emit_now None (\<lambda>_. 0) demo_gate = Inr (r, g') \<and> gate_ok g' \<and> (r = None \<longleftrightarrow> tg_tempo g' = None)"
proof -
  have "gate_ok demo_gate" by (simp add: demo_gate_def gate_ok_new)
  from gate_decides_exactly [OF this, of None "\<lambda>_. 0"] show ?thesis by (elim exE conjE) (intro exI conjI)
qed

end
