(* ===== verification/Internal_Auth.thy ===== *)
theory Internal_Auth
  imports Json
begin

text \<open>
  Authentication of the requests between the processes of one validator host, \<open>shared/internal_auth.py\<close>.
  The digest (\<open>keccak\<close> of the ABI encoding of method, path, body and time stamp) and the account library are
  arguments; \<open>recovers_key\<close> states what the code relies on: recovering from a signature over a digest
  yields the address of the signing key.
\<close>

definition MAX_REQUEST_AGE_SECONDS :: int where "MAX_REQUEST_AGE_SECONDS = 30"
definition MAX_REQUEST_FUTURE_SKEW_SECONDS :: int where "MAX_REQUEST_FUTURE_SKEW_SECONDS = 5"

definition upper_char :: "char \<Rightarrow> char" where
  "upper_char c = (let n = of_char c :: nat in if 97 \<le> n \<and> n \<le> 122 then char_of (n - 32) else c)"

definition upper :: "string \<Rightarrow> string" where
  "upper s = map upper_char s"

text \<open>The digest of the ABI-encoded fields, the address of a key, signing and recovering.\<close>

record 'd request_crypto =
  rc_digest :: "string \<times> string \<times> string \<times> int \<Rightarrow> 'd"
  rc_address :: "string \<Rightarrow> string"
  rc_sign :: "'d \<Rightarrow> string \<Rightarrow> string"
  rc_recover :: "'d \<Rightarrow> string \<Rightarrow> string res"

definition request_digest :: "'d request_crypto \<Rightarrow> string \<Rightarrow> string \<Rightarrow> string \<Rightarrow> int \<Rightarrow> 'd" where
  "request_digest rc meth path body timestamp = rc_digest rc (upper meth, path, body, timestamp)"

definition with_0x :: "string \<Rightarrow> string" where
  "with_0x s = (if prefix ''0x'' s then s else ''0x'' @ s)"

text \<open>\<open>now\<close> is \<open>time.time()\<close>, read only when no time stamp is given.\<close>

definition sign_request :: "'d request_crypto \<Rightarrow> string \<Rightarrow> string \<Rightarrow> string \<Rightarrow> string \<Rightarrow> int option \<Rightarrow> real \<Rightarrow> int \<times> string" where
  "sign_request rc private_key meth path body timestamp now =
     (let timestamp = (case timestamp of None \<Rightarrow> trunc now | Some t \<Rightarrow> t) in
      (timestamp, with_0x (rc_sign rc (request_digest rc meth path body timestamp) private_key)))"

datatype request_check = Authentic | Too_Old | In_The_Future | Bad_Signature | Wrong_Signer

definition verify_request ::
  "'d request_crypto \<Rightarrow> string \<Rightarrow> string \<Rightarrow> string \<Rightarrow> int \<Rightarrow> string \<Rightarrow> string \<Rightarrow> int \<Rightarrow> real \<Rightarrow> request_check" where
  "verify_request rc meth path body timestamp signature_hex expected_address max_age_seconds current =
     (let age = current - of_int timestamp in
      if age > of_int max_age_seconds then Too_Old
      else if age < - of_int MAX_REQUEST_FUTURE_SKEW_SECONDS then In_The_Future
      else case rc_recover rc (request_digest rc meth path body timestamp) (with_0x signature_hex) of
        Inl _ \<Rightarrow> Bad_Signature
      | Inr recovered \<Rightarrow> if lower recovered \<noteq> lower expected_address then Wrong_Signer else Authentic)"

definition derive_signer_address :: "'d request_crypto \<Rightarrow> string \<Rightarrow> string" where
  "derive_signer_address rc private_key = rc_address rc private_key"

lemma with_0x_idem [simp]: "with_0x (with_0x s) = with_0x s"
  by (simp add: with_0x_def)

definition recovers_key :: "'d request_crypto \<Rightarrow> string \<Rightarrow> bool" where
  "recovers_key rc key \<longleftrightarrow> (\<forall>d. rc_recover rc d (with_0x (rc_sign rc d key)) = Inr (rc_address rc key))"

lemma signed_request_verifies:
  assumes "recovers_key rc key" "sign_request rc key meth path body timestamp t0 = (ts, sig)"
  shows "verify_request rc meth path body ts sig (derive_signer_address rc key) max_age current = Authentic
    \<longleftrightarrow> current - of_int ts \<le> of_int max_age \<and> - 5 \<le> current - of_int ts"
proof -
  have s: "sig = with_0x (rc_sign rc (request_digest rc meth path body ts) key)"
    using assms(2) by (auto simp: sign_request_def Let_def)
  have r: "rc_recover rc d (with_0x (rc_sign rc d key)) = Inr (rc_address rc key)" for d
    using assms(1) by (simp add: recovers_key_def)
  show ?thesis
    by (auto simp: s verify_request_def r derive_signer_address_def MAX_REQUEST_FUTURE_SKEW_SECONDS_def Let_def)
qed

lemma verified_request:
  assumes "verify_request rc meth path body ts sig expected max_age current = Authentic"
  shows "current - of_int ts \<le> of_int max_age" "- 5 \<le> current - of_int ts"
    "\<exists>a. rc_recover rc (rc_digest rc (upper meth, path, body, ts)) (with_0x sig) = Inr a \<and> lower a = lower expected"
  using assms by (auto simp: verify_request_def Let_def request_digest_def MAX_REQUEST_FUTURE_SKEW_SECONDS_def
      split: if_splits sum.splits)

text \<open>A concrete account whose signatures name key and digest, for the witnesses.\<close>

definition plain_crypto :: "(string \<times> string \<times> string \<times> int) request_crypto" where
  "plain_crypto = \<lparr>rc_digest = (\<lambda>d. d), rc_address = (\<lambda>k. ''0x'' @ k),
     rc_sign = (\<lambda>(m, p, b, t) k. ''0x'' @ k @ ''|'' @ b),
     rc_recover = (\<lambda>(m, p, b, t) s. if drop (length s - Suc (length b)) s = ''|'' @ b
        then Inr (take (length s - Suc (length b)) s) else Inl (ValueError ''signature''))\<rparr>"

lemma plain_recovers: "rc_recover plain_crypto d (with_0x (rc_sign plain_crypto d k)) = Inr (rc_address plain_crypto k)"
  by (cases d) (simp add: plain_crypto_def with_0x_def)

lemma plain_recovers_key: "recovers_key plain_crypto k"
  by (simp add: recovers_key_def plain_recovers)

text \<open>
  Property: A request signed with the host's key is accepted by the receiver exactly within its window: at most
  30 seconds old and at most 5 seconds ahead, whatever the letter case of the method; and whatever the
  receiver accepts carries a signature that recovers to its own address over exactly this
  method, path, body and time stamp.
\<close>

theorem internal_requests_authentic:
  assumes "recovers_key rc key" "sign_request rc key meth path body timestamp t0 = (ts, sig)"
    and "upper meth' = upper meth"
  shows "(verify_request rc meth' path body ts sig (derive_signer_address rc key) MAX_REQUEST_AGE_SECONDS current = Authentic
      \<longleftrightarrow> - 5 \<le> current - of_int ts \<and> current - of_int ts \<le> 30)
    \<and> (\<forall>path' body' ts' sig' own. verify_request rc meth' path' body' ts' sig' own MAX_REQUEST_AGE_SECONDS current = Authentic \<longrightarrow>
        current - of_int ts' \<le> 30 \<and> (\<exists>a. rc_recover rc (rc_digest rc (upper meth, path', body', ts')) (with_0x sig') = Inr a \<and> lower a = lower own))"
proof -
  have "verify_request rc meth' path' body' ts' sig' own m c = verify_request rc meth path' body' ts' sig' own m c" for path' body' ts' sig' own m c
    unfolding verify_request_def request_digest_def assms(3) by (rule refl)
  then show ?thesis
    using signed_request_verifies [OF assms(1,2), of MAX_REQUEST_AGE_SECONDS current] verified_request [of rc meth _ _ _ _ _ MAX_REQUEST_AGE_SECONDS current]
    by (auto simp: MAX_REQUEST_AGE_SECONDS_def)
qed

theorem internal_requests_authentic_witness:
  "verify_request plain_crypto ''post'' ''/q'' ''b'' 100 (snd (sign_request plain_crypto ''k'' ''POST'' ''/q'' ''b'' (Some 100) 0))
     (derive_signer_address plain_crypto ''k'') MAX_REQUEST_AGE_SECONDS 120 = Authentic"
proof -
  obtain sig where s: "sign_request plain_crypto ''k'' ''POST'' ''/q'' ''b'' (Some 100) 0 = (100, sig)"
    by (auto simp: sign_request_def Let_def)
  have u: "upper ''post'' = upper ''POST''" by code_simp
  from internal_requests_authentic [OF plain_recovers_key s u, of 120] show ?thesis by (simp add: s)
qed

end
