(* ===== verification/Epoch_Loop.thy ===== *)
theory Epoch_Loop
  imports Weights Tempo_Gate Internal_Auth
begin

text \<open>
  The emission loop of the validator daemon, which composes the gate, the weights and the emitter:
  \<open>validator/champion_client.py\<close> (resolving the champion, with a memo of bounded age), and from
  \<open>validator/main.py\<close> the weight queue endpoint, the debounce of a missing champion, one iteration of
  \<open>_epoch_loop\<close>, \<open>_do_emit\<close> and the persisted emit states.

  One tick of the loop gets its readings in a record: the chain's answer to the gate, the clocks, the answer
  of the co-located API and whether the two state files can be written.
\<close>

section \<open>Resolving the champion\<close>

datatype champion_source = Src_Init | Src_Api | Src_Memo | Src_None

text \<open>The answer to the request: it raises, or has a status and the \<open>hotkey\<close> field of the body
  (\<open>None\<close> for a missing field or body).\<close>

datatype api_answer = Api_Raised | Api_Answer int "string option"

record resolver =
  cr_url :: string
  cr_memo_ttl :: real
  cr_memo_hotkey :: "string option"
  cr_memo_at :: "real option"

definition fetch_champion :: "api_answer \<Rightarrow> string option res" where
  "fetch_champion a =
     (case a of
        Api_Raised \<Rightarrow> Inl (ValueError ''transport'')
      | Api_Answer status hotkey \<Rightarrow>
          if status \<noteq> 200 then Inl (ValueError ''status'')
          else let hk = strip (or_empty hotkey) in
            Inr (if is_real_miner_hotkey (Some hk) then Some hk else None))"

definition resolve_champion :: "real \<Rightarrow> api_answer \<Rightarrow> resolver \<Rightarrow> (string option \<times> champion_source) \<times> resolver" where
  "resolve_champion now a cr =
     (if cr_url cr = [] then ((None, Src_None), cr)
      else case fetch_champion a of
        Inr (Some hk) \<Rightarrow> ((Some hk, Src_Api), cr\<lparr>cr_memo_hotkey := Some hk, cr_memo_at := Some now\<rparr>)
      | Inr None \<Rightarrow> ((None, Src_Api), cr)
      | Inl _ \<Rightarrow>
         (case cr_memo_at cr of
            Some t \<Rightarrow> if now - t \<le> cr_memo_ttl cr then ((cr_memo_hotkey cr, Src_Memo), cr) else ((None, Src_None), cr)
          | None \<Rightarrow> ((None, Src_None), cr)))"

section \<open>The daemon\<close>

record emit_state =
  es_attempted_at :: real
  es_ok :: bool
  es_uids_attempted :: nat
  es_source :: string

record 'c daemon =
  dm_validator_id :: string
  dm_gate :: "tempo_gate option"
  dm_weights :: champion_weights
  dm_emitter :: "'c emitter option"
  dm_resolver :: resolver
  dm_champion :: "string option"
  dm_champion_source :: champion_source
  dm_null_since :: "real option"
  dm_queued :: "weights option"
  dm_queued_source :: "string option"
  dm_last_emit :: "emit_state option"
  dm_last_ok :: "emit_state option"
  dm_disk_emit :: "emit_state option"
  dm_disk_ok :: "emit_state option"

subsection \<open>Persistence\<close>

definition write_persisted_state :: "bool \<Rightarrow> emit_state option \<Rightarrow> emit_state option \<Rightarrow> emit_state option" where
  "write_persisted_state writable st disk = (case st of None \<Rightarrow> disk | Some s \<Rightarrow> if writable then Some s else disk)"

definition persist_last_emit_state :: "bool \<times> bool \<Rightarrow> 'c daemon \<Rightarrow> 'c daemon" where
  "persist_last_emit_state writable d =
     d\<lparr>dm_disk_emit := write_persisted_state (fst writable) (dm_last_emit d) (dm_disk_emit d),
       dm_disk_ok := write_persisted_state (snd writable) (dm_last_ok d) (dm_disk_ok d)\<rparr>"

definition restore_last_emit_state :: "'c daemon \<Rightarrow> 'c daemon" where
  "restore_last_emit_state d =
     (let d = d\<lparr>dm_last_emit := dm_disk_emit d, dm_last_ok := dm_disk_ok d\<rparr> in
      case (dm_last_ok d, dm_last_emit d) of
        (None, Some s) \<Rightarrow> if es_ok s then d\<lparr>dm_last_ok := Some s\<rparr> else d
      | _ \<Rightarrow> d)"

subsection \<open>The weight queue\<close>

datatype queue_reply =
    Queued nat
  | No_Emitter | No_Auth | Missing_Headers | Bad_Timestamp | Not_Authentic
  | Not_Json | Not_Object | Empty_Mapping | Not_Numeric

fun queue_status :: "queue_reply \<Rightarrow> int" where
  "queue_status (Queued _) = 200"
| "queue_status No_Emitter = 503"
| "queue_status No_Auth = 503"
| "queue_status Missing_Headers = 403"
| "queue_status Bad_Timestamp = 403"
| "queue_status Not_Authentic = 403"
| "queue_status _ = 400"

text \<open>\<open>float(v)\<close>; the parsing of numbers in strings is not modelled.\<close>

fun py_float_of :: "json \<Rightarrow> real res" where
  "py_float_of (JBool b) = Inr (if b then 1 else 0)"
| "py_float_of (JInt i) = Inr (of_int i)"
| "py_float_of (JFloat x) = Inr x"
| "py_float_of (JStr s) = Inl Unmodelled"
| "py_float_of _ = Inl TypeError"

definition clean_mapping :: "(string \<times> json) list \<Rightarrow> weights res" where
  "clean_mapping m = res_bind (res_map (\<lambda>(k, v). res_bind (py_float_of v) (\<lambda>x. Inr (k, x))) m) (\<lambda>kvs. Inr (dict_of kvs))"

text \<open>The part of the handler after the authentication: a refusal, or the cleaned mapping with its source. \<open>None\<close>
  stands for a body that is not JSON.\<close>

definition read_queue_body :: "json option \<Rightarrow> (queue_reply + weights \<times> string) res" where
  "read_queue_body body =
     (case body of
        None \<Rightarrow> Inr (Inl Not_Json)
      | Some (JObj payload) \<Rightarrow>
         (case jget payload ''mapping'' of
            JObj m \<Rightarrow>
              if m = [] then Inr (Inl Empty_Mapping)
              else (case clean_mapping m of
                  Inl e \<Rightarrow> if e = Unmodelled then Inl Unmodelled else Inr (Inl Not_Numeric)
                | Inr cleaned \<Rightarrow>
                    res_bind (case map_of payload ''source'' of None \<Rightarrow> Inr ''queued_from_api'' | Some v \<Rightarrow> py_str v)
                      (\<lambda>src. Inr (Inr (cleaned, take 64 src))))
          | _ \<Rightarrow> Inr (Inl Empty_Mapping))
      | Some _ \<Rightarrow> Inr (Inl Not_Object))"

text \<open>\<open>loads\<close> is the JSON parser, \<open>None\<close> when it raises.\<close>

definition handle_weights_queue ::
  "'d request_crypto \<Rightarrow> (string \<Rightarrow> json option) \<Rightarrow> string \<Rightarrow> string \<Rightarrow> string \<Rightarrow> string \<Rightarrow> string \<Rightarrow> real \<Rightarrow> 'c daemon
   \<Rightarrow> (queue_reply \<times> 'c daemon) res" where
  "handle_weights_queue rc loads meth path body ts_header sig_header current d =
     (if dm_emitter d = None then Inr (No_Emitter, d)
      else if dm_validator_id d = [] then Inr (No_Auth, d)
      else if ts_header = [] \<or> sig_header = [] then Inr (Missing_Headers, d)
      else case py_int ts_header of
        None \<Rightarrow> Inr (Bad_Timestamp, d)
      | Some ts \<Rightarrow>
         if verify_request rc meth path body ts sig_header (dm_validator_id d) MAX_REQUEST_AGE_SECONDS current \<noteq> Authentic
         then Inr (Not_Authentic, d)
         else case read_queue_body (loads body) of
           Inl e \<Rightarrow> Inl e
         | Inr (Inl refusal) \<Rightarrow> Inr (refusal, d)
         | Inr (Inr (cleaned, src)) \<Rightarrow>
             Inr (Queued (length cleaned), d\<lparr>dm_queued := Some cleaned, dm_queued_source := Some src\<rparr>))"

subsection \<open>The debounce of a missing champion\<close>

text \<open>The two environment variables as numbers, \<open>None\<close> when one cannot be parsed.\<close>

definition null_champion_limits :: "real option \<Rightarrow> real option \<Rightarrow> real \<times> real" where
  "null_champion_limits grace memory =
     (case (grace, memory) of (Some g, Some m) \<Rightarrow> (g, m) | _ \<Rightarrow> (600, 7200))"

definition champion_recent :: "real \<Rightarrow> real \<Rightarrow> 'c daemon \<Rightarrow> bool" where
  "champion_recent memory now d =
     (case dm_last_ok d of None \<Rightarrow> False | Some s \<Rightarrow> es_source s = ''champion'' \<and> now - es_attempted_at s < memory)"

definition should_defer_null_champion_burn :: "real \<times> real \<Rightarrow> real \<Rightarrow> 'c daemon \<Rightarrow> bool \<times> 'c daemon" where
  "should_defer_null_champion_burn limits now d =
     (case limits of (grace, memory) \<Rightarrow>
        if grace \<le> 0 then (False, d)
        else if \<not> champion_recent memory now d then (False, d\<lparr>dm_null_since := None\<rparr>)
        else case dm_null_since d of
          None \<Rightarrow> (True, d\<lparr>dm_null_since := Some now\<rparr>)
        | Some t \<Rightarrow> (now - t < grace, d))"

subsection \<open>One tick\<close>

record tick_input =
  tk_sync :: chain_sync
  tk_gate_clock :: "nat \<Rightarrow> real"
  tk_answer :: api_answer
  tk_monotonic :: real
  tk_now :: real
  tk_weights_clock :: "nat \<Rightarrow> real"
  tk_attempt :: real
  tk_writable :: "bool \<times> bool"

record 'c loop_env =
  le_chain :: "'c chain_api"
  le_env_owner :: string
  le_limits :: "real \<times> real"

text \<open>\<open>emit_async\<close> handles what it raises itself, so the handler around it in \<open>_do_emit\<close> has no case here.\<close>

definition do_emit :: "'c loop_env \<Rightarrow> tick_input \<Rightarrow> weights \<Rightarrow> string \<Rightarrow> 'c emitter \<Rightarrow> 'c daemon \<Rightarrow> bool \<times> 'c daemon" where
  "do_emit env tk mapping source em d =
     (case emit_async (le_chain env) (le_env_owner env) mapping em of
        (success, em') \<Rightarrow>
          let es = \<lparr>es_attempted_at = tk_attempt tk, es_ok = success, es_uids_attempted = length mapping, es_source = source\<rparr> in
          (success, persist_last_emit_state (tk_writable tk)
            (d\<lparr>dm_emitter := Some em', dm_last_emit := Some es, dm_last_ok := (if success then Some es else dm_last_ok d)\<rparr>)))"

text \<open>What a tick did: nothing, or an emission with its mapping, its source and its success.\<close>

datatype emit_event = Quiet | Emit weights string bool

definition mark_if :: "bool \<Rightarrow> 'c daemon \<Rightarrow> 'c daemon" where
  "mark_if b d = (if b then d\<lparr>dm_gate := map_option mark_committed (dm_gate d)\<rparr> else d)"

definition emit_and_mark :: "'c loop_env \<Rightarrow> tick_input \<Rightarrow> bool \<Rightarrow> weights \<Rightarrow> string \<Rightarrow> 'c emitter \<Rightarrow> 'c daemon \<Rightarrow> emit_event \<times> 'c daemon" where
  "emit_and_mark env tk tempo_mode mapping source em d =
     (case do_emit env tk mapping source em d of
        (emitted, d) \<Rightarrow> (Emit mapping source emitted, mark_if (tempo_mode \<and> emitted) d))"

definition champion_path :: "'c loop_env \<Rightarrow> tick_input \<Rightarrow> bool \<Rightarrow> 'c emitter \<Rightarrow> 'c daemon \<Rightarrow> emit_event \<times> 'c daemon" where
  "champion_path env tk tempo_mode em d =
     (let ((hotkey, src), cr) = resolve_champion (tk_monotonic tk) (tk_answer tk) (dm_resolver d);
          d = d\<lparr>dm_champion := hotkey, dm_champion_source := src, dm_resolver := cr,
                dm_null_since := (if hotkey \<noteq> None then None else dm_null_since d)\<rparr> in
      if hotkey = None \<and> src \<noteq> Src_Api then (Quiet, d)
      else
        let (defer, d) = (if hotkey = None then should_defer_null_champion_burn (le_limits env) (tk_now tk) d else (False, d)) in
        if defer then (Quiet, d)
        else
          let (w, cw) = (if tempo_mode then close_epoch_now (le_env_owner env) hotkey (tk_weights_clock tk) (dm_weights d)
                         else maybe_emit (le_env_owner env) hotkey (tk_weights_clock tk) (dm_weights d));
              d = d\<lparr>dm_weights := cw\<rparr> in
          case w of
            None \<Rightarrow> (Quiet, d)
          | Some mapping \<Rightarrow> emit_and_mark env tk tempo_mode mapping
              (if or_empty hotkey \<noteq> [] then ''champion'' else ''burn'') em d)"

definition tick_in_window :: "'c loop_env \<Rightarrow> tick_input \<Rightarrow> bool option \<Rightarrow> 'c emitter \<Rightarrow> 'c daemon \<Rightarrow> emit_event \<times> 'c daemon" where
  "tick_in_window env tk in_window em d =
     (let tempo_mode = (in_window = Some True); queued = (case dm_queued d of None \<Rightarrow> [] | Some q \<Rightarrow> q) in
      if in_window = Some False then (Quiet, d)
      else if queued \<noteq> [] then
        let source = (if or_empty (dm_queued_source d) = [] then ''queued'' else or_empty (dm_queued_source d)) in
        emit_and_mark env tk tempo_mode queued source em (d\<lparr>dm_queued := None, dm_queued_source := None\<rparr>)
      else champion_path env tk tempo_mode em d)"

definition epoch_tick :: "'c loop_env \<Rightarrow> tick_input \<Rightarrow> 'c daemon \<Rightarrow> (emit_event \<times> 'c daemon) res" where
  "epoch_tick env tk d =
     (case dm_emitter d of
        None \<Rightarrow> Inr (Quiet, d)
      | Some em \<Rightarrow>
         (case dm_gate d of
            None \<Rightarrow> Inr (tick_in_window env tk None em d)
          | Some g \<Rightarrow> res_bind (should_emit_now (tk_sync tk) (tk_gate_clock tk) g)
              (\<lambda>(in_window, g). Inr (tick_in_window env tk in_window em (d\<lparr>dm_gate := Some g\<rparr>)))))"

section \<open>The weight queue\<close>

lemma read_queue_body_refused: "read_queue_body j = Inr (Inl r) \<Longrightarrow> queue_status r = 400"
  by (auto simp: read_queue_body_def res_bind_eq_Inr split: option.splits json.splits if_splits sum.splits)

lemma read_queue_body_accepted:
  "read_queue_body j = Inr (Inr (c, s)) \<Longrightarrow> \<exists>payload m. j = Some (JObj payload) \<and> jget payload ''mapping'' = JObj m \<and> m \<noteq> [] \<and> clean_mapping m = Inr c"
  by (auto simp: read_queue_body_def res_bind_eq_Inr split: option.splits json.splits if_splits sum.splits)

lemma handle_weights_queue_cases:
  assumes "handle_weights_queue rc loads meth path body tsh sgh now d = Inr (r, d')"
  obtains (refused) "d' = d" "queue_status r \<noteq> 200"
  | (queued) ts cleaned src where "dm_emitter d \<noteq> None" "py_int tsh = Some ts"
      "verify_request rc meth path body ts sgh (dm_validator_id d) MAX_REQUEST_AGE_SECONDS now = Authentic"
      "read_queue_body (loads body) = Inr (Inr (cleaned, src))"
      "r = Queued (length cleaned)" "d' = d\<lparr>dm_queued := Some cleaned, dm_queued_source := Some src\<rparr>"
proof (cases "queue_status r = 200")
  case False
  then have "d' = d"
    using assms by (simp add: handle_weights_queue_def split: if_split_asm option.split_asm sum.split_asm prod.split_asm)
      (metis queue_status.simps(1))
  then show thesis using False by (rule refused)
next
  case True
  then show thesis
    using assms read_queue_body_refused [of "loads body" r]
    by (simp add: handle_weights_queue_def split: if_split_asm option.split_asm sum.split_asm prod.split_asm)
      (force intro: queued)+
qed

lemma clean_mapping_keys: "clean_mapping m = Inr cleaned \<Longrightarrow> wf_dict m \<Longrightarrow> keys_of cleaned = keys_of m"
proof -
  assume c: "clean_mapping m = Inr cleaned" and w: "wf_dict m"
  then obtain kvs where "list_all2 (\<lambda>p y. (case p of (k, v) \<Rightarrow> res_bind (py_float_of v) (\<lambda>x. Inr (k, x))) = Inr y) m kvs" "cleaned = dict_of kvs"
    by (auto simp: clean_mapping_def res_bind_eq_Inr res_map_eq_Inr)
  moreover from this(1) have "keys_of kvs = keys_of m"
    by (induction rule: list_all2_induct) (auto simp: res_bind_eq_Inr)
  ultimately show ?thesis using w by (simp add: dict_of_wf)
qed

text \<open>
  Property: Only the host's own key drives the weight queue. The slot changes exactly when the request is answered with 200, and then
  the daemon can emit, the request's signature recovers to the validator's own address over
  this body and a time stamp at most 30 seconds old, and the slot holds the numbers of the
  non-empty mapping in the body. Every other request leaves the daemon unchanged.
\<close>

theorem weight_queue_is_authenticated:
  assumes "handle_weights_queue rc loads meth path body tsh sgh now d = Inr (r, d')"
  shows "(queue_status r \<noteq> 200 \<longrightarrow> d' = d)
    \<and> (queue_status r = 200 \<longrightarrow> dm_emitter d \<noteq> None
        \<and> (\<exists>ts a. py_int tsh = Some ts \<and> now - of_int ts \<le> 30
            \<and> rc_recover rc (rc_digest rc (upper meth, path, body, ts)) (with_0x sgh) = Inr a \<and> lower a = lower (dm_validator_id d))
        \<and> (\<exists>payload m cleaned src. loads body = Some (JObj payload) \<and> jget payload ''mapping'' = JObj m \<and> m \<noteq> []
            \<and> clean_mapping m = Inr cleaned \<and> d' = d\<lparr>dm_queued := Some cleaned, dm_queued_source := Some src\<rparr>))"
  using assms
proof (cases rule: handle_weights_queue_cases)
  case (queued ts cleaned src)
  from verified_request [OF queued(3)] read_queue_body_accepted [OF queued(4)] queued show ?thesis
    by (auto simp: MAX_REQUEST_AGE_SECONDS_def)
qed simp

section \<open>Burning needs a persistent vacancy\<close>

text \<open>The champion readings that a tick takes: none when the emitter is missing, the gate is closed or a mapping is queued.\<close>

definition gate_answer :: "tick_input \<Rightarrow> 'c daemon \<Rightarrow> bool option" where
  "gate_answer tk d = (case dm_gate d of None \<Rightarrow> None
     | Some g \<Rightarrow> (case should_emit_now (tk_sync tk) (tk_gate_clock tk) g of Inl _ \<Rightarrow> None | Inr (r, _) \<Rightarrow> r))"

definition tick_reads :: "tick_input \<Rightarrow> 'c daemon \<Rightarrow> (real \<times> string option) list" where
  "tick_reads tk d =
     (if dm_emitter d = None \<or> gate_answer tk d = Some False \<or> (dm_queued d \<noteq> None \<and> dm_queued d \<noteq> Some []) then []
      else [(tk_now tk, fst (fst (resolve_champion (tk_monotonic tk) (tk_answer tk) (dm_resolver d))))])"

text \<open>Runs of the daemon with the champion readings, latest first.\<close>

inductive loop_run :: "'d request_crypto \<Rightarrow> 'c loop_env \<Rightarrow> 'c daemon \<Rightarrow> (real \<times> string option) list \<Rightarrow> bool"
  for rc :: "'d request_crypto" and env :: "'c loop_env" where
  start: "dm_null_since d = None \<Longrightarrow> cr_memo_hotkey (dm_resolver d) = None \<Longrightarrow> loop_run rc env d []"
| enqueue: "loop_run rc env d rs \<Longrightarrow> handle_weights_queue rc loads meth path body tsh sgh now d = Inr (r, d') \<Longrightarrow> loop_run rc env d' rs"
| tick: "loop_run rc env d rs \<Longrightarrow> epoch_tick env tk d = Inr (ev, d') \<Longrightarrow> loop_run rc env d' (tick_reads tk d @ rs)"

definition null_tail :: "real \<Rightarrow> (real \<times> string option) list \<Rightarrow> bool" where
  "null_tail t rs \<longleftrightarrow> (\<exists>recent older. rs = recent @ older \<and> recent \<noteq> [] \<and> (\<forall>(s, h) \<in> set recent. h = None) \<and> fst (last recent) = t)"

definition null_ok :: "'c daemon \<Rightarrow> (real \<times> string option) list \<Rightarrow> bool" where
  "null_ok d rs \<longleftrightarrow> (\<forall>t. dm_null_since d = Some t \<longrightarrow> null_tail t rs) \<and> cr_memo_hotkey (dm_resolver d) \<noteq> Some []"

lemma null_tail_Cons: "null_tail t rs \<Longrightarrow> null_tail t ((s, None) # rs)"
  unfolding null_tail_def by (elim exE conjE, rule_tac x = "(s, None) # recent" in exI) auto

lemma null_tail_new: "null_tail s ((s, None) # rs)"
  unfolding null_tail_def by (rule exI [of _ "[(s, None)]"]) auto

lemma emit_and_mark_frame:
  "emit_and_mark env tk tm m src em d = (ev, d') \<Longrightarrow>
     dm_null_since d' = dm_null_since d \<and> dm_resolver d' = dm_resolver d \<and> (\<exists>ok. ev = Emit m src ok)"
  by (auto simp: emit_and_mark_def do_emit_def mark_if_def persist_last_emit_state_def Let_def split: prod.splits)

lemma defer_null_since:
  assumes "should_defer_null_champion_burn limits now d = (b, d')"
  shows "(dm_null_since d' = None \<or> dm_null_since d' = dm_null_since d \<or> dm_null_since d' = Some now)
    \<and> dm_resolver d' = dm_resolver d \<and> dm_weights d' = dm_weights d"
  using assms by (auto simp: should_defer_null_champion_burn_def split: if_splits option.splits prod.splits)

lemma champion_path_null_since:
  assumes "champion_path env tk tm em d = (ev, d')"
  shows "dm_null_since d' = None
    \<or> (fst (fst (resolve_champion (tk_monotonic tk) (tk_answer tk) (dm_resolver d))) = None
        \<and> (dm_null_since d' = dm_null_since d \<or> dm_null_since d' = Some (tk_now tk)))"
    and "dm_resolver d' = snd (resolve_champion (tk_monotonic tk) (tk_answer tk) (dm_resolver d))"
proof -
  obtain hotkey src cr where r: "resolve_champion (tk_monotonic tk) (tk_answer tk) (dm_resolver d) = ((hotkey, src), cr)"
    by (metis prod.exhaust)
  let ?d = "d\<lparr>dm_champion := hotkey, dm_champion_source := src, dm_resolver := cr,
                dm_null_since := (if hotkey \<noteq> None then None else dm_null_since d)\<rparr>"
  obtain b d1 where s: "(if hotkey = None then should_defer_null_champion_burn (le_limits env) (tk_now tk) ?d else (False, ?d)) = (b, d1)"
    by fastforce
  have d1: "dm_null_since d1 = None \<or> hotkey = None \<and> (dm_null_since d1 = dm_null_since d \<or> dm_null_since d1 = Some (tk_now tk))"
    using s defer_null_since [of "le_limits env" "tk_now tk" ?d b d1] by (auto split: if_splits)
  have "(dm_null_since d' = dm_null_since ?d \<or> dm_null_since d' = dm_null_since d1) \<and> (dm_resolver d' = cr \<or> dm_resolver d' = dm_resolver d1)"
    using assms unfolding champion_path_def r Let_def prod.case s
    by (auto split: if_splits prod.splits option.splits dest: emit_and_mark_frame)
  moreover have "dm_resolver d1 = cr" using s defer_null_since [of "le_limits env" "tk_now tk" ?d b d1] by (auto split: if_splits)
  ultimately show "dm_null_since d' = None
    \<or> (fst (fst (resolve_champion (tk_monotonic tk) (tk_answer tk) (dm_resolver d))) = None
        \<and> (dm_null_since d' = dm_null_since d \<or> dm_null_since d' = Some (tk_now tk)))"
    "dm_resolver d' = snd (resolve_champion (tk_monotonic tk) (tk_answer tk) (dm_resolver d))"
    using d1 by (cases hotkey; auto simp: r)+
qed

lemma resolve_champion_real:
  assumes "cr_memo_hotkey cr \<noteq> Some []" "resolve_champion now a cr = ((hotkey, src), cr')"
  shows "hotkey \<noteq> Some []" "cr_memo_hotkey cr' \<noteq> Some []"
    "hotkey = None \<Longrightarrow> src = Src_Api \<Longrightarrow> cr_url cr \<noteq> [] \<and> fetch_champion a = Inr None"
  using assms by (auto simp: resolve_champion_def fetch_champion_def is_real_miner_hotkey_def Let_def
      split: if_splits sum.splits option.splits api_answer.splits)

lemma epoch_tick_cases:
  assumes "epoch_tick env tk d = Inr (ev, d')"
  obtains (idle) "dm_null_since d' = dm_null_since d" "dm_resolver d' = dm_resolver d" "tick_reads tk d = []" "ev = Quiet"
  | (queue) m src ok where "dm_null_since d' = dm_null_since d" "dm_resolver d' = dm_resolver d" "tick_reads tk d = []" "ev = Emit m src ok" "dm_queued d = Some m" "m \<noteq> []"
  | (path) em g tm where "dm_emitter d = Some em" "champion_path env tk tm em (d\<lparr>dm_gate := g\<rparr>) = (ev, d')"
      "tick_reads tk d = [(tk_now tk, fst (fst (resolve_champion (tk_monotonic tk) (tk_answer tk) (dm_resolver d))))]"
      "dm_queued d = None \<or> dm_queued d = Some []"
proof (cases "dm_emitter d")
  case None
  then show thesis using assms by (intro idle) (auto simp: epoch_tick_def tick_reads_def)
next
  case (Some em)
  obtain r g where t: "tick_in_window env tk r em (d\<lparr>dm_gate := g\<rparr>) = (ev, d')" and ga: "gate_answer tk d = r"
  proof (cases "dm_gate d")
    case None
    then have e: "d\<lparr>dm_gate := None\<rparr> = d" by (cases d) simp
    have "tick_in_window env tk None em (d\<lparr>dm_gate := None\<rparr>) = (ev, d')"
      unfolding e using None assms Some by (simp add: epoch_tick_def)
    then show thesis using None by (intro that) (auto simp: gate_answer_def)
  next
    case (Some g0)
    then obtain a b where "should_emit_now (tk_sync tk) (tk_gate_clock tk) g0 = Inr (a, b)" "tick_in_window env tk a em (d\<lparr>dm_gate := Some b\<rparr>) = (ev, d')"
      using assms \<open>dm_emitter d = Some em\<close> by (auto simp: epoch_tick_def res_bind_eq_Inr)
    then show thesis using Some by (intro that [of a "Some b"]) (auto simp: gate_answer_def)
  qed
  consider "r = Some False" | m where "r \<noteq> Some False" "dm_queued d = Some m" "m \<noteq> []"
    | "r \<noteq> Some False" "dm_queued d = None \<or> dm_queued d = Some []" by (cases "dm_queued d") auto
  then show thesis
  proof cases
    case 1
    then show thesis using t by (intro idle) (auto simp: tick_reads_def ga tick_in_window_def)
  next
    case (2 m)
    then have "emit_and_mark env tk (r = Some True) m (if or_empty (dm_queued_source d) = [] then ''queued'' else or_empty (dm_queued_source d))
        em (d\<lparr>dm_gate := g, dm_queued := None, dm_queued_source := None\<rparr>) = (ev, d')" using t by (simp add: tick_in_window_def split: if_split_asm)
    from emit_and_mark_frame [OF this] obtain ok where
      "dm_null_since d' = dm_null_since d" "dm_resolver d' = dm_resolver d" "ev = Emit m (if or_empty (dm_queued_source d) = [] then ''queued'' else or_empty (dm_queued_source d)) ok" by auto
    then show thesis using 2 by (intro queue [of m]) (auto simp: tick_reads_def ga)
  next
    case 3
    then have "champion_path env tk (r = Some True) em (d\<lparr>dm_gate := g\<rparr>) = (ev, d')" using t by (auto simp: tick_in_window_def)
    then show thesis using 3 by (intro path [OF Some]) (auto simp: tick_reads_def ga Some)
  qed
qed

lemma loop_run_ok: "loop_run rc env d rs \<Longrightarrow> null_ok d rs"
proof (induction rule: loop_run.induct)
  case (start d)
  then show ?case by (simp add: null_ok_def)
next
  case (enqueue d rs loads meth path body tsh sgh now r d')
  from enqueue.hyps(2) show ?case
    by (cases rule: handle_weights_queue_cases) (use enqueue.IH in \<open>auto simp: null_ok_def\<close>)
next
  case (tick d rs tk ev d')
  from tick.hyps(2) show ?case
  proof (cases rule: epoch_tick_cases)
    case (path em g tm)
    have "cr_memo_hotkey (dm_resolver d') \<noteq> Some []"
      using resolve_champion_real(2) [of "dm_resolver d" "tk_monotonic tk" "tk_answer tk"] champion_path_null_since(2) [OF path(2)] tick.IH
      by (cases "resolve_champion (tk_monotonic tk) (tk_answer tk) (dm_resolver d)") (auto simp: null_ok_def)
    with champion_path_null_since(1) [OF path(2)] tick.IH show ?thesis
      by (auto simp: null_ok_def path(3) intro: null_tail_Cons null_tail_new)
  qed (use tick.IH in \<open>simp_all add: null_ok_def\<close>)
qed


lemma champion_path_burn:
  assumes "champion_path env tk tm em d = (Emit m src ok, d')" "cr_memo_hotkey (dm_resolver d) \<noteq> Some []" "src = ''burn''"
  shows "cr_url (dm_resolver d) \<noteq> []" "fetch_champion (tk_answer tk) = Inr None"
    "m = [(owner_or_env (le_env_owner env) (Some (cw_owner_hotkey (dm_weights d))), 1)]"
    "\<lbrakk>le_limits env = (grace, memory); 0 < grace; champion_recent memory (tk_now tk) d\<rbrakk> \<Longrightarrow>
        \<exists>t. dm_null_since d = Some t \<and> grace \<le> tk_now tk - t"
proof -
  obtain hotkey sr cr where r: "resolve_champion (tk_monotonic tk) (tk_answer tk) (dm_resolver d) = ((hotkey, sr), cr)"
    by (metis prod.exhaust)
  let ?d = "d\<lparr>dm_champion := hotkey, dm_champion_source := sr, dm_resolver := cr,
                dm_null_since := (if hotkey \<noteq> None then None else dm_null_since d)\<rparr>"
  obtain b d1 where s: "(if hotkey = None then should_defer_null_champion_burn (le_limits env) (tk_now tk) ?d else (False, ?d)) = (b, d1)"
    by fastforce
  obtain w cw where w: "(if tm then close_epoch_now (le_env_owner env) hotkey (tk_weights_clock tk) (dm_weights d1)
      else maybe_emit (le_env_owner env) hotkey (tk_weights_clock tk) (dm_weights d1)) = (w, cw)" by fastforce
  have e: "\<not> (hotkey = None \<and> sr \<noteq> Src_Api)" "\<not> b" "w = Some m" "src = (if or_empty hotkey \<noteq> [] then ''champion'' else ''burn'')"
    using assms(1) unfolding champion_path_def r Let_def prod.case s w
    by (auto split: if_splits option.splits dest: emit_and_mark_frame)
  note real = resolve_champion_real [OF assms(2) r]
  have h: "hotkey = None" using e(4) assms(3) real(1) by (cases hotkey) (auto split: if_splits)
  then show "cr_url (dm_resolver d) \<noteq> []" "fetch_champion (tk_answer tk) = Inr None" using real(3) e(1) by auto
  have "dm_weights d1 = dm_weights d"
    using s h defer_null_since [of "le_limits env" "tk_now tk" ?d b d1] by simp
  then show "m = [(owner_or_env (le_env_owner env) (Some (cw_owner_hotkey (dm_weights d))), 1)]"
    using w e(3) h
    by (auto simp: close_epoch_now_def maybe_emit_def get_weights_def build_bootstrap_or_champion_weights_def is_real_miner_hotkey_def Let_def
        split: if_splits)
  show "\<exists>t. dm_null_since d = Some t \<and> grace \<le> tk_now tk - t"
    if "le_limits env = (grace, memory)" "0 < grace" "champion_recent memory (tk_now tk) d"
    using s h e(2) that by (auto simp: should_defer_null_champion_burn_def champion_recent_def split: option.splits)
qed

text \<open>
  Claim C8: The validator never burns out of ignorance or on a brief vacancy. Whenever a tick of any run of the daemon emits a burn
  from the fallback (nothing was queued), everything goes to the owner, and the co-located API has
  answered at this tick that there is no champion. If the last successful emission paid a champion within
  the memory and the grace is positive, then every reading of the champion during at least the whole
  grace period was empty.
\<close>

theorem burn_needs_persistent_vacancy:
  assumes "loop_run rc env d rs" "epoch_tick env tk d = Inr (Emit m ''burn'' ok, d')" "dm_queued d = None"
  shows "m = [(owner_or_env (le_env_owner env) (Some (cw_owner_hotkey (dm_weights d))), 1)]
    \<and> fetch_champion (tk_answer tk) = Inr None
    \<and> (\<forall>grace memory. le_limits env = (grace, memory) \<and> 0 < grace \<and> champion_recent memory (tk_now tk) d \<longrightarrow>
        (\<exists>recent older. rs = recent @ older \<and> recent \<noteq> [] \<and> (\<forall>(t, hotkey) \<in> set recent. hotkey = None)
           \<and> grace \<le> tk_now tk - fst (last recent)))"
  using assms(2)
proof (cases rule: epoch_tick_cases)
  case (path em g tm)
  have ok: "null_ok d rs" using assms(1) by (rule loop_run_ok)
  then have "cr_memo_hotkey (dm_resolver (d\<lparr>dm_gate := g\<rparr>)) \<noteq> Some []" by (simp add: null_ok_def)
  note b = champion_path_burn [OF path(2) this refl]
  have "\<exists>recent older. rs = recent @ older \<and> recent \<noteq> [] \<and> (\<forall>(t, hotkey) \<in> set recent. hotkey = None) \<and> grace \<le> tk_now tk - fst (last recent)"
    if "le_limits env = (grace, memory)" "0 < grace" "champion_recent memory (tk_now tk) d" for grace memory
  proof -
    have "champion_recent memory (tk_now tk) (d\<lparr>dm_gate := g\<rparr>)" using that(3) by (simp add: champion_recent_def)
    from b(4) [OF that(1,2) this] obtain t where "dm_null_since d = Some t" "grace \<le> tk_now tk - t" by auto
    with ok show ?thesis by (auto simp: null_ok_def null_tail_def)
  qed
  with b(2,3) show ?thesis by auto
next
  case (queue m src ok)
  then show ?thesis using assms(3) by simp
qed simp


definition demo_chain :: "unit chain_api" where
  "demo_chain = \<lparr>metagraph_hotkeys = (\<lambda>_. Inr [''own'', ''m'']), set_weights = (\<lambda>_ _. Inr True), connect = (\<lambda>_. Inr ())\<rparr>"

definition demo_env :: "unit loop_env" where
  "demo_env = \<lparr>le_chain = demo_chain, le_env_owner = [], le_limits = null_champion_limits None None\<rparr>"

definition demo_daemon :: "unit daemon" where
  "demo_daemon = \<lparr>dm_validator_id = ''0xk'', dm_gate = None, dm_weights = \<lparr>cw_epoch_seconds = 60, cw_owner_hotkey = ''own'', cw_epoch_start = 0,
       cw_history = [], cw_last_empty_warn_at = 0\<rparr>,
     dm_emitter = Some \<lparr>em_subtensor = (), em_subtensor_url = None\<rparr>,
     dm_resolver = \<lparr>cr_url = ''http://api:8080'', cr_memo_ttl = 2600, cr_memo_hotkey = None, cr_memo_at = None\<rparr>,
     dm_champion = None, dm_champion_source = Src_Init, dm_null_since = None, dm_queued = None, dm_queued_source = None,
     dm_last_emit = None, dm_last_ok = Some \<lparr>es_attempted_at = 0, es_ok = True, es_uids_attempted = 2, es_source = ''champion''\<rparr>,
     dm_disk_emit = None, dm_disk_ok = None\<rparr>"

definition null_tick :: "real \<Rightarrow> tick_input" where
  "null_tick t = \<lparr>tk_sync = None, tk_gate_clock = (\<lambda>_. t), tk_answer = Api_Answer 200 None, tk_monotonic = t, tk_now = t,
     tk_weights_clock = (\<lambda>_. t), tk_attempt = t, tk_writable = (True, True)\<rparr>"

lemma strip_own: "strip ''own'' = ''own''" by code_simp

lemma demo_uid: "map_of (hotkey_to_uid [''own'', ''m'']) ''own'' = Some 0" by code_simp

lemmas demo_defs = epoch_tick_def tick_in_window_def champion_path_def resolve_champion_def fetch_champion_def
  is_real_miner_hotkey_def should_defer_null_champion_burn_def champion_recent_def null_champion_limits_def demo_env_def demo_daemon_def
  null_tick_def emit_and_mark_def do_emit_def mark_if_def maybe_emit_def close_epoch_now_def get_weights_def
  build_bootstrap_or_champion_weights_def owner_or_env_def strip_own emit_async_def emit_blocking_def demo_chain_def emission_def
  route_weight_def target_uid_def demo_uid Let_def

lemma demo_deferred: "epoch_tick demo_env (null_tick 100) demo_daemon = Inr (Quiet, demo_daemon\<lparr>dm_champion_source := Src_Api, dm_null_since := Some 100\<rparr>)"
  by (simp add: demo_defs)

lemma demo_burns:
  "\<exists>d'. epoch_tick demo_env (null_tick 800) (demo_daemon\<lparr>dm_champion_source := Src_Api, dm_null_since := Some 100\<rparr>) = Inr (Emit [(''own'', 1)] ''burn'' True, d')"
  by (simp add: demo_defs)

theorem burn_needs_persistent_vacancy_witness:
  "\<exists>d'. epoch_tick demo_env (null_tick 800) (demo_daemon\<lparr>dm_champion_source := Src_Api, dm_null_since := Some 100\<rparr>)
       = Inr (Emit [(''own'', 1)] ''burn'' True, d')
     \<and> (\<exists>recent older. tick_reads (null_tick 100) demo_daemon = recent @ older \<and> recent \<noteq> [] \<and> 600 \<le> 800 - fst (last recent))"
proof -
  let ?d = "demo_daemon\<lparr>dm_champion_source := Src_Api, dm_null_since := Some 100\<rparr>"
  have "loop_run plain_crypto demo_env demo_daemon []" by (rule loop_run.start) (simp_all add: demo_daemon_def)
  from loop_run.tick [OF this demo_deferred] have r: "loop_run plain_crypto demo_env ?d (tick_reads (null_tick 100) demo_daemon)" by simp
  obtain d' where e: "epoch_tick demo_env (null_tick 800) ?d = Inr (Emit [(''own'', 1)] ''burn'' True, d')" using demo_burns by blast
  have q: "dm_queued ?d = None" "le_limits demo_env = (600, 7200)" "champion_recent 7200 (tk_now (null_tick 800)) ?d" "tk_now (null_tick 800) = 800"
    by (simp_all add: demo_defs)
  from burn_needs_persistent_vacancy [OF r e q(1)] q(2-4) obtain recent older where
    "tick_reads (null_tick 100) demo_daemon = recent @ older" "recent \<noteq> []" "600 \<le> 800 - fst (last recent)" by auto
  with e show ?thesis by blast
qed

theorem weight_queue_is_authenticated_witness:
  "\<exists>d'. handle_weights_queue plain_crypto (\<lambda>_. Some (JObj [(''mapping'', JObj [(''m'', JFloat 1)])])) ''POST'' ''/q'' ''b'' ''100''
        (snd (sign_request plain_crypto ''k'' ''POST'' ''/q'' ''b'' (Some 100) 0)) 110 demo_daemon = Inr (Queued 1, d')
     \<and> dm_queued d' = Some [(''m'', 1)]"
proof -
  let ?sig = "snd (sign_request plain_crypto ''k'' ''POST'' ''/q'' ''b'' (Some 100) 0)"
  let ?loads = "\<lambda>_ :: string. Some (JObj [(''mapping'', JObj [(''m'', JFloat 1)])])"
  have p: "py_int ''100'' = Some 100" by code_simp
  have s: "sign_request plain_crypto ''k'' ''POST'' ''/q'' ''b'' (Some 100) 0 = (100, ?sig)" by (simp add: sign_request_def)
  have v: "verify_request plain_crypto ''POST'' ''/q'' ''b'' 100 ?sig ''0xk'' MAX_REQUEST_AGE_SECONDS 110 = Authentic"
    using signed_request_verifies [OF plain_recovers_key s, of MAX_REQUEST_AGE_SECONDS 110]
    by (simp add: derive_signer_address_def plain_crypto_def MAX_REQUEST_AGE_SECONDS_def)
  have ne: "?sig \<noteq> []" by (auto simp: sign_request_def with_0x_def prefix_def)
  have c: "clean_mapping [(''m'', JFloat 1)] = Inr [(''m'', 1)]" by (simp add: clean_mapping_def dict_of_def)
  have h: "handle_weights_queue plain_crypto ?loads ''POST'' ''/q'' ''b'' ''100'' ?sig 110 demo_daemon
      = Inr (Queued 1, demo_daemon\<lparr>dm_queued := Some [(''m'', 1)], dm_queued_source := Some ''queued_from_api''\<rparr>)"
    using ne by (simp add: handle_weights_queue_def p v c read_queue_body_def jget_def demo_daemon_def)
  from weight_queue_is_authenticated [OF h] h show ?thesis by auto
qed

section \<open>One commit per tempo epoch\<close>

text \<open>Runs of the loop on a chain: \<open>ks\<close> are the steps of the emissions that succeeded while the gate was open.\<close>

definition succeeded :: "emit_event \<Rightarrow> bool" where
  "succeeded ev = (case ev of Quiet \<Rightarrow> False | Emit _ _ ok \<Rightarrow> ok)"

inductive loop_on_chain :: "chain_clock \<Rightarrow> 'c loop_env \<Rightarrow> 'c daemon \<Rightarrow> int \<Rightarrow> int list \<Rightarrow> bool" for cl and env :: "'c loop_env" where
  start: "dm_gate d = Some (new_tempo_gate bt lead rs) \<Longrightarrow> loop_on_chain cl env d blk []"
| enqueue: "\<lbrakk>loop_on_chain cl env d blk ks; handle_weights_queue (rc :: string request_crypto) loads meth path body tsh sgh now d = Inr (r, d')\<rbrakk>
     \<Longrightarrow> loop_on_chain cl env d' blk ks"
| tick: "\<lbrakk>loop_on_chain cl env d blk ks; blk \<le> blk'; honest_sync cl (tk_sync tk); epoch_tick env tk d = Inr (ev, d');
     \<And>e. (case dm_gate d' of None \<Rightarrow> None | Some g \<Rightarrow> estimated_block (tk_gate_clock tk 2) g) = Some e \<Longrightarrow> \<bar>e - blk'\<bar> \<le> cl_drift cl;
     if gate_answer tk d = Some True \<and> succeeded ev
       then \<exists>g k b. dm_gate d' = Some g \<and> tg_next_boundary_block g = Some b \<and> \<bar>b - step_block cl k\<bar> \<le> cl_skew cl \<and> ks' = k # ks
       else ks' = ks\<rbrakk> \<Longrightarrow> loop_on_chain cl env d' blk' ks'"

lemma emit_and_mark_gate:
  "emit_and_mark env tk tm m src em d = (ev, d') \<Longrightarrow>
     dm_gate d' = (if tm \<and> succeeded ev then map_option mark_committed (dm_gate d) else dm_gate d)"
  by (auto simp: emit_and_mark_def do_emit_def mark_if_def persist_last_emit_state_def succeeded_def Let_def split: prod.splits)

lemma champion_path_gate:
  assumes "champion_path env tk tm em d = (ev, d')"
  shows "dm_gate d' = (if tm \<and> succeeded ev then map_option mark_committed (dm_gate d) else dm_gate d)"
proof -
  obtain hotkey src cr where r: "resolve_champion (tk_monotonic tk) (tk_answer tk) (dm_resolver d) = ((hotkey, src), cr)"
    by (metis prod.exhaust)
  let ?d = "d\<lparr>dm_champion := hotkey, dm_champion_source := src, dm_resolver := cr,
                dm_null_since := (if hotkey \<noteq> None then None else dm_null_since d)\<rparr>"
  obtain b d1 where s: "(if hotkey = None then should_defer_null_champion_burn (le_limits env) (tk_now tk) ?d else (False, ?d)) = (b, d1)"
    by fastforce
  have g: "dm_gate d1 = dm_gate d"
    using s by (auto simp: should_defer_null_champion_burn_def split: if_splits option.splits prod.splits)
  show ?thesis
    using assms g unfolding champion_path_def r Let_def prod.case s
    by (auto simp: succeeded_def split: if_splits prod.splits option.splits dest!: emit_and_mark_gate)
qed

lemma epoch_tick_gate:
  assumes "epoch_tick env tk d = Inr (ev, d')" "dm_gate d = Some g"
  shows "dm_emitter d = None \<and> d' = d \<and> ev = Quiet
    \<or> (\<exists>g1. should_emit_now (tk_sync tk) (tk_gate_clock tk) g = Inr (gate_answer tk d, g1)
        \<and> dm_gate d' = Some (if gate_answer tk d = Some True \<and> succeeded ev then mark_committed g1 else g1))"
proof (cases "dm_emitter d")
  case None
  then show ?thesis using assms by (simp add: epoch_tick_def)
next
  case (Some em)
  then obtain r g1 where r: "should_emit_now (tk_sync tk) (tk_gate_clock tk) g = Inr (r, g1)"
    and t: "tick_in_window env tk r em (d\<lparr>dm_gate := Some g1\<rparr>) = (ev, d')"
    using assms by (auto simp: epoch_tick_def res_bind_eq_Inr)
  have "gate_answer tk d = r" using assms(2) r by (simp add: gate_answer_def)
  moreover have "dm_gate d' = Some (if r = Some True \<and> succeeded ev then mark_committed g1 else g1)"
    using t by (auto simp: tick_in_window_def Let_def succeeded_def split: if_splits dest!: emit_and_mark_gate champion_path_gate)
  ultimately show ?thesis using r by auto
qed

lemma mark_committed_estimate: "estimated_block t (mark_committed g) = estimated_block t g"
  by (simp add: estimated_block_def mark_committed_def split: option.splits)

lemma loop_on_chain_gate: "loop_on_chain cl env d blk ks \<Longrightarrow> \<exists>g blk0. dm_gate d = Some g \<and> blk0 \<le> blk \<and> gate_run cl g blk0 ks"
proof (induction rule: loop_on_chain.induct)
  case (start d bt lead rs blk)
  then show ?case using gate_run.start [of cl bt lead rs blk] by auto
next
  case (enqueue d blk ks rc loads meth path body tsh sgh now r d')
  from enqueue.hyps(2) have "dm_gate d' = dm_gate d" by (cases rule: handle_weights_queue_cases) auto
  with enqueue.IH show ?case by simp
next
  case (tick d blk ks blk' tk ev d' ks')
  from tick.IH obtain g blk0 where g: "dm_gate d = Some g" "blk0 \<le> blk" "gate_run cl g blk0 ks" by blast
  then have le: "blk0 \<le> blk'" using tick.hyps(2) by simp
  from epoch_tick_gate [OF tick.hyps(4) g(1)] show ?case
  proof
    assume "dm_emitter d = None \<and> d' = d \<and> ev = Quiet"
    then show ?thesis using tick.hyps(6) g le by (auto simp: succeeded_def)
  next
    assume "\<exists>g1. should_emit_now (tk_sync tk) (tk_gate_clock tk) g = Inr (gate_answer tk d, g1)
        \<and> dm_gate d' = Some (if gate_answer tk d = Some True \<and> succeeded ev then mark_committed g1 else g1)"
    then obtain g1 where g1: "should_emit_now (tk_sync tk) (tk_gate_clock tk) g = Inr (gate_answer tk d, g1)"
      "dm_gate d' = Some (if gate_answer tk d = Some True \<and> succeeded ev then mark_committed g1 else g1)" by blast
    have dr: "\<And>e. estimated_block (tk_gate_clock tk 2) g1 = Some e \<Longrightarrow> \<bar>e - blk'\<bar> \<le> cl_drift cl"
      using tick.hyps(5) by (simp add: g1(2) mark_committed_estimate split: if_splits)
    show ?thesis
    proof (cases "gate_answer tk d = Some True \<and> succeeded ev")
      case True
      then obtain k b where k: "tg_next_boundary_block g1 = Some b" "\<bar>b - step_block cl k\<bar> \<le> cl_skew cl" "ks' = k # ks"
        using tick.hyps(6) g1(2) by (auto simp: mark_committed_def)
      have "gate_run cl (mark_committed g1) blk' (k # ks)"
        by (rule gate_run.commit [OF g(3) le tick.hyps(3)]) (use True g1(1) dr k(1,2) in auto)
      then show ?thesis using True g1(2) k(3) by auto
    next
      case False
      have "gate_run cl g1 blk' ks" by (rule gate_run.tick [OF g(3) le tick.hyps(3) g1(1) dr])
      then show ?thesis using False g1(2) tick.hyps(6) by auto
    qed
  qed
qed

text \<open>
  Claim C9: The whole emission loop commits at most once per tempo epoch: in every run on an honest chain, with mappings queued at any
  time, emissions failing and being retried and champions changing, the steps of the emissions that succeeded
  in the gate's window are strictly increasing.
\<close>

theorem loop_commits_once_per_epoch:
  assumes "loop_on_chain cl env d blk ks" "dm_gate d = Some g" "good_clock cl (tg_lead_blocks g)"
  shows "sorted_wrt (>) ks \<and> distinct ks"
proof -
  obtain blk0 where "gate_run cl g blk0 ks" using loop_on_chain_gate [OF assms(1)] assms(2) by auto
  from gate_run_ok [OF this assms(3)] have s: "sorted_wrt (>) ks" by (simp add: run_ok_def)
  then have "distinct ks" by (induction ks) auto
  with s show ?thesis by simp
qed


definition gated_daemon :: "unit daemon" where
  "gated_daemon = demo_daemon\<lparr>dm_gate := Some demo_gate, dm_queued := Some [(''own'', 1)]\<rparr>"

definition window_tick :: tick_input where
  "window_tick = (null_tick 0)\<lparr>tk_sync := Some (6, 6, 5)\<rparr>"

lemma gated_emission:
  "\<exists>d'. epoch_tick demo_env window_tick gated_daemon = Inr (Emit [(''own'', 1)] ''queued'' True, d')
     \<and> gate_answer window_tick gated_daemon = Some True
     \<and> dm_gate d' = Some (demo_gate\<lparr>tg_tempo := Some 6, tg_synced_block := Some 6, tg_synced_at := Some 0, tg_next_boundary_block := Some 7,
          tg_last_sync_attempt := Some 0, tg_committed_boundary := Some 7\<rparr>)"
proof -
  let ?g = "demo_gate\<lparr>tg_tempo := Some 6, tg_synced_block := Some 6, tg_synced_at := Some 0, tg_next_boundary_block := Some 7,
      tg_last_sync_attempt := Some 0\<rparr>"
  have g: "should_emit_now (Some (6, 6, 5)) (\<lambda>_. 0) demo_gate = Inr (Some True, ?g)"
    by (simp add: should_emit_now_def demo_gate_def new_tempo_gate_def maybe_resync_def estimated_block_def
        Let_def advance_boundary.simps)
  show ?thesis
    by (simp add: gate_answer_def gated_daemon_def window_tick_def g)
      (simp add: demo_defs g persist_last_emit_state_def mark_committed_def)
qed

theorem loop_commits_once_per_epoch_witness:
  "\<exists>d'. loop_on_chain finney demo_env d' 6 [1] \<and> dm_gate d' \<noteq> None \<and> sorted_wrt (>) [1 :: int]"
proof -
  obtain d' where e: "epoch_tick demo_env window_tick gated_daemon = Inr (Emit [(''own'', 1)] ''queued'' True, d')"
    and a: "gate_answer window_tick gated_daemon = Some True"
    and g: "dm_gate d' = Some (demo_gate\<lparr>tg_tempo := Some 6, tg_synced_block := Some 6, tg_synced_at := Some 0, tg_next_boundary_block := Some 7,
          tg_last_sync_attempt := Some 0, tg_committed_boundary := Some 7\<rparr>)"
    using gated_emission by blast
  have h: "honest_sync finney (tk_sync window_tick)"
    by (auto simp: honest_sync_def finney_def step_block_def window_tick_def intro!: exI [of _ 1])
  have s: "loop_on_chain finney demo_env gated_daemon 6 []"
    by (rule loop_on_chain.start) (simp add: gated_daemon_def demo_gate_def)
  have run: "loop_on_chain finney demo_env d' 6 [1]"
  proof (rule loop_on_chain.tick [OF s order.refl h e])
    show "if gate_answer window_tick gated_daemon = Some True \<and> succeeded (Emit [(''own'', 1)] ''queued'' True)
       then \<exists>g k b. dm_gate d' = Some g \<and> tg_next_boundary_block g = Some b \<and> \<bar>b - step_block finney k\<bar> \<le> cl_skew finney \<and> [1] = k # []
       else [1] = []"
      by (simp add: a g succeeded_def step_block_def finney_def)
    show "\<bar>e - 6\<bar> \<le> cl_drift finney"
      if "(case dm_gate d' of None \<Rightarrow> None | Some g \<Rightarrow> estimated_block (tk_gate_clock window_tick 2) g) = Some e" for e
      using that by (simp add: g estimated_block_def window_tick_def null_tick_def demo_gate_def new_tempo_gate_def finney_def)
  qed
  moreover have "good_clock finney (tg_lead_blocks (the (dm_gate d')))"
    by (simp add: g good_clock_def finney_def demo_gate_def new_tempo_gate_def)
  ultimately show ?thesis using loop_commits_once_per_epoch [of finney demo_env d' 6 "[1]"] g by auto
qed

section \<open>Restart\<close>

text \<open>A daemon whose two state files were writable at every tick.\<close>

inductive persisted_run :: "'c loop_env \<Rightarrow> 'c daemon \<Rightarrow> bool" for env :: "'c loop_env" where
  start: "\<lbrakk>dm_last_emit d = None; dm_last_ok d = None; dm_disk_emit d = None; dm_disk_ok d = None\<rbrakk> \<Longrightarrow> persisted_run env d"
| tick: "\<lbrakk>persisted_run env d; tk_writable tk = (True, True); epoch_tick env tk d = Inr (ev, d')\<rbrakk> \<Longrightarrow> persisted_run env d'"
| reboot: "\<lbrakk>persisted_run env d; dm_disk_emit d' = dm_disk_emit d; dm_disk_ok d' = dm_disk_ok d\<rbrakk> \<Longrightarrow> persisted_run env (restore_last_emit_state d')"

definition on_disk :: "'c daemon \<Rightarrow> bool" where
  "on_disk d \<longleftrightarrow> dm_disk_emit d = dm_last_emit d \<and> dm_disk_ok d = dm_last_ok d
     \<and> (\<forall>s. dm_last_emit d = Some s \<longrightarrow> es_ok s \<longrightarrow> dm_last_ok d = Some s)"

lemma emit_and_mark_disk:
  assumes "emit_and_mark env tk tm m src em d = (ev, d')" "tk_writable tk = (True, True)" "dm_disk_ok d = dm_last_ok d"
  shows "on_disk d'"
  using assms by (auto simp: emit_and_mark_def do_emit_def mark_if_def persist_last_emit_state_def write_persisted_state_def on_disk_def Let_def
      split: prod.splits option.splits if_splits)

lemma champion_path_disk:
  assumes "champion_path env tk tm em d = (ev, d')" "tk_writable tk = (True, True)" "on_disk d"
  shows "on_disk d'"
proof -
  obtain hotkey src cr where r: "resolve_champion (tk_monotonic tk) (tk_answer tk) (dm_resolver d) = ((hotkey, src), cr)"
    by (metis prod.exhaust)
  let ?d = "d\<lparr>dm_champion := hotkey, dm_champion_source := src, dm_resolver := cr,
                dm_null_since := (if hotkey \<noteq> None then None else dm_null_since d)\<rparr>"
  obtain b d1 where s: "(if hotkey = None then should_defer_null_champion_burn (le_limits env) (tk_now tk) ?d else (False, ?d)) = (b, d1)"
    by fastforce
  have q: "on_disk ?d" "on_disk d1"
    using s assms(3) by (auto simp: should_defer_null_champion_burn_def on_disk_def split: if_splits option.splits prod.splits)
  have cw: "on_disk (d1\<lparr>dm_weights := cw\<rparr>)" for cw using q(2) by (simp add: on_disk_def)
  show ?thesis
    using assms(1) q cw unfolding champion_path_def r Let_def prod.case s
    by (auto split: if_splits prod.splits option.splits dest!: emit_and_mark_disk [OF _ assms(2)] simp: on_disk_def)
qed

lemma persisted_run_disk: "persisted_run env d \<Longrightarrow> on_disk d"
proof (induction rule: persisted_run.induct)
  case (tick d tk ev d')
  note w = tick.hyps(2)
  show ?case
  proof (cases "dm_emitter d")
    case None
    then show ?thesis using tick by (simp add: epoch_tick_def)
  next
    case (Some em)
    then obtain r g where "tick_in_window env tk r em (d\<lparr>dm_gate := g\<rparr>) = (ev, d') \<or> tick_in_window env tk r em d = (ev, d')"
      using tick.hyps(3) by (auto simp: epoch_tick_def res_bind_eq_Inr split: option.splits)
    moreover have "on_disk (d\<lparr>dm_gate := g\<rparr>)" using tick.IH by (simp add: on_disk_def)
    moreover have "on_disk e'" if "tick_in_window env tk r em e = (ev, e')" "on_disk e" for e e'
      using that w by (auto simp: tick_in_window_def Let_def split: if_splits dest: champion_path_disk emit_and_mark_disk simp: on_disk_def)
    ultimately show ?thesis using tick.IH by blast
  qed
qed (auto simp: on_disk_def restore_last_emit_state_def Let_def split: option.splits)

text \<open>
  Claim C37: What the daemon knows about its emissions survives a restart: in every run with writable state files, through any number of
  reboots, restoring yields the last attempt and the last success that were in memory, so the guard against
  burning a recent champion takes the same decision after the restart.
\<close>

theorem emit_state_survives_restart:
  assumes "persisted_run env d" "dm_disk_emit d' = dm_disk_emit d" "dm_disk_ok d' = dm_disk_ok d"
  shows "dm_last_emit (restore_last_emit_state d') = dm_last_emit d \<and> dm_last_ok (restore_last_emit_state d') = dm_last_ok d
    \<and> champion_recent memory now (restore_last_emit_state d') = champion_recent memory now d"
proof -
  have "on_disk d" using assms(1) by (rule persisted_run_disk)
  then have "dm_last_emit (restore_last_emit_state d') = dm_last_emit d \<and> dm_last_ok (restore_last_emit_state d') = dm_last_ok d"
    using assms(2,3) by (auto simp: on_disk_def restore_last_emit_state_def Let_def split: option.splits)
  then show ?thesis by (simp add: champion_recent_def)
qed

definition fresh_daemon :: "unit daemon" where
  "fresh_daemon = demo_daemon\<lparr>dm_last_ok := None, dm_queued := Some [(''own'', 1)]\<rparr>"

theorem emit_state_survives_restart_witness:
  "\<exists>d. epoch_tick demo_env (null_tick 800) fresh_daemon = Inr (Emit [(''own'', 1)] ''queued'' True, d)
     \<and> dm_last_ok (restore_last_emit_state (fresh_daemon\<lparr>dm_disk_emit := dm_disk_emit d, dm_disk_ok := dm_disk_ok d\<rparr>))
         = Some \<lparr>es_attempted_at = 800, es_ok = True, es_uids_attempted = 1, es_source = ''queued''\<rparr>"
proof -
  have s: "persisted_run demo_env fresh_daemon" by (rule persisted_run.start) (simp_all add: fresh_daemon_def demo_daemon_def)
  obtain d where e: "epoch_tick demo_env (null_tick 800) fresh_daemon = Inr (Emit [(''own'', 1)] ''queued'' True, d)"
    and l: "dm_last_ok d = Some \<lparr>es_attempted_at = 800, es_ok = True, es_uids_attempted = 1, es_source = ''queued''\<rparr>"
  proof -
    have "\<exists>d. epoch_tick demo_env (null_tick 800) fresh_daemon = Inr (Emit [(''own'', 1)] ''queued'' True, d)
       \<and> dm_last_ok d = Some \<lparr>es_attempted_at = 800, es_ok = True, es_uids_attempted = 1, es_source = ''queued''\<rparr>"
      by (simp add: fresh_daemon_def demo_defs persist_last_emit_state_def)
    then show thesis using that by blast
  qed
  have "persisted_run demo_env d" by (rule persisted_run.tick [OF s _ e]) (simp add: null_tick_def)
  from emit_state_survives_restart [OF this, of "fresh_daemon\<lparr>dm_disk_emit := dm_disk_emit d, dm_disk_ok := dm_disk_ok d\<rparr>"] e l
  show ?thesis by auto
qed

end
