(* ===== verification/Actor.thy ===== *)
theory Actor
  imports Json
begin

text \<open>
  Queue identities, \<open>harness/actor.py\<close>: hotkeys of one coldkey, and coldkeys that share a github owner, are one
  actor. The union-find of \<open>_build_actor_map\<close> is modelled with its loops: \<open>find\<close> walks up
  and then compresses the path, \<open>union\<close> hangs the larger root below the smaller one. The loops are partial
  functions; \<open>find_returns\<close> shows that they return. A Python set is iterated in an arbitrary order, so the
  model iterates over lists and \<open>actor_map_is_component_label\<close> shows that the result does not depend on
  them: it is the best label of the connected component.
\<close>

section \<open>Configuration\<close>

definition actor_key_mode :: "string option \<Rightarrow> string" where
  "actor_key_mode raw = (let r = lower (strip (case raw of None \<Rightarrow> ''coldkey'' | Some s \<Rightarrow> s)) in
     if r = ''coldkey'' \<or> r = ''hotkey'' then r else ''coldkey'')"

definition owner_union_enabled :: "string option \<Rightarrow> bool" where
  "owner_union_enabled raw = (lower (strip (case raw of None \<Rightarrow> ''1'' | Some s \<Rightarrow> s)) \<notin> {''0'', ''false'', ''no'', ''off''})"

text \<open>The provider's answer (\<open>None\<close>: no provider; \<open>Some (Inl e)\<close>: it raised) and the sidecar file. The second result is
  what is written to the sidecar.\<close>

definition coldkey_map_of :: "(string \<times> string) list res option \<Rightarrow> (string \<times> json) list \<Rightarrow> (string \<times> string) list \<times> (string \<times> string) list option" where
  "coldkey_map_of provider sidecar =
     (let m = (case provider of Some (Inr kvs) \<Rightarrow> filter (\<lambda>(k, v). v \<noteq> []) kvs | _ \<Rightarrow> []) in
      if m \<noteq> [] then (m, Some m)
      else (List.map_filter (\<lambda>(k, v). case v of JStr s \<Rightarrow> if s \<noteq> [] then Some (k, s) else None | _ \<Rightarrow> None) sidecar, None))"

text \<open>The texts of the truthy entries of a list in the sidecar.\<close>

definition sidecar_owners :: "json \<Rightarrow> string list res" where
  "sidecar_owners v = (case v of
       JList js \<Rightarrow> res_map py_str (filter (\<lambda>j. \<not> jfalsy j) js)
     | JStr s \<Rightarrow> Inr (if s \<noteq> [] then [s] else [])
     | _ \<Rightarrow> Inr [])"

definition owner_map_of ::
  "(string \<times> string list) list res option \<Rightarrow> (string \<times> json) list \<Rightarrow> ((string \<times> string list) list \<times> (string \<times> string list) list option) res" where
  "owner_map_of provider sidecar =
     (let m = (case provider of
                 Some (Inr kvs) \<Rightarrow> filter (\<lambda>(k, v). v \<noteq> []) (map (\<lambda>(k, v). (k, filter (\<lambda>s. s \<noteq> []) v)) kvs)
               | _ \<Rightarrow> []) in
      if m \<noteq> [] then Inr (m, Some m)
      else res_bind (res_map (\<lambda>(k, v). res_bind (sidecar_owners v) (\<lambda>os. Inr (k, os))) sidecar)
             (\<lambda>kvs. Inr (filter (\<lambda>(k, v). v \<noteq> []) kvs, None)))"

section \<open>Union-find\<close>

type_synonym parents = "(string \<times> string) list"

definition parent_of :: "parents \<Rightarrow> string \<Rightarrow> string" where
  "parent_of p x = (case map_of p x of None \<Rightarrow> x | Some y \<Rightarrow> y)"

partial_function (option) walk_up :: "parents \<Rightarrow> string \<Rightarrow> string option" where
  "walk_up p r = (if parent_of p r \<noteq> r then walk_up p (parent_of p r) else Some r)"

partial_function (option) compress :: "string \<Rightarrow> parents \<Rightarrow> string \<Rightarrow> parents option" where
  "compress r p x =
     (if parent_of p x \<noteq> r then compress r (AList.update x r p) (parent_of p x) else Some p)"

definition find_token :: "parents \<Rightarrow> string \<Rightarrow> (string \<times> parents) option" where
  "find_token p x =
     (case walk_up p x of None \<Rightarrow> None
      | Some r \<Rightarrow> map_option (Pair r) (compress r p x))"

definition union_tokens :: "string \<Rightarrow> string \<Rightarrow> parents \<Rightarrow> parents option" where
  "union_tokens a b p =
     (case find_token p a of None \<Rightarrow> None
      | Some (ra, p) \<Rightarrow>
         (case find_token p b of None \<Rightarrow> None
          | Some (rb, p) \<Rightarrow>
              if ra = rb then Some p
              else if ra < rb then Some (AList.update rb ra p) else Some (AList.update ra rb p)))"

definition base_token :: "(string \<times> string) list \<Rightarrow> string \<Rightarrow> string" where
  "base_token coldkey_map hk =
     (case map_of coldkey_map hk of None \<Rightarrow> ''hk:'' @ hk
      | Some ck \<Rightarrow> if ck \<noteq> [] then ''ck:'' @ ck else ''hk:'' @ hk)"

definition owners_of :: "(string \<times> string list) list \<Rightarrow> string \<Rightarrow> string list" where
  "owners_of owner_map hk = (case map_of owner_map hk of None \<Rightarrow> [] | Some os \<Rightarrow> os)"

fun union_owners :: "string \<Rightarrow> string list \<Rightarrow> string list \<times> parents \<Rightarrow> (string list \<times> parents) option" where
  "union_owners t [] (tokens, p) = Some (tokens, p)"
| "union_owners t (owner # os) (tokens, p) =
     (case union_tokens t (''own:'' @ owner) p of None \<Rightarrow> None
      | Some p \<Rightarrow> union_owners t os (List.insert (''own:'' @ owner) tokens, p))"

fun register_hotkeys ::
  "(string \<times> string) list \<Rightarrow> (string \<times> string list) list \<Rightarrow> bool \<Rightarrow> string list \<Rightarrow> string list \<times> parents \<Rightarrow> (string list \<times> parents) option" where
  "register_hotkeys ckm om union_on [] st = Some st"
| "register_hotkeys ckm om union_on (hk # hks) (tokens, p) =
     (case find_token p (base_token ckm hk) of None \<Rightarrow> None
      | Some (_, p) \<Rightarrow>
         (case union_owners (base_token ckm hk) (if union_on then owners_of om hk else []) (List.insert (base_token ckm hk) tokens, p) of
            None \<Rightarrow> None
          | Some st \<Rightarrow> register_hotkeys ckm om union_on hks st))"

definition token_rank :: "string \<Rightarrow> nat \<times> string" where
  "token_rank tok = (if prefix ''ck:'' tok then 0 else if prefix ''own:'' tok then 1 else 2, tok)"

fun best_tokens :: "string list \<Rightarrow> (string \<times> string) list \<times> parents \<Rightarrow> ((string \<times> string) list \<times> parents) option" where
  "best_tokens [] st = Some st"
| "best_tokens (tok # toks) (best, p) =
     (case find_token p tok of None \<Rightarrow> None
      | Some (r, p) \<Rightarrow>
          best_tokens toks
            (case map_of best r of
               None \<Rightarrow> (AList.update r tok best, p)
             | Some b \<Rightarrow> (if token_rank tok < token_rank b then AList.update r tok best else best, p)))"

definition token_label :: "string \<Rightarrow> string" where
  "token_label tok = (if CHR '':'' \<in> set tok then tl (dropWhile (\<lambda>c. c \<noteq> CHR '':'') tok) else tok)"

text \<open>\<open>Inl KeyError\<close> stands for a component without representative.\<close>

fun label_hotkeys :: "(string \<times> string) list \<Rightarrow> (string \<times> string) list \<Rightarrow> string list \<Rightarrow> parents \<Rightarrow> (string \<times> string) list res option" where
  "label_hotkeys ckm best [] p = Some (Inr [])"
| "label_hotkeys ckm best (hk # hks) p =
     (case find_token p (base_token ckm hk) of None \<Rightarrow> None
      | Some (r, p) \<Rightarrow>
         (case map_of best r of
            None \<Rightarrow> Some (Inl (KeyError r))
          | Some tok \<Rightarrow> map_option (\<lambda>res. res_bind res (\<lambda>rest. Inr ((hk, token_label tok) # rest))) (label_hotkeys ckm best hks p)))"

text \<open>\<open>hotkeys\<close> enumerates the set of hotkeys and \<open>shuffle\<close> the set of tokens, in whatever order the sets are iterated.
  \<open>None\<close>: a loop does not end.\<close>

definition build_actor_map ::
  "(string list \<Rightarrow> string list) \<Rightarrow> (string \<times> string) list \<Rightarrow> (string \<times> string list) list \<Rightarrow> bool \<Rightarrow> string list
   \<Rightarrow> (string \<times> string) list res option" where
  "build_actor_map shuffle ckm om union_on hotkeys =
     (case register_hotkeys ckm om union_on hotkeys ([], []) of None \<Rightarrow> None
      | Some (tokens, p) \<Rightarrow>
         (case best_tokens (shuffle tokens) ([], p) of None \<Rightarrow> None
          | Some (best, p) \<Rightarrow> label_hotkeys ckm best hotkeys p))"

section \<open>The resolver\<close>

record actor_resolver =
  ar_actor :: "(string \<times> string) list"
  ar_coldkey_backed :: "string list"
  ar_source :: string

definition from_maps ::
  "(string list \<Rightarrow> string list) \<Rightarrow> (string list \<Rightarrow> string list) \<Rightarrow> bool \<Rightarrow> (string \<times> string) list \<Rightarrow> (string \<times> string list) list \<Rightarrow> string
   \<Rightarrow> actor_resolver res option" where
  "from_maps enum shuffle union_on ckm om source =
     (let hotkeys = enum (remdups (keys_of ckm @ (if union_on then keys_of om else []))) in
      map_option (\<lambda>res. res_bind res (\<lambda>m. Inr \<lparr>ar_actor = m, ar_coldkey_backed = keys_of ckm, ar_source = source\<rparr>))
        (build_actor_map shuffle ckm om union_on hotkeys))"

text \<open>The view of one selection pass: \<open>Some (Inr None)\<close> asks for the legacy per-hotkey path.\<close>

definition snapshot_resolver ::
  "(string list \<Rightarrow> string list) \<Rightarrow> (string list \<Rightarrow> string list) \<Rightarrow> string option \<Rightarrow> string option
   \<Rightarrow> (string \<times> string) list res option \<Rightarrow> (string \<times> json) list
   \<Rightarrow> (string \<times> string list) list res option \<Rightarrow> (string \<times> json) list \<Rightarrow> actor_resolver option res option" where
  "snapshot_resolver enum shuffle key_raw union_raw ck_provider ck_sidecar own_provider own_sidecar =
     (if actor_key_mode key_raw \<noteq> ''coldkey'' then Some (Inr None)
      else let ckm = fst (coldkey_map_of ck_provider ck_sidecar); union_on = owner_union_enabled union_raw in
        if ckm = [] then Some (Inr None)
        else case (if union_on then res_bind (owner_map_of own_provider own_sidecar) (\<lambda>r. Inr (fst r)) else Inr []) of
            Inl e \<Rightarrow> Some (Inl e)
          | Inr om \<Rightarrow>
              map_option (\<lambda>res. res_bind res (\<lambda>ar. Inr (Some ar)))
                (from_maps enum shuffle union_on ckm om
                   ((if ck_provider \<noteq> None then ''metagraph'' else ''sidecar'') @ (if om \<noteq> [] then ''+owner'' else []))))"

definition actor_call :: "actor_resolver \<Rightarrow> string \<Rightarrow> string" where
  "actor_call ar hotkey = (let a = or_empty (map_of (ar_actor ar) hotkey) in if a \<noteq> [] then a else hotkey)"

definition actor_mapped :: "actor_resolver \<Rightarrow> string \<Rightarrow> string option" where
  "actor_mapped ar hotkey =
     (if hotkey \<notin> set (ar_coldkey_backed ar) then None
      else let a = or_empty (map_of (ar_actor ar) hotkey) in if a \<noteq> [] then Some a else None)"

definition actor_name :: "(string \<Rightarrow> string) \<Rightarrow> string \<Rightarrow> string" where
  "actor_name actor_of hotkey = (if actor_of hotkey \<noteq> [] then actor_of hotkey else hotkey)"

definition actor_last_selected :: "(string \<times> real) list \<Rightarrow> (string \<Rightarrow> string) \<Rightarrow> (string \<times> real) list" where
  "actor_last_selected last_selected actor_of =
     foldl (\<lambda>out (hk, ts).
       let actor = actor_name actor_of hk in
       if ts > (case map_of out actor of None \<Rightarrow> 0 | Some t \<Rightarrow> t) then AList.update actor ts out else out)
     [] last_selected"

definition distinct_actor_count :: "string list \<Rightarrow> (string \<Rightarrow> string) \<Rightarrow> nat" where
  "distinct_actor_count hotkeys actor_of = card (set (map actor_of hotkeys))"

section \<open>Roots\<close>

text \<open>Parents are smaller than their children, so walking up ends.\<close>

definition uf_ok :: "parents \<Rightarrow> bool" where
  "uf_ok p \<longleftrightarrow> (\<forall>x y. map_of p x = Some y \<longrightarrow> y < x)"

lemma parent_le: "uf_ok p \<Longrightarrow> parent_of p x \<le> x"
  by (auto simp: uf_ok_def parent_of_def order.strict_implies_order split: option.splits)

lemma parent_update: "parent_of (AList.update x r p) y = (if y = x then r else parent_of p y)"
  by (simp add: parent_of_def dict_simps)

definition height :: "parents \<Rightarrow> string \<Rightarrow> nat" where
  "height p x = card {k \<in> dom (map_of p). k \<le> x}"

lemma height_parent:
  assumes "uf_ok p" "parent_of p x \<noteq> x"
  shows "height p (parent_of p x) < height p x"
proof -
  have x: "x \<in> dom (map_of p)" using assms(2) by (auto simp: parent_of_def split: option.splits)
  have lt: "parent_of p x < x" using parent_le [OF assms(1), of x] assms(2) by simp
  have "{k \<in> dom (map_of p). k \<le> parent_of p x} \<subset> {k \<in> dom (map_of p). k \<le> x}" using x lt by force
  moreover have "finite {k \<in> dom (map_of p). k \<le> x}" by (simp add: finite_dom_map_of)
  ultimately show ?thesis unfolding height_def by (rule psubset_card_mono [rotated])
qed

lemma uf_induct [consumes 1, case_names root child]:
  assumes "uf_ok p" "\<And>x. parent_of p x = x \<Longrightarrow> P x" "\<And>x. parent_of p x \<noteq> x \<Longrightarrow> P (parent_of p x) \<Longrightarrow> P x"
  shows "P x"
proof (induction x rule: measure_induct_rule [of "height p"])
  case (less x)
  then show ?case using assms(2,3) height_parent [OF assms(1), of x] by (cases "parent_of p x = x") auto
qed

definition root_of :: "parents \<Rightarrow> string \<Rightarrow> string" where
  "root_of p x = the (walk_up p x)"

lemma walk_up_root: "uf_ok p \<Longrightarrow> walk_up p x = Some (root_of p x)"
proof -
  assume "uf_ok p"
  then have "\<exists>r. walk_up p x = Some r"
  proof (induction x rule: uf_induct)
    case (root x)
    then show ?case by (subst walk_up.simps) simp
  next
    case (child x)
    then show ?case by (subst walk_up.simps) simp
  qed
  then show ?thesis by (auto simp: root_of_def)
qed

lemma root_step: "uf_ok p \<Longrightarrow> root_of p x = (if parent_of p x = x then x else root_of p (parent_of p x))"
  using walk_up.simps [of p x] walk_up_root [of p x] walk_up_root [of p "parent_of p x"] by (auto split: if_splits)

lemma root_parent: "uf_ok p \<Longrightarrow> root_of p (parent_of p x) = root_of p x"
  using root_step [of p x] by (auto split: if_splits)

lemma root_is_root:
  assumes ok: "uf_ok p"
  shows "parent_of p (root_of p x) = root_of p x"
  using ok
proof (induction x rule: uf_induct)
  case (root x)
  then show ?case by (simp add: root_step [OF ok, of x])
next
  case (child x)
  then show ?case by (simp add: root_step [OF ok, of x])
qed

lemma root_le:
  assumes ok: "uf_ok p"
  shows "root_of p x \<le> x"
  using ok
proof (induction x rule: uf_induct)
  case (root x)
  then show ?case by (simp add: root_step [OF ok, of x])
next
  case (child x)
  then show ?case using parent_le [OF ok, of x] by (simp add: root_step [OF ok, of x])
qed

lemma root_idem [simp]: "uf_ok p \<Longrightarrow> root_of p (root_of p x) = root_of p x"
  using root_step [of p "root_of p x"] by (simp add: root_is_root)

section \<open>Path compression and union\<close>

lemma uf_ok_update: "uf_ok p \<Longrightarrow> r < x \<Longrightarrow> uf_ok (AList.update x r p)"
  by (auto simp: uf_ok_def dict_simps)

text \<open>Hanging a token below a smaller root of its own component, or a root below a smaller root.\<close>

lemma root_update:
  assumes ok: "uf_ok p" and r: "parent_of p r = r" "r < x" and x: "root_of p x = r \<or> parent_of p x = x"
  shows "root_of (AList.update x r p) y = (if root_of p y = x then r else root_of p y)"
  using uf_ok_update [OF ok r(2)]
proof (induction y rule: uf_induct)
  case (root y)
  have yx: "y \<noteq> x" using root r by (auto simp: parent_update)
  then have "parent_of p y = y" using root by (simp add: parent_update)
  then show ?case using yx root root_step [OF ok, of y] root_step [OF uf_ok_update [OF ok r(2)], of y] by simp
next
  case (child y)
  have ne: "x \<noteq> r" using r(2) by auto
  have rr: "root_of p r = r" using root_step [OF ok, of r] r(1) by simp
  have "root_of p x = x \<or> root_of p x = r" using x root_step [OF ok, of x] by auto
  then show ?case
    using child.hyps child.IH root_step [OF uf_ok_update [OF ok r(2)], of y] root_parent [OF ok, of y] ne rr
    by (auto simp: parent_update split: if_splits)
qed


lemma dom_update_mem: "x \<in> dom (map_of p) \<Longrightarrow> dom (map_of (AList.update x r p)) = dom (map_of p)"
  by (auto simp: dict_simps dom_def)

lemma height_update: "x \<in> dom (map_of p) \<Longrightarrow> height (AList.update x r p) y = height p y"
  using dom_update_mem [of x p r] by (simp add: height_def)

lemma compress_returns:
  assumes "uf_ok p" "r = root_of p x"
  shows "\<exists>q. compress r p x = Some q \<and> uf_ok q \<and> root_of q = root_of p"
  using assms
proof (induction "height p x" arbitrary: p x rule: less_induct)
  case less
  show ?case
  proof (cases "parent_of p x = r")
    case True
    then show ?thesis using less.prems by (subst compress.simps) simp
  next
    case False
    let ?q = "AList.update x r p"
    have child: "parent_of p x \<noteq> x" using False less.prems root_step [of p x] by auto
    then have x: "x \<in> dom (map_of p)" by (auto simp: parent_of_def split: option.splits)
    have "x \<noteq> r" using child less.prems root_is_root [of p x] by auto
    then have lt: "r < x" using less.prems root_le [of p x] by simp
    have roots: "root_of ?q = root_of p"
      using root_update [of p r x] less.prems lt root_is_root [of p x] root_is_root [of p] child
      by (auto simp: fun_eq_iff)
    have "height ?q (parent_of p x) < height p x"
      using height_parent [OF less.prems(1) child] by (simp add: height_update [OF x])
    from less.hyps [OF this uf_ok_update [OF less.prems(1) lt]] roots less.prems False
    show ?thesis by (subst compress.simps) (simp add: root_parent)
  qed
qed

lemma find_returns:
  assumes "uf_ok p"
  obtains q where "find_token p x = Some (root_of p x, q)" "uf_ok q" "root_of q = root_of p"
  using compress_returns [OF assms refl, of x] walk_up_root [OF assms, of x] by (auto simp: find_token_def)

lemma union_returns:
  assumes ok: "uf_ok p"
  obtains q where "union_tokens a b p = Some q" "uf_ok q"
    "root_of q = (\<lambda>y. if root_of p y \<in> {root_of p a, root_of p b} then min (root_of p a) (root_of p b) else root_of p y)"
proof -
  obtain q where q: "find_token p a = Some (root_of p a, q)" "uf_ok q" "root_of q = root_of p"
    using find_returns [OF ok] .
  obtain s where s: "find_token q b = Some (root_of q b, s)" "uf_ok s" "root_of s = root_of q"
    using find_returns [OF q(2)] .
  have par: "parent_of s (root_of s y) = root_of s y" for y by (rule root_is_root [OF s(2)])
  have sub: "root_of (AList.update hi lo s) y = (if root_of s y = hi then lo else root_of s y)"
    if "lo < hi" "lo = root_of s u" "hi = root_of s v" for lo hi u v y
    using root_update [OF s(2), of lo hi] par that by auto
  show thesis
  proof (rule linorder_cases [of "root_of p a" "root_of p b"])
    assume lt: "root_of p a < root_of p b"
    show thesis
      by (rule that [of "AList.update (root_of p b) (root_of p a) s"])
        (use q s lt sub [OF lt] uf_ok_update [OF s(2) lt] in \<open>auto simp: union_tokens_def fun_eq_iff min_def\<close>)
  next
    assume eq: "root_of p a = root_of p b"
    show thesis by (rule that [of s]) (use q s eq in \<open>auto simp: union_tokens_def fun_eq_iff\<close>)
  next
    assume lt: "root_of p b < root_of p a"
    show thesis
      by (rule that [of "AList.update (root_of p a) (root_of p b) s"])
        (use q s lt sub [OF lt] uf_ok_update [OF s(2) lt] in \<open>auto simp: union_tokens_def fun_eq_iff min_def\<close>)
  qed
qed

section \<open>Connected components\<close>

abbreviation linked :: "(string \<times> string) set \<Rightarrow> (string \<times> string) set" where
  "linked E \<equiv> (E \<union> E\<inverse>)\<^sup>*"

lemma linked_sym: "(x, y) \<in> linked E \<Longrightarrow> (y, x) \<in> linked E"
proof -
  have "sym (linked E)" by (intro sym_rtrancl) (auto simp: sym_def)
  then show "(x, y) \<in> linked E \<Longrightarrow> (y, x) \<in> linked E" by (auto simp: sym_def)
qed

lemma linked_insert:
  "(x, y) \<in> linked (insert (a, b) E) \<longleftrightarrow>
   (x, y) \<in> linked E \<or> (x, a) \<in> linked E \<and> (b, y) \<in> linked E \<or> (x, b) \<in> linked E \<and> (a, y) \<in> linked E"
proof -
  have "linked (insert (a, b) E) = (insert (a, b) (insert (b, a) (E \<union> E\<inverse>)))\<^sup>*"
    by (rule arg_cong [where f = rtrancl]) auto
  then show ?thesis by (auto simp: rtrancl_insert intro: rtrancl_trans dest: linked_sym)
qed

text \<open>The forest represents the links \<open>E\<close>: two tokens have one root exactly when they are linked.\<close>

definition uf_rep :: "(string \<times> string) set \<Rightarrow> parents \<Rightarrow> bool" where
  "uf_rep E p \<longleftrightarrow> uf_ok p \<and> (\<forall>x y. root_of p x = root_of p y \<longleftrightarrow> (x, y) \<in> linked E)"

lemma uf_rep_empty: "uf_rep {} []"
proof -
  have "uf_ok []" by (simp add: uf_ok_def)
  moreover have "root_of [] x = x" for x using root_step [OF \<open>uf_ok []\<close>, of x] by (simp add: parent_of_def)
  ultimately show ?thesis by (simp add: uf_rep_def)
qed

lemma find_rep:
  assumes "uf_rep E p"
  obtains q where "find_token p x = Some (root_of p x, q)" "uf_rep E q" "root_of q = root_of p"
  using find_returns [of p x] assms unfolding uf_rep_def by metis

lemma union_rep:
  assumes rep: "uf_rep E p"
  obtains q where "union_tokens a b p = Some q" "uf_rep (insert (a, b) E) q"
proof -
  obtain q where q: "union_tokens a b p = Some q" "uf_ok q"
    "root_of q = (\<lambda>y. if root_of p y \<in> {root_of p a, root_of p b} then min (root_of p a) (root_of p b) else root_of p y)"
    using union_returns [of p a b] rep unfolding uf_rep_def by blast
  have r: "(x, y) \<in> linked E \<longleftrightarrow> root_of p x = root_of p y" for x y using rep by (simp add: uf_rep_def)
  have "root_of q x = root_of q y \<longleftrightarrow> (x, y) \<in> linked (insert (a, b) E)" for x y
    unfolding linked_insert r q(3) by (auto simp: min_def)
  with q show thesis by (intro that [of q]) (simp_all add: uf_rep_def)
qed

text \<open>The links and the tokens of a set of hotkeys.\<close>

definition owner_links :: "(string \<times> string) list \<Rightarrow> (string \<times> string list) list \<Rightarrow> bool \<Rightarrow> string set \<Rightarrow> (string \<times> string) set" where
  "owner_links ckm om union_on H = {(base_token ckm hk, ''own:'' @ w) | hk w. hk \<in> H \<and> union_on \<and> w \<in> set (owners_of om hk)}"

definition actor_tokens :: "(string \<times> string) list \<Rightarrow> (string \<times> string list) list \<Rightarrow> bool \<Rightarrow> string set \<Rightarrow> string set" where
  "actor_tokens ckm om union_on H = base_token ckm ` H \<union> snd ` owner_links ckm om union_on H"

lemma union_owners_rep:
  assumes "uf_rep E p"
  obtains ts' q where "union_owners t os (ts, p) = Some (ts', q)"
    "uf_rep (E \<union> (\<lambda>w. (t, ''own:'' @ w)) ` set os) q" "set ts' = set ts \<union> (@) ''own:'' ` set os"
  using assms
proof (induction os arbitrary: ts p E thesis)
  case Nil
  then show ?case by simp
next
  case (Cons w os)
  obtain q where q: "union_tokens t (''own:'' @ w) p = Some q" "uf_rep (insert (t, ''own:'' @ w) E) q"
    using union_rep [OF Cons.prems(2)] .
  obtain ts' q' where "union_owners t os (List.insert (''own:'' @ w) ts, q) = Some (ts', q')"
    "uf_rep (insert (t, ''own:'' @ w) E \<union> (\<lambda>w. (t, ''own:'' @ w)) ` set os) q'"
    "set ts' = set (List.insert (''own:'' @ w) ts) \<union> (@) ''own:'' ` set os"
    using Cons.IH [OF _ q(2)] by metis
  with q show ?case by (intro Cons.prems(1)) auto
qed

lemma owner_links_insert:
  "owner_links ckm om u (insert hk H) =
   owner_links ckm om u H \<union> (\<lambda>w. (base_token ckm hk, ''own:'' @ w)) ` set (if u then owners_of om hk else [])"
  by (auto simp: owner_links_def)

lemma actor_tokens_insert:
  "actor_tokens ckm om u (insert hk H) =
   actor_tokens ckm om u H \<union> {base_token ckm hk} \<union> (@) ''own:'' ` set (if u then owners_of om hk else [])"
  by (auto simp: actor_tokens_def owner_links_insert image_Un image_image)

lemma register_rep:
  assumes "uf_rep (owner_links ckm om u H) p" "set ts = actor_tokens ckm om u H"
  obtains ts' q where "register_hotkeys ckm om u hks (ts, p) = Some (ts', q)"
    "uf_rep (owner_links ckm om u (H \<union> set hks)) q" "set ts' = actor_tokens ckm om u (H \<union> set hks)"
  using assms
proof (induction hks arbitrary: H ts p thesis)
  case Nil
  then show ?case by simp
next
  case (Cons hk hks)
  let ?t = "base_token ckm hk"
  obtain q where q: "find_token p ?t = Some (root_of p ?t, q)" "uf_rep (owner_links ckm om u H) q"
    using find_rep [OF Cons.prems(2)] .
  obtain ts' q' where q': "union_owners ?t (if u then owners_of om hk else []) (List.insert ?t ts, q) = Some (ts', q')"
    "uf_rep (owner_links ckm om u (insert hk H)) q'"
    "set ts' = set (List.insert ?t ts) \<union> (@) ''own:'' ` set (if u then owners_of om hk else [])"
    using union_owners_rep [OF q(2), of ?t "if u then owners_of om hk else []" "List.insert ?t ts"]
    unfolding owner_links_insert by blast
  have ts': "set ts' = actor_tokens ckm om u (insert hk H)"
    using q'(3) Cons.prems(3) by (auto simp: actor_tokens_insert)
  obtain ts'' q'' where "register_hotkeys ckm om u hks (ts', q') = Some (ts'', q'')"
    "uf_rep (owner_links ckm om u (insert hk H \<union> set hks)) q''" "set ts'' = actor_tokens ckm om u (insert hk H \<union> set hks)"
    using Cons.IH [OF _ q'(2) ts'] by blast
  with q q' show ?case by (intro Cons.prems(1) [of ts'' q'']) simp_all
qed

section \<open>Labels\<close>

lemma token_rank_inj: "token_rank a = token_rank b \<Longrightarrow> a = b"
  by (simp add: token_rank_def)

lemma snd_token_rank [simp]: "snd (token_rank a) = a"
  by (simp add: token_rank_def)

text \<open>\<open>best\<close> holds the best token of every component met so far.\<close>

definition best_ok :: "(string \<Rightarrow> string) \<Rightarrow> string set \<Rightarrow> (string \<times> string) list \<Rightarrow> bool" where
  "best_ok rt S best \<longleftrightarrow> (\<forall>r. case map_of best r of
       None \<Rightarrow> \<forall>t \<in> S. rt t \<noteq> r
     | Some b \<Rightarrow> b \<in> S \<and> rt b = r \<and> (\<forall>t \<in> S. rt t = r \<longrightarrow> token_rank b \<le> token_rank t))"

definition offer_best :: "string \<Rightarrow> string \<Rightarrow> (string \<times> string) list \<Rightarrow> (string \<times> string) list" where
  "offer_best r tok best = (case map_of best r of
       None \<Rightarrow> AList.update r tok best
     | Some b \<Rightarrow> if token_rank tok < token_rank b then AList.update r tok best else best)"

lemma best_tokens_Cons:
  "find_token p tok = Some (r, q) \<Longrightarrow> best_tokens (tok # toks) (best, p) = best_tokens toks (offer_best r tok best, q)"
  by (simp add: offer_best_def if_distrib split: option.splits)

lemma offer_best_ok:
  assumes "best_ok rt S best"
  shows "best_ok rt (insert tok S) (offer_best (rt tok) tok best)"
  unfolding best_ok_def
proof (rule allI)
  fix r
  show "case map_of (offer_best (rt tok) tok best) r of
       None \<Rightarrow> \<forall>t \<in> insert tok S. rt t \<noteq> r
     | Some b \<Rightarrow> b \<in> insert tok S \<and> rt b = r \<and> (\<forall>t \<in> insert tok S. rt t = r \<longrightarrow> token_rank b \<le> token_rank t)"
    using assms [unfolded best_ok_def, rule_format, of r]
    by (cases "r = rt tok")
      (auto simp: offer_best_def dict_simps split: option.splits intro: order.trans order.strict_implies_order)
qed

lemma best_tokens_rep:
  assumes "uf_rep E p" "best_ok (root_of p) S best"
  obtains best' q where "best_tokens toks (best, p) = Some (best', q)" "uf_rep E q" "root_of q = root_of p"
    "best_ok (root_of p) (S \<union> set toks) best'"
  using assms
proof (induction toks arbitrary: S best p thesis)
  case Nil
  then show ?case by simp
next
  case (Cons tok toks)
  obtain q where q: "find_token p tok = Some (root_of p tok, q)" "uf_rep E q" "root_of q = root_of p"
    using find_rep [OF Cons.prems(2)] .
  have "best_ok (root_of q) (insert tok S) (offer_best (root_of p tok) tok best)"
    using offer_best_ok [OF Cons.prems(3), of tok] q(3) by simp
  from Cons.IH [OF _ q(2) this] obtain best' q' where
    "best_tokens toks (offer_best (root_of p tok) tok best, q) = Some (best', q')" "uf_rep E q'"
    "root_of q' = root_of q" "best_ok (root_of q) (insert tok S \<union> set toks) best'" by blast
  with q show ?case by (intro Cons.prems(1) [of best' q']) (simp_all add: best_tokens_Cons del: best_tokens.simps)
qed

text \<open>The reference: the label of the best token linked to the hotkey's own.\<close>

definition actor_label :: "(string \<times> string) list \<Rightarrow> (string \<times> string list) list \<Rightarrow> bool \<Rightarrow> string set \<Rightarrow> string \<Rightarrow> string" where
  "actor_label ckm om union_on H hk =
     token_label (snd (Min (token_rank `
       {t \<in> actor_tokens ckm om union_on H. (base_token ckm hk, t) \<in> linked (owner_links ckm om union_on H)})))"

lemma finite_actor_tokens: "finite H \<Longrightarrow> finite (actor_tokens ckm om u H)"
proof (induction H rule: finite_induct)
  case empty
  then show ?case by (simp add: actor_tokens_def owner_links_def)
next
  case (insert hk H)
  then show ?case by (simp add: actor_tokens_insert)
qed

lemma best_is_label:
  assumes rep: "uf_rep (owner_links ckm om u H) p" and best: "best_ok (root_of p) (actor_tokens ckm om u H) best"
    and H: "finite H" "hk \<in> H"
  obtains tok where "map_of best (root_of p (base_token ckm hk)) = Some tok" "token_label tok = actor_label ckm om u H hk"
proof -
  let ?t = "base_token ckm hk" and ?T = "actor_tokens ckm om u H"
  let ?C = "{t \<in> ?T. (?t, t) \<in> linked (owner_links ckm om u H)}"
  have t: "?t \<in> ?T" using H by (simp add: actor_tokens_def)
  have link: "(?t, v) \<in> linked (owner_links ckm om u H) \<longleftrightarrow> root_of p v = root_of p ?t" for v
    using rep by (auto simp: uf_rep_def dest: linked_sym)
  note b = best [unfolded best_ok_def, rule_format, of "root_of p ?t"]
  then obtain tok where tok: "map_of best (root_of p ?t) = Some tok" using t by (cases "map_of best (root_of p ?t)") auto
  with b have mem: "tok \<in> ?C" and least: "\<And>v. v \<in> ?C \<Longrightarrow> token_rank tok \<le> token_rank v" by (auto simp: link)
  have "finite ?C" using finite_actor_tokens [OF H(1)] by simp
  then have "Min (token_rank ` ?C) = token_rank tok" using mem least by (intro Min_eqI) auto
  then have "actor_label ckm om u H hk = token_label tok" by (simp add: actor_label_def)
  with tok show thesis by (intro that) simp_all
qed

lemma label_rep:
  assumes "uf_rep (owner_links ckm om u H) p" "best_ok (root_of p) (actor_tokens ckm om u H) best" "finite H" "set hks \<subseteq> H"
  shows "label_hotkeys ckm best hks p = Some (Inr (map (\<lambda>hk. (hk, actor_label ckm om u H hk)) hks))"
  using assms
proof (induction hks arbitrary: p)
  case Nil
  then show ?case by simp
next
  case (Cons hk hks)
  obtain q where q: "find_token p (base_token ckm hk) = Some (root_of p (base_token ckm hk), q)"
    "uf_rep (owner_links ckm om u H) q" "root_of q = root_of p"
    using find_rep [OF Cons.prems(1)] .
  obtain tok where "map_of best (root_of p (base_token ckm hk)) = Some tok" "token_label tok = actor_label ckm om u H hk"
    using best_is_label [OF Cons.prems(1-3), of hk] Cons.prems(4) by auto
  with q Cons.IH [OF q(2)] Cons.prems show ?case by simp
qed

lemma build_actor_map_label:
  assumes "\<And>ts. set (shuffle ts) = set ts"
  shows "build_actor_map shuffle ckm om union_on hotkeys =
     Some (Inr (map (\<lambda>hk. (hk, actor_label ckm om union_on (set hotkeys) hk)) hotkeys))"
proof -
  have "uf_rep (owner_links ckm om union_on {}) []" "set [] = actor_tokens ckm om union_on {}"
    using uf_rep_empty by (simp_all add: owner_links_def actor_tokens_def)
  from register_rep [OF this] obtain ts p where r: "register_hotkeys ckm om union_on hotkeys ([], []) = Some (ts, p)"
    "uf_rep (owner_links ckm om union_on (set hotkeys)) p" "set ts = actor_tokens ckm om union_on (set hotkeys)" by auto
  have "best_ok (root_of p) {} []" by (simp add: best_ok_def)
  from best_tokens_rep [OF r(2) this] obtain best q where
    b: "best_tokens (shuffle ts) ([], p) = Some (best, q)" "uf_rep (owner_links ckm om union_on (set hotkeys)) q"
      "root_of q = root_of p" "best_ok (root_of p) ({} \<union> set (shuffle ts)) best" by blast
  have "best_ok (root_of q) (actor_tokens ckm om union_on (set hotkeys)) best"
    using b(3,4) r(3) assms by simp
  from label_rep [OF b(2) this] r(1) b(1) show ?thesis by (simp add: build_actor_map_def)
qed

text \<open>Claim C21: the union-find of the actor map returns, whatever the order in which the sets of hotkeys and of tokens are
  enumerated, and gives every hotkey the label of the best token (coldkey before owner before hotkey, the smallest of
  its kind) in the connected component of its own token, where a token is linked to the owners its hotkeys used.\<close>

theorem actor_map_is_component_label:
  assumes "\<And>ts. set (shuffle ts) = set ts"
  shows "build_actor_map shuffle ckm om union_on hotkeys =
     Some (Inr (map (\<lambda>hk. (hk, actor_label ckm om union_on (set hotkeys) hk)) hotkeys))"
  by (rule build_actor_map_label [OF assms])

theorem actor_map_is_component_label_witness:
  "build_actor_map rev [(''a'', ''K2''), (''b'', ''K1''), (''c'', ''K3'')] [(''a'', [''gh'']), (''b'', [''gh''])] True [''c'', ''a'', ''b''] =
     Some (Inr (map (\<lambda>hk. (hk, actor_label [(''a'', ''K2''), (''b'', ''K1''), (''c'', ''K3'')]
        [(''a'', [''gh'']), (''b'', [''gh''])] True (set [''c'', ''a'', ''b'']) hk)) [''c'', ''a'', ''b'']))"
  by (rule actor_map_is_component_label) simp

text \<open>Property: hotkeys of one coldkey are one actor, and so are hotkeys that used one github owner, whatever other links exist.\<close>

theorem shared_identity_is_one_actor:
  assumes "\<And>ts. set (shuffle ts) = set ts" "hk \<in> set hotkeys" "hk' \<in> set hotkeys"
    and "base_token ckm hk = base_token ckm hk' \<or>
         union_on \<and> w \<in> set (owners_of om hk) \<and> w \<in> set (owners_of om hk')"
  shows "\<exists>m. build_actor_map shuffle ckm om union_on hotkeys = Some (Inr m) \<and> map_of m hk = map_of m hk' \<and> map_of m hk \<noteq> None"
proof -
  let ?E = "owner_links ckm om union_on (set hotkeys)"
  have link: "(base_token ckm hk, base_token ckm hk') \<in> linked ?E"
    using assms(4)
  proof
    assume *: "union_on \<and> w \<in> set (owners_of om hk) \<and> w \<in> set (owners_of om hk')"
    then have "(base_token ckm hk, ''own:'' @ w) \<in> ?E" "(base_token ckm hk', ''own:'' @ w) \<in> ?E"
      using assms(2,3) by (auto simp: owner_links_def)
    then show ?thesis by (meson UnI1 UnI2 converseI converse_rtrancl_into_rtrancl rtrancl.rtrancl_refl)
  qed simp
  have "(base_token ckm hk, t) \<in> linked ?E \<longleftrightarrow> (base_token ckm hk', t) \<in> linked ?E" for t
    using link linked_sym [OF link] by (blast intro: rtrancl_trans)
  then have "actor_label ckm om union_on (set hotkeys) hk = actor_label ckm om union_on (set hotkeys) hk'"
    by (simp add: actor_label_def)
  with assms show ?thesis
    by (simp add: build_actor_map_label map_of_map_restrict)
qed

theorem shared_identity_is_one_actor_witness:
  "\<exists>m. build_actor_map rev [(''a'', ''K2''), (''b'', ''K1'')] [(''a'', [''gh'']), (''b'', [''gh''])] True [''a'', ''b''] = Some (Inr m)
     \<and> map_of m ''a'' = map_of m ''b'' \<and> map_of m ''a'' \<noteq> None"
  by (rule shared_identity_is_one_actor [where w = "''gh''"]) (simp_all add: owners_of_def)

lemma label_ck [simp]: "token_label (CHR ''c'' # CHR ''k'' # CHR '':'' # ck) = ck"
  by (simp add: token_label_def)

lemma actor_label_unlinked:
  assumes "owner_links ckm om u H = {}" "hk \<in> H"
  shows "actor_label ckm om u H hk = token_label (base_token ckm hk)"
proof -
  have "{t \<in> actor_tokens ckm om u H. (base_token ckm hk, t) \<in> linked {}} = {base_token ckm hk}"
    using assms by (auto simp: actor_tokens_def)
  then show ?thesis using assms(1) by (simp add: actor_label_def)
qed

text \<open>Property: with the owner union switched off, a resolver is always built and takes every hotkey to exactly its coldkey, and
  a hotkey the metagraph does not know to itself; only the former count as mapped.\<close>

theorem coldkey_only_resolver:
  assumes "\<And>xs. set (enum xs) = set xs" "\<And>ts. set (shuffle ts) = set ts"
    and "\<forall>ck \<in> set (vals_of ckm). ck \<noteq> []"
  shows "\<exists>ar. from_maps enum shuffle False ckm om source = Some (Inr ar) \<and>
     (\<forall>hk. actor_call ar hk = (case map_of ckm hk of None \<Rightarrow> hk | Some ck \<Rightarrow> ck) \<and> actor_mapped ar hk = map_of ckm hk)"
proof -
  let ?hks = "enum (remdups (keys_of ckm))"
  have hks: "set ?hks = set (keys_of ckm)" using assms(1) by simp
  have nonempty: "ck \<noteq> []" if "map_of ckm hk = Some ck" for hk ck
    using assms(3) map_of_SomeD [OF that] by force
  define m where "m = map (\<lambda>hk. (hk, actor_label ckm om False (set ?hks) hk)) ?hks"
  have m: "map_of m hk = map_of ckm hk" for hk
  proof (cases "map_of ckm hk")
    case None
    then have "hk \<notin> set ?hks" using hks by (simp add: map_of_None_keys)
    with None show ?thesis by (simp add: m_def map_of_map_restrict restrict_map_def)
  next
    case (Some ck)
    then have "hk \<in> set ?hks" "ck \<noteq> []" using hks nonempty by (force dest: map_of_SomeD)+
    moreover have "actor_label ckm om False (set ?hks) hk = token_label (base_token ckm hk)"
      using \<open>hk \<in> set ?hks\<close> by (intro actor_label_unlinked) (simp_all add: owner_links_def)
    ultimately show ?thesis using Some by (simp add: m_def map_of_map_restrict base_token_def)
  qed
  have built: "from_maps enum shuffle False ckm om source =
      Some (Inr \<lparr>ar_actor = m, ar_coldkey_backed = keys_of ckm, ar_source = source\<rparr>)" (is "_ = Some (Inr ?ar)")
    by (simp add: from_maps_def build_actor_map_label [OF assms(2)] m_def Let_def)
  have "actor_call ?ar hk = (case map_of ckm hk of None \<Rightarrow> hk | Some ck \<Rightarrow> ck)" for hk
    using nonempty [of hk] by (auto simp: actor_call_def m Let_def split: option.splits)
  moreover have "actor_mapped ?ar hk = map_of ckm hk" for hk
  proof (cases "map_of ckm hk")
    case (Some ck)
    then have "hk \<in> set (keys_of ckm)" "ck \<noteq> []" using nonempty by (force dest: map_of_SomeD)+
    with Some show ?thesis by (simp add: actor_mapped_def m)
  next
    case None
    moreover from None have "hk \<notin> set (keys_of ckm)" by (simp add: map_of_None_keys)
    ultimately show ?thesis by (simp add: actor_mapped_def)
  qed
  ultimately show ?thesis using built by blast
qed

theorem coldkey_only_resolver_witness:
  "\<exists>ar. from_maps rev id False [(''a'', ''K1'')] [] ''built'' = Some (Inr ar) \<and>
     (\<forall>hk. actor_call ar hk = (case map_of [(''a'', ''K1'')] hk of None \<Rightarrow> hk | Some ck \<Rightarrow> ck)
        \<and> actor_mapped ar hk = map_of [(''a'', ''K1'')] hk)"
  by (rule coldkey_only_resolver) simp_all

section \<open>Seniority of an actor\<close>

text \<open>An actor's seniority is the maximum over its hotkeys.\<close>

lemma actor_last_selected_max:
  fixes led :: "(string \<times> real) list"
  assumes "\<forall>(hk, ts) \<in> set led. 0 \<le> ts"
  shows "(case map_of (actor_last_selected led actor_of) a of None \<Rightarrow> 0 | Some t \<Rightarrow> t) =
     Max (insert 0 {ts. \<exists>hk. (hk, ts) \<in> set led \<and> actor_name actor_of hk = a})"
  using assms
proof (induction led rule: rev_induct)
  case Nil
  then show ?case by (simp add: actor_last_selected_def)
next
  case (snoc e led)
  obtain hk ts where e: "e = (hk, ts)" by fastforce
  have fin: "finite {t. \<exists>h. (h, t) \<in> set led \<and> actor_name actor_of h = a}"
    by (rule finite_subset [of _ "snd ` set led"]) force+
  have "{t. \<exists>h. (h, t) \<in> set (led @ [e]) \<and> actor_name actor_of h = a} =
      (if actor_name actor_of hk = a then insert ts else id) {t. \<exists>h. (h, t) \<in> set led \<and> actor_name actor_of h = a}"
    by (auto simp: e)
  then have M: "Max (insert 0 {t. \<exists>h. (h, t) \<in> set (led @ [e]) \<and> actor_name actor_of h = a}) =
      (if actor_name actor_of hk = a then max ts else id) (Max (insert 0 {t. \<exists>h. (h, t) \<in> set led \<and> actor_name actor_of h = a}))"
    using fin by (simp add: insert_commute [of 0 ts] Max_insert)
  have "actor_last_selected (led @ [e]) actor_of =
      (let out = actor_last_selected led actor_of in
       if ts > (case map_of out (actor_name actor_of hk) of None \<Rightarrow> 0 | Some t \<Rightarrow> t) then AList.update (actor_name actor_of hk) ts out else out)"
    by (simp add: actor_last_selected_def e Let_def)
  with M snoc show ?case by (auto simp: Let_def dict_simps max_def split: option.splits)
qed

end
