(* ===== verification/Submission_Types.thy ===== *)
theory Submission_Types
  imports Round_Types
begin

text \<open>
  Solver submissions, \<open>harness/submission_store.py\<close>: the status enumeration and its groups, the dataclass
  \<open>Submission\<close> with \<open>to_dict\<close>, and its two readers: the tolerant one of \<open>_upsert_one\<close> (mirrored and pulled records)
  and the strict one of \<open>_load\<close> (start-up). Fields that hold arbitrary documents are kept as JSON.
\<close>

section \<open>Status\<close>

datatype sub_status = QUEUED | SCREENING_1 | SCREENING_2 | SCREENING_3 | PENDING_SELECTION | BENCHMARKING | SCORED
  | WAITLISTED | REJECTED | ADOPTED

fun sub_status_value :: "sub_status \<Rightarrow> string" where
  "sub_status_value QUEUED = ''queued''"
| "sub_status_value SCREENING_1 = ''screening_stage_1''"
| "sub_status_value SCREENING_2 = ''screening_stage_2''"
| "sub_status_value SCREENING_3 = ''screening_stage_3''"
| "sub_status_value PENDING_SELECTION = ''pending_selection''"
| "sub_status_value BENCHMARKING = ''benchmarking''"
| "sub_status_value SCORED = ''scored''"
| "sub_status_value WAITLISTED = ''waitlisted''"
| "sub_status_value REJECTED = ''rejected''"
| "sub_status_value ADOPTED = ''adopted''"

definition sub_status_of :: "json \<Rightarrow> sub_status option" where
  "sub_status_of v = (case v of
       JStr s \<Rightarrow> find (\<lambda>st. sub_status_value st = s)
         [QUEUED, SCREENING_1, SCREENING_2, SCREENING_3, PENDING_SELECTION, BENCHMARKING, SCORED, WAITLISTED, REJECTED, ADOPTED]
     | _ \<Rightarrow> None)"

lemma sub_status_roundtrip [json_simps]: "sub_status_of (JStr (sub_status_value st)) = Some st"
  by (cases st) (simp_all add: sub_status_of_def)

definition benched_statuses :: "sub_status set" where
  "benched_statuses = {BENCHMARKING, SCORED, ADOPTED}"

definition no_resurrection_statuses :: "sub_status set" where
  "no_resurrection_statuses = {REJECTED, WAITLISTED}"

definition details_strippable_statuses :: "sub_status set" where
  "details_strippable_statuses = {SCORED, REJECTED}"

definition retention_prunable_values :: "string set" where
  "retention_prunable_values = sub_status_value ` {SCORED, WAITLISTED, REJECTED}"

lemmas status_groups = benched_statuses_def no_resurrection_statuses_def details_strippable_statuses_def

section \<open>The record\<close>

record submission =
  sb_id :: string
  sb_repo_url :: string
  sb_commit_hash :: string
  sb_epoch :: int
  sb_hotkey :: string
  sb_round_id :: string
  sb_pr_number :: "int option"
  sb_is_private :: bool
  sb_private_repo_full :: "string option"
  sb_github_owner :: "string option"
  sb_status :: sub_status
  sb_created_at :: real
  sb_updated_at :: real
  sb_screening :: "(string \<times> json) list"
  sb_image_tag :: "string option"
  sb_image_id :: "string option"
  sb_image_digest :: "string option"
  sb_provenance :: json
  sb_solver_path :: "string option"
  sb_solver_name :: "string option"
  sb_solver_version :: "string option"
  sb_is_copycat :: bool
  sb_coined_by :: "string option"
  sb_max_region_nodes :: "int option"
  sb_content_fingerprint :: "string option"
  sb_unproductive_nodes :: "int option"
  sb_unproductive_version :: "int option"
  sb_top_offenders :: json
  sb_benchmark_rank :: "int option"
  sb_benchmark_details :: json
  sb_rejection_reason :: "string option"
  sb_outcome_code :: "string option"
  sb_waitlist :: json

definition empty_stage :: json where
  "empty_stage = JObj [(''passed'', JNull), (''duration_ms'', JNull), (''details'', JNull), (''error_code'', JNull)]"

definition new_submission ::
  "string \<Rightarrow> string \<Rightarrow> string \<Rightarrow> int \<Rightarrow> string \<Rightarrow> string \<Rightarrow> int option \<Rightarrow> bool \<Rightarrow> string option \<Rightarrow> string option \<Rightarrow> real \<Rightarrow> submission" where
  "new_submission sid repo commit epoch hotkey round_id pr is_private private_repo owner now =
     \<lparr>sb_id = sid, sb_repo_url = repo, sb_commit_hash = commit, sb_epoch = epoch, sb_hotkey = hotkey, sb_round_id = round_id,
      sb_pr_number = pr, sb_is_private = is_private, sb_private_repo_full = private_repo, sb_github_owner = owner,
      sb_status = QUEUED, sb_created_at = now, sb_updated_at = now,
      sb_screening = [(''stage_1'', empty_stage), (''stage_2'', empty_stage), (''stage_3'', empty_stage)],
      sb_image_tag = None, sb_image_id = None, sb_image_digest = None, sb_provenance = JNull, sb_solver_path = None,
      sb_solver_name = None, sb_solver_version = None, sb_is_copycat = False, sb_coined_by = None,
      sb_max_region_nodes = None, sb_content_fingerprint = None, sb_unproductive_nodes = None,
      sb_unproductive_version = None, sb_top_offenders = JNull, sb_benchmark_rank = None, sb_benchmark_details = JNull,
      sb_rejection_reason = None, sb_outcome_code = None, sb_waitlist = JNull\<rparr>"

definition display_name :: "submission \<Rightarrow> string option" where
  "display_name s = (if or_empty (sb_solver_name s) \<noteq> [] \<and> sb_is_copycat s
     then Some (or_empty (sb_solver_name s) @ ''-copycat'') else sb_solver_name s)"

definition sub_to_dict :: "submission \<Rightarrow> (string \<times> json) list" where
  "sub_to_dict s =
     [(''submission_id'', JStr (sb_id s)), (''repo_url'', JStr (sb_repo_url s)), (''commit_hash'', JStr (sb_commit_hash s)),
      (''epoch'', JInt (sb_epoch s)), (''hotkey'', JStr (sb_hotkey s)), (''round_id'', JStr (sb_round_id s)),
      (''pr_number'', of_int_opt (sb_pr_number s)), (''is_private'', JBool (sb_is_private s)),
      (''private_repo_full'', of_str (sb_private_repo_full s)), (''github_owner'', of_str (sb_github_owner s)),
      (''status'', JStr (sub_status_value (sb_status s))), (''created_at'', JFloat (sb_created_at s)),
      (''updated_at'', JFloat (sb_updated_at s)), (''screening'', JObj (sb_screening s)),
      (''image_tag'', of_str (sb_image_tag s)), (''image_id'', of_str (sb_image_id s)),
      (''image_digest'', of_str (sb_image_digest s)), (''provenance'', sb_provenance s),
      (''solver_path'', of_str (sb_solver_path s)), (''solver_name'', of_str (sb_solver_name s)),
      (''solver_version'', of_str (sb_solver_version s)), (''is_copycat'', JBool (sb_is_copycat s)),
      (''coined_by_hotkey'', of_str (sb_coined_by s)), (''max_region_nodes'', of_int_opt (sb_max_region_nodes s)),
      (''content_fingerprint'', of_str (sb_content_fingerprint s)),
      (''unproductive_nodes'', of_int_opt (sb_unproductive_nodes s)),
      (''unproductive_metric_version'', of_int_opt (sb_unproductive_version s)),
      (''unproductive_top_offenders'', sb_top_offenders s), (''benchmark_rank'', of_int_opt (sb_benchmark_rank s)),
      (''benchmark_details'', sb_benchmark_details s), (''rejection_reason'', of_str (sb_rejection_reason s)),
      (''outcome_code'', of_str (sb_outcome_code s)), (''waitlist'', sb_waitlist s)]"

definition sub_status_dict :: "submission \<Rightarrow> (string \<times> json) list" where
  "sub_status_dict s =
     [(''submission_id'', JStr (sb_id s)), (''status'', JStr (sub_status_value (sb_status s))),
      (''round_id'', JStr (sb_round_id s)), (''pr_number'', of_int_opt (sb_pr_number s)),
      (''is_private'', JBool (sb_is_private s)), (''screening'', JObj (sb_screening s)),
      (''image_tag'', of_str (sb_image_tag s)), (''image_id'', of_str (sb_image_id s)),
      (''image_digest'', of_str (sb_image_digest s)), (''provenance'', sb_provenance s),
      (''solver_name'', of_str (sb_solver_name s)), (''solver_version'', of_str (sb_solver_version s)),
      (''display_name'', of_str (display_name s)), (''is_copycat'', JBool (sb_is_copycat s)),
      (''max_region_nodes'', of_int_opt (sb_max_region_nodes s)),
      (''content_fingerprint'', of_str (sb_content_fingerprint s)),
      (''unproductive_nodes'', of_int_opt (sb_unproductive_nodes s)),
      (''benchmark_rank'', of_int_opt (sb_benchmark_rank s)), (''rejection_reason'', of_str (sb_rejection_reason s)),
      (''outcome_code'', of_str (sb_outcome_code s)), (''waitlist'', sb_waitlist s)]"

section \<open>Readers\<close>

text \<open>\<open>d.get(k, dflt)\<close> and \<open>d[k]\<close> for a string field.\<close>

definition str_default :: "(string \<times> json) list \<Rightarrow> string \<Rightarrow> string \<Rightarrow> string res" where
  "str_default d k dflt = (case map_of d k of None \<Rightarrow> Inr dflt | Some (JStr s) \<Rightarrow> Inr s | Some _ \<Rightarrow> Inl Unmodelled)"

definition str_item :: "(string \<times> json) list \<Rightarrow> string \<Rightarrow> string res" where
  "str_item d k = (case map_of d k of None \<Rightarrow> Inl (KeyError k) | Some (JStr s) \<Rightarrow> Inr s | Some _ \<Rightarrow> Inl Unmodelled)"

definition legacy_round_id :: "json \<Rightarrow> string res" where
  "legacy_round_id epoch = res_bind (py_str epoch) (\<lambda>e. Inr (''legacy-epoch-'' @ e))"

definition record_round_id :: "(string \<times> json) list \<Rightarrow> string res" where
  "record_round_id d = (if jfalsy (jget d ''round_id'')
     then legacy_round_id (case map_of d ''epoch'' of None \<Rightarrow> JInt 0 | Some v \<Rightarrow> v)
     else case jget d ''round_id'' of JStr s \<Rightarrow> Inr s | _ \<Rightarrow> Inl Unmodelled)"

text \<open>The fields both readers take with \<open>get(k)\<close>.\<close>

definition read_common :: "(string \<times> json) list \<Rightarrow> submission \<Rightarrow> submission res" where
  "read_common d s =
     res_bind (opt_int (jget d ''pr_number'')) (\<lambda>pr.
     res_bind (opt_str (jget d ''private_repo_full'')) (\<lambda>prf.
     res_bind (opt_str (jget d ''github_owner'')) (\<lambda>own.
     res_bind (opt_str (jget d ''image_tag'')) (\<lambda>tag.
     res_bind (opt_str (jget d ''image_id'')) (\<lambda>img.
     res_bind (opt_str (jget d ''image_digest'')) (\<lambda>dig.
     res_bind (opt_str (jget d ''solver_path'')) (\<lambda>path.
     res_bind (opt_str (jget d ''solver_name'')) (\<lambda>name.
     res_bind (opt_str (jget d ''solver_version'')) (\<lambda>ver.
     res_bind (opt_str (jget d ''coined_by_hotkey'')) (\<lambda>coin.
     res_bind (opt_int (jget d ''max_region_nodes'')) (\<lambda>mrn.
     res_bind (opt_str (jget d ''content_fingerprint'')) (\<lambda>fp.
     res_bind (opt_int (jget d ''unproductive_nodes'')) (\<lambda>un.
     res_bind (opt_int (jget d ''unproductive_metric_version'')) (\<lambda>uv.
     res_bind (opt_int (jget d ''benchmark_rank'')) (\<lambda>rank.
     res_bind (opt_str (jget d ''rejection_reason'')) (\<lambda>why.
     res_bind (opt_str (jget d ''outcome_code'')) (\<lambda>code.
     Inr (s\<lparr>sb_pr_number := pr, sb_is_private := \<not> jfalsy (jget d ''is_private''), sb_private_repo_full := prf,
       sb_github_owner := own, sb_image_tag := tag, sb_image_id := img, sb_image_digest := dig,
       sb_provenance := jget d ''provenance'', sb_solver_path := path, sb_solver_name := name, sb_solver_version := ver,
       sb_is_copycat := \<not> jfalsy (jget d ''is_copycat''), sb_coined_by := coin, sb_max_region_nodes := mrn,
       sb_content_fingerprint := fp, sb_unproductive_nodes := un, sb_unproductive_version := uv,
       sb_top_offenders := jget d ''unproductive_top_offenders'', sb_benchmark_rank := rank,
       sb_benchmark_details := jget d ''benchmark_details'', sb_rejection_reason := why, sb_outcome_code := code,
       sb_waitlist := jget d ''waitlist''\<rparr>))))))))))))))))))"

definition base_submission ::
  "string \<Rightarrow> string \<Rightarrow> string \<Rightarrow> int \<Rightarrow> string \<Rightarrow> string \<Rightarrow> sub_status \<Rightarrow> real \<Rightarrow> real \<Rightarrow> (string \<times> json) list \<Rightarrow> submission" where
  "base_submission sid repo commit epoch hotkey rid st created updated scr =
     (new_submission sid repo commit epoch hotkey rid None False None None created)
       \<lparr>sb_status := st, sb_updated_at := updated, sb_screening := scr\<rparr>"

text \<open>\<open>_upsert_one\<close>: an unknown status is read as queued; only a missing id raises.\<close>

definition sub_of_record :: "(string \<times> json) list \<Rightarrow> submission res" where
  "sub_of_record d =
     res_bind (str_or_empty (jget d ''submission_id'')) (\<lambda>raw.
     let sid = strip raw in
     if sid = [] then Inl (ValueError ''upsert requires a submission_id'') else
     res_bind (record_round_id d) (\<lambda>rid.
     let st = (case (case map_of d ''status'' of None \<Rightarrow> Some QUEUED | Some v \<Rightarrow> sub_status_of v) of None \<Rightarrow> QUEUED | Some st \<Rightarrow> st) in
     res_bind (str_default d ''repo_url'' []) (\<lambda>repo.
     res_bind (str_default d ''commit_hash'' []) (\<lambda>commit.
     res_bind (int_or_0 (jget d ''epoch'')) (\<lambda>epoch.
     res_bind (str_default d ''hotkey'' []) (\<lambda>hotkey.
     res_bind (float_or 0 (jget d ''created_at'')) (\<lambda>created.
     res_bind (float_or 0 (jget d ''updated_at'')) (\<lambda>updated.
     res_bind (as_dict (jget d ''screening'')) (\<lambda>scr.
     read_common d (base_submission sid repo commit epoch hotkey rid st created updated scr))))))))))"

text \<open>The loop body of \<open>_load\<close>: missing fields and an unknown status raise.\<close>

definition sub_of_row :: "(string \<times> json) list \<Rightarrow> submission res" where
  "sub_of_row d =
     res_bind (record_round_id d) (\<lambda>rid.
     res_bind (str_item d ''submission_id'') (\<lambda>sid.
     res_bind (str_item d ''repo_url'') (\<lambda>repo.
     res_bind (str_item d ''commit_hash'') (\<lambda>commit.
     res_bind (case map_of d ''epoch'' of None \<Rightarrow> Inl (KeyError ''epoch'') | Some (JInt i) \<Rightarrow> Inr i | Some _ \<Rightarrow> Inl Unmodelled) (\<lambda>epoch.
     res_bind (str_item d ''hotkey'') (\<lambda>hotkey.
     res_bind (case map_of d ''status'' of None \<Rightarrow> Inl (KeyError ''status'')
        | Some v \<Rightarrow> or_raise (ValueError ''status'') (sub_status_of v)) (\<lambda>st.
     res_bind (float_or 0 (jget d ''created_at'')) (\<lambda>created.
     res_bind (float_or 0 (jget d ''updated_at'')) (\<lambda>updated.
     res_bind (case map_of d ''screening'' of None \<Rightarrow> Inr [] | Some (JObj x) \<Rightarrow> Inr x | Some _ \<Rightarrow> Inl Unmodelled) (\<lambda>scr.
     read_common d (base_submission sid repo commit epoch hotkey rid st created updated scr)))))))))))"

section \<open>Round trips\<close>

lemma float_or_0_JFloat [json_simps]: "float_or 0 (JFloat x) = Inr x"
  by (simp add: float_or_def)

lemma read_common_to_dict: "read_common (sub_to_dict s) b =
   Inr (s\<lparr>sb_id := sb_id b, sb_repo_url := sb_repo_url b, sb_commit_hash := sb_commit_hash b, sb_epoch := sb_epoch b,
     sb_hotkey := sb_hotkey b, sb_round_id := sb_round_id b, sb_status := sb_status b, sb_created_at := sb_created_at b,
     sb_updated_at := sb_updated_at b, sb_screening := sb_screening b\<rparr>)"
  by (simp add: read_common_def sub_to_dict_def jget_def opt_str_of_str opt_int_of_int)

text \<open>What a store holds: an id without surrounding blanks and a round.\<close>

definition sub_ok :: "submission \<Rightarrow> bool" where
  "sub_ok s \<longleftrightarrow> sb_id s \<noteq> [] \<and> strip (sb_id s) = sb_id s \<and> sb_round_id s \<noteq> []"

lemma record_round_id_to_dict: "sb_round_id s \<noteq> [] \<Longrightarrow> record_round_id (sub_to_dict s) = Inr (sb_round_id s)"
  by (simp add: record_round_id_def sub_to_dict_def jget_def)

lemma sub_dict_fields:
  "map_of (sub_to_dict s) ''submission_id'' = Some (JStr (sb_id s))"
    "map_of (sub_to_dict s) ''status'' = Some (JStr (sub_status_value (sb_status s)))"
    "map_of (sub_to_dict s) ''repo_url'' = Some (JStr (sb_repo_url s))"
    "map_of (sub_to_dict s) ''commit_hash'' = Some (JStr (sb_commit_hash s))"
    "map_of (sub_to_dict s) ''epoch'' = Some (JInt (sb_epoch s))"
    "map_of (sub_to_dict s) ''hotkey'' = Some (JStr (sb_hotkey s))"
    "map_of (sub_to_dict s) ''created_at'' = Some (JFloat (sb_created_at s))"
    "map_of (sub_to_dict s) ''updated_at'' = Some (JFloat (sb_updated_at s))"
    "map_of (sub_to_dict s) ''screening'' = Some (JObj (sb_screening s))"
  by (simp_all add: sub_to_dict_def)

lemma sub_of_record_to_dict:
  assumes "sub_ok s"
  shows "sub_of_record (sub_to_dict s) = Inr s"
proof -
  have e: "str_or_empty (JStr x) = Inr x" for x by (simp add: json_simps)
  show ?thesis
    using assms unfolding sub_ok_def
    by (simp add: sub_of_record_def jget_def sub_dict_fields e record_round_id_to_dict str_default_def float_or_0_JFloat int_or_0_JInt
        read_common_to_dict base_submission_def new_submission_def sub_status_roundtrip)
qed

lemma sub_of_row_to_dict:
  assumes "sub_ok s"
  shows "sub_of_row (sub_to_dict s) = Inr s"
  using assms unfolding sub_ok_def
  by (simp add: sub_of_row_def jget_def sub_dict_fields record_round_id_to_dict str_item_def float_or_0_JFloat
      read_common_to_dict base_submission_def new_submission_def sub_status_roundtrip)

text \<open>The readers depend on the values, not on the order of the keys.\<close>

lemma jget_cong: "map_of d = map_of d' \<Longrightarrow> jget d = jget d'"
  by (rule ext) (simp add: jget_def)

lemma read_common_cong: "map_of d = map_of d' \<Longrightarrow> read_common d = read_common d'"
  by (rule ext) (simp add: read_common_def jget_cong [of d d'])

lemma record_round_id_cong: "map_of d = map_of d' \<Longrightarrow> record_round_id d = record_round_id d'"
  by (simp add: record_round_id_def jget_cong [of d d'])

lemma str_default_cong: "map_of d = map_of d' \<Longrightarrow> str_default d = str_default d'"
  by (intro ext) (simp add: str_default_def)

lemma str_item_cong: "map_of d = map_of d' \<Longrightarrow> str_item d = str_item d'"
  by (intro ext) (simp add: str_item_def)

lemma sub_of_record_cong: "map_of d = map_of d' \<Longrightarrow> sub_of_record d = sub_of_record d'"
  using str_default_cong [of d d'] jget_cong [of d d'] read_common_cong [of d d'] record_round_id_cong [of d d']
  by (simp add: sub_of_record_def cong: if_cong)

lemma sub_of_row_cong: "map_of d = map_of d' \<Longrightarrow> sub_of_row d = sub_of_row d'"
  using str_item_cong [of d d'] jget_cong [of d d'] read_common_cong [of d d'] record_round_id_cong [of d d']
  by (simp add: sub_of_row_def)

end
