(* ===== verification/Submission_DB.thy ===== *)
theory Submission_DB
  imports Submission_Types
begin

text \<open>
  The SQLite backend of the submission store, \<open>harness/submission_db.py\<close>. The table \<open>submissions\<close> is an association
  list from the primary key to the document without its benchmark details, the sequence number and the writer of
  the row; the side table \<open>submission_details\<close> maps ids to details. A write transaction is one step (\<open>BEGIN IMMEDIATE\<close>
  holds the write lock across the read of the largest sequence number and the upserts); a failed one leaves the
  tables as they were. Documents are stored as JSON values.
\<close>

section \<open>Tables\<close>

record db_row =
  row_data :: "(string \<times> json) list"
  row_seq :: nat
  row_writer :: "string option"

record sub_db =
  db_rows :: "(string \<times> db_row) list"
  db_details :: "(string \<times> json) list"
  db_migrated :: bool

definition empty_db :: sub_db where
  "empty_db = \<lparr>db_rows = [], db_details = [], db_migrated = False\<rparr>"

definition split_record :: "(string \<times> json) list \<Rightarrow> (string \<times> json) list \<times> json option" where
  "split_record r = (let details = jget r ''benchmark_details'' in
     (filter (\<lambda>(k, v). k \<noteq> ''benchmark_details'') r, if jfalsy details then None else Some details))"

definition db_max_seq :: "sub_db \<Rightarrow> nat" where
  "db_max_seq db = foldl max 0 (map (row_seq \<circ> snd) (db_rows db))"

section \<open>Writes\<close>

definition put_details :: "string \<Rightarrow> json option \<Rightarrow> (string \<times> json) list \<Rightarrow> (string \<times> json) list" where
  "put_details sid det ds = (case det of Some v \<Rightarrow> AList.update sid v ds | None \<Rightarrow> AList.delete sid ds)"

fun write_rows :: "string \<Rightarrow> nat \<Rightarrow> (string \<times> (string \<times> json) list) list \<Rightarrow> sub_db \<Rightarrow> sub_db" where
  "write_rows me seq [] db = db"
| "write_rows me seq ((sid, r) # rs) db =
     (let (body, det) = split_record r in
      write_rows me (Suc seq) rs
        (db\<lparr>db_rows := AList.update sid \<lparr>row_data = body, row_seq = Suc seq, row_writer = Some me\<rparr> (db_rows db),
            db_details := put_details sid det (db_details db)\<rparr>))"

definition strip_details :: "string list \<Rightarrow> sub_db \<Rightarrow> sub_db" where
  "strip_details ids db = db\<lparr>db_details := foldr AList.delete ids (db_details db)\<rparr>"

definition write_records :: "bool \<Rightarrow> string \<Rightarrow> (string \<times> (string \<times> json) list) list \<Rightarrow> string list \<Rightarrow> sub_db \<Rightarrow> sub_db" where
  "write_records commits me records strip_ids db =
     (if commits then strip_details strip_ids (write_rows me (db_max_seq db) records db) else db)"

definition delete_records :: "bool \<Rightarrow> string list \<Rightarrow> sub_db \<Rightarrow> sub_db" where
  "delete_records commits ids db =
     (if ids = [] \<or> \<not> commits then db
      else db\<lparr>db_details := foldr AList.delete ids (db_details db), db_rows := foldr AList.delete ids (db_rows db)\<rparr>)"

section \<open>Reads\<close>

text \<open>The outer join: a missing details row reads as \<open>None\<close>.\<close>

definition joined :: "sub_db \<Rightarrow> string \<Rightarrow> db_row \<Rightarrow> (string \<times> json) list" where
  "joined db sid row = AList.update ''benchmark_details''
     (case map_of (db_details db) sid of None \<Rightarrow> JNull | Some v \<Rightarrow> v) (row_data row)"

definition load_since :: "string \<Rightarrow> nat \<Rightarrow> sub_db \<Rightarrow> (string \<times> (string \<times> json) list \<times> nat) list" where
  "load_since me seq db =
     sort_key (\<lambda>(sid, r, n). n)
       (map (\<lambda>(sid, row). (sid, joined db sid row, row_seq row))
         (filter (\<lambda>(sid, row). seq < row_seq row \<and> row_writer row \<noteq> Some me) (db_rows db)))"

definition load_all :: "sub_db \<Rightarrow> (string \<times> (string \<times> json) list) list" where
  "load_all db = map (\<lambda>(sid, row). (sid, joined db sid row)) (db_rows db)"

section \<open>Migration of the legacy file\<close>

text \<open>The legacy file: absent, unreadable, corrupt, or a document.\<close>

datatype legacy_file = No_File | Unreadable | Corrupt | Document "(string \<times> json) list"

datatype migration_error = Read_Failed | Corrupt_Json | Import_Failed

definition import_record :: "string \<Rightarrow> (string \<times> json) list \<Rightarrow> sub_db \<Rightarrow> sub_db" where
  "import_record sid r db = (let (body, det) = split_record r in
     db\<lparr>db_rows := AList.update sid \<lparr>row_data = body, row_seq = 0, row_writer = None\<rparr> (db_rows db),
        db_details := (case det of Some v \<Rightarrow> AList.update sid v (db_details db) | None \<Rightarrow> db_details db)\<rparr>)"

definition migrate_from_json :: "bool \<Rightarrow> legacy_file \<Rightarrow> sub_db \<Rightarrow> (migration_error + nat) \<times> sub_db" where
  "migrate_from_json commits file db =
     (if db_migrated db then (Inr 0, db)
      else if db_rows db \<noteq> [] then (Inr 0, db\<lparr>db_migrated := True\<rparr>)
      else case file of
          No_File \<Rightarrow> (Inr 0, db\<lparr>db_migrated := True\<rparr>)
        | Unreadable \<Rightarrow> (Inl Read_Failed, db)
        | Corrupt \<Rightarrow> (Inl Corrupt_Json, db)
        | Document data \<Rightarrow>
            (let records = List.map_filter (\<lambda>(sid, v). case v of JObj r \<Rightarrow> Some (sid, r) | _ \<Rightarrow> None) data in
             if commits then (Inr (length records), (foldl (\<lambda>d (sid, r). import_record sid r d) db records)\<lparr>db_migrated := True\<rparr>)
             else (Inl Import_Failed, db)))"

definition export_to_json :: "sub_db \<Rightarrow> (string \<times> json) list" where
  "export_to_json db = map (\<lambda>(sid, r). (sid, JObj r)) (load_all db)"

section \<open>Reading back\<close>

definition norm_details :: "submission \<Rightarrow> submission" where
  "norm_details s = (if jfalsy (sb_benchmark_details s) then s\<lparr>sb_benchmark_details := JNull\<rparr> else s)"

lemma norm_details_idem [simp]: "norm_details (norm_details s) = norm_details s"
  by (simp add: norm_details_def)

lemma norm_details_frame [simp]:
  "sb_id (norm_details s) = sb_id s" "sb_status (norm_details s) = sb_status s" "sb_round_id (norm_details s) = sb_round_id s"
  "sb_hotkey (norm_details s) = sb_hotkey s" "sb_epoch (norm_details s) = sb_epoch s"
  "sub_ok (norm_details s) = sub_ok s"
  by (simp_all add: norm_details_def sub_ok_def)

text \<open>The submission a row stands for.\<close>

definition row_sub :: "sub_db \<Rightarrow> string \<Rightarrow> db_row \<Rightarrow> submission res" where
  "row_sub db sid row = sub_of_record (joined db sid row)"

lemma map_of_filter_key: "map_of (filter (\<lambda>(k, v). k \<noteq> a) r) k = (if k = a then None else map_of r k)"
  by (induction r) auto

lemma jget_details [simp]: "jget (sub_to_dict s) ''benchmark_details'' = sb_benchmark_details s"
  by (simp add: sub_to_dict_def jget_def)

lemma to_dict_details: "map_of (sub_to_dict (s\<lparr>sb_benchmark_details := v\<rparr>)) k =
    (if k = ''benchmark_details'' then Some v else map_of (sub_to_dict s) k)"
  by (simp add: sub_to_dict_def)

lemma map_of_joined:
  assumes "row_data row = fst (split_record (sub_to_dict s))"
  shows "map_of (joined db sid row) =
    map_of (sub_to_dict (s\<lparr>sb_benchmark_details := (case map_of (db_details db) sid of None \<Rightarrow> JNull | Some v \<Rightarrow> v)\<rparr>))"
  using assms by (intro ext) (simp add: joined_def split_record_def to_dict_details dict_simps map_of_filter_key Let_def)

lemma row_sub_joined:
  assumes "row_data row = fst (split_record (sub_to_dict s))" "sub_ok s"
  shows "row_sub db sid row =
    Inr (s\<lparr>sb_benchmark_details := (case map_of (db_details db) sid of None \<Rightarrow> JNull | Some v \<Rightarrow> v)\<rparr>)"
proof -
  let ?s = "s\<lparr>sb_benchmark_details := (case map_of (db_details db) sid of None \<Rightarrow> JNull | Some v \<Rightarrow> v)\<rparr>"
  have "row_sub db sid row = sub_of_record (sub_to_dict ?s)"
    unfolding row_sub_def by (rule sub_of_record_cong [OF map_of_joined [OF assms(1)]])
  also have "\<dots> = Inr ?s" using assms(2) by (intro sub_of_record_to_dict) (simp add: sub_ok_def)
  finally show ?thesis .
qed

section \<open>Sequence numbers\<close>

lemma foldl_max_ge: "(a::nat) \<le> foldl max a xs"
proof (induction xs arbitrary: a)
  case (Cons y ys)
  have "a \<le> max a y" by simp
  also have "\<dots> \<le> foldl max (max a y) ys" by (rule Cons.IH)
  finally show ?case by simp
qed simp

lemma foldl_max_mem: "x \<in> set xs \<Longrightarrow> (x::nat) \<le> foldl max a xs"
proof (induction xs arbitrary: a)
  case (Cons y ys)
  have "max a y \<le> foldl max (max a y) ys" by (rule foldl_max_ge)
  then have "y \<le> foldl max (max a y) ys" by simp
  then show ?case using Cons.IH [of "max a y"] Cons.prems by auto
qed simp

lemma foldl_max_le: "(a::nat) \<le> b \<Longrightarrow> \<forall>x \<in> set xs. x \<le> b \<Longrightarrow> foldl max a xs \<le> b"
  by (induction xs arbitrary: a) auto

lemma db_max_seq_ge: "(sid, row) \<in> set (db_rows db) \<Longrightarrow> row_seq row \<le> db_max_seq db"
  unfolding db_max_seq_def by (rule foldl_max_mem) force

lemma db_max_seq_le: "(\<And>sid row. (sid, row) \<in> set (db_rows db) \<Longrightarrow> row_seq row \<le> b) \<Longrightarrow> db_max_seq db \<le> b"
  unfolding db_max_seq_def by (rule foldl_max_le) auto

lemma db_max_seq_update:
  assumes "db_max_seq db < row_seq row"
  shows "db_max_seq (db\<lparr>db_rows := AList.update sid row (db_rows db), db_details := ds\<rparr>) = row_seq row"
proof (rule antisym)
  show "db_max_seq (db\<lparr>db_rows := AList.update sid row (db_rows db), db_details := ds\<rparr>) \<le> row_seq row"
    using assms by (intro db_max_seq_le) (auto dest!: in_update db_max_seq_ge)
  have "(sid, row) \<in> set (AList.update sid row (db_rows db))"
    by (metis (no_types, lifting) alist.get_put map_of_SomeD)
  then show "row_seq row \<le> db_max_seq (db\<lparr>db_rows := AList.update sid row (db_rows db), db_details := ds\<rparr>)"
    by (intro db_max_seq_ge [of sid]) simp
qed

lemma write_rows_seq: "db_max_seq db = n \<Longrightarrow> db_max_seq (write_rows me n rs db) = n + length rs"
proof (induction rs arbitrary: n db)
  case (Cons p rs)
  obtain sid r where p: "p = (sid, r)" by fastforce
  show ?case
    unfolding p write_rows.simps Let_def case_prod_unfold using Cons.prems
    by (subst Cons.IH) (simp_all add: db_max_seq_update)
qed simp

lemma db_max_seq_details [simp]: "db_max_seq (db\<lparr>db_details := ds\<rparr>) = db_max_seq db"
  by (simp add: db_max_seq_def)

lemma write_records_seq: "db_max_seq (write_records True me rs ids db) = db_max_seq db + length rs"
  by (simp add: write_records_def strip_details_def write_rows_seq)

end
