(* ===== verification/Submission_Store.thy ===== *)
theory Submission_Store
  imports Submission_DB
begin

text \<open>
  The submission store, \<open>harness/submission_store.py\<close>: the in-memory dictionary with its two indexes, the private
  repository tokens (a plaintext cache and an encrypted sidecar file), the registry of coined solver names, the
  retention of benchmark details, and every operation, composed with the database of \<open>Submission_DB\<close>. An operation
  maps a world (the store of one process and the files all processes share) to a result and a world. What an
  operation meets outside the process is its environment: the clock, and whether the transaction commits and the
  reads and file writes succeed. SecretBox is a pair of functions of the configuration; the number of file
  writes so far stands for the modification time of a sidecar file.
\<close>

section \<open>State\<close>

record name_entry =
  ne_owner_hotkey :: string
  ne_coined_at :: real
  ne_submission_id :: string
  ne_display :: "string option"

record sub_cfg =
  c_writer_id :: string
  c_persist :: bool
  c_token_key :: bool
  c_encrypt :: "string \<Rightarrow> string"
  c_decrypt :: "string \<Rightarrow> string option"
  c_details_cap :: int
  c_max_records :: int
  c_xproc_sync :: bool
  c_uncoinable :: "string option"

record op_env =
  e_now :: real
  e_commits :: bool
  e_seq_read :: bool
  e_rows_read :: bool
  e_tokens_written :: bool
  e_names_written :: bool

record sub_store =
  ss_subs :: "(string \<times> submission) list"
  ss_by_round :: "(string \<times> string) list"
  ss_by_epoch :: "(string \<times> string) list"
  ss_tokens :: "(string \<times> string) list"
  ss_enc_tokens :: "(string \<times> string) list"
  ss_tokens_mtime :: "nat option"
  ss_names :: "(string \<times> name_entry) list"
  ss_names_mtime :: "nat option"
  ss_last_seen :: nat
  ss_loaded :: bool

text \<open>A sidecar file is absent, or has a modification time and a content, which is \<open>None\<close> when it does not parse.\<close>

record sub_files =
  sf_db :: sub_db
  sf_tokens :: "(nat \<times> (string \<times> string) list option) option"
  sf_names :: "(nat \<times> (string \<times> name_entry) list option) option"
  sf_clock :: nat

type_synonym world = "sub_store \<times> sub_files"

definition empty_store :: sub_store where
  "empty_store = \<lparr>ss_subs = [], ss_by_round = [], ss_by_epoch = [], ss_tokens = [], ss_enc_tokens = [], ss_tokens_mtime = None,
     ss_names = [], ss_names_mtime = None, ss_last_seen = 0, ss_loaded = False\<rparr>"

definition tokens_path :: "sub_cfg \<Rightarrow> bool" where
  "tokens_path cfg \<longleftrightarrow> c_persist cfg \<and> c_token_key cfg"

section \<open>Names\<close>

fun split_ws_acc :: "string \<Rightarrow> string \<Rightarrow> string list" where
  "split_ws_acc cur [] = (if cur = [] then [] else [rev cur])"
| "split_ws_acc cur (c # cs) =
     (if is_space c then (if cur = [] then split_ws_acc [] cs else rev cur # split_ws_acc [] cs)
      else split_ws_acc (c # cur) cs)"

text \<open>On ASCII text NFKC is the identity, there are no zero-width characters and \<open>casefold\<close> is \<open>lower\<close>.\<close>

definition normalize_solver_name :: "string option \<Rightarrow> string" where
  "normalize_solver_name name = (if or_empty name = [] then [] else py_join '' '' (split_ws_acc [] (lower (or_empty name))))"

fun split_on :: "char \<Rightarrow> string \<Rightarrow> string \<Rightarrow> string list" where
  "split_on sep cur [] = [rev cur]"
| "split_on sep cur (c # cs) = (if c = sep then rev cur # split_on sep [] cs else split_on sep (c # cur) cs)"

definition exempt_names :: "string option \<Rightarrow> string list" where
  "exempt_names raw = map (normalize_solver_name \<circ> Some) [''my-swap-solver'', ''baseline-swap-solver'', ''unknown''] @
     (let extra = strip (or_empty raw) in
      if extra = [] then [] else map (normalize_solver_name \<circ> Some) (filter (\<lambda>n. strip n \<noteq> []) (split_on CHR '','' [] extra)))"

section \<open>Indexing and the pull from other processes\<close>

definition round_key :: "string \<Rightarrow> string \<Rightarrow> string" where
  "round_key hotkey rid = hotkey @ '':'' @ rid"

definition epoch_key :: "string \<Rightarrow> int \<Rightarrow> string" where
  "epoch_key hotkey epoch = hotkey @ '':'' @ show_int epoch"

definition index_sub :: "submission \<Rightarrow> sub_store \<Rightarrow> sub_store" where
  "index_sub s st = st\<lparr>ss_subs := AList.update (sb_id s) s (ss_subs st),
     ss_by_round := AList.update (round_key (sb_hotkey s) (sb_round_id s)) (sb_id s) (ss_by_round st),
     ss_by_epoch := AList.update (epoch_key (sb_hotkey s) (sb_epoch s)) (sb_id s) (ss_by_epoch st)\<rparr>"

definition upsert_one :: "(string \<times> json) list \<Rightarrow> sub_store \<Rightarrow> (submission \<times> sub_store) res" where
  "upsert_one r st = res_bind (sub_of_record r) (\<lambda>s. Inr (s, index_sub s st))"

text \<open>The loop over the pulled rows: rows up to the watermark were superseded, a row that does not apply stops it.\<close>

fun apply_rows :: "(string \<times> (string \<times> json) list \<times> nat) list \<Rightarrow> nat \<Rightarrow> sub_store \<Rightarrow> sub_store \<times> nat \<times> bool" where
  "apply_rows [] applied st = (st, applied, True)"
| "apply_rows ((sid, r, seq) # rows) applied st =
     (if seq \<le> applied then apply_rows rows applied st
      else case upsert_one r st of
          Inl e \<Rightarrow> (st, applied, False)
        | Inr (s, st') \<Rightarrow> apply_rows rows seq st')"

definition merge_pull :: "nat \<Rightarrow> (string \<times> (string \<times> json) list \<times> nat) list \<Rightarrow> sub_store \<Rightarrow> sub_store" where
  "merge_pull latest rows st =
     (if rows = [] then st\<lparr>ss_last_seen := max (ss_last_seen st) latest\<rparr>
      else case apply_rows rows (ss_last_seen st) st of
        (st', applied, all_applied) \<Rightarrow>
          st'\<lparr>ss_last_seen := max (ss_last_seen st) (if all_applied then latest else applied)\<rparr>)"

definition maybe_reload :: "op_env \<Rightarrow> sub_cfg \<Rightarrow> world \<Rightarrow> world" where
  "maybe_reload e cfg w = (case w of (st, fs) \<Rightarrow>
     if \<not> c_persist cfg \<or> \<not> c_xproc_sync cfg then w
     else let latest = (if e_seq_read e then db_max_seq (sf_db fs) else 0) in
       if latest \<le> ss_last_seen st then w
       else if \<not> e_rows_read e then w
       else (merge_pull latest (load_since (c_writer_id cfg) (ss_last_seen st) (sf_db fs)) st, fs))"

text \<open>\<open>_write_guard\<close>: an operation starts from what the other processes committed. The operations reload once more
  on entry, which finds nothing new while the lock is held (\<open>reload_reload\<close>).\<close>

definition guarded :: "op_env \<Rightarrow> sub_cfg \<Rightarrow> (world \<Rightarrow> 'a \<times> world) \<Rightarrow> world \<Rightarrow> 'a \<times> world" where
  "guarded e cfg op w = op (maybe_reload e cfg w)"

section \<open>Persistence\<close>

definition details_retention :: "int \<Rightarrow> sub_store \<Rightarrow> string list" where
  "details_retention cap st =
     (if cap \<le> 0 then []
      else let withdetails = filter (\<lambda>s. sb_status s \<in> details_strippable_statuses \<and> \<not> jfalsy (sb_benchmark_details s)) (vals_of (ss_subs st)) in
        if int (length withdetails) \<le> cap then []
        else map sb_id (drop (nat cap) (sort_key (\<lambda>s. - sb_epoch s) withdetails)))"

definition strip_memory :: "string list \<Rightarrow> sub_store \<Rightarrow> sub_store" where
  "strip_memory ids st = st\<lparr>ss_subs := map (\<lambda>(k, s). (k, if sb_id s \<in> set ids then s\<lparr>sb_benchmark_details := JNull\<rparr> else s)) (ss_subs st)\<rparr>"

definition persist_records :: "op_env \<Rightarrow> sub_cfg \<Rightarrow> string list \<Rightarrow> world \<Rightarrow> world" where
  "persist_records e cfg ids w = (case w of (st, fs) \<Rightarrow>
     if \<not> c_persist cfg then w
     else let stripped = details_retention (c_details_cap cfg) st; st' = strip_memory stripped st;
              records = List.map_filter (\<lambda>sid. map_option (\<lambda>s. (sid, sub_to_dict s)) (map_of (ss_subs st') sid)) ids in
       (st', fs\<lparr>sf_db := write_records (e_commits e) (c_writer_id cfg) records stripped (sf_db fs)\<rparr>))"

section \<open>Tokens\<close>

definition load_tokens :: "world \<Rightarrow> world" where
  "load_tokens w = (case w of (st, fs) \<Rightarrow>
     (case sf_tokens fs of
        Some (t, Some d) \<Rightarrow> (st\<lparr>ss_enc_tokens := d, ss_tokens_mtime := Some t\<rparr>, fs)
      | _ \<Rightarrow> (st, fs)))"

definition maybe_reload_tokens :: "sub_cfg \<Rightarrow> world \<Rightarrow> world" where
  "maybe_reload_tokens cfg w = (case w of (st, fs) \<Rightarrow>
     (case sf_tokens fs of
        Some (t, c) \<Rightarrow>
          if tokens_path cfg \<and> (case ss_tokens_mtime st of None \<Rightarrow> True | Some m \<Rightarrow> m < t) then load_tokens w else w
      | None \<Rightarrow> w))"

definition persist_tokens :: "op_env \<Rightarrow> sub_cfg \<Rightarrow> world \<Rightarrow> world" where
  "persist_tokens e cfg w = (case w of (st, fs) \<Rightarrow>
     if \<not> tokens_path cfg then w
     else let enc = filter (\<lambda>(sid, b). sid \<in> set (keys_of (ss_subs st))) (ss_enc_tokens st) in
       if e_tokens_written e
       then (st\<lparr>ss_enc_tokens := enc, ss_tokens_mtime := Some (Suc (sf_clock fs))\<rparr>,
             fs\<lparr>sf_tokens := Some (Suc (sf_clock fs), Some enc), sf_clock := Suc (sf_clock fs)\<rparr>)
       else (st\<lparr>ss_enc_tokens := enc\<rparr>, fs))"

definition purge_token :: "op_env \<Rightarrow> sub_cfg \<Rightarrow> string \<Rightarrow> world \<Rightarrow> world" where
  "purge_token e cfg sid w = (case w of (st, fs) \<Rightarrow>
     let w' = (st\<lparr>ss_tokens := AList.delete sid (ss_tokens st)\<rparr>, fs) in
     if \<not> tokens_path cfg then w'
     else case maybe_reload_tokens cfg w' of (st'', fs'') \<Rightarrow>
       if map_of (ss_enc_tokens st'') sid = None then (st'', fs'')
       else persist_tokens e cfg (st''\<lparr>ss_enc_tokens := AList.delete sid (ss_enc_tokens st'')\<rparr>, fs''))"

definition get_repo_token :: "sub_cfg \<Rightarrow> string \<Rightarrow> world \<Rightarrow> string option \<times> world" where
  "get_repo_token cfg sid w = (case w of (st, fs) \<Rightarrow>
     case map_of (ss_tokens st) sid of
       Some t \<Rightarrow> (Some t, w)
     | None \<Rightarrow>
        if \<not> tokens_path cfg then (None, w)
        else case maybe_reload_tokens cfg w of (st', fs') \<Rightarrow>
          (case map_of (ss_enc_tokens st') sid of
             None \<Rightarrow> (None, (st', fs'))
           | Some blob \<Rightarrow>
              (case c_decrypt cfg blob of
                 None \<Rightarrow> (None, (st', fs'))
               | Some t \<Rightarrow> (Some t, (st'\<lparr>ss_tokens := AList.update sid t (ss_tokens st')\<rparr>, fs')))))"

section \<open>Coined names\<close>

definition load_names :: "world \<Rightarrow> world" where
  "load_names w = (case w of (st, fs) \<Rightarrow>
     (case sf_names fs of
        Some (t, Some d) \<Rightarrow> (st\<lparr>ss_names := d, ss_names_mtime := Some t\<rparr>, fs)
      | _ \<Rightarrow> (st, fs)))"

definition maybe_reload_names :: "sub_cfg \<Rightarrow> world \<Rightarrow> world" where
  "maybe_reload_names cfg w = (case w of (st, fs) \<Rightarrow>
     (case sf_names fs of
        Some (t, c) \<Rightarrow>
          if c_persist cfg \<and> (case ss_names_mtime st of None \<Rightarrow> True | Some m \<Rightarrow> m < t) then load_names w else w
      | None \<Rightarrow> w))"

definition persist_names :: "op_env \<Rightarrow> sub_cfg \<Rightarrow> world \<Rightarrow> world" where
  "persist_names e cfg w = (case w of (st, fs) \<Rightarrow>
     if \<not> c_persist cfg \<or> \<not> e_names_written e then w
     else (st\<lparr>ss_names_mtime := Some (Suc (sf_clock fs))\<rparr>,
           fs\<lparr>sf_names := Some (Suc (sf_clock fs), Some (ss_names st)), sf_clock := Suc (sf_clock fs)\<rparr>))"

definition backfill_step :: "string list \<Rightarrow> (string \<times> name_entry) list \<Rightarrow> submission \<Rightarrow> (string \<times> name_entry) list" where
  "backfill_step exempt reg s = (let norm = normalize_solver_name (sb_solver_name s) in
     if norm = [] \<or> norm \<in> set exempt \<or> map_of reg norm \<noteq> None then reg
     else AList.update norm \<lparr>ne_owner_hotkey = sb_hotkey s, ne_coined_at = sb_created_at s, ne_submission_id = sb_id s,
       ne_display = sb_solver_name s\<rparr> reg)"

definition backfill_names :: "op_env \<Rightarrow> sub_cfg \<Rightarrow> world \<Rightarrow> world" where
  "backfill_names e cfg w = (case w of (st, fs) \<Rightarrow>
     if \<not> c_persist cfg then w
     else persist_names e cfg
       (st\<lparr>ss_names := foldl (backfill_step (exempt_names (c_uncoinable cfg))) []
             (sort_key (\<lambda>s. (sb_created_at s, sb_id s)) (vals_of (ss_subs st)))\<rparr>, fs))"

section \<open>Reads\<close>

definition subs_of :: "sub_store \<Rightarrow> submission list" where
  "subs_of st = vals_of (ss_subs st)"

definition count_by_hotkey_round :: "string \<Rightarrow> string \<Rightarrow> sub_store \<Rightarrow> nat" where
  "count_by_hotkey_round hotkey rid st = length (filter (\<lambda>s. sb_hotkey s = hotkey \<and> sb_round_id s = rid) (subs_of st))"

definition count_by_owner_round :: "string option \<Rightarrow> string \<Rightarrow> sub_store \<Rightarrow> nat" where
  "count_by_owner_round owner rid st = (let key = lower (or_empty owner) in
     if key = [] then 0
     else length (filter (\<lambda>s. lower (or_empty (sb_github_owner s)) = key \<and> sb_round_id s = rid) (subs_of st)))"

definition count_benched_rounds_by_commit :: "string \<Rightarrow> string \<Rightarrow> sub_store \<Rightarrow> nat" where
  "count_benched_rounds_by_commit hotkey commit st = (let key = lower (strip commit) in
     if key = [] then 0
     else card (set (map sb_round_id (filter (\<lambda>s. sb_hotkey s = hotkey \<and> lower (strip (sb_commit_hash s)) = key
       \<and> sb_status s \<in> benched_statuses) (subs_of st)))))"

definition count_by_round :: "string \<Rightarrow> sub_store \<Rightarrow> nat" where
  "count_by_round rid st = length (filter (\<lambda>s. sb_round_id s = rid) (subs_of st))"

definition get_by_hotkey_round :: "string \<Rightarrow> string \<Rightarrow> sub_store \<Rightarrow> submission option" where
  "get_by_hotkey_round hotkey rid st = (let sid = or_empty (map_of (ss_by_round st) (round_key hotkey rid)) in
     if sid \<noteq> [] then map_of (ss_subs st) sid else None)"

definition get_by_hotkey_epoch :: "string \<Rightarrow> int \<Rightarrow> sub_store \<Rightarrow> submission option" where
  "get_by_hotkey_epoch hotkey epoch st = (let sid = or_empty (map_of (ss_by_epoch st) (epoch_key hotkey epoch)) in
     if sid \<noteq> [] then map_of (ss_subs st) sid else None)"

definition list_by_epoch :: "int \<Rightarrow> sub_store \<Rightarrow> submission list" where
  "list_by_epoch epoch st = sort_key sb_created_at (filter (\<lambda>s. sb_epoch s = epoch) (subs_of st))"

definition list_by_round :: "string \<Rightarrow> sub_store \<Rightarrow> submission list" where
  "list_by_round rid st = sort_key sb_created_at (filter (\<lambda>s. sb_round_id s = rid) (subs_of st))"

definition list_by_status :: "sub_status \<Rightarrow> sub_store \<Rightarrow> submission list" where
  "list_by_status status st = filter (\<lambda>s. sb_status s = status) (subs_of st)"

definition get_champion :: "sub_store \<Rightarrow> submission option" where
  "get_champion st = (case list_by_status ADOPTED st of [] \<Rightarrow> None | s # _ \<Rightarrow> Some s)"

definition actor_owner_edges :: "sub_store \<Rightarrow> (string \<times> string list) list" where
  "actor_owner_edges st = foldl (\<lambda>out s.
     let owner = strip (or_empty (sb_github_owner s)); hk = sb_hotkey s in
     if owner = [] \<or> hk = [] then out
     else let owners = (case map_of out hk of None \<Rightarrow> [] | Some os \<Rightarrow> os) in
       AList.update hk (if owner \<in> set owners then owners else owners @ [owner]) out) [] (subs_of st)"

definition fingerprint_subs :: "string \<Rightarrow> string option \<Rightarrow> sub_store \<Rightarrow> submission list" where
  "fingerprint_subs fp exclude st = filter (\<lambda>s. sb_content_fingerprint s = Some fp
     \<and> \<not> (or_empty exclude \<noteq> [] \<and> sb_id s = or_empty exclude)) (subs_of st)"

definition count_benched_rounds_for_fingerprint :: "string \<Rightarrow> string option \<Rightarrow> sub_store \<Rightarrow> nat" where
  "count_benched_rounds_for_fingerprint fp exclude st =
     card (set (map sb_round_id (filter (\<lambda>s. sb_status s \<in> benched_statuses \<and> sb_round_id s \<noteq> []) (fingerprint_subs fp exclude st))))"

definition fingerprint_usage :: "string \<Rightarrow> string option \<Rightarrow> sub_store \<Rightarrow> (string \<times> real \<times> string \<times> string) list \<times> nat" where
  "fingerprint_usage fp exclude st =
     (map (\<lambda>s. (sb_hotkey s, sb_created_at s, sb_id s, sub_status_value (sb_status s))) (fingerprint_subs fp exclude st),
      count_benched_rounds_for_fingerprint fp exclude st)"

section \<open>Creation\<close>

record create_req =
  cr_repo_url :: string
  cr_commit_hash :: string
  cr_epoch :: int
  cr_hotkey :: string
  cr_round_id :: "string option"
  cr_pr_number :: "int option"
  cr_max_per_round :: int
  cr_max_total_per_round :: int
  cr_is_private :: bool
  cr_private_repo_full :: "string option"
  cr_repo_token :: "string option"
  cr_github_owner :: "string option"
  cr_max_per_owner :: int
  cr_max_rounds_per_commit :: int

definition resolved_round_id :: "create_req \<Rightarrow> string" where
  "resolved_round_id r = (let rid = strip (or_empty (cr_round_id r)) in
     if rid \<noteq> [] then rid else ''legacy-epoch-'' @ show_int (cr_epoch r))"

definition create_refused :: "create_req \<Rightarrow> sub_store \<Rightarrow> string option" where
  "create_refused r st = (let rid = resolved_round_id r in
     if 0 < cr_max_per_round r \<and> cr_max_per_round r \<le> int (count_by_hotkey_round (cr_hotkey r) rid st)
       then Some ''miner already submitted''
     else if lower (or_empty (cr_github_owner r)) \<noteq> [] \<and> 0 < cr_max_per_owner r
          \<and> cr_max_per_owner r \<le> int (count_by_owner_round (cr_github_owner r) rid st)
       then Some ''account already submitted''
     else if 0 < cr_max_total_per_round r \<and> cr_max_total_per_round r \<le> int (count_by_round rid st)
       then Some ''round is full''
     else if 0 < cr_max_rounds_per_commit r
          \<and> cr_max_rounds_per_commit r \<le> int (count_benched_rounds_by_commit (cr_hotkey r) (cr_commit_hash r) st)
       then Some ''commit already benchmarked''
     else None)"

definition create_body :: "op_env \<Rightarrow> sub_cfg \<Rightarrow> string \<Rightarrow> create_req \<Rightarrow> world \<Rightarrow> submission res \<times> world" where
  "create_body e cfg sid r w = (case w of (st, fs) \<Rightarrow>
     case create_refused r st of
       Some msg \<Rightarrow> (Inl (ValueError msg), w)
     | None \<Rightarrow>
        let s = new_submission sid (cr_repo_url r) (cr_commit_hash r) (cr_epoch r) (cr_hotkey r) (resolved_round_id r)
                  (cr_pr_number r) (cr_is_private r) (cr_private_repo_full r) (none_if_empty (cr_github_owner r)) (e_now e);
            token = or_empty (cr_repo_token r);
            st1 = (if token \<noteq> [] then st\<lparr>ss_tokens := AList.update sid token (ss_tokens st)\<rparr> else st);
            (st2, fs2) = persist_records e cfg [sid] (index_sub s st1, fs) in
        (Inr s, if token \<noteq> [] \<and> tokens_path cfg
                then persist_tokens e cfg (st2\<lparr>ss_enc_tokens := AList.update sid (c_encrypt cfg token) (ss_enc_tokens st2)\<rparr>, fs2)
                else (st2, fs2)))"

text \<open>\<open>sid\<close> is the fresh identifier \<open>sub_<uuid>\<close>.\<close>

definition create :: "op_env \<Rightarrow> sub_cfg \<Rightarrow> string \<Rightarrow> create_req \<Rightarrow> world \<Rightarrow> submission res \<times> world" where
  "create e cfg sid r = guarded e cfg (create_body e cfg sid r)"

definition upsert_submission :: "op_env \<Rightarrow> sub_cfg \<Rightarrow> (string \<times> json) list \<Rightarrow> world \<Rightarrow> submission res \<times> world" where
  "upsert_submission e cfg r = guarded e cfg (\<lambda>(st, fs).
     case upsert_one r st of
       Inl x \<Rightarrow> (Inl x, (st, fs))
     | Inr (s, st') \<Rightarrow> (Inr s, persist_records e cfg [sb_id s] (st', fs)))"

fun upsert_all :: "(string \<times> json) list list \<Rightarrow> sub_store \<Rightarrow> string list \<times> sub_store" where
  "upsert_all [] st = ([], st)"
| "upsert_all (r # rs) st =
     (case upsert_one r st of
        Inl x \<Rightarrow> upsert_all rs st
      | Inr (s, st') \<Rightarrow> (case upsert_all rs st' of (ids, st'') \<Rightarrow> (sb_id s # ids, st'')))"

definition upsert_submissions :: "op_env \<Rightarrow> sub_cfg \<Rightarrow> (string \<times> json) list list \<Rightarrow> world \<Rightarrow> nat \<times> world" where
  "upsert_submissions e cfg rs = guarded e cfg (\<lambda>(st, fs).
     case upsert_all rs st of (ids, st') \<Rightarrow>
       (length ids, if ids \<noteq> [] then persist_records e cfg ids (st', fs) else (st', fs)))"

section \<open>Updates\<close>

text \<open>The shape shared by the setters: look the record up, change it in memory, write it.\<close>

definition on_sub :: "op_env \<Rightarrow> sub_cfg \<Rightarrow> string \<Rightarrow> (submission \<Rightarrow> world \<Rightarrow> submission \<times> world) \<Rightarrow> world \<Rightarrow> unit res \<times> world" where
  "on_sub e cfg sid f w = (case map_of (ss_subs (fst w)) sid of
       None \<Rightarrow> (Inl (KeyError sid), w)
     | Some s \<Rightarrow>
        (case f s w of (s', st, fs) \<Rightarrow>
           (Inr (), persist_records e cfg [sid] (st\<lparr>ss_subs := AList.update sid (s'\<lparr>sb_updated_at := e_now e\<rparr>) (ss_subs st)\<rparr>, fs))))"

definition set_field :: "op_env \<Rightarrow> sub_cfg \<Rightarrow> string \<Rightarrow> (submission \<Rightarrow> submission) \<Rightarrow> world \<Rightarrow> unit res \<times> world" where
  "set_field e cfg sid f = guarded e cfg (on_sub e cfg sid (\<lambda>s w. (f s, w)))"

definition update_status :: "op_env \<Rightarrow> sub_cfg \<Rightarrow> string \<Rightarrow> sub_status \<Rightarrow> world \<Rightarrow> unit res \<times> world" where
  "update_status e cfg sid status = set_field e cfg sid (sb_status_update (\<lambda>_. status))"

definition set_image_tag :: "op_env \<Rightarrow> sub_cfg \<Rightarrow> string \<Rightarrow> string \<Rightarrow> world \<Rightarrow> unit res \<times> world" where
  "set_image_tag e cfg sid v = set_field e cfg sid (sb_image_tag_update (\<lambda>_. Some v))"

definition set_image_id :: "op_env \<Rightarrow> sub_cfg \<Rightarrow> string \<Rightarrow> string \<Rightarrow> world \<Rightarrow> unit res \<times> world" where
  "set_image_id e cfg sid v = set_field e cfg sid (sb_image_id_update (\<lambda>_. Some v))"

definition set_content_fingerprint :: "op_env \<Rightarrow> sub_cfg \<Rightarrow> string \<Rightarrow> string \<Rightarrow> world \<Rightarrow> unit res \<times> world" where
  "set_content_fingerprint e cfg sid v = set_field e cfg sid (sb_content_fingerprint_update (\<lambda>_. Some v))"

definition set_max_region_nodes :: "op_env \<Rightarrow> sub_cfg \<Rightarrow> string \<Rightarrow> int \<Rightarrow> world \<Rightarrow> unit res \<times> world" where
  "set_max_region_nodes e cfg sid v = set_field e cfg sid (sb_max_region_nodes_update (\<lambda>_. Some v))"

definition set_deadwood_metric :: "op_env \<Rightarrow> sub_cfg \<Rightarrow> string \<Rightarrow> int option \<Rightarrow> int \<Rightarrow> json \<Rightarrow> world \<Rightarrow> unit res \<times> world" where
  "set_deadwood_metric e cfg sid nodes version offenders = set_field e cfg sid
     (\<lambda>s. s\<lparr>sb_unproductive_nodes := nodes, sb_unproductive_version := Some version, sb_top_offenders := offenders\<rparr>)"

definition set_image_digest :: "op_env \<Rightarrow> sub_cfg \<Rightarrow> string \<Rightarrow> string \<Rightarrow> world \<Rightarrow> unit res \<times> world" where
  "set_image_digest e cfg sid v = set_field e cfg sid (sb_image_digest_update (\<lambda>_. Some v))"

definition set_provenance :: "op_env \<Rightarrow> sub_cfg \<Rightarrow> string \<Rightarrow> json \<Rightarrow> world \<Rightarrow> unit res \<times> world" where
  "set_provenance e cfg sid v = set_field e cfg sid (sb_provenance_update (\<lambda>_. v))"

definition set_solver_path :: "op_env \<Rightarrow> sub_cfg \<Rightarrow> string \<Rightarrow> string \<Rightarrow> world \<Rightarrow> unit res \<times> world" where
  "set_solver_path e cfg sid v = set_field e cfg sid (sb_solver_path_update (\<lambda>_. Some v))"

definition set_benchmark_rank :: "op_env \<Rightarrow> sub_cfg \<Rightarrow> string \<Rightarrow> int \<Rightarrow> world \<Rightarrow> unit res \<times> world" where
  "set_benchmark_rank e cfg sid v = set_field e cfg sid (sb_benchmark_rank_update (\<lambda>_. Some v))"

definition set_benchmark_ranks :: "op_env \<Rightarrow> sub_cfg \<Rightarrow> (string \<times> int) list \<Rightarrow> world \<Rightarrow> world" where
  "set_benchmark_ranks e cfg ranks w = snd (guarded e cfg (\<lambda>(st, fs).
     let known = filter (\<lambda>(sid, r). map_of (ss_subs st) sid \<noteq> None) ranks in
     ((), persist_records e cfg (map fst known)
       (foldl (\<lambda>st (sid, r). case map_of (ss_subs st) sid of None \<Rightarrow> st
          | Some s \<Rightarrow> st\<lparr>ss_subs := AList.update sid (s\<lparr>sb_benchmark_rank := Some r, sb_updated_at := e_now e\<rparr>) (ss_subs st)\<rparr>) st ranks, fs))) w)"

text \<open>\<open>details = dict(benchmark_details or {})\<close>; \<open>details.update(extra)\<close>. The field is annotated as a dictionary or \<open>None\<close>.\<close>

definition merged_details :: "json \<Rightarrow> (string \<times> json) list \<Rightarrow> json" where
  "merged_details old extra = JObj (foldl (\<lambda>d (k, v). AList.update k v d)
     (if jfalsy old then [] else case old of JObj d \<Rightarrow> d | _ \<Rightarrow> []) extra)"

definition merge_benchmark_details :: "op_env \<Rightarrow> sub_cfg \<Rightarrow> string \<Rightarrow> (string \<times> json) list \<Rightarrow> world \<Rightarrow> unit res \<times> world" where
  "merge_benchmark_details e cfg sid extra = set_field e cfg sid
     (\<lambda>s. s\<lparr>sb_benchmark_details := merged_details (sb_benchmark_details s) extra\<rparr>)"

text \<open>The dash of the messages is the three bytes of its UTF-8 encoding.\<close>

definition em_dash :: string where
  "em_dash = [CHR 0xE2, CHR 0x80, CHR 0x94]"

definition screening_outcome :: "int \<Rightarrow> string option \<Rightarrow> string option \<Rightarrow> string option" where
  "screening_outcome stage error_code old =
     (if stage = 1 \<and> error_code = Some ''too_entangled'' then Some ''too_entangled''
      else if stage = 1 then Some ''static_checks_failed''
      else if stage = 2 then Some ''build_failed''
      else if stage = 3 then Some ''invalid_plans'' else old)"

definition set_screening_result ::
  "op_env \<Rightarrow> sub_cfg \<Rightarrow> string \<Rightarrow> int \<Rightarrow> bool \<Rightarrow> int \<Rightarrow> string \<Rightarrow> string option \<Rightarrow> world \<Rightarrow> unit res \<times> world" where
  "set_screening_result e cfg sid stage passed duration_ms details error_code = guarded e cfg (on_sub e cfg sid (\<lambda>s w.
     let s1 = s\<lparr>sb_screening := AList.update (''stage_'' @ show_int stage)
           (JObj [(''passed'', JBool passed), (''duration_ms'', JInt duration_ms), (''details'', JStr details),
                  (''error_code'', of_str error_code)]) (sb_screening s)\<rparr> in
     if passed then (s1, w)
     else (s1\<lparr>sb_status := REJECTED,
              sb_rejection_reason := Some (''Stage '' @ show_int stage @ '': '' @
                 (case error_code of None \<Rightarrow> ''None'' | Some c \<Rightarrow> c) @ '' '' @ em_dash @ '' '' @ details),
              sb_outcome_code := screening_outcome stage error_code (sb_outcome_code s)\<rparr>,
           purge_token e cfg sid w)))"

definition set_solver_info :: "op_env \<Rightarrow> sub_cfg \<Rightarrow> string \<Rightarrow> string option \<Rightarrow> string option \<Rightarrow> world \<Rightarrow> unit res \<times> world" where
  "set_solver_info e cfg sid name version = guarded e cfg (on_sub e cfg sid (\<lambda>s w.
     let s1 = s\<lparr>sb_solver_name := name, sb_solver_version := version, sb_is_copycat := False, sb_coined_by := None\<rparr>;
         norm = normalize_solver_name name in
     if norm = [] \<or> norm \<in> set (exempt_names (c_uncoinable cfg)) then (s1, w)
     else case maybe_reload_names cfg w of (st, fs) \<Rightarrow>
       (case map_of (ss_names st) norm of
          None \<Rightarrow> (s1, persist_names e cfg (st\<lparr>ss_names := AList.update norm
             \<lparr>ne_owner_hotkey = sb_hotkey s, ne_coined_at = e_now e, ne_submission_id = sid, ne_display = name\<rparr> (ss_names st)\<rparr>, fs))
        | Some entry \<Rightarrow>
            (if ne_owner_hotkey entry \<noteq> sb_hotkey s
             then s1\<lparr>sb_is_copycat := True, sb_coined_by := Some (ne_owner_hotkey entry)\<rparr> else s1, st, fs))))"

definition no_value_reason :: string where
  "no_value_reason = ''no order delivered value (solver produced no valid plans)''"

definition set_benchmark_result ::
  "op_env \<Rightarrow> sub_cfg \<Rightarrow> string \<Rightarrow> bool \<Rightarrow> int option \<Rightarrow> json option \<Rightarrow> world \<Rightarrow> unit res \<times> world" where
  "set_benchmark_result e cfg sid valid rank details = guarded e cfg (on_sub e cfg sid (\<lambda>s w.
     let s1 = (case rank of None \<Rightarrow> s | Some r \<Rightarrow> s\<lparr>sb_benchmark_rank := Some r\<rparr>);
         s2 = (case details of None \<Rightarrow> s1 | Some d \<Rightarrow> s1\<lparr>sb_benchmark_details := d\<rparr>) in
     if sb_status s \<in> no_resurrection_statuses then (s2, w)
     else if \<not> valid
     then (s2\<lparr>sb_status := REJECTED,
              sb_rejection_reason := Some (let why = or_empty (sb_rejection_reason s) in if why \<noteq> [] then why else no_value_reason)\<rparr>,
           purge_token e cfg sid w)
     else (s2\<lparr>sb_status := SCORED, sb_rejection_reason := None\<rparr>, w)))"

definition reject :: "op_env \<Rightarrow> sub_cfg \<Rightarrow> string \<Rightarrow> string \<Rightarrow> string option \<Rightarrow> world \<Rightarrow> unit res \<times> world" where
  "reject e cfg sid why code = guarded e cfg (on_sub e cfg sid (\<lambda>s w.
     (s\<lparr>sb_status := REJECTED, sb_rejection_reason := Some why, sb_outcome_code := code\<rparr>, purge_token e cfg sid w)))"

definition waitlist_context :: "int option \<Rightarrow> int option \<Rightarrow> int option \<Rightarrow> json" where
  "waitlist_context position contenders slots = JObj [(''position'', of_int_opt position), (''contenders'', of_int_opt contenders),
     (''slots'', of_int_opt slots), (''next_round_priority'', JBool True)]"

definition waitlist ::
  "op_env \<Rightarrow> sub_cfg \<Rightarrow> string \<Rightarrow> string \<Rightarrow> string \<Rightarrow> int option \<Rightarrow> int option \<Rightarrow> int option \<Rightarrow> world \<Rightarrow> unit res \<times> world" where
  "waitlist e cfg sid why code position contenders slots = guarded e cfg (on_sub e cfg sid (\<lambda>s w.
     (s\<lparr>sb_status := WAITLISTED, sb_rejection_reason := Some why, sb_outcome_code := Some code,
        sb_waitlist := waitlist_context position contenders slots\<rparr>, purge_token e cfg sid w)))"

text \<open>The champion is demoted before the candidate is looked up.\<close>

definition unadopt :: "op_env \<Rightarrow> string \<Rightarrow> sub_store \<Rightarrow> string list \<times> sub_store" where
  "unadopt e sid st =
     (map fst (filter (\<lambda>(k, s). sb_status s = ADOPTED \<and> sb_id s \<noteq> sid) (ss_subs st)),
      st\<lparr>ss_subs := map (\<lambda>(k, s). (k, if sb_status s = ADOPTED \<and> sb_id s \<noteq> sid
         then s\<lparr>sb_status := SCORED, sb_updated_at := e_now e\<rparr> else s)) (ss_subs st)\<rparr>)"

definition adopt :: "op_env \<Rightarrow> sub_cfg \<Rightarrow> string \<Rightarrow> world \<Rightarrow> unit res \<times> world" where
  "adopt e cfg sid = guarded e cfg (\<lambda>(st, fs).
     case unadopt e sid st of (touched, st1) \<Rightarrow>
       (case map_of (ss_subs st1) sid of
          None \<Rightarrow> (Inl (KeyError sid), (st1, fs))
        | Some s \<Rightarrow>
            (Inr (), persist_records e cfg (touched @ [sid])
              (purge_token e cfg sid
                (st1\<lparr>ss_subs := AList.update sid (s\<lparr>sb_status := ADOPTED, sb_updated_at := e_now e\<rparr>) (ss_subs st1)\<rparr>, fs)))))"

section \<open>Start\<close>

definition record_retention :: "op_env \<Rightarrow> sub_cfg \<Rightarrow> (string \<times> (string \<times> json) list) list \<Rightarrow> sub_db
   \<Rightarrow> ((string \<times> (string \<times> json) list) list \<times> sub_db) res" where
  "record_retention e cfg data db =
     (if c_max_records cfg \<le> 0 \<or> int (length data) \<le> c_max_records cfg then Inr (data, db)
      else let over = length data - nat (c_max_records cfg);
               prunable = filter (\<lambda>(sid, d). case map_of d ''status'' of Some (JStr v) \<Rightarrow> v \<in> retention_prunable_values | _ \<Rightarrow> False) data in
        res_bind (res_map (\<lambda>(sid, d). res_bind (float_or 0 (jget d ''created_at'')) (\<lambda>t. Inr (t, sid))) prunable) (\<lambda>aged.
          let drop_ids = take over (map snd (sort_key fst aged)) in
          Inr (filter (\<lambda>(sid, d). sid \<notin> set drop_ids) data, delete_records (e_commits e) drop_ids db)))"

fun hydrate :: "(string \<times> (string \<times> json) list) list \<Rightarrow> sub_store \<Rightarrow> sub_store res" where
  "hydrate [] st = Inr st"
| "hydrate ((sid, d) # rows) st =
     res_bind (sub_of_row d) (\<lambda>s.
       hydrate rows (st\<lparr>ss_subs := AList.update sid s (ss_subs st),
         ss_by_round := AList.update (round_key (sb_hotkey s) (sb_round_id s)) sid (ss_by_round st),
         ss_by_epoch := AList.update (epoch_key (sb_hotkey s) (sb_epoch s)) sid (ss_by_epoch st)\<rparr>))"

text \<open>A row that cannot be read leaves the store as it was: empty and not loaded. The deletes of the retention stay.\<close>

definition load_submissions :: "op_env \<Rightarrow> sub_cfg \<Rightarrow> world \<Rightarrow> world" where
  "load_submissions e cfg w = (case w of (st, fs) \<Rightarrow>
     (case record_retention e cfg (load_all (sf_db fs)) (sf_db fs) of
        Inl x \<Rightarrow> (st, fs)
      | Inr (data, db) \<Rightarrow>
          (case hydrate data (st\<lparr>ss_subs := [], ss_by_round := [], ss_by_epoch := []\<rparr>) of
             Inl x \<Rightarrow> (st, fs\<lparr>sf_db := db\<rparr>)
           | Inr st' \<Rightarrow> (st'\<lparr>ss_loaded := True, ss_last_seen := (if e_seq_read e then db_max_seq (sf_db fs) else 0)\<rparr>, fs\<lparr>sf_db := db\<rparr>))))"

definition open_store :: "op_env \<Rightarrow> sub_cfg \<Rightarrow> legacy_file \<Rightarrow> sub_files \<Rightarrow> migration_error + world" where
  "open_store e cfg legacy fs =
     (if \<not> c_persist cfg then Inr (empty_store, fs)
      else case migrate_from_json (e_commits e) legacy (sf_db fs) of
          (Inl x, db) \<Rightarrow> Inl x
        | (Inr n, db) \<Rightarrow>
            (let w1 = load_submissions e cfg (empty_store, fs\<lparr>sf_db := db\<rparr>);
                 w2 = (if tokens_path cfg then load_tokens w1 else w1) in
             Inr (if sf_names fs \<noteq> None then load_names w2 else backfill_names e cfg w2)))"

text \<open>\<open>snapshot_json\<close>: the document that replaces the rollback file, if any; \<open>old\<close> tells that a non-empty file exists.\<close>

definition snapshot_json :: "sub_cfg \<Rightarrow> bool \<Rightarrow> sub_store \<Rightarrow> (string \<times> json) list option" where
  "snapshot_json cfg old st =
     (if \<not> c_persist cfg \<or> \<not> ss_loaded st \<or> (ss_subs st = [] \<and> old) then None
      else Some (map (\<lambda>(sid, s). (sid, JObj (sub_to_dict s))) (ss_subs st)))"

end
