(* ===== verification/Submission_Life.thy ===== *)
theory Submission_Life
  imports Submission_Store
begin

text \<open>
  The life of a submission: the caps of the intake, one champion at a time, private tokens kept until a terminal state
  and gone after it, results of a late benchmark that never revive a parked submission, and names that stay with
  the hotkey that coined them.
\<close>

section \<open>What writing a record changes\<close>

definition lookup :: "world \<Rightarrow> string \<Rightarrow> submission option" where
  "lookup w k = map_of (ss_subs (fst w)) k"

definition undetailed :: "submission \<Rightarrow> submission" where
  "undetailed s = s\<lparr>sb_benchmark_details := JNull\<rparr>"

text \<open>Every field but the benchmark details.\<close>

definition view :: "world \<Rightarrow> string \<Rightarrow> submission option" where
  "view w k = map_option undetailed (lookup w k)"

lemma undetailed_fields [simp]:
  "sb_id (undetailed s) = sb_id s" "sb_status (undetailed s) = sb_status s" "sb_round_id (undetailed s) = sb_round_id s"
  "sb_hotkey (undetailed s) = sb_hotkey s" "sb_github_owner (undetailed s) = sb_github_owner s"
  "sb_epoch (undetailed s) = sb_epoch s" "sb_solver_name (undetailed s) = sb_solver_name s"
  "sb_is_copycat (undetailed s) = sb_is_copycat s" "sb_coined_by (undetailed s) = sb_coined_by s"
  "sb_rejection_reason (undetailed s) = sb_rejection_reason s" "sb_outcome_code (undetailed s) = sb_outcome_code s"
  by (simp_all add: undetailed_def)

lemma strip_memory_subs: "ss_subs (strip_memory ids st) =
    map (\<lambda>(k, s). (k, if sb_id s \<in> set ids then undetailed s else s)) (ss_subs st)"
  by (auto simp: strip_memory_def undetailed_def)

lemma map_of_mapped: "map_of (map (\<lambda>(k, s). (k, f s)) d) k = map_option f (map_of d k)"
  by (induction d) auto

lemma persist_records_mem:
  "fst (persist_records e cfg ids w) =
   (if c_persist cfg then strip_memory (details_retention (c_details_cap cfg) (fst w)) (fst w) else fst w)"
  by (simp add: persist_records_def Let_def split: prod.splits)

lemma persist_view [simp]: "view (persist_records e cfg ids w) = view w"
  by (intro ext) (auto simp: view_def lookup_def persist_records_mem strip_memory_subs map_of_mapped undetailed_def
      option.map_comp comp_def intro!: option.map_cong split: if_splits)

lemma persist_frame [simp]:
  "ss_tokens (fst (persist_records e cfg ids w)) = ss_tokens (fst w)"
  "ss_enc_tokens (fst (persist_records e cfg ids w)) = ss_enc_tokens (fst w)"
  "ss_tokens_mtime (fst (persist_records e cfg ids w)) = ss_tokens_mtime (fst w)"
  "ss_names (fst (persist_records e cfg ids w)) = ss_names (fst w)"
  "ss_names_mtime (fst (persist_records e cfg ids w)) = ss_names_mtime (fst w)"
  "ss_by_round (fst (persist_records e cfg ids w)) = ss_by_round (fst w)"
  "keys_of (ss_subs (fst (persist_records e cfg ids w))) = keys_of (ss_subs (fst w))"
  "sf_tokens (snd (persist_records e cfg ids w)) = sf_tokens (snd w)"
  "sf_names (snd (persist_records e cfg ids w)) = sf_names (snd w)"
  "sf_clock (snd (persist_records e cfg ids w)) = sf_clock (snd w)"
  by (simp_all add: persist_records_mem strip_memory_def comp_def case_prod_unfold)
     (simp_all add: persist_records_def Let_def split: prod.splits)

section \<open>Counting\<close>

text \<open>Counts over fields other than the details see the view only.\<close>

lemma count_persist:
  assumes "\<And>s. P (undetailed s) = P s"
  shows "length (filter P (vals_of (ss_subs (fst (persist_records e cfg ids w))))) = length (filter P (vals_of (ss_subs (fst w))))"
proof -
  have k: "length (filter P (map snd (map (\<lambda>(k, s). (k, if sb_id s \<in> X then undetailed s else s)) d))) = length (filter P (map snd d))"
    for X and d :: "(string \<times> submission) list"
  proof (induction d)
    case (Cons p d)
    have "P (if c then undetailed s else s) = P s" for c s by (simp add: assms)
    with Cons show ?case by (cases p) simp
  qed simp
  show ?thesis by (cases "c_persist cfg") (simp_all only: persist_records_mem strip_memory_subs if_True if_False k)
qed

lemma count_update_fresh:
  assumes "map_of d k = None"
  shows "length (filter P (vals_of (AList.update k s d))) = length (filter P (vals_of d)) + (if P s then 1 else 0)"
proof -
  have "AList.update k s d = d @ [(k, s)]" using assms by (intro update_fresh) (simp add: map_of_None_keys)
  then show ?thesis by simp
qed

lemma persist_tokens_subs [simp]:
  "ss_subs (fst (persist_tokens e cfg w)) = ss_subs (fst w)" "lookup (persist_tokens e cfg w) = lookup w"
  "view (persist_tokens e cfg w) = view w"
  by (auto simp: persist_tokens_def lookup_def view_def fun_eq_iff Let_def split: prod.splits)

lemma create_accepted:
  assumes "create e cfg sid r w = (Inr s, w')" "lookup (maybe_reload e cfg w) sid = None"
  obtains st fs where "maybe_reload e cfg w = (st, fs)" "create_refused r st = None"
    "s = new_submission sid (cr_repo_url r) (cr_commit_hash r) (cr_epoch r) (cr_hotkey r) (resolved_round_id r)
       (cr_pr_number r) (cr_is_private r) (cr_private_repo_full r) (none_if_empty (cr_github_owner r)) (e_now e)"
    "\<And>P. (\<And>x. P (undetailed x) = P x) \<Longrightarrow>
       length (filter P (subs_of (fst w'))) = length (filter P (subs_of st)) + (if P s then 1 else 0)"
proof -
  obtain st fs where w: "maybe_reload e cfg w = (st, fs)" by fastforce
  let ?s = "new_submission sid (cr_repo_url r) (cr_commit_hash r) (cr_epoch r) (cr_hotkey r) (resolved_round_id r)
       (cr_pr_number r) (cr_is_private r) (cr_private_repo_full r) (none_if_empty (cr_github_owner r)) (e_now e)"
  have ref: "create_refused r st = None" and s: "s = ?s"
    using assms(1) by (auto simp: create_def guarded_def create_body_def w Let_def split: option.splits prod.splits)
  define st1 where "st1 = (if or_empty (cr_repo_token r) \<noteq> [] then st\<lparr>ss_tokens := AList.update sid (or_empty (cr_repo_token r)) (ss_tokens st)\<rparr> else st)"
  have subs: "ss_subs (fst w') = ss_subs (fst (persist_records e cfg [sid] (index_sub ?s st1, fs)))"
    using assms(1) ref
    by (auto simp: create_def guarded_def create_body_def w Let_def st1_def split: option.splits prod.splits)
  have "map_of (ss_subs st) sid = None" using assms(2) by (simp add: lookup_def w)
  then have "length (filter P (subs_of (fst w'))) = length (filter P (subs_of st)) + (if P s then 1 else 0)"
    if "\<And>x. P (undetailed x) = P x" for P
    using count_update_fresh [of "ss_subs st" sid P ?s]
    unfolding subs_of_def subs count_persist [of P, OF that] s
    by (simp add: index_sub_def st1_def new_submission_def)
  then show thesis using that w ref s by blast
qed

section \<open>Tokens of one process\<close>

definition terminal :: "submission \<Rightarrow> bool" where
  "terminal s \<longleftrightarrow> sb_status s \<in> {REJECTED, WAITLISTED, ADOPTED}"

definition token_of :: "sub_cfg \<Rightarrow> world \<Rightarrow> string \<Rightarrow> string option" where
  "token_of cfg w k = fst (get_repo_token cfg k w)"

text \<open>No other process has written the sidecar since this one read or wrote it.\<close>

definition sidecar_read :: "world \<Rightarrow> bool" where
  "sidecar_read w \<longleftrightarrow> (\<forall>t c. sf_tokens (snd w) = Some (t, c) \<longrightarrow> (\<exists>m. ss_tokens_mtime (fst w) = Some m \<and> t \<le> m))"

lemma reload_tokens_idle: "sidecar_read w \<Longrightarrow> maybe_reload_tokens cfg w = w"
  by (auto simp: sidecar_read_def maybe_reload_tokens_def split: prod.splits option.splits)

lemma token_of_eq:
  assumes "sidecar_read w"
  shows "token_of cfg w k = (case map_of (ss_tokens (fst w)) k of
       Some t \<Rightarrow> Some t
     | None \<Rightarrow> if tokens_path cfg then Option.bind (map_of (ss_enc_tokens (fst w)) k) (c_decrypt cfg) else None)"
  using reload_tokens_idle [OF assms, of cfg]
  by (auto simp: token_of_def get_repo_token_def split: prod.splits option.splits)

lemma sidecar_read_persist [simp]: "sidecar_read (persist_records e cfg ids w) = sidecar_read w"
  by (simp add: sidecar_read_def)

lemma sidecar_read_persist_tokens: "sidecar_read w \<Longrightarrow> sidecar_read (persist_tokens e cfg w)"
  by (auto simp: sidecar_read_def persist_tokens_def Let_def split: prod.splits)

lemma persist_tokens_tokens [simp]: "ss_tokens (fst (persist_tokens e cfg w)) = ss_tokens (fst w)"
    "ss_last_seen (fst (persist_tokens e cfg w)) = ss_last_seen (fst w)" "sf_db (snd (persist_tokens e cfg w)) = sf_db (snd w)"
    "ss_names (fst (persist_tokens e cfg w)) = ss_names (fst w)"
  by (auto simp: persist_tokens_def Let_def split: prod.splits)

lemma persist_tokens_enc:
  "map_of (ss_enc_tokens (fst (persist_tokens e cfg w))) k =
   (if tokens_path cfg \<and> lookup w k = None then None else map_of (ss_enc_tokens (fst w)) k)"
proof -
  have "map_of (filter (\<lambda>(a, b). a \<in> S) d) k = (if k \<in> S then map_of d k else None)" for S and d :: "(string \<times> string) list"
    by (induction d) auto
  then show ?thesis
    by (auto simp: persist_tokens_def Let_def lookup_def map_of_None_keys split: prod.splits)
qed

lemma token_of_persist [simp]: "sidecar_read w \<Longrightarrow> token_of cfg (persist_records e cfg ids w) k = token_of cfg w k"
  by (simp add: token_of_eq cong: option.case_cong)

lemma purge_eq:
  assumes "sidecar_read w"
  shows "purge_token e cfg sid w =
     (if \<not> tokens_path cfg \<or> map_of (ss_enc_tokens (fst w)) sid = None
      then (fst w\<lparr>ss_tokens := AList.delete sid (ss_tokens (fst w))\<rparr>, snd w)
      else persist_tokens e cfg
       (fst w\<lparr>ss_tokens := AList.delete sid (ss_tokens (fst w)), ss_enc_tokens := AList.delete sid (ss_enc_tokens (fst w))\<rparr>, snd w))"
proof -
  have "sidecar_read (fst w\<lparr>ss_tokens := AList.delete sid (ss_tokens (fst w))\<rparr>, snd w)"
    using assms by (simp add: sidecar_read_def)
  from reload_tokens_idle [OF this, of cfg] show ?thesis
    by (cases w) (simp add: purge_token_def Let_def)
qed

lemma world_frame [simp]:
  "sidecar_read (fst w\<lparr>ss_tokens := a\<rparr>, snd w) = sidecar_read w"
  "sidecar_read (fst w\<lparr>ss_tokens := a, ss_enc_tokens := b\<rparr>, snd w) = sidecar_read w"
  "lookup (fst w\<lparr>ss_tokens := a\<rparr>, snd w) = lookup w"
  "lookup (fst w\<lparr>ss_tokens := a, ss_enc_tokens := b\<rparr>, snd w) = lookup w"
  by (simp_all add: sidecar_read_def lookup_def fun_eq_iff)

lemma purge_frame [simp]:
  assumes "sidecar_read w"
  shows "ss_subs (fst (purge_token e cfg sid w)) = ss_subs (fst w)" "lookup (purge_token e cfg sid w) = lookup w"
    "sidecar_read (purge_token e cfg sid w)" "ss_last_seen (fst (purge_token e cfg sid w)) = ss_last_seen (fst w)"
    "sf_db (snd (purge_token e cfg sid w)) = sf_db (snd w)" "ss_names (fst (purge_token e cfg sid w)) = ss_names (fst w)"
  using assms by (simp_all add: purge_eq sidecar_read_persist_tokens)

lemma purge_tokens:
  assumes "sidecar_read w"
  shows "map_of (ss_tokens (fst (purge_token e cfg sid w))) k = (if k = sid then None else map_of (ss_tokens (fst w)) k)"
    and "tokens_path cfg \<Longrightarrow> lookup w k \<noteq> None \<Longrightarrow>
      map_of (ss_enc_tokens (fst (purge_token e cfg sid w))) k = (if k = sid then None else map_of (ss_enc_tokens (fst w)) k)"
    and "tokens_path cfg \<Longrightarrow> map_of (ss_enc_tokens (fst (purge_token e cfg sid w))) k = None
      \<or> map_of (ss_enc_tokens (fst (purge_token e cfg sid w))) k = map_of (ss_enc_tokens (fst w)) k"
  using assms by (auto simp: purge_eq dict_simps persist_tokens_enc)

lemma token_of_purge_known:
  assumes "sidecar_read w" "lookup w k \<noteq> None"
  shows "token_of cfg (purge_token e cfg sid w) k = (if k = sid then None else token_of cfg w k)"
  using assms purge_tokens(2) [OF assms(1) _ assms(2), of cfg e sid]
  by (auto simp: token_of_eq purge_tokens(1) split: option.splits if_splits)

lemma token_of_purge_less:
  assumes "sidecar_read w" "token_of cfg (purge_token e cfg sid w) k \<noteq> None"
  shows "token_of cfg w k \<noteq> None"
  using assms purge_tokens(3) [OF assms(1), of cfg e sid k]
  by (auto simp: token_of_eq purge_tokens(1) split: option.splits if_splits)

section \<open>The life invariant\<close>

definition own_rows :: "sub_cfg \<Rightarrow> world \<Rightarrow> bool" where
  "own_rows cfg w \<longleftrightarrow> (\<forall>sid row. (sid, row) \<in> set (db_rows (sf_db (snd w))) \<longrightarrow>
     row_writer row = Some (c_writer_id cfg) \<or> row_seq row \<le> ss_last_seen (fst w))"

lemma own_rows_tokens [simp]: "own_rows cfg (fst w\<lparr>ss_tokens := a\<rparr>, snd w) = own_rows cfg w"
  by (simp add: own_rows_def)

lemma own_rows_nothing:
  assumes "own_rows cfg w"
  shows "load_since (c_writer_id cfg) (ss_last_seen (fst w)) (sf_db (snd w)) = []"
proof -
  have "filter (\<lambda>(sid, row). ss_last_seen (fst w) < row_seq row \<and> row_writer row \<noteq> Some (c_writer_id cfg)) (db_rows (sf_db (snd w))) = []"
    using assms by (fastforce simp: own_rows_def filter_empty_conv)
  then show ?thesis by (simp add: load_since_def)
qed

lemma reload_own:
  assumes "own_rows cfg w"
  obtains n where "ss_last_seen (fst w) \<le> n" "maybe_reload e cfg w = (fst w\<lparr>ss_last_seen := n\<rparr>, snd w)"
proof -
  let ?n = "if \<not> c_persist cfg \<or> \<not> c_xproc_sync cfg \<or> \<not> e_seq_read e \<or> \<not> e_rows_read e then ss_last_seen (fst w)
    else max (ss_last_seen (fst w)) (db_max_seq (sf_db (snd w)))"
  have "maybe_reload e cfg w = (fst w\<lparr>ss_last_seen := ?n\<rparr>, snd w)"
    using own_rows_nothing [OF assms] by (cases w) (auto simp: maybe_reload_def merge_pull_def Let_def max_def)
  then show thesis by (rule that [rotated]) simp
qed

lemma write_rows_owner:
  "(sid, row) \<in> set (db_rows (write_rows me n rs db)) \<Longrightarrow> row_writer row = Some me \<or> (sid, row) \<in> set (db_rows db)"
proof (induction rs arbitrary: n db)
  case (Cons p rs)
  then show ?case by (cases p) (fastforce simp: Let_def case_prod_unfold dest: in_update)
qed simp

lemma persist_last_seen [simp]: "ss_last_seen (fst (persist_records e cfg ids w)) = ss_last_seen (fst w)"
  by (simp add: persist_records_mem strip_memory_def)

lemma persist_rows_owner:
  assumes "(sid, row) \<in> set (db_rows (sf_db (snd (persist_records e cfg ids w))))"
  shows "row_writer row = Some (c_writer_id cfg) \<or> (sid, row) \<in> set (db_rows (sf_db (snd w)))"
  using assms
  by (auto simp: persist_records_def write_records_def strip_details_def Let_def dest!: write_rows_owner split: prod.splits if_splits)

lemma own_rows_persist: "own_rows cfg w \<Longrightarrow> own_rows cfg (persist_records e cfg ids w)"
  unfolding own_rows_def using persist_rows_owner [of _ _ e cfg ids w] by fastforce

text \<open>
  A store that one process writes. Ids are keys, at most one submission is adopted, and a private token is available for
  submissions that are not rejected, waitlisted or adopted only.
\<close>

definition life_ok :: "sub_cfg \<Rightarrow> world \<Rightarrow> bool" where
  "life_ok cfg w \<longleftrightarrow> sidecar_read w \<and> own_rows cfg w
     \<and> (\<forall>k s. lookup w k = Some s \<longrightarrow> sb_id s = k)
     \<and> (\<forall>k k' s s'. lookup w k = Some s \<longrightarrow> lookup w k' = Some s' \<longrightarrow> sb_status s = ADOPTED \<longrightarrow> sb_status s' = ADOPTED \<longrightarrow> k = k')
     \<and> (\<forall>k t. token_of cfg w k = Some t \<longrightarrow> (\<exists>s. lookup w k = Some s \<and> \<not> terminal s))"

text \<open>A step keeps every token, or drops it because its submission became terminal.\<close>

definition keeps_tokens :: "sub_cfg \<Rightarrow> world \<Rightarrow> world \<Rightarrow> bool" where
  "keeps_tokens cfg w w' \<longleftrightarrow> (\<forall>k t. token_of cfg w k = Some t \<longrightarrow>
     token_of cfg w' k = Some t \<or> (token_of cfg w' k = None \<and> (\<exists>s. lookup w' k = Some s \<and> terminal s)))"

lemma life_okD:
  assumes "life_ok cfg w"
  shows "sidecar_read w" "own_rows cfg w" "lookup w k = Some s \<Longrightarrow> sb_id s = k"
    "lookup w k = Some s \<Longrightarrow> lookup w k' = Some s' \<Longrightarrow> sb_status s = ADOPTED \<Longrightarrow> sb_status s' = ADOPTED \<Longrightarrow> k = k'"
    "token_of cfg w k = Some t \<Longrightarrow> \<exists>s. lookup w k = Some s \<and> \<not> terminal s"
  using assms unfolding life_ok_def by blast+

lemma life_okI:
  assumes "sidecar_read w" "own_rows cfg w" "\<And>k s. lookup w k = Some s \<Longrightarrow> sb_id s = k"
    "\<And>k k' s s'. lookup w k = Some s \<Longrightarrow> lookup w k' = Some s' \<Longrightarrow> sb_status s = ADOPTED \<Longrightarrow> sb_status s' = ADOPTED \<Longrightarrow> k = k'"
    "\<And>k t. token_of cfg w k = Some t \<Longrightarrow> \<exists>s. lookup w k = Some s \<and> \<not> terminal s"
  shows "life_ok cfg w"
  using assms unfolding life_ok_def by blast

lemma persist_lookup: "lookup (persist_records e cfg ids w) k = Some s \<Longrightarrow>
    \<exists>s'. lookup w k = Some s' \<and> sb_id s' = sb_id s \<and> sb_status s' = sb_status s"
  by (auto simp: lookup_def persist_records_mem strip_memory_subs map_of_mapped split: if_splits)

lemma persist_lookup_some: "lookup w k = Some s \<Longrightarrow>
    \<exists>s'. lookup (persist_records e cfg ids w) k = Some s' \<and> sb_id s' = sb_id s \<and> sb_status s' = sb_status s"
  by (auto simp: lookup_def persist_records_mem strip_memory_subs map_of_mapped split: if_splits)

lemma life_persist: "life_ok cfg w \<Longrightarrow> life_ok cfg (persist_records e cfg ids w)"
proof (rule life_okI)
  assume ok: "life_ok cfg w"
  note d = life_okD [OF ok]
  show "sidecar_read (persist_records e cfg ids w)" using d(1) by simp
  show "own_rows cfg (persist_records e cfg ids w)" using d(2) by (rule own_rows_persist)
  show "sb_id s = k" if "lookup (persist_records e cfg ids w) k = Some s" for k s
    using persist_lookup [OF that] d(3) by auto
  show "k = k'" if "lookup (persist_records e cfg ids w) k = Some s" "lookup (persist_records e cfg ids w) k' = Some s'"
    "sb_status s = ADOPTED" "sb_status s' = ADOPTED" for k k' s s'
    using persist_lookup [OF that(1)] persist_lookup [OF that(2)] that(3,4) d(4) by metis
  show "\<exists>s. lookup (persist_records e cfg ids w) k = Some s \<and> \<not> terminal s"
    if "token_of cfg (persist_records e cfg ids w) k = Some t" for k t
  proof -
    have "token_of cfg w k = Some t" using that d(1) by simp
    then obtain s where "lookup w k = Some s" "\<not> terminal s" using d(5) by blast
    then show ?thesis using persist_lookup_some [of w k s e cfg ids] by (auto simp: terminal_def)
  qed
qed

lemma keeps_persist:
  assumes "keeps_tokens cfg w w'" "sidecar_read w'"
  shows "keeps_tokens cfg w (persist_records e cfg ids w')"
  unfolding keeps_tokens_def
proof (intro allI impI)
  fix k t assume "token_of cfg w k = Some t"
  with assms(1) consider "token_of cfg w' k = Some t"
    | s where "token_of cfg w' k = None" "lookup w' k = Some s" "terminal s"
    unfolding keeps_tokens_def by blast
  then show "token_of cfg (persist_records e cfg ids w') k = Some t \<or>
      token_of cfg (persist_records e cfg ids w') k = None \<and> (\<exists>s. lookup (persist_records e cfg ids w') k = Some s \<and> terminal s)"
  proof cases
    case 2
    then show ?thesis using persist_lookup_some [OF 2(2), of e cfg ids] assms(2) by (auto simp: terminal_def)
  qed (use assms(2) in simp)
qed

text \<open>Changing one record, with the token dropped when the change is terminal.\<close>

definition put_sub :: "string \<Rightarrow> submission \<Rightarrow> world \<Rightarrow> world" where
  "put_sub sid s w = (fst w\<lparr>ss_subs := AList.update sid s (ss_subs (fst w))\<rparr>, snd w)"

lemma put_sub_frame [simp]:
  "lookup (put_sub sid s w) k = (if k = sid then Some s else lookup w k)"
  "sidecar_read (put_sub sid s w) = sidecar_read w"
  "sidecar_read w \<Longrightarrow> token_of cfg (put_sub sid s w) k = token_of cfg w k"
  by (simp_all add: put_sub_def lookup_def dict_simps sidecar_read_def token_of_eq [unfolded sidecar_read_def] cong: option.case_cong)

lemma put_sub_life:
  assumes ok: "life_ok cfg w" and s: "lookup w sid = Some s" and s': "sb_id s' = sid"
    and adopted: "sb_status s' = ADOPTED \<Longrightarrow> sb_status s = ADOPTED"
    and w1: "w1 = (if purge then purge_token e cfg sid w else w)"
    and gone: "terminal s' \<Longrightarrow> purge \<or> terminal s" "purge \<Longrightarrow> terminal s'"
  shows "life_ok cfg (put_sub sid s' w1)" "keeps_tokens cfg w (put_sub sid s' w1)"
proof -
  note d = life_okD [OF ok]
  have read: "sidecar_read w1" using d(1) by (simp add: w1)
  have look: "lookup w1 = lookup w" using d(1) by (simp add: w1)
  have tok: "token_of cfg w1 k = (if k = sid \<and> purge then None else token_of cfg w k)" if "lookup w k \<noteq> None" for k
    using token_of_purge_known [OF d(1) that, of cfg e sid] by (auto simp: w1)
  have less: "lookup w k \<noteq> None" if "token_of cfg w1 k = Some t" for k t
  proof -
    from that have "token_of cfg w k \<noteq> None" using token_of_purge_less [OF d(1), of cfg e sid k] by (cases purge) (auto simp: w1)
    then show ?thesis using d(5) by force
  qed
  show "life_ok cfg (put_sub sid s' w1)"
  proof (rule life_okI)
    show "sidecar_read (put_sub sid s' w1)" using read by simp
    show "own_rows cfg (put_sub sid s' w1)" using d(1,2) by (simp add: w1 own_rows_def put_sub_def)
    show "sb_id x = k" if "lookup (put_sub sid s' w1) k = Some x" for k x
      using that s' d(3) by (auto simp: look split: if_splits)
    show "k = k'" if "lookup (put_sub sid s' w1) k = Some x" "lookup (put_sub sid s' w1) k' = Some x'"
      "sb_status x = ADOPTED" "sb_status x' = ADOPTED" for k k' x x'
      using that d(4) [OF s] d(4) [of k x k' x'] adopted by (auto simp: look split: if_splits dest: sym)
    show "\<exists>x. lookup (put_sub sid s' w1) k = Some x \<and> \<not> terminal x" if "token_of cfg (put_sub sid s' w1) k = Some t" for k t
    proof -
      have t: "token_of cfg w1 k = Some t" using that read by simp
      then have *: "\<not> (k = sid \<and> purge)" "token_of cfg w k = Some t" using tok [OF less [OF t]] by (auto split: if_splits)
      from d(5) [OF this(2)] s * gone(1) show ?thesis by (auto simp: look)
    qed
  qed
  show "keeps_tokens cfg w (put_sub sid s' w1)"
    unfolding keeps_tokens_def
  proof (intro allI impI)
    fix k t assume t: "token_of cfg w k = Some t"
    then have "lookup w k \<noteq> None" using d(5) by force
    from tok [OF this] t gone(2) read show "token_of cfg (put_sub sid s' w1) k = Some t \<or>
       token_of cfg (put_sub sid s' w1) k = None \<and> (\<exists>x. lookup (put_sub sid s' w1) k = Some x \<and> terminal x)"
      by auto
  qed
qed

section \<open>Steps\<close>

text \<open>Worlds that agree on everything the invariant speaks of.\<close>

definition same_subs :: "world \<Rightarrow> world \<Rightarrow> bool" where
  "same_subs w w' \<longleftrightarrow> ss_subs (fst w') = ss_subs (fst w) \<and> ss_tokens (fst w') = ss_tokens (fst w)
     \<and> ss_enc_tokens (fst w') = ss_enc_tokens (fst w) \<and> ss_tokens_mtime (fst w') = ss_tokens_mtime (fst w)
     \<and> ss_last_seen (fst w) \<le> ss_last_seen (fst w') \<and> sf_db (snd w') = sf_db (snd w) \<and> sf_tokens (snd w') = sf_tokens (snd w)"

lemma same_subs_frame:
  assumes "same_subs w w'"
  shows "lookup w' = lookup w" "sidecar_read w' = sidecar_read w"
    "sidecar_read w \<Longrightarrow> token_of cfg w' = token_of cfg w" "own_rows cfg w \<Longrightarrow> own_rows cfg w'"
proof -
  show "lookup w' = lookup w" "sidecar_read w' = sidecar_read w"
    using assms by (simp_all add: same_subs_def lookup_def sidecar_read_def fun_eq_iff)
  then show "sidecar_read w \<Longrightarrow> token_of cfg w' = token_of cfg w"
    using assms by (simp add: same_subs_def token_of_eq fun_eq_iff cong: option.case_cong)
  show "own_rows cfg w \<Longrightarrow> own_rows cfg w'"
    using assms by (fastforce simp: same_subs_def own_rows_def)
qed

lemma same_subs_life:
  assumes "same_subs w w'" "life_ok cfg w"
  shows "life_ok cfg w'"
  using assms(2) same_subs_frame(1,2) [OF assms(1)] same_subs_frame(3,4) [OF assms(1), of cfg] unfolding life_ok_def by simp

lemma same_subs_keeps:
  assumes "same_subs w w0" "life_ok cfg w" "keeps_tokens cfg w0 w'"
  shows "keeps_tokens cfg w w'"
  using assms(3) same_subs_frame(3) [OF assms(1)] life_okD(1) [OF assms(2)] by (simp add: keeps_tokens_def)

lemma reload_same:
  assumes "life_ok cfg w"
  shows "same_subs w (maybe_reload e cfg w)"
proof -
  obtain n where "ss_last_seen (fst w) \<le> n" "maybe_reload e cfg w = (fst w\<lparr>ss_last_seen := n\<rparr>, snd w)"
    using reload_own [OF life_okD(2) [OF assms]] .
  then show ?thesis by (simp add: same_subs_def)
qed

lemma keeps_refl: "keeps_tokens cfg w w"
  by (simp add: keeps_tokens_def)

text \<open>One guarded operation: it suffices to look at it from a world the reload has left.\<close>

lemma guarded_life:
  assumes "life_ok cfg w" "guarded e cfg op w = (r, w')"
    and "\<And>w0. life_ok cfg w0 \<Longrightarrow> lookup w0 = lookup w \<Longrightarrow> op w0 = (r, w') \<Longrightarrow> life_ok cfg w' \<and> keeps_tokens cfg w0 w'"
  shows "life_ok cfg w' \<and> keeps_tokens cfg w w'"
proof -
  let ?w0 = "maybe_reload e cfg w"
  have same: "same_subs w ?w0" using assms(1) by (rule reload_same)
  from assms(2) have "op ?w0 = (r, w')" by (simp add: guarded_def)
  from assms(3) [OF same_subs_life [OF same assms(1)] same_subs_frame(1) [OF same] this] same_subs_keeps [OF same assms(1)]
  show ?thesis by blast
qed

lemma on_sub_life:
  assumes ok: "life_ok cfg w" and run: "on_sub e cfg sid f w = (r, w')"
    and f: "\<And>s. lookup w sid = Some s \<Longrightarrow> \<exists>s' purge w0. f s w = (s', if purge then purge_token e cfg sid w0 else w0)
       \<and> same_subs w w0 \<and> sb_id s' = sb_id s \<and> (sb_status s' = ADOPTED \<longrightarrow> sb_status s = ADOPTED)
       \<and> (terminal s' \<longrightarrow> purge \<or> terminal s) \<and> (purge \<longrightarrow> terminal s')"
  shows "life_ok cfg w' \<and> keeps_tokens cfg w w'"
proof (cases "lookup w sid")
  case None
  then show ?thesis using run ok by (auto simp: on_sub_def lookup_def keeps_refl)
next
  case (Some s)
  obtain s' purge w0 where p: "f s w = (s', if purge then purge_token e cfg sid w0 else w0)" "same_subs w w0" "sb_id s' = sb_id s"
      "sb_status s' = ADOPTED \<longrightarrow> sb_status s = ADOPTED" "terminal s' \<longrightarrow> purge \<or> terminal s" "purge \<longrightarrow> terminal s'"
    using f [OF Some] by blast
  let ?s = "s'\<lparr>sb_updated_at := e_now e\<rparr>"
  have w': "w' = persist_records e cfg [sid] (put_sub sid ?s (if purge then purge_token e cfg sid w0 else w0))"
    using run Some p(1) by (cases "if purge then purge_token e cfg sid w0 else w0") (auto simp: on_sub_def lookup_def put_sub_def)
  note ok0 = same_subs_life [OF p(2) ok]
  have s0: "lookup w0 sid = Some s" using Some same_subs_frame(1) [OF p(2)] by simp
  have id: "sb_id ?s = sid" using life_okD(3) [OF ok Some] p(3) by simp
  have t: "terminal ?s = terminal s'" by (simp add: terminal_def)
  note put = put_sub_life [OF ok0 s0 id, of "if purge then purge_token e cfg sid w0 else w0" purge e]
  have "life_ok cfg (put_sub sid ?s (if purge then purge_token e cfg sid w0 else w0))"
    and "keeps_tokens cfg w0 (put_sub sid ?s (if purge then purge_token e cfg sid w0 else w0))"
    using put p(4-6) t by simp_all
  then show ?thesis
    unfolding w' using life_persist keeps_persist life_okD(1) same_subs_keeps [OF p(2) ok] by blast
qed

lemma same_subs_refl [simp]: "same_subs w w"
  by (simp add: same_subs_def)

lemma set_field_life:
  assumes "life_ok cfg w" "set_field e cfg sid f w = (r, w')" "\<And>s. sb_id (f s) = sb_id s" "\<And>s. sb_status (f s) = sb_status s"
  shows "life_ok cfg w' \<and> keeps_tokens cfg w w'"
  using assms(1,2) unfolding set_field_def
proof (rule guarded_life)
  fix w0 assume "life_ok cfg w0" "on_sub e cfg sid (\<lambda>s w. (f s, w)) w0 = (r, w')"
  then show "life_ok cfg w' \<and> keeps_tokens cfg w0 w'"
  proof (rule on_sub_life)
    fix s show "\<exists>s' purge w1. (f s, w0) = (s', if purge then purge_token e cfg sid w1 else w1)
       \<and> same_subs w0 w1 \<and> sb_id s' = sb_id s \<and> (sb_status s' = ADOPTED \<longrightarrow> sb_status s = ADOPTED)
       \<and> (terminal s' \<longrightarrow> purge \<or> terminal s) \<and> (purge \<longrightarrow> terminal s')"
      by (rule exI [of _ "f s"], rule exI [of _ False], rule exI [of _ w0]) (simp add: assms(3,4) terminal_def)
  qed
qed

lemma terminal_life:
  assumes "life_ok cfg w" "guarded e cfg (on_sub e cfg sid (\<lambda>s w. (f s, purge_token e cfg sid w))) w = (r, w')"
    and "\<And>s. sb_id (f s) = sb_id s" "\<And>s. sb_status (f s) \<in> {REJECTED, WAITLISTED}"
  shows "life_ok cfg w' \<and> keeps_tokens cfg w w'"
  using assms(1,2)
proof (rule guarded_life)
  fix w0 assume "life_ok cfg w0" "on_sub e cfg sid (\<lambda>s w. (f s, purge_token e cfg sid w)) w0 = (r, w')"
  then show "life_ok cfg w' \<and> keeps_tokens cfg w0 w'"
  proof (rule on_sub_life)
    fix s show "\<exists>s' purge w1. (f s, purge_token e cfg sid w0) = (s', if purge then purge_token e cfg sid w1 else w1)
       \<and> same_subs w0 w1 \<and> sb_id s' = sb_id s \<and> (sb_status s' = ADOPTED \<longrightarrow> sb_status s = ADOPTED)
       \<and> (terminal s' \<longrightarrow> purge \<or> terminal s) \<and> (purge \<longrightarrow> terminal s')"
      by (rule exI [of _ "f s"], rule exI [of _ True], rule exI [of _ w0])
        (use assms(4) [of s] in \<open>auto simp: assms(3) terminal_def\<close>)
  qed
qed

lemma screening_life:
  assumes "life_ok cfg w" "set_screening_result e cfg sid stage passed ms details code w = (r, w')"
  shows "life_ok cfg w' \<and> keeps_tokens cfg w w'"
  using assms unfolding set_screening_result_def
proof (rule guarded_life)
  fix w0 assume "life_ok cfg w0" "on_sub e cfg sid (\<lambda>s w.
     let s1 = s\<lparr>sb_screening := AList.update (''stage_'' @ show_int stage)
           (JObj [(''passed'', JBool passed), (''duration_ms'', JInt ms), (''details'', JStr details),
                  (''error_code'', of_str code)]) (sb_screening s)\<rparr> in
     if passed then (s1, w)
     else (s1\<lparr>sb_status := REJECTED,
              sb_rejection_reason := Some (''Stage '' @ show_int stage @ '': '' @
                 (case code of None \<Rightarrow> ''None'' | Some c \<Rightarrow> c) @ '' '' @ em_dash @ '' '' @ details),
              sb_outcome_code := screening_outcome stage code (sb_outcome_code s)\<rparr>,
           purge_token e cfg sid w)) w0 = (r, w')" (is "on_sub e cfg sid ?f w0 = _")
  then show "life_ok cfg w' \<and> keeps_tokens cfg w0 w'"
  proof (rule on_sub_life)
    fix s show "\<exists>s' purge w1. ?f s w0 = (s', if purge then purge_token e cfg sid w1 else w1)
       \<and> same_subs w0 w1 \<and> sb_id s' = sb_id s \<and> (sb_status s' = ADOPTED \<longrightarrow> sb_status s = ADOPTED)
       \<and> (terminal s' \<longrightarrow> purge \<or> terminal s) \<and> (purge \<longrightarrow> terminal s')"
      by (rule exI [of _ "fst (?f s w0)"], rule exI [of _ "\<not> passed"], rule exI [of _ w0]) (simp add: Let_def terminal_def)
  qed
qed

lemma benchmark_life:
  assumes "life_ok cfg w" "set_benchmark_result e cfg sid valid rank details w = (r, w')"
  shows "life_ok cfg w' \<and> keeps_tokens cfg w w'"
  using assms unfolding set_benchmark_result_def
proof (rule guarded_life)
  fix w0 assume "life_ok cfg w0" "on_sub e cfg sid (\<lambda>s w.
     let s1 = (case rank of None \<Rightarrow> s | Some r \<Rightarrow> s\<lparr>sb_benchmark_rank := Some r\<rparr>);
         s2 = (case details of None \<Rightarrow> s1 | Some d \<Rightarrow> s1\<lparr>sb_benchmark_details := d\<rparr>) in
     if sb_status s \<in> no_resurrection_statuses then (s2, w)
     else if \<not> valid
     then (s2\<lparr>sb_status := REJECTED,
              sb_rejection_reason := Some (let why = or_empty (sb_rejection_reason s) in if why \<noteq> [] then why else no_value_reason)\<rparr>,
           purge_token e cfg sid w)
     else (s2\<lparr>sb_status := SCORED, sb_rejection_reason := None\<rparr>, w)) w0 = (r, w')" (is "on_sub e cfg sid ?f w0 = _")
  then show "life_ok cfg w' \<and> keeps_tokens cfg w0 w'"
  proof (rule on_sub_life)
    fix s show "\<exists>s' purge w1. ?f s w0 = (s', if purge then purge_token e cfg sid w1 else w1)
       \<and> same_subs w0 w1 \<and> sb_id s' = sb_id s \<and> (sb_status s' = ADOPTED \<longrightarrow> sb_status s = ADOPTED)
       \<and> (terminal s' \<longrightarrow> purge \<or> terminal s) \<and> (purge \<longrightarrow> terminal s')"
      by (rule exI [of _ "fst (?f s w0)"], rule exI [of _ "\<not> valid \<and> sb_status s \<notin> no_resurrection_statuses"], rule exI [of _ w0])
        (auto simp: Let_def terminal_def no_resurrection_statuses_def split: option.splits)
  qed
qed

lemma names_same:
  assumes "sidecar_read w"
  shows "same_subs w (maybe_reload_names cfg w)" "same_subs w w1 \<Longrightarrow> same_subs w (persist_names e cfg (fst w1\<lparr>ss_names := ns\<rparr>, snd w1))"
  by (auto simp: same_subs_def maybe_reload_names_def load_names_def persist_names_def split: prod.splits option.splits)

lemma solver_info_life:
  assumes "life_ok cfg w" "set_solver_info e cfg sid name ver w = (r, w')"
  shows "life_ok cfg w' \<and> keeps_tokens cfg w w'"
  using assms unfolding set_solver_info_def
proof (rule guarded_life)
  fix w0 assume ok: "life_ok cfg w0" and "on_sub e cfg sid (\<lambda>s w.
     let s1 = s\<lparr>sb_solver_name := name, sb_solver_version := ver, sb_is_copycat := False, sb_coined_by := None\<rparr>;
         norm = normalize_solver_name name in
     if norm = [] \<or> norm \<in> set (exempt_names (c_uncoinable cfg)) then (s1, w)
     else case maybe_reload_names cfg w of (st, fs) \<Rightarrow>
       (case map_of (ss_names st) norm of
          None \<Rightarrow> (s1, persist_names e cfg (st\<lparr>ss_names := AList.update norm
             \<lparr>ne_owner_hotkey = sb_hotkey s, ne_coined_at = e_now e, ne_submission_id = sid, ne_display = name\<rparr> (ss_names st)\<rparr>, fs))
        | Some entry \<Rightarrow>
            (if ne_owner_hotkey entry \<noteq> sb_hotkey s
             then s1\<lparr>sb_is_copycat := True, sb_coined_by := Some (ne_owner_hotkey entry)\<rparr> else s1, st, fs))) w0 = (r, w')"
    (is "on_sub e cfg sid ?f w0 = _")
  from this show "life_ok cfg w' \<and> keeps_tokens cfg w0 w'"
  proof (rule on_sub_life)
    fix s
    obtain st fs where st: "maybe_reload_names cfg w0 = (st, fs)" by fastforce
    note same = names_same(1) [OF life_okD(1) [OF ok], of cfg, unfolded st]
    show "\<exists>s' purge w1. ?f s w0 = (s', if purge then purge_token e cfg sid w1 else w1)
       \<and> same_subs w0 w1 \<and> sb_id s' = sb_id s \<and> (sb_status s' = ADOPTED \<longrightarrow> sb_status s = ADOPTED)
       \<and> (terminal s' \<longrightarrow> purge \<or> terminal s) \<and> (purge \<longrightarrow> terminal s')"
      by (rule exI [of _ "fst (?f s w0)"], rule exI [of _ False], rule exI [of _ "snd (?f s w0)"])
        (use same names_same(2) [OF life_okD(1) [OF ok] same] in
          \<open>auto simp: Let_def terminal_def st split: option.splits\<close>)
  qed
qed

lemma token_cache_life:
  assumes ok: "life_ok cfg w" and run: "get_repo_token cfg sid w = (t, w')"
  shows "life_ok cfg w' \<and> keeps_tokens cfg w w'"
proof -
  note read = life_okD(1) [OF ok]
  have w': "w' = w \<or> (\<exists>v. map_of (ss_tokens (fst w)) sid = None \<and> token_of cfg w sid = Some v \<and>
      w' = (fst w\<lparr>ss_tokens := AList.update sid v (ss_tokens (fst w))\<rparr>, snd w))"
    using run reload_tokens_idle [OF read, of cfg]
    by (cases w) (auto simp: get_repo_token_def token_of_def split: option.splits if_splits dest: sym [of "Some _"])
  have tok: "token_of cfg w' k = token_of cfg w k" for k
    using w' read by (auto simp: token_of_eq dict_simps split: option.splits)
  have "lookup w' = lookup w" "sidecar_read w'" "own_rows cfg w'"
    using w' read life_okD(2) [OF ok] by auto
  then show ?thesis using ok tok unfolding life_ok_def keeps_tokens_def by simp
qed

text \<open>Writing the encrypted copy of a cached token.\<close>

lemma enc_token_life:
  assumes ok: "life_ok cfg w" and mem: "map_of (ss_tokens (fst w)) sid = Some tk"
    and w': "w' = persist_tokens e cfg (fst w\<lparr>ss_enc_tokens := AList.update sid b (ss_enc_tokens (fst w))\<rparr>, snd w)"
  shows "life_ok cfg w'" "lookup w' = lookup w" "lookup w k \<noteq> None \<Longrightarrow> token_of cfg w' k = token_of cfg w k"
proof -
  note d = life_okD [OF ok]
  show l: "lookup w' = lookup w" by (simp add: w' lookup_def fun_eq_iff)
  have r': "sidecar_read w'"
    unfolding w' by (rule sidecar_read_persist_tokens) (use d(1) in \<open>simp add: sidecar_read_def\<close>)
  have ts: "ss_tokens (fst w') = ss_tokens (fst w)" by (simp add: w')
  have en: "map_of (ss_enc_tokens (fst w')) k =
      (if tokens_path cfg \<and> lookup w k = None then None else if k = sid then Some b else map_of (ss_enc_tokens (fst w)) k)" for k
    by (simp add: w' persist_tokens_enc dict_simps lookup_def)
  show "lookup w k \<noteq> None \<Longrightarrow> token_of cfg w' k = token_of cfg w k" for k
    using mem by (auto simp: token_of_eq [OF r'] token_of_eq [OF d(1)] ts en split: option.splits)
  have less: "token_of cfg w' k \<noteq> None \<Longrightarrow> token_of cfg w k \<noteq> None" for k
    using mem by (auto simp: token_of_eq [OF r'] token_of_eq [OF d(1)] ts en split: option.splits if_splits)
  show "life_ok cfg w'"
  proof (rule life_okI)
    show "own_rows cfg w'" using d(2) by (simp add: w' own_rows_def)
    show "\<exists>s. lookup w' k = Some s \<and> \<not> terminal s" if "token_of cfg w' k = Some t" for k t
      using less [of k] that d(5) [of k] by (auto simp: l)
  qed (use r' l d(3,4) in auto)
qed

text \<open>The world in which the new record is indexed and its token cached.\<close>

lemma indexed_life:
  assumes ok: "life_ok cfg w" and new: "lookup w sid = None"
    and s: "sb_id s = sid" "\<not> terminal s"
    and w1: "w1 = (index_sub s (if tk \<noteq> [] then fst w\<lparr>ss_tokens := AList.update sid tk (ss_tokens (fst w))\<rparr> else fst w), snd w)"
  shows "life_ok cfg w1" "keeps_tokens cfg w w1" "lookup w1 k = (if k = sid then Some s else lookup w k)"
proof -
  note d = life_okD [OF ok]
  have notok: "token_of cfg w sid = None" using new d(5) [of sid] by (cases "token_of cfg w sid") auto
  show l1: "lookup w1 k = (if k = sid then Some s else lookup w k)" for k
    by (simp add: w1 lookup_def index_sub_def dict_simps s)
  have r1: "sidecar_read w1" using d(1) by (simp add: w1 sidecar_read_def index_sub_def)
  have o1: "own_rows cfg w1" using d(2) by (simp add: w1 own_rows_def index_sub_def)
  have t1: "token_of cfg w1 k = (if k = sid \<and> tk \<noteq> [] then Some tk else token_of cfg w k)" for k
  proof -
    have "map_of (ss_tokens (fst w1)) k = (if k = sid \<and> tk \<noteq> [] then Some tk else map_of (ss_tokens (fst w)) k)"
      "ss_enc_tokens (fst w1) = ss_enc_tokens (fst w)"
      by (simp_all add: w1 index_sub_def dict_simps)
    then show ?thesis by (simp add: token_of_eq [OF r1] token_of_eq [OF d(1)] cong: option.case_cong)
  qed
  have na: "sb_status s \<noteq> ADOPTED" using s(2) by (auto simp: terminal_def)
  show "life_ok cfg w1"
    by (rule life_okI) (use r1 o1 l1 t1 s na d notok in \<open>auto split: if_splits\<close>)
  show "keeps_tokens cfg w w1" using t1 notok by (auto simp: keeps_tokens_def)
qed

lemma create_life:
  assumes ok: "life_ok cfg w" and run: "create e cfg sid r w = (res, w')" and fresh: "lookup w sid = None"
  shows "life_ok cfg w' \<and> keeps_tokens cfg w w'"
  using ok run unfolding create_def
proof (rule guarded_life)
  fix w0 assume ok: "life_ok cfg w0" and look: "lookup w0 = lookup w" and run: "create_body e cfg sid r w0 = (res, w')"
  show "life_ok cfg w' \<and> keeps_tokens cfg w0 w'"
  proof (cases "create_refused r (fst w0)")
    case (Some msg)
    then show ?thesis using run ok by (cases w0) (simp add: create_body_def keeps_refl)
  next
    case None
    define s where "s = new_submission sid (cr_repo_url r) (cr_commit_hash r) (cr_epoch r) (cr_hotkey r) (resolved_round_id r)
       (cr_pr_number r) (cr_is_private r) (cr_private_repo_full r) (none_if_empty (cr_github_owner r)) (e_now e)"
    define tk where "tk = or_empty (cr_repo_token r)"
    define w1 where "w1 = (index_sub s (if tk \<noteq> [] then fst w0\<lparr>ss_tokens := AList.update sid tk (ss_tokens (fst w0))\<rparr> else fst w0), snd w0)"
    define w2 where "w2 = persist_records e cfg [sid] w1"
    have w': "w' = (if tk \<noteq> [] \<and> tokens_path cfg
        then persist_tokens e cfg (fst w2\<lparr>ss_enc_tokens := AList.update sid (c_encrypt cfg tk) (ss_enc_tokens (fst w2))\<rparr>, snd w2) else w2)"
      using run None
      by (cases w0) (auto simp: create_body_def Let_def s_def tk_def w1_def w2_def case_prod_unfold split: if_splits)
    have new: "lookup w0 sid = None" using fresh look by simp
    have s: "sb_id s = sid" "\<not> terminal s" by (simp_all add: s_def new_submission_def terminal_def)
    note i = indexed_life [OF ok new s w1_def]
    note ok2 = life_persist [OF i(1), of e "[sid]", folded w2_def]
      and k2 = keeps_persist [OF i(2) life_okD(1) [OF i(1)], of e "[sid]", folded w2_def]
    show ?thesis
    proof (cases "tk \<noteq> [] \<and> tokens_path cfg")
      case False
      then show ?thesis using w' ok2 k2 by auto
    next
      case True
      have mem: "map_of (ss_tokens (fst w2)) sid = Some tk" using True by (simp add: w2_def w1_def index_sub_def dict_simps)
      have eq: "w' = persist_tokens e cfg (fst w2\<lparr>ss_enc_tokens := AList.update sid (c_encrypt cfg tk) (ss_enc_tokens (fst w2))\<rparr>, snd w2)"
        using w' True by simp
      note f = enc_token_life [OF ok2 mem eq]
      have "lookup w2 k \<noteq> None" if "token_of cfg w0 k = Some t" for k t
      proof -
        have "lookup w1 k \<noteq> None" using life_okD(5) [OF ok that] i(3) by auto
        then show ?thesis using persist_lookup_some [of w1 k _ e cfg "[sid]"] by (auto simp: w2_def)
      qed
      then have "keeps_tokens cfg w0 w'" using k2 f(2,3) unfolding keeps_tokens_def by metis
      with f(1) show ?thesis by simp
    qed
  qed
qed

text \<open>Demoting the champion keeps tokens as they are.\<close>

definition demoted :: "op_env \<Rightarrow> string \<Rightarrow> submission \<Rightarrow> submission" where
  "demoted e sid s = (if sb_status s = ADOPTED \<and> sb_id s \<noteq> sid then s\<lparr>sb_status := SCORED, sb_updated_at := e_now e\<rparr> else s)"

lemma demoted_id [simp]: "sb_id (demoted e sid s) = sb_id s"
  by (simp add: demoted_def)

lemma unadopt_subs: "ss_subs (snd (unadopt e sid st)) = map (\<lambda>(k, s). (k, demoted e sid s)) (ss_subs st)"
  by (auto simp: unadopt_def demoted_def)

lemma unadopt_life:
  assumes ok: "life_ok cfg w" and w1: "w1 = (snd (unadopt e sid (fst w)), snd w)"
  shows "life_ok cfg w1" "keeps_tokens cfg w w1" "lookup w1 k = map_option (demoted e sid) (lookup w k)"
    "lookup w1 j = Some s \<Longrightarrow> sb_status s = ADOPTED \<Longrightarrow> j = sid"
proof -
  note d = life_okD [OF ok]
  have frame: "ss_tokens (fst w1) = ss_tokens (fst w)" "ss_enc_tokens (fst w1) = ss_enc_tokens (fst w)"
    "ss_tokens_mtime (fst w1) = ss_tokens_mtime (fst w)" "ss_last_seen (fst w1) = ss_last_seen (fst w)" "snd w1 = snd w"
    by (simp_all add: w1 unadopt_def)
  show l1: "lookup w1 k = map_option (demoted e sid) (lookup w k)" for k
    by (simp add: lookup_def w1 unadopt_subs map_of_mapped)
  have r1: "sidecar_read w1" using d(1) frame by (simp add: sidecar_read_def)
  have t1: "token_of cfg w1 k = token_of cfg w k" for k
    by (simp add: token_of_eq [OF r1] token_of_eq [OF d(1)] frame cong: option.case_cong)
  have "sb_status (demoted e sid s) = ADOPTED \<Longrightarrow> sb_id s = sid" for s by (auto simp: demoted_def split: if_splits)
  then show only: "lookup w1 j = Some s \<Longrightarrow> sb_status s = ADOPTED \<Longrightarrow> j = sid" for j s
    using d(3) by (auto simp: l1)
  show "life_ok cfg w1"
  proof (rule life_okI)
    show "own_rows cfg w1" using d(2) frame by (simp add: own_rows_def)
    show "sb_id s = k" if "lookup w1 k = Some s" for k s using that d(3) by (auto simp: l1)
    show "\<exists>s. lookup w1 k = Some s \<and> \<not> terminal s" if "token_of cfg w1 k = Some t" for k t
      using d(5) [of k t] that t1 by (auto simp: l1 demoted_def terminal_def)
  qed (use r1 only in auto)
  show "keeps_tokens cfg w w1" using t1 by (simp add: keeps_tokens_def)
qed

lemma keeps_trans:
  assumes "keeps_tokens cfg w0 w1" "keeps_tokens cfg w1 w2"
    and "\<And>k s. lookup w1 k = Some s \<Longrightarrow> terminal s \<Longrightarrow> token_of cfg w1 k = None \<Longrightarrow> token_of cfg w2 k = None \<and> (\<exists>s'. lookup w2 k = Some s' \<and> terminal s')"
  shows "keeps_tokens cfg w0 w2"
  using assms unfolding keeps_tokens_def by metis

text \<open>The champion's token is dropped after the record is marked.\<close>

lemma crown_life:
  assumes ok: "life_ok cfg w" and s: "lookup w sid = Some s" and only: "\<And>k s. lookup w k = Some s \<Longrightarrow> sb_status s = ADOPTED \<Longrightarrow> k = sid"
    and s': "sb_id s' = sid" "sb_status s' = ADOPTED"
    and w': "w' = purge_token e cfg sid (put_sub sid s' w)"
  shows "life_ok cfg w'" "keeps_tokens cfg w w'" "lookup w' k = (if k = sid then Some s' else lookup w k)"
proof -
  note d = life_okD [OF ok]
  let ?w1 = "put_sub sid s' w"
  have r1: "sidecar_read ?w1" using d(1) by simp
  show l: "lookup w' k = (if k = sid then Some s' else lookup w k)" for k using r1 by (simp add: w')
  have r': "sidecar_read w'" using r1 by (simp add: w')
  have known: "token_of cfg w' k = (if k = sid then None else token_of cfg w k)" if "lookup w k \<noteq> None" for k
    using token_of_purge_known [OF r1, of k cfg e sid] that d(1) by (simp add: w')
  have less: "token_of cfg w' k \<noteq> None \<Longrightarrow> lookup w k \<noteq> None" for k
    using token_of_purge_less [OF r1, of cfg e sid k] d(1) d(5) [of k] by (auto simp: w')
  show "life_ok cfg w'"
  proof (rule life_okI)
    show "own_rows cfg w'" using d(1,2) r1 by (simp add: w' own_rows_def put_sub_def)
    show "sb_id x = k" if "lookup w' k = Some x" for k x using that s' d(3) by (auto simp: l split: if_splits)
    show "\<exists>x. lookup w' k = Some x \<and> \<not> terminal x" if "token_of cfg w' k = Some t" for k t
      using known [OF less, of k] that d(5) [of k t] by (auto simp: l split: if_splits)
  qed (use r' l only in \<open>auto split: if_splits\<close>)
  show "keeps_tokens cfg w w'"
    unfolding keeps_tokens_def
  proof (intro allI impI)
    fix k t assume "token_of cfg w k = Some t"
    moreover from this have "lookup w k \<noteq> None" using d(5) by force
    ultimately show "token_of cfg w' k = Some t \<or> token_of cfg w' k = None \<and> (\<exists>s. lookup w' k = Some s \<and> terminal s)"
      using known [of k] s' by (simp add: l terminal_def)
  qed
qed

lemma adopt_outcome:
  assumes ok: "life_ok cfg w" and run: "adopt e cfg sid w = (r, w')"
  obtains w1 where "life_ok cfg w1" "keeps_tokens cfg w w1" "\<And>k. lookup w1 k = map_option (demoted e sid) (lookup w k)"
    "lookup w sid = None" "r = Inl (KeyError sid)" "w' = w1" "snd w1 = snd w"
  | w2 ids s where "life_ok cfg w2" "keeps_tokens cfg w w2" "lookup w sid = Some s" "r = Inr ()" "w' = persist_records e cfg ids w2"
    "\<And>k. lookup w2 k = (if k = sid then Some (s\<lparr>sb_status := ADOPTED, sb_updated_at := e_now e\<rparr>) else map_option (demoted e sid) (lookup w k))"
proof -
  let ?w0 = "maybe_reload e cfg w"
  have same: "same_subs w ?w0" using ok by (rule reload_same)
  note ok0 = same_subs_life [OF same ok] and look0 = same_subs_frame(1) [OF same]
  define w1 where "w1 = (snd (unadopt e sid (fst ?w0)), snd ?w0)"
  note u = unadopt_life [OF ok0 w1_def]
  have k1: "keeps_tokens cfg w w1" using same_subs_keeps [OF same ok u(2)] .
  obtain n where "?w0 = (fst w\<lparr>ss_last_seen := n\<rparr>, snd w)" using reload_own [OF life_okD(2) [OF ok], of e] .
  then have files: "snd ?w0 = snd w" by simp
  show thesis
  proof (cases "lookup w sid")
    case None
    then have "lookup w1 sid = None" using u(3) [of sid] by (simp add: look0)
    then have "r = Inl (KeyError sid)" "w' = w1"
      using run by (auto simp: adopt_def guarded_def w1_def lookup_def split: prod.splits)
    moreover have "snd w1 = snd w" using files by (simp add: w1_def)
    moreover have "lookup w1 k = map_option (demoted e sid) (lookup w k)" for k using u(3) look0 by simp
    ultimately show thesis using None by (intro that(1) [OF u(1) k1])
  next
    case (Some s)
    have s1: "lookup w1 sid = Some s" using u(3) [of sid] Some life_okD(3) [OF ok Some] by (simp add: look0 demoted_def)
    let ?s = "s\<lparr>sb_status := ADOPTED, sb_updated_at := e_now e\<rparr>"
    define w2 where "w2 = purge_token e cfg sid (put_sub sid ?s w1)"
    have id: "sb_id ?s = sid" using life_okD(3) [OF ok Some] by simp
    have crowned: "sb_status ?s = ADOPTED" by simp
    have c: "life_ok cfg w2" "keeps_tokens cfg w1 w2" "lookup w2 k = (if k = sid then Some ?s else lookup w1 k)" for k
      by (rule crown_life [OF u(1) s1 _ id crowned w2_def], rule u(4); assumption)+
    have "r = Inr ()" "w' = persist_records e cfg (fst (unadopt e sid (fst ?w0)) @ [sid]) w2"
      using run s1 by (auto simp: adopt_def guarded_def w1_def w2_def lookup_def put_sub_def split: prod.splits)
    moreover have "keeps_tokens cfg w w2"
    proof (rule keeps_trans [OF k1 c(2)])
      fix k x assume "lookup w1 k = Some x" "terminal x" "token_of cfg w1 k = None"
      then show "token_of cfg w2 k = None \<and> (\<exists>s'. lookup w2 k = Some s' \<and> terminal s')"
        using c(3) [where k = k] life_okD(5) [OF c(1), where k = k] by (cases "token_of cfg w2 k") (auto simp: terminal_def split: if_splits)
    qed
    moreover have "lookup w2 k = (if k = sid then Some ?s else map_option (demoted e sid) (lookup w k))" for k
      using c(3) u(3) look0 by simp
    ultimately show thesis using Some c(1) by (intro that(2) [of w2 s]) simp_all
  qed
qed

lemma adopt_life:
  assumes "life_ok cfg w" "adopt e cfg sid w = (r, w')"
  shows "life_ok cfg w' \<and> keeps_tokens cfg w w'"
  using assms by (rule adopt_outcome) (auto intro: life_persist keeps_persist dest: life_okD(1))

lemma same_status_life:
  assumes ok: "life_ok cfg w" and files: "snd w' = snd w"
    and mem: "ss_tokens (fst w') = ss_tokens (fst w)" "ss_enc_tokens (fst w') = ss_enc_tokens (fst w)"
      "ss_tokens_mtime (fst w') = ss_tokens_mtime (fst w)" "ss_last_seen (fst w') = ss_last_seen (fst w)"
    and subs: "\<And>k. rel_option (\<lambda>s s'. sb_id s' = sb_id s \<and> sb_status s' = sb_status s) (lookup w k) (lookup w' k)"
  shows "life_ok cfg w' \<and> keeps_tokens cfg w w'"
proof -
  note d = life_okD [OF ok]
  have bwd: "\<exists>s. lookup w k = Some s \<and> sb_id s' = sb_id s \<and> sb_status s' = sb_status s" if "lookup w' k = Some s'" for k s'
    using subs [of k] that by (cases "lookup w k") auto
  have fwd: "\<exists>s'. lookup w' k = Some s' \<and> sb_status s' = sb_status s" if "lookup w k = Some s" for k s
    using subs [of k] that by (cases "lookup w' k") auto
  have r': "sidecar_read w'" using d(1) by (simp add: sidecar_read_def files mem)
  have t': "token_of cfg w' k = token_of cfg w k" for k
    by (simp add: token_of_eq [OF r'] token_of_eq [OF d(1)] mem cong: option.case_cong)
  have "life_ok cfg w'"
  proof (rule life_okI)
    show "own_rows cfg w'" using d(2) by (simp add: own_rows_def files mem)
    show "sb_id s = k" if "lookup w' k = Some s" for k s using bwd [OF that] d(3) by auto
    show "k = k'" if "lookup w' k = Some s" "lookup w' k' = Some s'" "sb_status s = ADOPTED" "sb_status s' = ADOPTED" for k k' s s'
      using bwd [OF that(1)] bwd [OF that(2)] that(3,4) d(4) by metis
    show "\<exists>s. lookup w' k = Some s \<and> \<not> terminal s" if "token_of cfg w' k = Some t" for k t
      using d(5) [of k t] that fwd [of k] by (fastforce simp: t' terminal_def)
  qed (rule r')
  then show ?thesis by (simp add: keeps_tokens_def t')
qed

definition rank_step :: "op_env \<Rightarrow> sub_store \<Rightarrow> string \<times> int \<Rightarrow> sub_store" where
  "rank_step e st p = (case p of (sid, r) \<Rightarrow> (case map_of (ss_subs st) sid of None \<Rightarrow> st
     | Some s \<Rightarrow> st\<lparr>ss_subs := AList.update sid (s\<lparr>sb_benchmark_rank := Some r, sb_updated_at := e_now e\<rparr>) (ss_subs st)\<rparr>))"

lemma rank_steps:
  "ss_tokens (foldl (rank_step e) st ps) = ss_tokens st \<and> ss_enc_tokens (foldl (rank_step e) st ps) = ss_enc_tokens st
   \<and> ss_tokens_mtime (foldl (rank_step e) st ps) = ss_tokens_mtime st \<and> ss_last_seen (foldl (rank_step e) st ps) = ss_last_seen st
   \<and> rel_option (\<lambda>s s'. sb_id s' = sb_id s \<and> sb_status s' = sb_status s) (map_of (ss_subs st) k) (map_of (ss_subs (foldl (rank_step e) st ps)) k)"
proof (induction ps rule: rev_induct)
  case Nil
  then show ?case by (simp add: option.rel_refl)
next
  case (snoc p ps)
  then show ?case
    by (auto simp: rank_step_def dict_simps option_rel_Some1 option_rel_Some2 split: prod.splits option.splits)
qed

lemma ranks_life:
  assumes "life_ok cfg w"
  shows "life_ok cfg (set_benchmark_ranks e cfg ranks w) \<and> keeps_tokens cfg w (set_benchmark_ranks e cfg ranks w)"
proof -
  let ?w0 = "maybe_reload e cfg w"
  have same: "same_subs w ?w0" using assms by (rule reload_same)
  let ?w1 = "(foldl (rank_step e) (fst ?w0) ranks, snd ?w0)"
  have eq: "\<exists>ids. set_benchmark_ranks e cfg ranks w = persist_records e cfg ids ?w1"
    by (auto simp: set_benchmark_ranks_def guarded_def rank_step_def [abs_def] Let_def case_prod_unfold)
  have "life_ok cfg ?w1 \<and> keeps_tokens cfg ?w0 ?w1"
    by (rule same_status_life) (use rank_steps [of e "fst ?w0" ranks] same_subs_life [OF same assms] in \<open>simp_all add: lookup_def\<close>)
  then show ?thesis using eq same_subs_keeps [OF same assms] life_persist keeps_persist life_okD(1) by metis
qed

section \<open>Runs of one process\<close>

text \<open>The operations of the life cycle, in any order. Records that other processes or the leader's snapshot bring in
  (\<open>upsert_submissions\<close>) and the unconditional \<open>update_status\<close> are not among them.\<close>

inductive life_step :: "sub_cfg \<Rightarrow> world \<Rightarrow> world \<Rightarrow> bool" for cfg where
  step_create: "create e cfg sid r w = (res, w') \<Longrightarrow> lookup w sid = None \<Longrightarrow> life_step cfg w w'"
| step_screening: "set_screening_result e cfg sid stage passed ms details code w = (res, w') \<Longrightarrow> life_step cfg w w'"
| step_benchmark: "set_benchmark_result e cfg sid valid rank details w = (res, w') \<Longrightarrow> life_step cfg w w'"
| step_reject: "reject e cfg sid why code w = (res, w') \<Longrightarrow> life_step cfg w w'"
| step_waitlist: "waitlist e cfg sid why oc pos n slots w = (res, w') \<Longrightarrow> life_step cfg w w'"
| step_adopt: "adopt e cfg sid w = (res, w') \<Longrightarrow> life_step cfg w w'"
| step_solver_info: "set_solver_info e cfg sid name ver w = (res, w') \<Longrightarrow> life_step cfg w w'"
| step_image_tag: "set_image_tag e cfg sid v w = (res, w') \<Longrightarrow> life_step cfg w w'"
| step_image_id: "set_image_id e cfg sid v w = (res, w') \<Longrightarrow> life_step cfg w w'"
| step_image_digest: "set_image_digest e cfg sid v w = (res, w') \<Longrightarrow> life_step cfg w w'"
| step_fingerprint: "set_content_fingerprint e cfg sid v w = (res, w') \<Longrightarrow> life_step cfg w w'"
| step_region_nodes: "set_max_region_nodes e cfg sid i w = (res, w') \<Longrightarrow> life_step cfg w w'"
| step_deadwood: "set_deadwood_metric e cfg sid nodes i js w = (res, w') \<Longrightarrow> life_step cfg w w'"
| step_provenance: "set_provenance e cfg sid js w = (res, w') \<Longrightarrow> life_step cfg w w'"
| step_solver_path: "set_solver_path e cfg sid v w = (res, w') \<Longrightarrow> life_step cfg w w'"
| step_rank: "set_benchmark_rank e cfg sid i w = (res, w') \<Longrightarrow> life_step cfg w w'"
| step_merge: "merge_benchmark_details e cfg sid extra w = (res, w') \<Longrightarrow> life_step cfg w w'"
| step_ranks: "life_step cfg w (set_benchmark_ranks e cfg ranks w)"
| step_token: "get_repo_token cfg sid w = (t, w') \<Longrightarrow> life_step cfg w w'"

lemmas field_setters = set_image_tag_def set_image_id_def set_image_digest_def set_content_fingerprint_def
  set_max_region_nodes_def set_deadwood_metric_def set_provenance_def set_solver_path_def set_benchmark_rank_def
  merge_benchmark_details_def

lemma life_step_ok:
  assumes "life_step cfg w w'" "life_ok cfg w"
  shows "life_ok cfg w' \<and> keeps_tokens cfg w w'"
  using assms
proof (induction rule: life_step.induct)
  case (step_reject e sid why code w res w')
  show ?case by (rule terminal_life [OF step_reject(2) step_reject(1) [unfolded reject_def]]) simp_all
next
  case (step_waitlist e sid why oc pos n slots w res w')
  show ?case by (rule terminal_life [OF step_waitlist(2) step_waitlist(1) [unfolded waitlist_def]]) simp_all
qed ((rule screening_life benchmark_life adopt_life solver_info_life token_cache_life, assumption, assumption)
     | (rule create_life, assumption, assumption, assumption) | (rule ranks_life, assumption)
     | ((unfold field_setters)?, rule set_field_life, assumption, assumption, simp, simp))+

text \<open>An empty store over an empty database.\<close>

definition fresh_files :: sub_files where
  "fresh_files = \<lparr>sf_db = empty_db, sf_tokens = None, sf_names = None, sf_clock = 0\<rparr>"

lemma life_ok_empty: "life_ok cfg (empty_store, fresh_files)"
proof -
  have r: "sidecar_read (empty_store, fresh_files)" by (simp add: sidecar_read_def fresh_files_def)
  have "token_of cfg (empty_store, fresh_files) k = None" for k
    unfolding token_of_eq [OF r] by (simp add: empty_store_def)
  then show ?thesis
    by (intro life_okI) (rule r, simp_all add: own_rows_def lookup_def empty_store_def fresh_files_def empty_db_def)
qed

definition life_runs :: "sub_cfg \<Rightarrow> world \<Rightarrow> bool" where
  "life_runs cfg w \<longleftrightarrow> (life_step cfg)\<^sup>*\<^sup>* (empty_store, fresh_files) w"

lemma life_runs_ok: "life_runs cfg w \<Longrightarrow> life_ok cfg w"
  unfolding life_runs_def by (induction rule: rtranclp_induct) (auto intro: life_ok_empty dest: life_step_ok)

section \<open>A small run\<close>

text \<open>One private submission is created with its token, scored and adopted; the next one is waitlisted. The cipher is reversal.\<close>

definition demo_cfg :: sub_cfg where
  "demo_cfg = \<lparr>c_writer_id = ''api'', c_persist = True, c_token_key = True, c_encrypt = rev, c_decrypt = (\<lambda>b. Some (rev b)),
     c_details_cap = 2, c_max_records = 0, c_xproc_sync = True, c_uncoinable = None\<rparr>"

definition demo_env :: op_env where
  "demo_env = \<lparr>e_now = 5, e_commits = True, e_seq_read = True, e_rows_read = True, e_tokens_written = True, e_names_written = True\<rparr>"

definition demo_req :: "string \<Rightarrow> create_req" where
  "demo_req hk = \<lparr>cr_repo_url = ''r'', cr_commit_hash = ''c'', cr_epoch = 7, cr_hotkey = hk, cr_round_id = Some ''R1'',
     cr_pr_number = None, cr_max_per_round = 1, cr_max_total_per_round = 2, cr_is_private = True, cr_private_repo_full = None,
     cr_repo_token = Some ''pat'', cr_github_owner = Some ''Gh'', cr_max_per_owner = 2, cr_max_rounds_per_commit = 1\<rparr>"

definition demo_w0 :: world where "demo_w0 = (empty_store, fresh_files)"
definition demo_w1 :: world where "demo_w1 = snd (create demo_env demo_cfg ''s1'' (demo_req ''h1'') demo_w0)"
definition demo_w2 :: world where "demo_w2 = snd (create demo_env demo_cfg ''s2'' (demo_req ''h2'') demo_w1)"
definition demo_w3 :: world where "demo_w3 = snd (adopt demo_env demo_cfg ''s1'' demo_w2)"
definition demo_w4 :: world where "demo_w4 = snd (waitlist demo_env demo_cfg ''s2'' ''why'' ''code'' None None None demo_w3)"

lemma demo_runs: "life_runs demo_cfg demo_w0" "life_runs demo_cfg demo_w1" "life_runs demo_cfg demo_w2" "life_runs demo_cfg demo_w3"
proof -
  show r0: "life_runs demo_cfg demo_w0" by (simp add: life_runs_def demo_w0_def)
  have n: "lookup demo_w0 ''s1'' = None" "lookup demo_w1 ''s2'' = None" by code_simp+
  have "life_step demo_cfg demo_w0 demo_w1"
    by (rule step_create [of demo_env demo_cfg "''s1''" "demo_req ''h1''" demo_w0 _ demo_w1, OF _ n(1)]) (simp add: demo_w1_def prod_eq_iff)
  then show r1: "life_runs demo_cfg demo_w1" using r0 unfolding life_runs_def by (rule rtranclp.rtrancl_into_rtrancl [rotated])
  have "life_step demo_cfg demo_w1 demo_w2"
    by (rule step_create [of demo_env demo_cfg "''s2''" "demo_req ''h2''" demo_w1 _ demo_w2, OF _ n(2)]) (simp add: demo_w2_def prod_eq_iff)
  then show r2: "life_runs demo_cfg demo_w2" using r1 unfolding life_runs_def by (rule rtranclp.rtrancl_into_rtrancl [rotated])
  have "life_step demo_cfg demo_w2 demo_w3"
    by (rule step_adopt [of demo_env demo_cfg "''s1''" demo_w2 _ demo_w3]) (simp add: demo_w3_def prod_eq_iff)
  then show "life_runs demo_cfg demo_w3" using r2 unfolding life_runs_def by (rule rtranclp.rtrancl_into_rtrancl [rotated])
qed


lemma demo_facts:
  "lookup (maybe_reload demo_env demo_cfg demo_w0) ''s1'' = None"
  "lookup demo_w1 ''s2'' = None"
  "lookup demo_w3 ''zz'' = None"
  "map_option sb_status (lookup demo_w3 ''s1'') = Some ADOPTED"
  "map_option sb_status (lookup demo_w4 ''s2'') = Some WAITLISTED"
  "map_option sb_status (lookup (maybe_reload demo_env demo_cfg demo_w4) ''s2'') = Some WAITLISTED"
  "map_option sb_hotkey (lookup (maybe_reload demo_env demo_cfg demo_w1) ''s1'') = Some ''h1''"
  "token_of demo_cfg demo_w3 ''s2'' = Some ''pat''"
  "normalize_solver_name (Some ''King'') = ''king''"
  "exempt_names (c_uncoinable demo_cfg) = [''my-swap-solver'', ''baseline-swap-solver'', ''unknown'']"
  by code_simp+

section \<open>Properties\<close>

text \<open>Claim C13: the caps of the intake hold at the store itself: after a submission is accepted, its miner, its GitHub account
  and its round are within their limits, counting submissions of every status, and the exact commit had not used up the
  rounds it may be benchmarked in.\<close>

theorem create_within_caps:
  assumes "create e cfg sid r w = (Inr s, w')" "lookup (maybe_reload e cfg w) sid = None"
  shows "(0 < cr_max_per_round r \<longrightarrow> int (count_by_hotkey_round (cr_hotkey r) (resolved_round_id r) (fst w')) \<le> cr_max_per_round r)
    \<and> (or_empty (cr_github_owner r) \<noteq> [] \<and> 0 < cr_max_per_owner r \<longrightarrow>
         int (count_by_owner_round (cr_github_owner r) (resolved_round_id r) (fst w')) \<le> cr_max_per_owner r)
    \<and> (0 < cr_max_total_per_round r \<longrightarrow> int (count_by_round (resolved_round_id r) (fst w')) \<le> cr_max_total_per_round r)
    \<and> (0 < cr_max_rounds_per_commit r \<longrightarrow>
         int (count_benched_rounds_by_commit (cr_hotkey r) (cr_commit_hash r) (fst (maybe_reload e cfg w))) < cr_max_rounds_per_commit r)"
proof -
  obtain st fs where st: "maybe_reload e cfg w = (st, fs)" "create_refused r st = None"
    and s: "s = new_submission sid (cr_repo_url r) (cr_commit_hash r) (cr_epoch r) (cr_hotkey r) (resolved_round_id r)
       (cr_pr_number r) (cr_is_private r) (cr_private_repo_full r) (none_if_empty (cr_github_owner r)) (e_now e)"
    and cnt: "\<And>P. (\<And>x. P (undetailed x) = P x) \<Longrightarrow>
       length (filter P (subs_of (fst w'))) = length (filter P (subs_of st)) + (if P s then 1 else 0)"
    using create_accepted [OF assms] by blast
  have one: "count_by_hotkey_round h q (fst w') \<le> Suc (count_by_hotkey_round h q st)"
    "count_by_owner_round g q (fst w') \<le> Suc (count_by_owner_round g q st)"
    "count_by_round q (fst w') \<le> Suc (count_by_round q st)" for h q g
    by (simp_all add: count_by_hotkey_round_def count_by_owner_round_def count_by_round_def Let_def cnt)
  show ?thesis
    using st(2) one(1) [of "cr_hotkey r" "resolved_round_id r"] one(2) [of "cr_github_owner r" "resolved_round_id r"]
      one(3) [of "resolved_round_id r"]
    by (auto simp: create_refused_def st(1) Let_def split: if_splits)
qed

theorem create_within_caps_witness:
  "int (count_by_hotkey_round ''h1'' ''R1'' (fst demo_w1)) \<le> 1 \<and> int (count_by_round ''R1'' (fst demo_w1)) \<le> 2"
proof -
  have "fst (create demo_env demo_cfg ''s1'' (demo_req ''h1'') demo_w0) = Inr (the (lookup demo_w1 ''s1''))" by code_simp
  then have "create demo_env demo_cfg ''s1'' (demo_req ''h1'') demo_w0 = (Inr (the (lookup demo_w1 ''s1'')), demo_w1)"
    by (simp add: demo_w1_def prod_eq_iff)
  moreover have "resolved_round_id (demo_req ''h1'') = ''R1''" by code_simp
  ultimately show ?thesis using create_within_caps [OF _ demo_facts(1)] by (fastforce simp: demo_req_def)
qed





text \<open>Claim C20: a late benchmark result never revives a rejected or waitlisted submission: its status, reason and outcome code stay,
  and only the rank and the details are recorded.\<close>

theorem no_resurrection:
  assumes "lookup (maybe_reload e cfg w) sid = Some s" "sb_status s \<in> {REJECTED, WAITLISTED}"
  shows "\<exists>w' s'. set_benchmark_result e cfg sid valid rank details w = (Inr (), w') \<and> lookup w' sid = Some s'
    \<and> sb_status s' = sb_status s \<and> sb_rejection_reason s' = sb_rejection_reason s \<and> sb_outcome_code s' = sb_outcome_code s
    \<and> (\<forall>k. k \<noteq> sid \<longrightarrow> view w' k = view (maybe_reload e cfg w) k)"
proof -
  let ?w0 = "maybe_reload e cfg w"
  define s1 where "s1 = (case rank of None \<Rightarrow> s | Some r \<Rightarrow> s\<lparr>sb_benchmark_rank := Some r\<rparr>)"
  define s2 where "s2 = (case details of None \<Rightarrow> s1 | Some d \<Rightarrow> s1\<lparr>sb_benchmark_details := d\<rparr>)\<lparr>sb_updated_at := e_now e\<rparr>"
  define w' where "w' = persist_records e cfg [sid] (put_sub sid s2 ?w0)"
  have run: "set_benchmark_result e cfg sid valid rank details w = (Inr (), w')"
    using assms by (cases ?w0) (simp add: set_benchmark_result_def guarded_def on_sub_def lookup_def no_resurrection_statuses_def
      w'_def put_sub_def s2_def s1_def Let_def split: option.splits)
  have v: "view w' k = (if k = sid then Some (undetailed s2) else view ?w0 k)" for k
    by (simp add: w'_def view_def)
  then have "view w' sid = Some (undetailed s2)" by simp
  then obtain s' where s': "lookup w' sid = Some s'" "undetailed s' = undetailed s2"
    by (auto simp: view_def)
  have "sb_status s2 = sb_status s" "sb_rejection_reason s2 = sb_rejection_reason s" "sb_outcome_code s2 = sb_outcome_code s"
    by (simp_all add: s2_def s1_def split: option.splits)
  moreover have "sb_status s' = sb_status s2" "sb_rejection_reason s' = sb_rejection_reason s2" "sb_outcome_code s' = sb_outcome_code s2"
    using arg_cong [OF s'(2), of sb_status] arg_cong [OF s'(2), of sb_rejection_reason] arg_cong [OF s'(2), of sb_outcome_code]
    by simp_all
  ultimately show ?thesis using run s'(1) v by auto
qed

theorem no_resurrection_witness:
  "\<exists>w' s'. set_benchmark_result demo_env demo_cfg ''s2'' True None None demo_w4 = (Inr (), w') \<and> lookup w' ''s2'' = Some s'
    \<and> sb_status s' = WAITLISTED"
proof -
  obtain s where s: "lookup (maybe_reload demo_env demo_cfg demo_w4) ''s2'' = Some s" "sb_status s = WAITLISTED"
    using demo_facts(6) by auto
  then show ?thesis using no_resurrection [OF s(1), of True None None] by auto
qed

text \<open>Claim C39: adopting an id the store does not know fails, but only after the reigning champion was demoted in memory: the
  store is left without a champion while the database still has one.\<close>

theorem unknown_adoption_demotes:
  assumes "life_runs cfg w" "lookup w sid = None" "lookup w c = Some s" "sb_status s = ADOPTED"
  shows "\<exists>w'. adopt e cfg sid w = (Inl (KeyError sid), w') \<and> map_option sb_status (lookup w' c) = Some SCORED
    \<and> (\<forall>k s'. lookup w' k = Some s' \<longrightarrow> sb_status s' \<noteq> ADOPTED) \<and> snd w' = snd w"
proof -
  note ok = life_runs_ok [OF assms(1)]
  obtain r w' where run: "adopt e cfg sid w = (r, w')" by (cases "adopt e cfg sid w")
  show ?thesis
    using ok run
  proof (rule adopt_outcome)
    fix w1 assume l: "\<And>k. lookup w1 k = map_option (demoted e sid) (lookup w k)"
      and eq: "r = Inl (KeyError sid)" "w' = w1" "snd w1 = snd w"
    have ne: "k \<noteq> sid" if "lookup w k = Some x" for k x using that assms(2) by auto
    have "sb_status (demoted e sid x) \<noteq> ADOPTED" if "lookup w k = Some x" for k x
      using ne [OF that] life_okD(3) [OF ok that] by (simp add: demoted_def)
    then have "\<forall>k s'. lookup w' k = Some s' \<longrightarrow> sb_status s' \<noteq> ADOPTED" by (auto simp: eq l)
    moreover have "map_option sb_status (lookup w' c) = Some SCORED"
      using assms(3,4) ne [OF assms(3)] life_okD(3) [OF ok assms(3)] by (simp add: eq l demoted_def)
    ultimately show ?thesis using run eq by auto
  qed (use assms(2) in simp)
qed

theorem unknown_adoption_demotes_witness:
  "\<exists>w'. adopt demo_env demo_cfg ''zz'' demo_w3 = (Inl (KeyError ''zz''), w')
    \<and> map_option sb_status (lookup demo_w3 ''s1'') = Some ADOPTED \<and> map_option sb_status (lookup w' ''s1'') = Some SCORED"
proof -
  obtain s where s: "lookup demo_w3 ''s1'' = Some s" "sb_status s = ADOPTED" using demo_facts(4) by auto
  from unknown_adoption_demotes [OF demo_runs(4) demo_facts(3) s, of demo_env] demo_facts(4) show ?thesis by blast
qed

text \<open>Property: a distinctive solver name belongs to the first hotkey that submits it: a submission is marked a copycat exactly
  when another hotkey holds the name, entries of the registry never change, and after the call the name is registered.\<close>

theorem first_to_coin:
  assumes "lookup (maybe_reload e cfg w) sid = Some s"
    and "normalize_solver_name name \<noteq> []" "normalize_solver_name name \<notin> set (exempt_names (c_uncoinable cfg))"
    and "maybe_reload_names cfg (maybe_reload e cfg w) = (st, fs)"
  shows "\<exists>w' s' en. set_solver_info e cfg sid name ver w = (Inr (), w') \<and> view w' sid = Some s'
    \<and> map_of (ss_names (fst w')) (normalize_solver_name name) = Some en
    \<and> (sb_is_copycat s' \<longleftrightarrow> ne_owner_hotkey en \<noteq> sb_hotkey s)
    \<and> (sb_is_copycat s' \<longleftrightarrow> (\<exists>old. map_of (ss_names st) (normalize_solver_name name) = Some old \<and> ne_owner_hotkey old \<noteq> sb_hotkey s))
    \<and> (\<forall>m old. map_of (ss_names st) m = Some old \<longrightarrow> map_of (ss_names (fst w')) m = Some old)"
proof -
  let ?w0 = "maybe_reload e cfg w" and ?n = "normalize_solver_name name"
  let ?s1 = "s\<lparr>sb_solver_name := name, sb_solver_version := ver, sb_is_copycat := False, sb_coined_by := None\<rparr>"
  have names: "ss_names (fst (persist_names e cfg x)) = ss_names (fst x)" for x
    by (simp add: persist_names_def split: prod.splits)
  have out: "\<exists>w' s'. set_solver_info e cfg sid name ver w = (Inr (), w') \<and> view w' sid = Some s' \<and> sb_is_copycat s' = c
      \<and> ss_names (fst w') = ss_names (fst w1)"
    if "(case map_of (ss_names st) ?n of
          None \<Rightarrow> (?s1, persist_names e cfg (st\<lparr>ss_names := AList.update ?n
             \<lparr>ne_owner_hotkey = sb_hotkey s, ne_coined_at = e_now e, ne_submission_id = sid, ne_display = name\<rparr> (ss_names st)\<rparr>, fs))
        | Some entry \<Rightarrow>
            (if ne_owner_hotkey entry \<noteq> sb_hotkey s
             then ?s1\<lparr>sb_is_copycat := True, sb_coined_by := Some (ne_owner_hotkey entry)\<rparr> else ?s1, st, fs)) = (s2, w1)"
      "sb_is_copycat s2 = c" for s2 w1 c
  proof (intro exI conjI)
    let ?w' = "persist_records e cfg [sid] (put_sub sid (s2\<lparr>sb_updated_at := e_now e\<rparr>) w1)"
    show "set_solver_info e cfg sid name ver w = (Inr (), ?w')"
      using assms that(1) by (cases w1) (simp add: set_solver_info_def guarded_def on_sub_def lookup_def put_sub_def Let_def)
    show "view ?w' sid = Some (undetailed (s2\<lparr>sb_updated_at := e_now e\<rparr>))" by (simp add: view_def)
    show "sb_is_copycat (undetailed (s2\<lparr>sb_updated_at := e_now e\<rparr>)) = c" using that(2) by simp
    show "ss_names (fst ?w') = ss_names (fst w1)" by (simp add: put_sub_def)
  qed
  show ?thesis
  proof (cases "map_of (ss_names st) ?n")
    case None
    with out [of ?s1 "persist_names e cfg (st\<lparr>ss_names := AList.update ?n
             \<lparr>ne_owner_hotkey = sb_hotkey s, ne_coined_at = e_now e, ne_submission_id = sid, ne_display = name\<rparr> (ss_names st)\<rparr>, fs)" False]
    show ?thesis by (fastforce simp: names dict_simps)
  next
    case (Some entry)
    with out [of "if ne_owner_hotkey entry \<noteq> sb_hotkey s
             then ?s1\<lparr>sb_is_copycat := True, sb_coined_by := Some (ne_owner_hotkey entry)\<rparr> else ?s1" "(st, fs)"
           "ne_owner_hotkey entry \<noteq> sb_hotkey s"]
    show ?thesis by fastforce
  qed
qed

theorem first_to_coin_witness:
  "\<exists>w' s' en. set_solver_info demo_env demo_cfg ''s1'' (Some ''King'') None demo_w1 = (Inr (), w') \<and> view w' ''s1'' = Some s'
    \<and> map_of (ss_names (fst w')) ''king'' = Some en \<and> (sb_is_copycat s' \<longleftrightarrow> ne_owner_hotkey en \<noteq> ''h1'')"
proof -
  obtain s where s: "lookup (maybe_reload demo_env demo_cfg demo_w1) ''s1'' = Some s" "sb_hotkey s = ''h1''"
    using demo_facts(7) by auto
  obtain st fs where "maybe_reload_names demo_cfg (maybe_reload demo_env demo_cfg demo_w1) = (st, fs)"
    by (cases "maybe_reload_names demo_cfg (maybe_reload demo_env demo_cfg demo_w1)")
  from first_to_coin [OF s(1) _ _ this, of "Some ''King''" None] show ?thesis
    by (fastforce simp: demo_facts(9,10) s(2))
qed

end
