(* ===== verification/Rotation.thy ===== *)
theory Rotation
  imports Actor Submission_Life "HOL-Library.Disjoint_Sets"
begin

text \<open>
  The slate of a round, \<open>harness/rotation.py\<close>: at close the leader seats the miners that were benchmarked longest ago,
  one seat per actor while enough actors contend, and parks the overflow on the waitlist. SHA-256 is an argument, the
  ledger file is an argument (\<open>None\<close> when it is absent or does not parse), and an interruption of the sweep arrives
  before or after one of its store operations. The comments posted by the background thread are not modelled.
\<close>

section \<open>Candidates\<close>




text \<open>POSIX \<open>os.path.dirname\<close> and \<open>os.path.join\<close> of two parts.\<close>

definition dirname :: "string \<Rightarrow> string" where
  "dirname p = (let slash = (\<lambda>c. c = CHR ''/''); hd = rev (dropWhile (\<lambda>c. \<not> slash c) (rev p)) in
     if list_all slash hd then hd else rev (dropWhile slash (rev hd)))"

definition path_join :: "string \<Rightarrow> string \<Rightarrow> string" where
  "path_join a b = (if take 1 b = ''/'' then b else if a = [] \<or> last a = CHR ''/'' then a @ b else a @ ''/'' @ b)"

definition rotation_ledger_path :: "string option \<Rightarrow> string option \<Rightarrow> string" where
  "rotation_ledger_path ledger_env round_store_env =
     (let explicit = strip (or_empty ledger_env); store = strip (or_empty round_store_env);
          base = (if store \<noteq> [] then dirname store else ''.'') in
      if explicit \<noteq> [] then explicit else path_join (if base \<noteq> [] then base else ''.'') ''solver_rotation.json'')"

section \<open>The order\<close>

definition salted :: "(string \<Rightarrow> string) \<Rightarrow> string \<Rightarrow> string \<Rightarrow> string" where
  "salted sha name round_id = sha (name @ '':'' @ round_id)"

definition rotation_sort_key :: "(string \<Rightarrow> string) \<Rightarrow> string \<Rightarrow> string \<Rightarrow> (string \<times> real) list \<Rightarrow> real \<times> string" where
  "rotation_sort_key sha hotkey round_id last_selected =
     (case map_of last_selected hotkey of None \<Rightarrow> 0 | Some t \<Rightarrow> t, salted sha hotkey round_id)"

definition actor_rotation_sort_key ::
  "(string \<Rightarrow> string) \<Rightarrow> string \<Rightarrow> string \<Rightarrow> (string \<times> real) list \<Rightarrow> (string \<Rightarrow> string) \<Rightarrow> real \<times> string \<times> string" where
  "actor_rotation_sort_key sha hotkey round_id actor_last actor_of =
     (let actor = actor_name actor_of hotkey in
      (case map_of actor_last actor of None \<Rightarrow> 0 | Some t \<Rightarrow> t, salted sha actor round_id, salted sha hotkey round_id))"

section \<open>The slate\<close>

fun seat_actors ::
  "nat \<Rightarrow> (string \<Rightarrow> string) \<Rightarrow> submission list \<Rightarrow> submission list \<times> submission list \<times> string list \<Rightarrow> submission list \<times> submission list" where
  "seat_actors slots actor_of [] (selected, overflow, seated) = (selected, overflow)"
| "seat_actors slots actor_of (sub # subs) (selected, overflow, seated) =
     (let actor = actor_name actor_of (sb_hotkey sub) in
      if length selected < slots \<and> actor \<notin> set seated
      then seat_actors slots actor_of subs (selected @ [sub], overflow, actor # seated)
      else seat_actors slots actor_of subs (selected, overflow @ [sub], seated))"

fun fill_seats :: "nat \<Rightarrow> submission list \<Rightarrow> submission list \<Rightarrow> submission list \<times> submission list" where
  "fill_seats slots selected [] = (selected, [])"
| "fill_seats slots selected (sub # overflow) =
     (if length selected < slots then fill_seats slots (selected @ [sub]) overflow else (selected, sub # overflow))"

definition select_rotation_slate ::
  "(string \<Rightarrow> string) \<Rightarrow> submission list \<Rightarrow> int \<Rightarrow> (string \<times> real) list \<Rightarrow> string \<Rightarrow> (string \<Rightarrow> string) option
   \<Rightarrow> submission list \<times> submission list" where
  "select_rotation_slate sha candidates slots last_selected round_id actor_of =
     (let n = nat (max 0 slots) in
      case actor_of of
        None \<Rightarrow>
          let ordered = sort_key (\<lambda>s. rotation_sort_key sha (sb_hotkey s) round_id last_selected) candidates in
          (take n ordered, drop n ordered)
      | Some f \<Rightarrow>
          let actor_last = actor_last_selected last_selected f;
              ordered = sort_key (\<lambda>s. actor_rotation_sort_key sha (sb_hotkey s) round_id actor_last f) candidates in
          case seat_actors n f ordered ([], [], []) of (selected, overflow) \<Rightarrow> fill_seats n selected overflow)"

section \<open>The ledger\<close>

text \<open>\<open>float(v)\<close>, \<open>None\<close> when it raises; the reading of numbers from text is an argument.\<close>

fun ledger_float :: "(string \<Rightarrow> real option) \<Rightarrow> json \<Rightarrow> real option" where
  "ledger_float parse (JBool b) = Some (if b then 1 else 0)"
| "ledger_float parse (JInt i) = Some (of_int i)"
| "ledger_float parse (JFloat x) = Some x"
| "ledger_float parse (JStr s) = parse s"
| "ledger_float parse _ = None"

definition ledger_load :: "(string \<Rightarrow> real option) \<Rightarrow> json option \<Rightarrow> (string \<times> real) list" where
  "ledger_load parse file = (case file of
       Some (JObj raw) \<Rightarrow> List.map_filter (\<lambda>(k, v). map_option (Pair k) (ledger_float parse v)) raw
     | _ \<Rightarrow> [])"

definition mark_data :: "string list \<Rightarrow> real \<Rightarrow> (string \<times> real) list \<Rightarrow> (string \<times> real) list" where
  "mark_data hotkeys ts data = foldl (\<lambda>d hk. if hk \<noteq> [] then AList.update hk ts d else d) data hotkeys"

definition mark_selected :: "(string \<Rightarrow> real option) \<Rightarrow> bool \<Rightarrow> string list \<Rightarrow> real \<Rightarrow> json option \<Rightarrow> json option" where
  "mark_selected parse written hotkeys ts file =
     (let data = mark_data hotkeys ts (ledger_load parse file) in
      if written then Some (JObj (map (\<lambda>(k, t). (k, JFloat t)) data)) else file)"

section \<open>Applying the slate\<close>










section \<open>Splitting the candidates\<close>

abbreviation sub_actor :: "(string \<Rightarrow> string) \<Rightarrow> submission \<Rightarrow> string" where
  "sub_actor f s \<equiv> actor_name f (sb_hotkey s)"

lemma fill_seats_eq: "fill_seats n sel ovf = (sel @ take (n - length sel) ovf, drop (n - length sel) ovf)"
  by (induction n sel ovf rule: fill_seats.induct) (auto simp: Suc_diff_Suc take_Cons' drop_Cons' simp del: drop_Suc_Cons)

text \<open>The first pass: seats go to distinct actors, and an actor without a seat means that all seats are taken.\<close>

lemma seat_actors_split:
  assumes "seat_actors n f subs (sel, ovf, seated) = (sel', ovf')"
    and "set seated = set (map (sub_actor f) sel)" "distinct (map (sub_actor f) sel)" "length sel \<le> n"
    and "\<forall>s \<in> set ovf. sub_actor f s \<in> set seated \<or> length sel = n"
  shows "mset sel' + mset ovf' = mset sel + mset ovf + mset subs \<and> distinct (map (sub_actor f) sel') \<and> length sel' \<le> n
    \<and> (\<forall>s \<in> set ovf'. sub_actor f s \<in> set (map (sub_actor f) sel') \<or> length sel' = n)"
  using assms
proof (induction n f subs "(sel, ovf, seated)" arbitrary: sel ovf seated rule: seat_actors.induct)
  case (1 n f sel ovf seated)
  then show ?case by auto
next
  case (2 n f sub subs sel ovf seated)
  show ?case
  proof (cases "length sel < n \<and> sub_actor f sub \<notin> set seated")
    case True
    then have run: "seat_actors n f subs (sel @ [sub], ovf, sub_actor f sub # seated) = (sel', ovf')"
      using 2(3) by (simp add: Let_def)
    have "\<forall>s \<in> set ovf. sub_actor f s \<in> set seated" using 2(7) True by auto
    then have "mset sel' + mset ovf' = mset (sel @ [sub]) + mset ovf + mset subs \<and> distinct (map (sub_actor f) sel') \<and> length sel' \<le> n
       \<and> (\<forall>s \<in> set ovf'. sub_actor f s \<in> set (map (sub_actor f) sel') \<or> length sel' = n)"
      by (intro 2(1) [OF refl True run]) (use True 2(4-6) in auto)
    then show ?thesis by simp
  next
    case False
    then have run: "seat_actors n f subs (sel, ovf @ [sub], seated) = (sel', ovf')" using 2(3) by (simp only: seat_actors.simps Let_def if_False)
    have "mset sel' + mset ovf' = mset sel + mset (ovf @ [sub]) + mset subs \<and> distinct (map (sub_actor f) sel') \<and> length sel' \<le> n
       \<and> (\<forall>s \<in> set ovf'. sub_actor f s \<in> set (map (sub_actor f) sel') \<or> length sel' = n)"
      by (intro 2(2) [OF refl False run]) (use False 2(4-7) in auto)
    then show ?thesis by simp
  qed
qed

lemma slate_by_hotkey:
  fixes sha slots led rid
  defines "key \<equiv> (\<lambda>s. rotation_sort_key sha (sb_hotkey s) rid led)"
  assumes "select_rotation_slate sha cs slots led rid None = (sel, skp)"
  shows "mset sel + mset skp = mset cs" "length sel = min (nat slots) (length cs)"
    "s \<in> set sel \<Longrightarrow> t \<in> set skp \<Longrightarrow> key s \<le> key t"
proof -
  define xs where "xs = sort_key key cs"
  have e: "sel = take (nat slots) xs" "skp = drop (nat slots) xs"
    using assms(2) by (auto simp: select_rotation_slate_def Let_def xs_def key_def max_def)
  have "mset (sel @ skp) = mset cs" by (simp add: e xs_def)
  then show "mset sel + mset skp = mset cs" by simp
  show "length sel = min (nat slots) (length cs)" by (simp add: e xs_def min.commute)
  have "sorted (map key (sel @ skp))" unfolding e append_take_drop_id xs_def by (rule sorted_sort_key)
  then show "s \<in> set sel \<Longrightarrow> t \<in> set skp \<Longrightarrow> key s \<le> key t" by (auto simp: sorted_append)
qed

lemma slate_by_actor:
  assumes "select_rotation_slate sha cs slots led rid (Some f) = (sel, skp)"
  shows "mset sel + mset skp = mset cs" "length sel = min (nat slots) (length cs)"
    "card (sub_actor f ` set sel) = min (nat slots) (card (sub_actor f ` set cs))"
proof -
  define n where "n = nat slots"
  define xs where "xs = sort_key (\<lambda>s. actor_rotation_sort_key sha (sb_hotkey s) rid (actor_last_selected led f) f) cs"
  obtain sl ov where run: "seat_actors n f xs ([], [], []) = (sl, ov)" by fastforce
  have "nat (max 0 slots) = n" by (simp add: n_def max_def)
  then have e: "sel = sl @ take (n - length sl) ov" "skp = drop (n - length sl) ov"
    using assms run by (auto simp: select_rotation_slate_def Let_def xs_def fill_seats_eq)
  have s: "mset sl + mset ov = mset cs" "distinct (map (sub_actor f) sl)" "length sl \<le> n"
    "\<forall>s \<in> set ov. sub_actor f s \<in> set (map (sub_actor f) sl) \<or> length sl = n"
    using seat_actors_split [OF run] by (auto simp: xs_def)
  have "sel @ skp = sl @ ov" by (simp add: e)
  then have "mset (sel @ skp) = mset (sl @ ov)" by simp
  then show m: "mset sel + mset skp = mset cs" using s(1) by simp
  have len: "length sl + length ov = length cs" using arg_cong [OF s(1), of size] by simp
  then show "length sel = min (nat slots) (length cs)" using s(3) by (simp add: e n_def [symmetric])
  have sets: "set cs = set sl \<union> set ov" using arg_cong [OF s(1), of set_mset] by simp
  have c: "card (sub_actor f ` set sl) = length sl"
    using distinct_card [OF s(2)] by simp
  show "card (sub_actor f ` set sel) = min (nat slots) (card (sub_actor f ` set cs))"
  proof (cases "length sl = n")
    case True
    then have "sel = sl" by (simp add: e)
    moreover have "card (sub_actor f ` set sl) \<le> card (sub_actor f ` set cs)" by (rule card_mono) (auto simp: sets)
    ultimately show ?thesis using c True by (simp add: n_def)
  next
    case False
    then have "sub_actor f ` set ov \<subseteq> sub_actor f ` set sl" using s(4) by auto
    moreover have "set (take (n - length sl) ov) \<subseteq> set ov" by (rule set_take_subset)
    ultimately have "sub_actor f ` set sel = sub_actor f ` set sl" "sub_actor f ` set cs = sub_actor f ` set sl"
      by (auto simp: e sets)
    then show ?thesis using c s(3) by (simp add: n_def)
  qed
qed


section \<open>Parking\<close>


definition parked :: "(string \<times> sub_status) option \<Rightarrow> (string \<times> sub_status) option" where
  "parked = map_option (\<lambda>(r, st). (r, WAITLISTED))"



lemma parked_idem [simp]: "parked (parked x) = parked x"
  by (cases x) (auto simp: parked_def)









lemma slate_split:
  assumes "select_rotation_slate sha cs slots led rid actor_of = (sel, skp)"
  shows "set cs = set sel \<union> set skp" "length sel = min (nat slots) (length cs)" "length cs = length sel + length skp"
proof -
  have m: "mset sel + mset skp = mset cs" and l: "length sel = min (nat slots) (length cs)"
    using slate_by_hotkey [of sha cs slots led rid sel skp] slate_by_actor [of sha cs slots led rid _ sel skp] assms
    by (cases actor_of; blast)+
  from l show "length sel = min (nat slots) (length cs)" .
  show "set cs = set sel \<union> set skp" using arg_cong [OF m, of set_mset] by simp
  show "length cs = length sel + length skp" using arg_cong [OF m, of size] by simp
qed




definition demo_cand :: "string \<Rightarrow> submission" where
  "demo_cand hk = new_submission hk [] [] 0 hk ''R'' None False None None 0"




text \<open>Claim C16: the slate is a fair split of the candidates: nobody is lost or duplicated and all seats are used. Without the actor view
  the seated are the first in the rotation order; with it the seats go to as many different actors as possible: one seat
  per actor while enough actors contend, and a seat for every actor otherwise.\<close>

theorem slate_is_a_fair_split:
  assumes "select_rotation_slate sha cs slots led rid actor_of = (sel, skp)"
  shows "mset sel + mset skp = mset cs \<and> length sel = min (nat slots) (length cs)
    \<and> (case actor_of of
        None \<Rightarrow> \<forall>s \<in> set sel. \<forall>t \<in> set skp. rotation_sort_key sha (sb_hotkey s) rid led \<le> rotation_sort_key sha (sb_hotkey t) rid led
      | Some f \<Rightarrow> card ((\<lambda>s. actor_name f (sb_hotkey s)) ` set sel) = min (nat slots) (card ((\<lambda>s. actor_name f (sb_hotkey s)) ` set cs)))"
  using assms slate_by_hotkey [of sha cs slots led rid sel skp] slate_by_actor [of sha cs slots led rid _ sel skp]
  by (cases actor_of) auto

theorem slate_is_a_fair_split_witness:
  "card ((\<lambda>s. actor_name (take 1) (sb_hotkey s)) ` set (fst (select_rotation_slate id (map demo_cand [''a1'', ''a2'', ''b1''])
      2 [(''b1'', 7)] ''R'' (Some (take 1))))) = 2"
proof -
  have "card ((\<lambda>s. actor_name (take 1) (sb_hotkey s)) ` set (map demo_cand [''a1'', ''a2'', ''b1''])) = 2"
    by (simp add: demo_cand_def new_submission_def actor_name_def)
  with slate_is_a_fair_split [of id "map demo_cand [''a1'', ''a2'', ''b1'']" 2 "[(''b1'', 7)]" "''R''" "Some (take 1)",
      OF prod.collapse [symmetric]]
  show ?thesis by simp
qed

section \<open>Starvation\<close>

text \<open>The argument, for any selection that seats the least recent first.\<close>

lemma least_recent_first:
  fixes ts :: "nat \<Rightarrow> real"
  assumes "finite H" "k * n \<ge> card H" "0 < n" "h \<in> H"
    and sel: "\<And>r. sel r \<subseteq> H" "\<And>r. card (sel r) = min n (card H)"
    and first: "\<And>r g. g \<in> sel r \<Longrightarrow> h \<notin> sel r \<Longrightarrow> lt r g \<le> lt r h"
    and mark: "\<And>r g. lt (Suc r) g = (if g \<in> sel r then ts r else lt r g)"
    and clock: "\<And>r g. g \<in> H \<Longrightarrow> lt r g < ts r"
  shows "\<exists>i<k. h \<in> sel (r + i)"
proof (rule ccontr)
  assume "\<not> (\<exists>i<k. h \<in> sel (r + i))"
  then have no: "h \<notin> sel (r + i)" if "i < k" for i using that by blast
  have kp: "0 < k" using assms(1,2,4) card_gt_0_iff [of H] by (cases k) auto
  have lh: "lt (r + i) h = lt r h" if "i \<le> k" for i
    using that by (induction i) (simp_all add: mark no)
  have small: "n \<le> card H"
  proof (rule ccontr)
    assume "\<not> n \<le> card H"
    then have "sel r = H" using card_subset_eq [OF assms(1) sel(1)] sel(2) [of r] by simp
    then show False using no [of 0] kp assms(4) by simp
  qed
  have late: "lt r h < lt (r + j) g" if "i < j" "j \<le> k" "g \<in> sel (r + i)" for i j g
    using that
  proof (induction j)
    case (Suc j)
    have "lt r h < ts (r + j)" using lh [of j] clock [of h "r + j"] assms(4) Suc.prems(2) by simp
    then show ?case using Suc by (cases "i = j") (auto simp: mark)
  qed simp
  have disj: "sel (r + i) \<inter> sel (r + j) = {}" if "i < j" "j < k" for i j
  proof -
    have False if "g \<in> sel (r + i)" "g \<in> sel (r + j)" for g
      using late [of i j g] first [of g "r + j"] no [of j] lh [of j] that \<open>i < j\<close> \<open>j < k\<close> by simp
    then show ?thesis by blast
  qed
  have "disjoint_family_on (\<lambda>i. sel (r + i)) {..<k}"
    unfolding disjoint_family_on_def using disj by (metis Int_commute lessThan_iff nat_neq_iff)
  then have "card (\<Union>i<k. sel (r + i)) = (\<Sum>i<k. card (sel (r + i)))"
    using finite_subset [OF sel(1) assms(1)]
    by (intro card_UN_disjoint) (auto simp: disjoint_family_on_def)
  also have "\<dots> = k * n" using sel(2) small by simp
  finally have "card H \<le> card (\<Union>i<k. sel (r + i))" using assms(2) by simp
  moreover have "(\<Union>i<k. sel (r + i)) \<subseteq> H" using sel(1) by auto
  moreover have "h \<notin> (\<Union>i<k. sel (r + i))" using no by simp
  then have "(\<Union>i<k. sel (r + i)) \<noteq> H" using assms(4) by metis
  ultimately show False using psubset_card_mono [OF assms(1), of "\<Union>i<k. sel (r + i)"] by (simp add: psubset_eq)
qed


text \<open>A sequence of rounds: each selects from its own candidates and marks the seated.\<close>

definition seated :: "(string \<Rightarrow> string) \<Rightarrow> submission list \<Rightarrow> int \<Rightarrow> (string \<times> real) list \<Rightarrow> string \<Rightarrow> (string \<Rightarrow> string) option \<Rightarrow> string list" where
  "seated sha cs slots led rid actor_of = map sb_hotkey (fst (select_rotation_slate sha cs slots led rid actor_of))"

primrec ledger_after ::
  "(string \<Rightarrow> string) \<Rightarrow> int \<Rightarrow> (string \<Rightarrow> string) option \<Rightarrow> (nat \<Rightarrow> submission list) \<Rightarrow> (nat \<Rightarrow> string) \<Rightarrow> (nat \<Rightarrow> real)
   \<Rightarrow> (string \<times> real) list \<Rightarrow> nat \<Rightarrow> (string \<times> real) list" where
  "ledger_after sha slots actor_of cs rid ts led 0 = led"
| "ledger_after sha slots actor_of cs rid ts led (Suc r) =
     mark_data (seated sha (cs r) slots (ledger_after sha slots actor_of cs rid ts led r) (rid r) actor_of) (ts r)
       (ledger_after sha slots actor_of cs rid ts led r)"

definition last_bench :: "(string \<times> real) list \<Rightarrow> string \<Rightarrow> real" where
  "last_bench led hk = (case map_of led hk of None \<Rightarrow> 0 | Some t \<Rightarrow> t)"

lemma map_of_mark: "map_of (mark_data hs t led) hk = (if hk \<noteq> [] \<and> hk \<in> set hs then Some t else map_of led hk)"
  unfolding mark_data_def by (induction hs arbitrary: led) (auto simp: dict_simps)

lemma wf_mark: "wf_dict led \<Longrightarrow> wf_dict (mark_data hs t led)"
  unfolding mark_data_def by (induction hs arbitrary: led) (simp_all add: distinct_update)

text \<open>A clock that moves forward stays ahead of the ledger.\<close>

lemma ledger_before:
  assumes "\<forall>hk. last_bench led hk < ts 0" "\<forall>r. ts r < ts (Suc r)" "0 < ts 0"
  shows "last_bench (ledger_after sha slots actor_of cs rid ts led r) hk < ts r \<and> 0 < ts r"
proof (induction r)
  case (Suc r)
  then show ?case using assms(2) [rule_format, of r] by (auto simp: last_bench_def map_of_mark)
qed (use assms in simp)

text \<open>Property: no starvation among a fixed set of miners: when the same \<open>M\<close> hotkeys contend in every round, the ledger is written and the
  clock moves forward, every hotkey is seated at least once in any \<open>k\<close> consecutive rounds with \<open>k * slots \<ge> M\<close>, whatever
  the hash function and the history are.\<close>

theorem rotation_starvation_free:
  fixes slots :: int
  assumes "\<forall>r. distinct (map sb_hotkey (cs r)) \<and> set (map sb_hotkey (cs r)) = H" "[] \<notin> H" "h \<in> H"
    and "0 < slots" "int (card H) \<le> int k * slots"
    and "\<forall>hk. last_bench led hk < ts 0" "\<forall>r. ts r < ts (Suc r)" "0 < ts 0"
  shows "\<exists>i<k. h \<in> set (seated sha (cs (r + i)) slots (ledger_after sha slots None cs rid ts led (r + i)) (rid (r + i)) None)"
proof -
  let ?L = "ledger_after sha slots None cs rid ts led"
  let ?sel = "\<lambda>r. set (seated sha (cs r) slots (?L r) (rid r) None)"
  have H: "set (map sb_hotkey (cs r)) = H" "distinct (map sb_hotkey (cs r))" for r using assms(1) by blast+
  have fin: "finite H" using H(1) [of 0] by blast
  have cardH: "length (cs r) = card H" for r using distinct_card [OF H(2) [of r]] H(1) [of r] by simp
  have slate: "?sel r \<subseteq> H \<and> card (?sel r) = min (nat slots) (card H)
      \<and> (\<forall>g \<in> ?sel r. h \<notin> ?sel r \<longrightarrow> last_bench (?L r) g \<le> last_bench (?L r) h)" for r
  proof -
    obtain sel skp where s: "select_rotation_slate sha (cs r) slots (?L r) (rid r) None = (sel, skp)" by fastforce
    note d = slate_by_hotkey [OF s]
    have e: "?sel r = sb_hotkey ` set sel" by (simp add: seated_def s)
    have sets: "set (cs r) = set sel \<union> set skp" using slate_split(1) [OF s] .
    have "mset (map sb_hotkey sel) + mset (map sb_hotkey skp) = mset (map sb_hotkey (cs r))"
      using d(1) by (metis image_mset_union mset_map)
    then have "distinct (map sb_hotkey sel)" using H(2) [of r] by (metis distinct_append mset_append mset_eq_imp_distinct_iff)
    then have c: "card (?sel r) = length sel" using distinct_card [of "map sb_hotkey sel"] by (simp add: e)
    have "last_bench (?L r) g \<le> last_bench (?L r) h" if g: "g \<in> ?sel r" "h \<notin> ?sel r" for g
    proof -
      obtain s t where st: "s \<in> set sel" "g = sb_hotkey s" "t \<in> set skp" "h = sb_hotkey t"
        using g H(1) [of r] assms(3) sets unfolding e by auto
      from d(3) [OF st(1,3)] show ?thesis by (auto simp: rotation_sort_key_def last_bench_def st less_eq_prod_def)
    qed
    then show ?thesis using c d(2) H(1) [of r] sets by (auto simp: e cardH)
  qed
  have "card H \<le> k * nat slots" using assms(4,5) by (metis nat_int nat_le_iff nat_mult_distrib int_nat_eq of_nat_0_le_iff of_nat_mult order_less_imp_le)
  then show ?thesis
  proof (rule least_recent_first [OF fin, where sel = ?sel and lt = "\<lambda>r. last_bench (?L r)" and ts = ts and h = h])
    show "last_bench (?L (Suc r)) g = (if g \<in> ?sel r then ts r else last_bench (?L r) g)" for r g
      using slate [of r] assms(2) by (auto simp: last_bench_def map_of_mark)
    show "last_bench (?L r) g < ts r" for r g using ledger_before [OF assms(6-8)] by blast
  qed (use slate assms(3,4) in auto)
qed


lemma demo_cand_hotkeys: "map sb_hotkey (map demo_cand hks) = hks"
  by (simp add: demo_cand_def new_submission_def comp_def)

theorem rotation_starvation_free_witness:
  "\<exists>i<2. ''b'' \<in> set (seated rev (map demo_cand [''a'', ''b'']) 1
     (ledger_after rev 1 None (\<lambda>_. map demo_cand [''a'', ''b'']) (\<lambda>_. ''R'') (\<lambda>r. real r + 1) [] (3 + i)) ''R'' None)"
  by (rule rotation_starvation_free [where H = "{''a'', ''b''}" and cs = "\<lambda>_. map demo_cand [''a'', ''b'']"
        and rid = "\<lambda>_. ''R''" and r = 3])
     (simp_all only: demo_cand_hotkeys, simp_all add: last_bench_def)

text \<open>An actor without a seat comes after everybody who has one.\<close>

lemma seat_actors_first:
  fixes key :: "submission \<Rightarrow> 'a::linorder"
  assumes "seat_actors n f subs (sel, ovf, std) = (sel', ovf')" "sorted (map key subs)"
    and "\<forall>s \<in> set sel. \<forall>t \<in> set subs. key s \<le> key t"
    and "\<forall>t \<in> set ovf. sub_actor f t \<in> set std \<or> length sel = n \<and> (\<forall>s \<in> set sel. key s \<le> key t)"
    and "set std = sub_actor f ` set sel" "length sel \<le> n"
  shows "\<forall>t \<in> set ovf'. sub_actor f t \<in> sub_actor f ` set sel' \<or> (\<forall>s \<in> set sel'. key s \<le> key t)"
  using assms
proof (induction n f subs "(sel, ovf, std)" arbitrary: sel ovf std rule: seat_actors.induct)
  case (1 n f sel ovf std)
  then show ?case by auto
next
  case (2 n f sub subs sel ovf std)
  show ?case
  proof (cases "length sel < n \<and> sub_actor f sub \<notin> set std")
    case True
    then have run: "seat_actors n f subs (sel @ [sub], ovf, sub_actor f sub # std) = (sel', ovf')"
      using 2(3) by (simp add: Let_def)
    show ?thesis by (rule 2(1) [OF refl True run]) (use 2(4-8) True in auto)
  next
    case False
    then have run: "seat_actors n f subs (sel, ovf @ [sub], std) = (sel', ovf')" using 2(3) by (simp only: seat_actors.simps Let_def if_False)
    show ?thesis by (rule 2(2) [OF refl False run]) (use 2(4-8) False in auto)
  qed
qed

lemma slate_actor_first:
  assumes "select_rotation_slate sha cs slots led rid (Some f) = (sel, skp)" "s \<in> set sel" "t \<in> set cs"
    and "sub_actor f t \<notin> sub_actor f ` set sel"
  shows "last_bench (actor_last_selected led f) (sub_actor f s) \<le> last_bench (actor_last_selected led f) (sub_actor f t)"
proof -
  define n where "n = nat slots"
  define key :: "submission \<Rightarrow> real \<times> string \<times> string" where "key = (\<lambda>s. actor_rotation_sort_key sha (sb_hotkey s) rid (actor_last_selected led f) f)"
  obtain sl ov where run: "seat_actors n f (sort_key key cs) ([], [], []) = (sl, ov)" by fastforce
  have "nat (max 0 slots) = n" by (simp add: n_def max_def)
  then have e: "sel = sl @ take (n - length sl) ov"
    using assms(1) run by (auto simp: select_rotation_slate_def Let_def key_def fill_seats_eq)
  have split: "mset sl + mset ov = mset cs" "length sl \<le> n"
    "\<forall>s \<in> set ov. sub_actor f s \<in> set (map (sub_actor f) sl) \<or> length sl = n"
    using seat_actors_split [OF run] by auto
  have "set cs = set sl \<union> set ov" using arg_cong [OF split(1), of set_mset] by simp
  then have t: "t \<in> set ov" using assms(3,4) by (auto simp: e)
  then have "sel = sl" using assms(4) split(3) by (auto simp: e)
  then have "key s \<le> key t"
    using seat_actors_first [OF run, of key] t assms(2,4) by auto
  then show ?thesis by (auto simp: key_def actor_rotation_sort_key_def Let_def last_bench_def less_eq_prod_def)
qed

lemma ledger_wf: "wf_dict led \<Longrightarrow> wf_dict (ledger_after sha slots actor_of cs rid ts led r)"
  by (induction r) (simp_all add: wf_mark)

lemma ledger_nonneg:
  assumes "\<forall>hk. 0 \<le> last_bench led hk" "\<forall>r. 0 < ts r"
  shows "0 \<le> last_bench (ledger_after sha slots actor_of cs rid ts led r) hk"
  using assms by (induction r) (auto simp: last_bench_def map_of_mark less_imp_le)

lemma actor_seniority:
  assumes "wf_dict led" "\<forall>hk. 0 \<le> last_bench led hk"
  shows "last_bench (actor_last_selected led f) a = Max (insert 0 {t. \<exists>hk. map_of led hk = Some t \<and> actor_name f hk = a})"
proof -
  have "0 \<le> t" if "(hk, t) \<in> set led" for hk t
    using assms(2) [rule_format, of hk] map_of_is_SomeI [OF assms(1) that] by (simp add: last_bench_def)
  then show ?thesis unfolding last_bench_def
    by (subst actor_last_selected_max) (auto simp: mset_keys_get [OF assms(1)])
qed

lemma finite_ledger_times: "finite {t. \<exists>hk. map_of led hk = Some t \<and> P hk}"
  by (rule finite_subset [OF _ finite_imageI [OF finite_set [of led], of snd]]) (force dest: map_of_SomeD)

lemma actor_seniority_mark:
  assumes "wf_dict led" "\<forall>hk. 0 \<le> last_bench led hk \<and> last_bench led hk < t" "[] \<notin> set hs"
  shows "last_bench (actor_last_selected (mark_data hs t led) f) a =
    (if a \<in> actor_name f ` set hs then t else last_bench (actor_last_selected led f) a)"
proof -
  let ?S = "\<lambda>led. {t. \<exists>hk. map_of led hk = Some t \<and> actor_name f hk = a}" and ?L = "mark_data hs t led"
  have t: "0 < t" using assms(2) by (meson le_less_trans)
  have nonneg: "\<forall>hk. 0 \<le> last_bench ?L hk" using assms(2) t by (auto simp: last_bench_def map_of_mark)
  have le: "x \<le> t" if "x \<in> ?S ?L" for x
    using that assms(2) by (auto simp: map_of_mark last_bench_def less_imp_le split: if_splits option.splits)
  show ?thesis
  proof (cases "a \<in> actor_name f ` set hs")
    case True
    then obtain hk where "hk \<in> set hs" "actor_name f hk = a" by auto
    then have "t \<in> ?S ?L" using assms(3) by (auto simp: map_of_mark)
    then have "Max (insert 0 (?S ?L)) = t" using le t finite_ledger_times by (intro Max_eqI) auto
    then show ?thesis using True by (simp add: actor_seniority [OF wf_mark [OF assms(1)] nonneg])
  next
    case False
    then have "?S ?L = ?S led" by (auto simp: map_of_mark)
    then show ?thesis using False assms(2) by (simp add: actor_seniority [OF wf_mark [OF assms(1)] nonneg] actor_seniority [OF assms(1)])
  qed
qed


text \<open>Claim C15: the same for actors: when the same actors contend in every round, each of them with any number of submissions, every actor
  has a seat at least once in any \<open>k\<close> consecutive rounds with \<open>k * slots\<close> at least the number of actors: more hotkeys
  do not buy an actor, or cost another one, a turn.\<close>

theorem actor_rotation_starvation_free:
  fixes slots :: int
  assumes "\<forall>r. (\<lambda>s. actor_name f (sb_hotkey s)) ` set (cs r) = A \<and> [] \<notin> set (map sb_hotkey (cs r))" "a \<in> A"
    and "0 < slots" "int (card A) \<le> int k * slots"
    and "wf_dict led" "\<forall>hk. 0 \<le> last_bench led hk \<and> last_bench led hk < ts 0" "\<forall>r. ts r < ts (Suc r)" "0 < ts 0"
  shows "\<exists>i<k. a \<in> actor_name f ` set (seated sha (cs (r + i)) slots (ledger_after sha slots (Some f) cs rid ts led (r + i)) (rid (r + i)) (Some f))"
proof -
  let ?L = "ledger_after sha slots (Some f) cs rid ts led"
  let ?sel = "\<lambda>r. actor_name f ` set (seated sha (cs r) slots (?L r) (rid r) (Some f))"
  let ?lt = "\<lambda>r. last_bench (actor_last_selected (?L r) f)"
  have A: "sub_actor f ` set (cs r) = A" for r using assms(1) by blast
  have fin: "finite A" using A [of 0] by blast
  have before: "last_bench (?L r) hk < ts r" "0 < ts r" for r hk
    using ledger_before [of led ts, OF _ assms(7,8)] assms(6) by blast+
  have nonneg: "0 \<le> last_bench (?L r) hk" for r hk by (rule ledger_nonneg) (use assms(6) before(2) in auto)
  have wf: "wf_dict (?L r)" for r by (rule ledger_wf [OF assms(5)])
  have slate: "?sel r \<subseteq> A \<and> card (?sel r) = min (nat slots) (card A) \<and> (\<forall>g \<in> ?sel r. a \<notin> ?sel r \<longrightarrow> ?lt r g \<le> ?lt r a)
      \<and> [] \<notin> set (seated sha (cs r) slots (?L r) (rid r) (Some f))" for r
  proof -
    obtain sel skp where s: "select_rotation_slate sha (cs r) slots (?L r) (rid r) (Some f) = (sel, skp)" by fastforce
    have e: "?sel r = sub_actor f ` set sel" by (simp add: seated_def s image_image)
    have sub: "set sel \<subseteq> set (cs r)" using slate_split(1) [OF s] by blast
    have "?lt r g \<le> ?lt r a" if g: "g \<in> ?sel r" "a \<notin> ?sel r" for g
    proof -
      obtain t where t: "t \<in> set (cs r)" "a = sub_actor f t" using assms(2) A [of r] by blast
      obtain u where u: "u \<in> set sel" "g = sub_actor f u" using g(1) unfolding e by blast
      show ?thesis using slate_actor_first [OF s u(1) t(1)] g(2) unfolding e t(2) u(2) by blast
    qed
    moreover have "?sel r \<subseteq> A" using sub A [of r] unfolding e by blast
    moreover have "[] \<notin> set (seated sha (cs r) slots (?L r) (rid r) (Some f))" using assms(1) sub by (fastforce simp: seated_def s)
    ultimately show ?thesis using slate_by_actor(3) [OF s] A [of r] unfolding e by simp
  qed
  have "card A \<le> k * nat slots" using assms(3,4) by (metis nat_int nat_le_iff nat_mult_distrib int_nat_eq of_nat_0_le_iff of_nat_mult order_less_imp_le)
  then show ?thesis
  proof (rule least_recent_first [OF fin, where sel = ?sel and lt = ?lt and ts = ts and h = a])
    show "?lt (Suc r) g = (if g \<in> ?sel r then ts r else ?lt r g)" for r g
      using actor_seniority_mark [OF wf [of r], of "ts r"] slate [of r] nonneg before by simp
    show "?lt r g < ts r" for r g
      using before nonneg finite_ledger_times [of "?L r"]
      by (subst actor_seniority [OF wf]) (auto simp: last_bench_def split: option.splits, metis option.simps(5))
  qed (use slate assms(2,3) in auto)
qed

theorem actor_rotation_starvation_free_witness:
  "\<exists>i<2. ''b'' \<in> actor_name (take 1) ` set (seated rev (map demo_cand [''a1'', ''a2'', ''b1'']) 1
     (ledger_after rev 1 (Some (take 1)) (\<lambda>_. map demo_cand [''a1'', ''a2'', ''b1'']) (\<lambda>_. ''R'') (\<lambda>r. real r + 1) [] (3 + i))
     ''R'' (Some (take 1)))"
  by (rule actor_rotation_starvation_free [where A = "{''a'', ''b''}" and cs = "\<lambda>_. map demo_cand [''a1'', ''a2'', ''b1'']"
        and rid = "\<lambda>_. ''R''" and r = 3])
     (simp_all add: last_bench_def demo_cand_def new_submission_def actor_name_def)

text \<open>Property: a stream of new hotkeys does starve: whoever was benched before never gets a seat in a round in which as many never-benched
  hotkeys contend as there are slots, although the module calls the selection starvation-free by construction.\<close>

theorem newcomers_starve_the_benched:
  assumes "0 < last_bench led h"
    and "slots \<le> int (length (filter (\<lambda>s. last_bench led (sb_hotkey s) = 0) cs))"
  shows "h \<notin> set (seated sha cs slots led rid None)"
proof
  assume "h \<in> set (seated sha cs slots led rid None)"
  obtain sel skp where s: "select_rotation_slate sha cs slots led rid None = (sel, skp)" by fastforce
  note d = slate_by_hotkey [OF s]
  obtain x where x: "x \<in> set sel" "sb_hotkey x = h" using \<open>h \<in> _\<close> by (auto simp: seated_def s)
  let ?new = "filter (\<lambda>s. last_bench led (sb_hotkey s) = 0)"
  have "last_bench led (sb_hotkey t) > 0" if "t \<in> set skp" for t
    using d(3) [OF x(1) that] assms(1) x(2) by (auto simp: rotation_sort_key_def last_bench_def less_eq_prod_def)
  then have "?new skp = []" by (force simp: filter_empty_conv)
  moreover have "mset (?new sel) + mset (?new skp) = mset (?new cs)" by (metis d(1) filter_union_mset mset_filter)
  ultimately have "length (?new cs) = length (?new sel)" by (metis add.right_neutral mset.simps(1) size_mset)
  moreover have "length (?new sel) < length sel" using x assms(1) by (intro length_filter_less [of x]) auto
  ultimately show False using assms(2) d(2) by linarith
qed


theorem newcomers_starve_the_benched_witness:
  "''old'' \<notin> set (seated rev (map demo_cand [''old'', ''new'']) 1 [(''old'', 7)] ''R'' None)"
  by (rule newcomers_starve_the_benched) (simp_all add: last_bench_def demo_cand_def new_submission_def)

text \<open>The ledger file holds what the rounds computed.\<close>

lemma ledger_written: "ledger_load parse (mark_selected parse True hs t file) = mark_data hs t (ledger_load parse file)"
proof -
  have "List.map_filter (\<lambda>(k, v). map_option (Pair k) (ledger_float parse v)) (map (\<lambda>(k, t). (k, JFloat t)) d) = d" for d
    by (induction d) (auto simp: List.map_filter_def)
  then show ?thesis by (simp add: mark_selected_def ledger_load_def Let_def)
qed

end
