(* ===== verification/Provenance.thy ===== *)
theory Provenance
  imports Submission_Store Weights
begin

text \<open>
  Signed provenance of solver artifacts, \<open>harness/provenance.py\<close>, and the policy that lets a scored submission become
  champion, \<open>harness/champion_policy.py\<close>. HMAC-SHA256 and the EIP-191 signatures of the account library are arguments, as
  is the text that \<open>json.dumps\<close> gives to a float; the environment is an argument.
\<close>

section \<open>Records\<close>

record prov_crypto =
  pc_hmac :: "string \<Rightarrow> string \<Rightarrow> string"
  pc_address :: "string \<Rightarrow> string res"
  pc_sign :: "string \<Rightarrow> string \<Rightarrow> string res"
  pc_recover :: "string \<Rightarrow> string \<Rightarrow> string res"
  pc_float :: "real \<Rightarrow> string"

definition PROVENANCE_HMAC_ALG :: string where "PROVENANCE_HMAC_ALG = ''hmac-sha256''"
definition PROVENANCE_EIP191_ALG :: string where "PROVENANCE_EIP191_ALG = ''eip191-secp256k1''"
definition PROVENANCE_VERSION :: int where "PROVENANCE_VERSION = 1"

definition parse_allowed_signers :: "string \<Rightarrow> string list" where
  "parse_allowed_signers raw = remdups (map (\<lambda>s. lower (strip s)) (filter (\<lambda>s. strip s \<noteq> []) (split_on CHR '','' [] raw)))"

definition canonical_json :: "prov_crypto \<Rightarrow> (string \<times> json) list \<Rightarrow> string" where
  "canonical_json pc payload = dumps (pc_float pc) (JObj payload)"

definition provenance_payload :: "string \<Rightarrow> string \<Rightarrow> string \<Rightarrow> string \<Rightarrow> string option \<Rightarrow> real \<Rightarrow> (string \<times> json) list" where
  "provenance_payload submission_id repo_url commit_hash image_id image_tag now =
     [(''version'', JInt PROVENANCE_VERSION), (''submission_id'', JStr submission_id), (''repo_url'', JStr repo_url),
      (''commit_hash'', JStr commit_hash), (''image_id'', JStr image_id), (''image_tag'', JStr (or_empty image_tag)),
      (''issued_at'', JInt (trunc now))]"

definition create_signed_provenance ::
  "prov_crypto \<Rightarrow> string \<Rightarrow> string \<Rightarrow> string \<Rightarrow> string \<Rightarrow> string option \<Rightarrow> string \<Rightarrow> string \<Rightarrow> string \<Rightarrow> real \<Rightarrow> json res" where
  "create_signed_provenance pc submission_id repo_url commit_hash image_id image_tag signing_key signing_private_key signer_address now =
     (let payload = provenance_payload submission_id repo_url commit_hash image_id image_tag now;
          canonical = canonical_json pc payload in
      if signing_private_key \<noteq> [] then
        res_bind (pc_address pc signing_private_key) (\<lambda>signer.
        if signer_address \<noteq> [] \<and> lower signer \<noteq> lower signer_address
        then Inl (ValueError ''signer_address does not match signing_private_key'')
        else res_bind (pc_sign pc canonical signing_private_key) (\<lambda>signature.
          Inr (JObj [(''alg'', JStr PROVENANCE_EIP191_ALG), (''payload'', JObj payload), (''signer'', JStr signer),
                     (''signature'', JStr signature)])))
      else if signing_key \<noteq> [] then
        Inr (JObj [(''alg'', JStr PROVENANCE_HMAC_ALG), (''payload'', JObj payload), (''signature'', JStr (pc_hmac pc signing_key canonical))])
      else Inl (ValueError ''No provenance signing material configured''))"

section \<open>Verification\<close>

fun check_fields :: "(string \<times> json) list \<Rightarrow> (string \<times> string) list \<Rightarrow> (bool \<times> string) res" where
  "check_fields payload [] =
     (if map_of payload ''version'' \<in> {Some (JInt PROVENANCE_VERSION), Some (JFloat (of_int PROVENANCE_VERSION)), Some (JBool True)}
      then Inr (True, [])
      else res_bind (case map_of payload ''version'' of None \<Rightarrow> Inr ''None'' | Some v \<Rightarrow> py_str v) (\<lambda>v.
        Inr (False, ''unsupported provenance version: '' @ v)))"
| "check_fields payload ((k, expected) # checks) =
     res_bind (str_get payload k) (\<lambda>actual.
       if actual \<noteq> expected then Inr (False, ''payload mismatch for '' @ k) else check_fields payload checks)"

text \<open>The signature alone: \<open>None\<close> when it holds, or the reason.\<close>

definition check_signature ::
  "prov_crypto \<Rightarrow> (string \<times> json) list \<Rightarrow> string \<Rightarrow> string \<Rightarrow> string \<Rightarrow> string \<Rightarrow> string list \<Rightarrow> bool \<Rightarrow> string option res" where
  "check_signature pc record alg canonical signature signing_key allowed_signers allow_hmac =
     (if alg = PROVENANCE_HMAC_ALG then
        Inr (if \<not> allow_hmac then Some ''hmac provenance is disallowed by policy''
             else if signing_key = [] then Some ''missing signing key for hmac provenance''
             else if signature \<noteq> pc_hmac pc signing_key canonical then Some ''signature mismatch''
             else None)
      else if alg = PROVENANCE_EIP191_ALG then
        res_bind (str_get record ''signer'') (\<lambda>raw.
          let signer = lower (strip raw) in
          if signer = [] then Inr (Some ''missing signer for eip191 provenance'')
          else res_bind (pc_recover pc canonical signature) (\<lambda>recovered.
            Inr (if lower recovered \<noteq> signer then Some ''signature mismatch''
                 else if allowed_signers \<noteq> [] \<and> signer \<notin> set (map lower (filter (\<lambda>s. s \<noteq> []) allowed_signers))
                 then Some (''unauthorized signer: '' @ signer)
                 else None)))
      else Inr (Some (''unsupported provenance alg: '' @ (if alg \<noteq> [] then alg else ''missing''))))"

definition verify_payload ::
  "prov_crypto \<Rightarrow> (string \<times> json) list \<Rightarrow> string \<Rightarrow> (string \<times> json) list \<Rightarrow> string \<Rightarrow> string list \<Rightarrow> bool \<Rightarrow> (string \<times> string) list
   \<Rightarrow> (bool \<times> string) res" where
  "verify_payload pc d alg payload signing_key allowed_signers allow_hmac checks =
     res_bind (str_get d ''signature'') (\<lambda>raw_sig.
       let signature = lower (strip raw_sig) in
       if signature = [] then Inr (False, ''missing provenance signature'')
       else res_bind (check_signature pc d alg (canonical_json pc payload) signature signing_key allowed_signers allow_hmac) (\<lambda>bad.
         case bad of Some why \<Rightarrow> Inr (False, why) | None \<Rightarrow> check_fields payload checks))"

definition verify_signed_provenance ::
  "prov_crypto \<Rightarrow> json \<Rightarrow> string \<Rightarrow> string list \<Rightarrow> bool \<Rightarrow> string \<Rightarrow> string \<Rightarrow> string \<Rightarrow> string \<Rightarrow> (bool \<times> string) res" where
  "verify_signed_provenance pc record signing_key allowed_signers allow_hmac
     expected_submission_id expected_repo_url expected_commit_hash expected_image_id =
     (case record of
        JObj d \<Rightarrow>
          res_bind (str_get d ''alg'') (\<lambda>raw_alg.
          let alg = lower (strip raw_alg) in
          case map_of d ''payload'' of
            Some (JObj payload) \<Rightarrow> verify_payload pc d alg payload signing_key allowed_signers allow_hmac
              [(''submission_id'', expected_submission_id), (''repo_url'', expected_repo_url),
               (''commit_hash'', expected_commit_hash), (''image_id'', expected_image_id)]
          | _ \<Rightarrow> Inr (False, ''missing provenance payload''))
      | _ \<Rightarrow> Inr (False, ''missing provenance record''))"


section \<open>Configuration\<close>

text \<open>The text of the exception of the account library is left out of the reason.\<close>

definition validate_provenance_policy ::
  "prov_crypto \<Rightarrow> bool \<Rightarrow> bool \<Rightarrow> string \<Rightarrow> string list \<Rightarrow> string \<Rightarrow> string \<Rightarrow> bool \<Rightarrow> bool \<times> string" where
  "validate_provenance_policy pc require_signed require_asymmetric hmac_key allowed_signers signing_private_key signing_address accepting =
     (let require_signed = (require_asymmetric \<or> require_signed);
          allowed = map lower (filter (\<lambda>s. s \<noteq> []) allowed_signers);
          hmac_key = strip hmac_key; key = strip signing_private_key; address = strip signing_address;
          verifier_ready = (if require_asymmetric then allowed \<noteq> [] else hmac_key \<noteq> [] \<or> allowed \<noteq> []);
          signer_ready = (if require_asymmetric then key \<noteq> [] else key \<noteq> [] \<or> hmac_key \<noteq> []) in
      if address \<noteq> [] \<and> key = [] then (False, ''SUBMISSION_PROVENANCE_SIGNING_ADDRESS set without signing private key'')
      else if key \<noteq> [] \<and> address \<noteq> [] \<and> (case pc_address pc key of Inl _ \<Rightarrow> True | Inr _ \<Rightarrow> False)
      then (False, ''failed to derive signer address'')
      else if key \<noteq> [] \<and> address \<noteq> [] \<and> (case pc_address pc key of Inl _ \<Rightarrow> False | Inr a \<Rightarrow> lower a \<noteq> lower address)
      then (False, ''configured signing private key does not match signing address'')
      else if require_signed \<and> \<not> verifier_ready then
        (False, if require_asymmetric then ''asymmetric provenance required but SUBMISSION_PROVENANCE_ALLOWED_SIGNERS is unset''
                else ''signed provenance required but no verifier configured '' @
                  ''(set SUBMISSION_PROVENANCE_HMAC_KEY or SUBMISSION_PROVENANCE_ALLOWED_SIGNERS)'')
      else if accepting \<and> require_signed \<and> \<not> signer_ready then
        (False, if require_asymmetric
                then ''submissions are enabled with asymmetric provenance required but SUBMISSION_PROVENANCE_SIGNING_PRIVATE_KEY is unset''
                else ''submissions are enabled with signed provenance required but no signing key is configured'')
      else (True, []))"

definition validate_runtime_security_profile ::
  "bool \<Rightarrow> bool \<Rightarrow> bool \<Rightarrow> bool \<Rightarrow> string \<Rightarrow> string list \<Rightarrow> bool \<Rightarrow> string \<Rightarrow> int \<Rightarrow> bool \<times> string list" where
  "validate_runtime_security_profile enforce allow_subprocess require_signed require_asymmetric hmac_key allowed_signers accepting api_key rate_limit =
     (if \<not> enforce then (True, [])
      else let allowed = filter (\<lambda>s. s \<noteq> []) allowed_signers;
               violations =
                 (if allow_subprocess then [''ALLOW_SUBPROCESS_BENCHMARK must be disabled''] else [])
                 @ (if \<not> require_asymmetric then [''REQUIRE_ASYMMETRIC_PROVENANCE must be enabled''] else [])
                 @ (if \<not> require_signed \<and> \<not> require_asymmetric then [''REQUIRE_SIGNED_PROVENANCE must be enabled''] else [])
                 @ (if allowed = [] then [''SUBMISSION_PROVENANCE_ALLOWED_SIGNERS must be configured''] else [])
                 @ (if require_asymmetric \<and> strip hmac_key \<noteq> [] then [''SUBMISSION_PROVENANCE_HMAC_KEY must be unset in asymmetric-only mode''] else [])
                 @ (if accepting \<and> strip api_key = [] then [''SUBMISSIONS_API_KEY must be set when submissions are accepting''] else [])
                 @ (if rate_limit \<le> 0 then [''SUBMISSIONS_RATE_LIMIT_PER_MINUTE must be greater than zero''] else []) in
        (violations = [], violations))"

section \<open>Eligibility\<close>

definition env_true :: "string option \<Rightarrow> bool \<Rightarrow> bool" where
  "env_true raw default_value = (case raw of None \<Rightarrow> default_value
     | Some s \<Rightarrow> lower (strip s) \<in> {''1'', ''true'', ''yes'', ''on''})"

record policy_env =
  pv_require_signed :: "string option"
  pv_require_asymmetric :: "string option"
  pv_hmac_key :: "string option"
  pv_allowed_signers :: "string option"

definition is_submission_champion_eligible :: "prov_crypto \<Rightarrow> policy_env \<Rightarrow> submission \<Rightarrow> (bool \<times> string option) res" where
  "is_submission_champion_eligible pc pv s =
     (if sb_hotkey s = GENESIS_HOTKEY then Inr (True, None)
      else if or_empty (sb_solver_path s) \<noteq> [] \<or> prefix ''source://'' (sb_repo_url s)
      then Inr (False, Some ''source/subprocess submission is not champion-eligible by policy'')
      else if or_empty (sb_image_tag s) = [] then Inr (False, Some ''missing image_tag'')
      else let image_id = or_empty (sb_image_id s) in
      if image_id = [] then Inr (False, Some ''missing immutable image_id'')
      else if \<not> prefix ''sha256:'' image_id then Inr (False, Some (''invalid image_id format: '' @ image_id))
      else let require_asymmetric = env_true (pv_require_asymmetric pv) True;
               require_provenance = (require_asymmetric \<or> env_true (pv_require_signed pv) True);
               key = strip (or_empty (pv_hmac_key pv));
               allowed = parse_allowed_signers (strip (or_empty (pv_allowed_signers pv)));
               verifier_ready = (if require_asymmetric then allowed \<noteq> [] else key \<noteq> [] \<or> allowed \<noteq> []) in
      if require_provenance \<and> \<not> verifier_ready then
        Inr (False, Some (if require_asymmetric
          then ''signed provenance required in asymmetric-only mode but SUBMISSION_PROVENANCE_ALLOWED_SIGNERS is unset''
          else ''signed provenance required but no verifier configured '' @
            ''(set SUBMISSION_PROVENANCE_HMAC_KEY or SUBMISSION_PROVENANCE_ALLOWED_SIGNERS)''))
      else if verifier_ready then
        res_bind (verify_signed_provenance pc (sb_provenance s) key allowed (\<not> require_asymmetric)
            (sb_id s) (sb_repo_url s) (sb_commit_hash s) image_id) (\<lambda>(ok, why).
          Inr (if \<not> ok then (False, Some (''invalid signed provenance: '' @ why)) else (True, None)))
      else Inr (True, None))"

section \<open>Signed records verify\<close>

lemma check_fields_payload:
  "check_fields (provenance_payload sid repo commit img tag now)
     [(''submission_id'', sid'), (''repo_url'', repo'), (''commit_hash'', commit'), (''image_id'', img')] = Inr (True, [])
   \<longleftrightarrow> sid' = sid \<and> repo' = repo \<and> commit' = commit \<and> img' = img"
  by (auto simp: provenance_payload_def str_get_def)




text \<open>Recovering from a signature of a key, printed in any letter case, gives the address of the key.\<close>

definition recovers_signer :: "prov_crypto \<Rightarrow> string \<Rightarrow> string \<Rightarrow> bool" where
  "recovers_signer pc key address \<longleftrightarrow> pc_address pc key = Inr address \<and>
     (\<forall>m. \<exists>sig. pc_sign pc m key = Inr sig \<and> lower (strip sig) \<noteq> [] \<and> pc_recover pc m (lower (strip sig)) = Inr address)"

text \<open>Claim C19: a record signed with the node's key verifies for exactly the artifact it was made for: with any allow list that names the
  signer, verification accepts the submission, repository, commit and image it was created with and refuses every other
  combination.\<close>

theorem signed_provenance_binds_artifact:
  assumes "recovers_signer pc key address" "key \<noteq> []" "lower (strip address) = lower address" "address \<noteq> []"
    and "signer_address = [] \<or> lower signer_address = lower address" "lower address \<in> set (map lower allowed)"
  shows "\<exists>record. create_signed_provenance pc sid repo commit img tag hmac_key key signer_address now = Inr record \<and>
    (verify_signed_provenance pc record hmac_key' allowed allow_hmac sid' repo' commit' img' = Inr (True, [])
      \<longleftrightarrow> sid' = sid \<and> repo' = repo \<and> commit' = commit \<and> img' = img)"
proof -
  define payload where "payload = provenance_payload sid repo commit img tag now"
  define canonical where "canonical = canonical_json pc payload"
  obtain sig where sig: "pc_sign pc canonical key = Inr sig" "lower (strip sig) \<noteq> []" "pc_recover pc canonical (lower (strip sig)) = Inr address"
    and a: "pc_address pc key = Inr address"
    using assms(1) by (auto simp: recovers_signer_def)
  define entry where "entry = [(''alg'', JStr PROVENANCE_EIP191_ALG), (''payload'', JObj payload), (''signer'', JStr address), (''signature'', JStr sig)]"
  have "create_signed_provenance pc sid repo commit img tag hmac_key key signer_address now = Inr (JObj entry)"
    using assms(2,5) a sig(1) by (auto simp: create_signed_provenance_def entry_def payload_def canonical_def Let_def)
  moreover have "check_signature pc entry PROVENANCE_EIP191_ALG canonical (lower (strip sig)) hmac_key' allowed allow_hmac = Inr None"
  proof -
    obtain x where "x \<in> set allowed" "lower x = lower address" using assms(6) by auto
    moreover from this have "x \<noteq> []" using assms(4) by (metis lower_eq_Nil)
    ultimately have "lower address \<in> set (map lower (filter (\<lambda>s. s \<noteq> []) allowed))"
      by (auto simp: image_iff intro!: bexI [of _ x])
    then show ?thesis
      using assms(3,4) sig(3) by (simp add: check_signature_def entry_def str_get_def PROVENANCE_HMAC_ALG_def PROVENANCE_EIP191_ALG_def Let_def)
         (metis lower_eq_Nil strip_Nil)
  qed
  moreover have "lower (strip PROVENANCE_EIP191_ALG) = PROVENANCE_EIP191_ALG" by code_simp
  ultimately show ?thesis
    using sig(2) check_fields_payload [of sid repo commit img tag now sid' repo' commit' img']
    by (intro exI [of _ "JObj entry"]) (simp add: verify_signed_provenance_def verify_payload_def entry_def str_get_def payload_def canonical_def)
qed



section \<open>Sample\<close>

definition toy_prov :: prov_crypto where
  "toy_prov = \<lparr>pc_hmac = (\<lambda>k m. ''00''), pc_address = (\<lambda>k. Inr (''0x'' @ k)), pc_sign = (\<lambda>m k. Inr (''0x'' @ k)),
     pc_recover = (\<lambda>m s. if prefix ''0x'' s then Inr s else Inl (ValueError ''signature'')), pc_float = (\<lambda>_. [])\<rparr>"

definition toy_policy :: policy_env where
  "toy_policy = \<lparr>pv_require_signed = None, pv_require_asymmetric = None, pv_hmac_key = None, pv_allowed_signers = Some ''0xk1''\<rparr>"

definition toy_signed :: submission where
  "toy_signed = (new_submission ''s1'' ''git://r'' ''c1'' 1 ''h1'' ''R'' None False None None 0)
     \<lparr>sb_image_tag := Some ''solver'', sb_image_id := Some ''sha256:aa'',
      sb_provenance := projr (create_signed_provenance toy_prov ''s1'' ''git://r'' ''c1'' ''sha256:aa'' None [] ''k1'' [] 7)\<rparr>"

theorem signed_provenance_binds_artifact_witness:
  "\<exists>r. create_signed_provenance toy_prov ''s1'' ''git://r'' ''c1'' ''sha256:aa'' None [] ''k1'' [] 7 = Inr r \<and>
    (verify_signed_provenance toy_prov r [] [''0xk1''] False ''s1'' ''git://r'' ''c2'' ''sha256:aa'' = Inr (True, [])
      \<longleftrightarrow> ''s1'' = ''s1'' \<and> ''git://r'' = ''git://r'' \<and> ''c2'' = ''c1'' \<and> ''sha256:aa'' = ''sha256:aa'')"
proof (rule signed_provenance_binds_artifact)
  have "lower (strip ''0xk1'') = ''0xk1''" "strip ''0xk1'' \<noteq> []" by code_simp+
  then show "recovers_signer toy_prov ''k1'' ''0xk1''" by (simp add: recovers_signer_def toy_prov_def)
  show "lower (strip ''0xk1'') = lower ''0xk1''" by code_simp
qed simp_all


text \<open>Property: a signature the account library cannot decode is not refused: the exception leaves the eligibility check.\<close>

lemma undecodable_signature_raises:
  "is_submission_champion_eligible toy_prov toy_policy (toy_signed\<lparr>sb_provenance :=
     JObj [(''alg'', JStr PROVENANCE_EIP191_ALG), (''payload'', JObj []), (''signer'', JStr ''0xk1''), (''signature'', JStr ''zz'')]\<rparr>)
   = Inl (ValueError ''signature'')"
  by code_simp

end
