(* ===== verification/Epoch_Rank.thy ===== *)
theory Epoch_Rank
  imports Relative_Scoring Provenance Submission_Life
begin

text \<open>
  The decision half of \<open>epoch/manager.py\<close>: the champion a manager holds, the ranking of the candidates of a round, the
  refresh of the incumbent's bar and the adoption verdict, on top of the submission store, the eligibility policy and the
  relative adoption rule. A manager has its submission store wired. The benchmark worker, the clock and the environment are
  arguments; what a call reports to \<open>/health\<close> and to the log is left out, except that reading the store reloads it.
\<close>

section \<open>Rows\<close>

text \<open>A stored row read as \<open>relative_scoring\<close> reads it; order ids are texts, and what is not an object has no fields.\<close>

fun json_pyval :: "json \<Rightarrow> pyval" where
  "json_pyval JNull = PNone"
| "json_pyval (JBool b) = PBool b"
| "json_pyval (JInt i) = PInt i"
| "json_pyval (JFloat x) = PFloat x"
| "json_pyval (JStr s) = PStr s"
| "json_pyval (JList xs) = PObj (if xs = [] then ''[]'' else ''[...]'')"
| "json_pyval (JObj d) = PObj (if d = [] then ''{}'' else ''{...}'')"

definition row_of_json :: "json \<Rightarrow> bench_row" where
  "row_of_json j = (let d = (case j of JObj d \<Rightarrow> d | _ \<Rightarrow> []) in
     \<lparr>intent_id = (case jget d ''intent_id'' of JStr s \<Rightarrow> Some s | _ \<Rightarrow> None), raw_output = json_pyval (jget d ''raw_output''),
      shadow_score = json_pyval (jget d ''shadow_score''), mock_simulation = json_pyval (jget d ''mock_simulation''),
      row_error = json_pyval (jget d ''error''), gas_basis = json_pyval (jget d ''gas_basis''),
      gas_metered = json_pyval (jget d ''gas_metered'')\<rparr>)"

definition per_intent :: "submission option \<Rightarrow> bench_row list" where
  "per_intent s = (case s of None \<Rightarrow> [] | Some s \<Rightarrow>
     (case sb_benchmark_details s of
        JObj d \<Rightarrow> (case jget d ''per_intent'' of JList rows \<Rightarrow> map row_of_json rows | _ \<Rightarrow> [])
      | _ \<Rightarrow> []))"

section \<open>The manager\<close>

record champion_info =
  ci_submission_id :: "string option"
  ci_solver_name :: "string option"
  ci_solver_version :: "string option"
  ci_epoch_adopted :: int
  ci_image_tag :: "string option"
  ci_hotkey :: "string option"
  ci_adopted_at :: real
  ci_adoption_outputs :: "(string \<times> string) list option"

definition no_info :: champion_info where
  "no_info = \<lparr>ci_submission_id = None, ci_solver_name = None, ci_solver_version = None, ci_epoch_adopted = 0, ci_image_tag = None,
     ci_hotkey = None, ci_adopted_at = 0, ci_adoption_outputs = None\<rparr>"

record manager =
  em_champion :: champion_info
  em_refresh_failed :: bool
  em_reason :: "string option"
  em_verdict :: "adoption option"
  em_subs :: world

text \<open>
  The answer of \<open>_score_one_image\<close>: it raises, is degenerate, or has details. \<open>mg_disable\<close> is the value of \<open>DISABLE_CHAMPION_ADOPTION\<close> and \<open>mg_genesis_image\<close> what the worker resolves for a champion without an image.
\<close>

datatype bench_answer = Bench_Raised | Bench_Degenerate | Bench_Details "(string \<times> json) list"

record manager_env =
  mg_cfg :: sub_cfg
  mg_op :: op_env
  mg_now :: real
  mg_prov :: prov_crypto
  mg_policy :: policy_env
  mg_disable :: "string option"
  mg_worker :: bool
  mg_genesis_image :: "string option"
  mg_score_one :: "string \<Rightarrow> bench_answer"
  mg_quorum_mode :: bool

definition adoption_disabled :: "string option \<Rightarrow> bool" where
  "adoption_disabled raw \<longleftrightarrow> lower (strip (or_empty raw)) \<in> {''1'', ''true'', ''yes'', ''on''}"

definition reload :: "manager_env \<Rightarrow> manager \<Rightarrow> manager" where
  "reload g m = m\<lparr>em_subs := maybe_reload (mg_op g) (mg_cfg g) (em_subs m)\<rparr>"

abbreviation store_of :: "manager \<Rightarrow> sub_store" where
  "store_of m \<equiv> fst (em_subs m)"

text \<open>\<open>_sub_store.get\<close> of the champion's id is a reload and a lookup, if there is a champion.\<close>

definition reload_champion :: "manager_env \<Rightarrow> manager \<Rightarrow> manager" where
  "reload_champion g m = (if or_empty (ci_submission_id (em_champion m)) = [] then m else reload g m)"

definition champion_sub :: "manager \<Rightarrow> submission option" where
  "champion_sub m = (let sid = or_empty (ci_submission_id (em_champion m)) in
     if sid = [] then None else lookup (em_subs m) sid)"

definition blind_spot_bar_kwargs :: "real \<Rightarrow> champion_info \<Rightarrow> bar \<times> real option" where
  "blind_spot_bar_kwargs now c = (case ci_adoption_outputs c of
       None \<Rightarrow> (None, None)
     | Some b \<Rightarrow> if b = [] \<or> ci_adopted_at c = 0 then (None, None)
         else (Some (map (\<lambda>(k, v). (k, PStr v)) b), Some (max 0 (now - ci_adopted_at c))))"

section \<open>Ranking\<close>

definition FACTOR_UNMEASURED :: int where "FACTOR_UNMEASURED = 2 ^ 31"

definition champion_statuses :: "sub_status set" where
  "champion_statuses = {SCORED, ADOPTED}"

text \<open>The verdict used for the ranking has no factorization and no dead wood delta.\<close>

definition rank_key :: "manager_env \<Rightarrow> manager \<Rightarrow> bench_row list \<Rightarrow> submission \<Rightarrow> (int \<times> int \<times> int \<times> string \<times> string) res" where
  "rank_key g m champ_rows s =
     (case blind_spot_bar_kwargs (mg_now g) (em_champion m) of (b, age) \<Rightarrow>
        res_bind (evaluate_relative_adoption champ_rows (per_intent (Some s)) RELATIVE_TOL_BPS b age 0 0) (\<lambda>v.
          let t = v_tally v; net = int (n_wins t) + int (n_blind_spots t) - int (n_regressions t) - int (n_dropped t) in
          Inr (if adoption.adopt v then 0 else 1, - net,
               case sb_max_region_nodes s of Some n \<Rightarrow> n | None \<Rightarrow> FACTOR_UNMEASURED,
               or_empty (sb_image_id s), sb_id s)))"

fun eligible_subs :: "manager_env \<Rightarrow> submission list \<Rightarrow> submission list res" where
  "eligible_subs g [] = Inr []"
| "eligible_subs g (s # subs) =
     (if sb_status s \<notin> champion_statuses \<or> \<not> has_delivered_value_rows (per_intent (Some s)) then eligible_subs g subs
      else res_bind (is_submission_champion_eligible (mg_prov g) (mg_policy g) s) (\<lambda>(ok, why).
        res_bind (eligible_subs g subs) (\<lambda>rest. Inr (if ok then s # rest else rest))))"

definition eligible_candidates :: "manager_env \<Rightarrow> manager \<Rightarrow> submission list \<Rightarrow> submission list res" where
  "eligible_candidates g m subs =
     (let champ_rows = per_intent (champion_sub m) in
      res_bind (eligible_subs g subs) (\<lambda>eligible.
      res_bind (res_map (\<lambda>s. res_bind (rank_key g m champ_rows s) (\<lambda>k. Inr (k, s))) eligible) (\<lambda>keyed.
        Inr (map snd (sort_key fst keyed)))))"

definition find_champion_candidates :: "manager_env \<Rightarrow> int \<Rightarrow> string option \<Rightarrow> manager \<Rightarrow> submission list res \<times> manager" where
  "find_champion_candidates g epoch round_id m =
     (let m = reload g m; st = store_of m in
      (case round_id of
         Some rid \<Rightarrow>
           res_bind (eligible_candidates g m (list_by_round rid st)) (\<lambda>cs.
             if cs \<noteq> [] \<or> or_empty (ci_submission_id (em_champion m)) \<noteq> [] then Inr cs
             else eligible_candidates g m (list_by_status SCORED st))
       | None \<Rightarrow>
           res_bind (eligible_candidates g m (list_by_epoch epoch st)) (\<lambda>cs.
             if cs \<noteq> [] then Inr cs
             else eligible_candidates g m (concat (map (\<lambda>e. list_by_epoch e st) [max 0 (epoch - 5)..epoch]))), m))"

definition inflight_statuses :: "sub_status set" where
  "inflight_statuses = {QUEUED, SCREENING_1, SCREENING_2, SCREENING_3, BENCHMARKING}"

definition round_has_inflight :: "string \<Rightarrow> manager \<Rightarrow> bool" where
  "round_has_inflight rid m \<longleftrightarrow> list_ex (\<lambda>s. sb_status s \<in> inflight_statuses) (list_by_round rid (store_of m))"

definition count_scored :: "int \<Rightarrow> string option \<Rightarrow> manager \<Rightarrow> nat" where
  "count_scored epoch round_id m = length (filter (\<lambda>s. sb_status s \<in> champion_statuses)
     (case round_id of Some rid \<Rightarrow> list_by_round rid (store_of m) | None \<Rightarrow> list_by_epoch epoch (store_of m)))"

section \<open>The incumbent's bar\<close>

definition GENESIS_EPOCH :: int where "GENESIS_EPOCH = 0"

definition genesis_info :: "submission \<Rightarrow> champion_info" where
  "genesis_info s = \<lparr>ci_submission_id = Some (sb_id s), ci_solver_name = sb_solver_name s, ci_solver_version = sb_solver_version s,
     ci_epoch_adopted = sb_epoch s, ci_image_tag = sb_image_tag s, ci_hotkey = Some GENESIS_HOTKEY, ci_adopted_at = sb_updated_at s,
     ci_adoption_outputs = None\<rparr>"

text \<open>The index names the submission under that hotkey and epoch, as the assertion in the code expects.\<close>

definition maybe_seed_genesis :: "manager_env \<Rightarrow> manager \<Rightarrow> manager" where
  "maybe_seed_genesis g m0 =
     (if or_empty (ci_submission_id (em_champion m0)) \<noteq> [] then m0
      else let m = reload g m0 in
        case get_by_hotkey_epoch GENESIS_HOTKEY GENESIS_EPOCH (store_of m) of
          None \<Rightarrow> m
        | Some s \<Rightarrow>
            if sb_status s \<notin> champion_statuses \<or> \<not> has_delivered_value_rows (per_intent (Some s)) then m
            else m\<lparr>em_champion := genesis_info s\<rparr>)"

text \<open>The image to benchmark: the pushed digest, the local tag, or what the worker resolves.\<close>

definition incumbent_image :: "manager_env \<Rightarrow> submission \<Rightarrow> string option" where
  "incumbent_image g s =
     (if or_empty (sb_image_digest s) \<noteq> [] then sb_image_digest s
      else if or_empty (sb_image_tag s) \<noteq> [] then sb_image_tag s
      else if or_empty (mg_genesis_image g) \<noteq> [] then mg_genesis_image g else None)"

definition refresh_incumbent_score :: "manager_env \<Rightarrow> manager \<Rightarrow> manager" where
  "refresh_incumbent_score g m0 =
     (let m1 = (maybe_seed_genesis g m0)\<lparr>em_refresh_failed := False\<rparr> in
      if or_empty (ci_submission_id (em_champion m1)) = [] \<or> \<not> mg_worker g then m1
      else let m = reload g m1; stale = m\<lparr>em_refresh_failed := True\<rparr> in
        case champion_sub m of
          None \<Rightarrow> stale
        | Some s \<Rightarrow> (case incumbent_image g s of
              None \<Rightarrow> stale
            | Some img \<Rightarrow> (case mg_score_one g img of
                  Bench_Raised \<Rightarrow> stale
                | Bench_Degenerate \<Rightarrow> m
                | Bench_Details d \<Rightarrow>
                    (case merge_benchmark_details (mg_op g) (mg_cfg g) (sb_id s) d (em_subs m) of
                       (Inl _, w) \<Rightarrow> stale\<lparr>em_subs := w\<rparr>
                     | (Inr _, w) \<Rightarrow> m\<lparr>em_subs := w\<rparr>))))"

section \<open>The verdict\<close>

text \<open>\<open>None\<close> on any exception.\<close>

definition evaluate_per_order_adoption :: "manager_env \<Rightarrow> submission \<Rightarrow> manager \<Rightarrow> adoption option" where
  "evaluate_per_order_adoption g s m =
     (let inc = champion_sub m in
      case blind_spot_bar_kwargs (mg_now g) (em_champion m) of (b, age) \<Rightarrow>
        (case evaluate_relative_adoption (per_intent inc) (per_intent (Some s)) RELATIVE_TOL_BPS b age
            (factor_delta_between (Option.bind inc sb_max_region_nodes) (sb_max_region_nodes s))
            (deadwood_delta_between (Option.bind inc sb_unproductive_nodes) (sb_unproductive_nodes s)
               (Option.bind inc sb_unproductive_version) (sb_unproductive_version s)) of
           Inl _ \<Rightarrow> None
         | Inr v \<Rightarrow> Some v))"

definition meets_adoption_criteria :: "manager_env \<Rightarrow> submission \<Rightarrow> manager \<Rightarrow> bool \<times> manager" where
  "meets_adoption_criteria g s m0 =
     (let m = m0\<lparr>em_reason := None, em_verdict := None\<rparr>; cid = ci_submission_id (em_champion m) in
      if Some (sb_id s) = cid then (False, m\<lparr>em_reason := Some ''same submission as champion''\<rparr>)
      else if or_empty cid \<noteq> [] \<and> em_refresh_failed m then (False, m\<lparr>em_reason := Some ''stale incumbent bar (re-benchmark failed)''\<rparr>)
      else let m1 = reload_champion g m in
        case evaluate_per_order_adoption g s m1 of
          None \<Rightarrow> (False, m1\<lparr>em_reason := Some ''no comparable per-order data''\<rparr>)
        | Some v \<Rightarrow> (adoption.adopt v, m1\<lparr>em_reason := Some (adoption.reason v), em_verdict := Some v\<rparr>))"

text \<open>The would-be vote that is published first reads the champion's record.\<close>

definition should_adopt :: "manager_env \<Rightarrow> submission \<Rightarrow> manager \<Rightarrow> bool \<times> manager" where
  "should_adopt g s m0 =
     (let m = (if mg_quorum_mode g then reload_champion g m0 else m0) in
      if adoption_disabled (mg_disable g) then (False, m\<lparr>em_reason := Some ''adoption disabled (DISABLE_CHAMPION_ADOPTION)''\<rparr>)
      else meets_adoption_criteria g s m)"

section \<open>The ranking is a function of the candidates\<close>

definition considered :: "submission \<Rightarrow> bool" where
  "considered s \<longleftrightarrow> sb_status s \<in> champion_statuses \<and> has_delivered_value_rows (per_intent (Some s))"

definition policy_ok :: "manager_env \<Rightarrow> submission \<Rightarrow> bool" where
  "policy_ok g s \<longleftrightarrow> (\<exists>why. is_submission_champion_eligible (mg_prov g) (mg_policy g) s = Inr (True, why))"

lemma eligible_subs_eq:
  "eligible_subs g subs = Inr es \<longleftrightarrow>
     (\<forall>s \<in> set subs. considered s \<longrightarrow> (\<exists>r. is_submission_champion_eligible (mg_prov g) (mg_policy g) s = Inr r))
     \<and> es = filter (\<lambda>s. considered s \<and> policy_ok g s) subs"
proof (induction subs arbitrary: es)
  case (Cons s subs)
  show ?case
  proof (cases "considered s")
    case False
    then have "eligible_subs g (s # subs) = eligible_subs g subs" by (auto simp: considered_def)
    then show ?thesis using Cons.IH [of es] False by simp
  next
    case True
    then have "eligible_subs g (s # subs) = res_bind (is_submission_champion_eligible (mg_prov g) (mg_policy g) s) (\<lambda>(ok, why).
        res_bind (eligible_subs g subs) (\<lambda>rest. Inr (if ok then s # rest else rest)))" by (auto simp: considered_def)
    then show ?thesis using Cons.IH True
      by (cases "is_submission_champion_eligible (mg_prov g) (mg_policy g) s") (auto simp: policy_ok_def res_bind_eq_Inr)
  qed
qed auto

lemma res_map_total: "res_map f xs = Inr ys \<longleftrightarrow> (\<forall>x \<in> set xs. \<exists>y. f x = Inr y) \<and> ys = map (\<lambda>x. projr (f x)) xs"
proof (induction xs arbitrary: ys)
  case (Cons x xs)
  then show ?case by (cases "f x") (auto simp: res_bind_eq_Inr)
qed auto

text \<open>The sort keys of different submissions differ.\<close>

lemma rank_key_id: "rank_key g m rows s = Inr (a, b, c, d, e) \<Longrightarrow> e = sb_id s"
  by (auto simp: rank_key_def Let_def res_bind_eq_Inr split: prod.splits)

lemma sort_key_map_pair: "map snd (sort_key fst (map (\<lambda>s. (f s, s)) xs)) = sort_key f xs"
proof -
  have p: "sort_key fst (map (\<lambda>s. (f s, s)) ys) = map (\<lambda>s. (f s, s)) (sort_key f ys)" for ys
  proof (induction ys)
    case (Cons y ys)
    have "insort_key fst (f y, y) (map (\<lambda>s. (f s, s)) zs) = map (\<lambda>s. (f s, s)) (insort_key f y zs)" for zs
      by (induction zs) auto
    then show ?case using Cons.IH by simp
  qed simp
  show ?thesis by (simp add: p comp_def)
qed

lemma ranked_candidates:
  assumes "eligible_candidates g m subs = Inr cs" "distinct (map sb_id subs)"
  obtains key where "\<forall>s \<in> set cs. rank_key g m (per_intent (champion_sub m)) s = Inr (key s)"
    "cs = sort_key key (filter (\<lambda>s. considered s \<and> policy_ok g s) subs)" "inj_on key (set cs)"
proof -
  let ?rows = "per_intent (champion_sub m)" and ?es = "filter (\<lambda>s. considered s \<and> policy_ok g s) subs"
  define key where "key s = projr (rank_key g m ?rows s)" for s
  let ?f = "\<lambda>s. res_bind (rank_key g m ?rows s) (\<lambda>k. Inr (k, s))"
  have es: "eligible_subs g subs = Inr ?es" and "res_bind (res_map ?f ?es) (\<lambda>keyed. Inr (map snd (sort_key fst keyed))) = Inr cs"
    using assms(1) by (auto simp: eligible_candidates_def Let_def res_bind_eq_Inr eligible_subs_eq)
  then obtain ps where ps: "res_map ?f ?es = Inr ps" "cs = map snd (sort_key fst ps)" by (cases "res_map ?f ?es") auto
  have k: "rank_key g m ?rows s = Inr (key s)" if "s \<in> set ?es" for s
  proof -
    have "\<exists>y. ?f s = Inr y" using ps(1) that by (simp only: res_map_total)
    then show ?thesis by (cases "rank_key g m ?rows s") (auto simp: key_def)
  qed
  have "ps = map (\<lambda>s. projr (?f s)) ?es" using ps(1) by (simp only: res_map_total)
  also have "\<dots> = map (\<lambda>s. (key s, s)) ?es" by (intro map_cong refl) (simp only: k res_bind_Inr sum.sel)
  finally have cs: "cs = sort_key key ?es" using ps(2) by (simp add: sort_key_map_pair)
  have "inj_on key (set ?es)"
  proof (rule inj_onI)
    fix s t assume st: "s \<in> set ?es" "t \<in> set ?es" "key s = key t"
    obtain a b c d e where ks: "key s = (a, b, c, d, e)" by (cases "key s")
    have "sb_id s = sb_id t"
      using rank_key_id [of g m ?rows s a b c d e] rank_key_id [of g m ?rows t a b c d e] k [OF st(1)] k [OF st(2)] st(3) ks by simp
    then show "s = t" using st(1,2) assms(2) by (auto simp: distinct_map inj_on_def)
  qed
  with k cs show thesis by (intro that [of key]) auto
qed


text \<open>Claim C11: the ranking is a function of the set of submissions: whatever order a store lists them in, the same candidates come out in
  the same order, so that two leaders on the same records nominate the same finalist; every candidate is scored, delivered
  value and passes the policy, and a candidate the stored bar would adopt comes before every one it would not.\<close>

theorem ranking_is_deterministic:
  assumes "eligible_candidates g m subs = Inr cs" "distinct (map sb_id subs)" "mset subs' = mset subs"
  shows "eligible_candidates g m subs' = Inr cs
    \<and> (\<forall>s \<in> set cs. sb_status s \<in> champion_statuses \<and> has_delivered_value_rows (per_intent (Some s))
         \<and> (\<exists>why. is_submission_champion_eligible (mg_prov g) (mg_policy g) s = Inr (True, why)))
    \<and> sorted_wrt (\<lambda>s t. \<exists>a b r r'. rank_key g m (per_intent (champion_sub m)) s = Inr (a, r)
         \<and> rank_key g m (per_intent (champion_sub m)) t = Inr (b, r') \<and> a \<le> b) cs"
proof -
  let ?P = "\<lambda>s. considered s \<and> policy_ok g s"
  obtain key where key: "\<forall>s \<in> set cs. rank_key g m (per_intent (champion_sub m)) s = Inr (key s)"
    "cs = sort_key key (filter ?P subs)" "inj_on key (set cs)"
    using ranked_candidates [OF assms(1,2)] .
  let ?f = "\<lambda>s. res_bind (rank_key g m (per_intent (champion_sub m)) s) (\<lambda>k. Inr (k, s))"
  have sets: "set subs' = set subs" using assms(3) by (metis set_mset_mset)
  have "eligible_subs g subs = Inr (filter ?P subs)"
    using assms(1) by (auto simp: eligible_candidates_def Let_def res_bind_eq_Inr eligible_subs_eq)
  then have es: "eligible_subs g subs' = Inr (filter ?P subs')" using sets by (simp add: eligible_subs_eq)
  have in_cs: "set (filter ?P subs') = set cs" using sets key(2) by simp
  have f: "?f s = Inr (key s, s)" if "s \<in> set (filter ?P subs')" for s
    using key(1) that unfolding in_cs by simp
  have "res_map ?f (filter ?P subs') = Inr (map (\<lambda>s. (key s, s)) (filter ?P subs'))"
    using res_map_map [of "filter ?P subs'" ?f "\<lambda>s. s" "\<lambda>s. (key s, s)", OF f] by (simp only: map_ident)
  then have "eligible_candidates g m subs' = Inr (sort_key key (filter ?P subs'))"
    by (simp add: eligible_candidates_def Let_def es sort_key_map_pair)
  moreover have "sort_key key (filter ?P subs') = cs"
  proof (rule sort_key_inj_key_eq)
    show "mset (filter ?P subs') = mset cs" using assms(3) key(2) by (metis mset_filter mset_sort)
    show "inj_on key (set (filter ?P subs'))" using key(3) in_cs by simp
    show "sorted (map key cs)" by (simp add: key(2))
  qed
  moreover have "\<forall>s \<in> set cs. considered s \<and> policy_ok g s" by (simp add: key(2))
  moreover have "sorted_wrt (\<lambda>s t. \<exists>a b r r'. rank_key g m (per_intent (champion_sub m)) s = Inr (a, r)
         \<and> rank_key g m (per_intent (champion_sub m)) t = Inr (b, r') \<and> a \<le> b) cs"
  proof (rule sorted_wrt_mono_rel)
    show "sorted_wrt (\<lambda>s t. key s \<le> key t) cs" using sorted_sort_key [of key "filter ?P subs"] by (simp add: key(2) sorted_map)
    fix s t assume "s \<in> set cs" "t \<in> set cs" "key s \<le> key t"
    moreover from \<open>key s \<le> key t\<close> have "fst (key s) \<le> fst (key t)" by (auto simp: less_eq_prod_def)
    ultimately show "\<exists>a b r r'. rank_key g m (per_intent (champion_sub m)) s = Inr (a, r)
         \<and> rank_key g m (per_intent (champion_sub m)) t = Inr (b, r') \<and> a \<le> b"
      using key(1) by (metis prod.collapse)
  qed
  ultimately show ?thesis by (simp add: considered_def policy_ok_def)
qed

section \<open>The bar after a refresh\<close>

text \<open>The store has seen what the other processes committed, and its records are found under their ids.\<close>

definition up_to_date :: "manager_env \<Rightarrow> manager \<Rightarrow> bool" where
  "up_to_date g m \<longleftrightarrow> own_rows (mg_cfg g) (em_subs m) \<and> wf_dict (ss_subs (store_of m))
     \<and> list_all (\<lambda>(k, s). sb_id s = k) (ss_subs (store_of m))"

text \<open>\<open>inc\<close> is the champion's record and there is a worker; \<open>rebenched\<close>: it has an image and the worker answers with details.\<close>

definition seated :: "manager_env \<Rightarrow> manager \<Rightarrow> submission \<Rightarrow> bool" where
  "seated g m inc \<longleftrightarrow> up_to_date g m \<and> ci_submission_id (em_champion m) = Some (sb_id inc) \<and> sb_id inc \<noteq> []
     \<and> lookup (em_subs m) (sb_id inc) = Some inc \<and> mg_worker g"

definition rebenched :: "manager_env \<Rightarrow> manager \<Rightarrow> submission \<Rightarrow> (string \<times> json) list \<Rightarrow> bool" where
  "rebenched g m inc d \<longleftrightarrow> seated g m inc \<and> wf_dict d
     \<and> (case incumbent_image g inc of None \<Rightarrow> False | Some img \<Rightarrow> mg_score_one g img = Bench_Details d)"

definition with_details :: "manager_env \<Rightarrow> submission \<Rightarrow> (string \<times> json) list \<Rightarrow> submission" where
  "with_details g inc d = inc\<lparr>sb_benchmark_details := merged_details (sb_benchmark_details inc) d, sb_updated_at := e_now (mg_op g)\<rparr>"

lemma manager_reload:
  assumes "own_rows (mg_cfg g) (em_subs m)"
  obtains n where "ss_last_seen (store_of m) \<le> n" "reload g m = m\<lparr>em_subs := (store_of m\<lparr>ss_last_seen := n\<rparr>, snd (em_subs m))\<rparr>"
  using reload_own [OF assms, of "mg_op g"] by (metis reload_def)

lemma own_rows_seen: "own_rows cfg w \<Longrightarrow> ss_last_seen (fst w) \<le> n \<Longrightarrow> own_rows cfg (fst w\<lparr>ss_last_seen := n\<rparr>, snd w)"
  by (fastforce simp: own_rows_def)

lemma put_own_rows [simp]: "own_rows cfg (put_sub k s w) = own_rows cfg w"
  by (simp add: own_rows_def put_sub_def)

lemma lookup_seen [simp]: "lookup (st\<lparr>ss_last_seen := n\<rparr>, fs) = lookup (st, fs)"
  by (intro ext) (simp add: lookup_def)

text \<open>The refresh of a seated champion, from a store that is up to date.\<close>

lemma refresh_seated:
  assumes "seated g m inc"
  defines "w \<equiv> em_subs (reload g m)"
  shows "own_rows (mg_cfg g) w" "ss_subs (fst w) = ss_subs (store_of m)"
    "refresh_incumbent_score g m = (let n = m\<lparr>em_refresh_failed := False, em_subs := w\<rparr>; stale = n\<lparr>em_refresh_failed := True\<rparr> in
       case incumbent_image g inc of None \<Rightarrow> stale | Some img \<Rightarrow> (case mg_score_one g img of
           Bench_Raised \<Rightarrow> stale | Bench_Degenerate \<Rightarrow> n
         | Bench_Details d \<Rightarrow> (case merge_benchmark_details (mg_op g) (mg_cfg g) (sb_id inc) d w of
               (Inl _, w') \<Rightarrow> stale\<lparr>em_subs := w'\<rparr> | (Inr _, w') \<Rightarrow> n\<lparr>em_subs := w'\<rparr>)))"
proof -
  let ?m1 = "m\<lparr>em_refresh_failed := False\<rparr>"
  from assms(1) have b: "own_rows (mg_cfg g) (em_subs m)" "ci_submission_id (em_champion m) = Some (sb_id inc)" "sb_id inc \<noteq> []"
      "lookup (em_subs m) (sb_id inc) = Some inc" "mg_worker g"
    by (auto simp: seated_def up_to_date_def)
  obtain n where n: "ss_last_seen (store_of m) \<le> n" "reload g m = m\<lparr>em_subs := (store_of m\<lparr>ss_last_seen := n\<rparr>, snd (em_subs m))\<rparr>"
    using manager_reload [OF b(1)] .
  then have w: "w = (store_of m\<lparr>ss_last_seen := n\<rparr>, snd (em_subs m))" by (simp add: w_def)
  show "own_rows (mg_cfg g) w" "ss_subs (fst w) = ss_subs (store_of m)" using own_rows_seen [OF b(1) n(1)] by (simp_all add: w)
  have "reload g ?m1 = ?m1\<lparr>em_subs := w\<rparr>" by (simp add: reload_def w_def)
  moreover have "champion_sub (?m1\<lparr>em_subs := w\<rparr>) = Some inc" using b(2-4) by (simp add: champion_sub_def w lookup_def)
  ultimately show "refresh_incumbent_score g m = (let n = m\<lparr>em_refresh_failed := False, em_subs := w\<rparr>; stale = n\<lparr>em_refresh_failed := True\<rparr> in
       case incumbent_image g inc of None \<Rightarrow> stale | Some img \<Rightarrow> (case mg_score_one g img of
           Bench_Raised \<Rightarrow> stale | Bench_Degenerate \<Rightarrow> n
         | Bench_Details d \<Rightarrow> (case merge_benchmark_details (mg_op g) (mg_cfg g) (sb_id inc) d w of
               (Inl _, w') \<Rightarrow> stale\<lparr>em_subs := w'\<rparr> | (Inr _, w') \<Rightarrow> n\<lparr>em_subs := w'\<rparr>)))"
    using b(2,3,5) by (simp add: refresh_incumbent_score_def maybe_seed_genesis_def Let_def split: option.split bench_answer.split)
qed

lemma merge_writes:
  assumes "own_rows (mg_cfg g) w" "lookup w (sb_id inc) = Some inc"
  obtains w' where "merge_benchmark_details (mg_op g) (mg_cfg g) (sb_id inc) d w =
      (Inr (), persist_records (mg_op g) (mg_cfg g) [sb_id inc] (put_sub (sb_id inc) (with_details g inc d) w'))"
    "ss_subs (fst w') = ss_subs (fst w)" "own_rows (mg_cfg g) w'"
proof -
  obtain n where n: "ss_last_seen (fst w) \<le> n" "maybe_reload (mg_op g) (mg_cfg g) w = (fst w\<lparr>ss_last_seen := n\<rparr>, snd w)"
    using reload_own [OF assms(1)] .
  have sub: "map_of (ss_subs (fst w)) (sb_id inc) = Some inc" using assms(2) by (simp add: lookup_def)
  have "merge_benchmark_details (mg_op g) (mg_cfg g) (sb_id inc) d w =
      (Inr (), persist_records (mg_op g) (mg_cfg g) [sb_id inc]
        (put_sub (sb_id inc) (with_details g inc d) (fst w\<lparr>ss_last_seen := n\<rparr>, snd w)))"
    unfolding merge_benchmark_details_def set_field_def guarded_def n(2)
    by (simp add: on_sub_def sub put_sub_def with_details_def)
  then show thesis using own_rows_seen [OF assms(1) n(1)] by (intro that) simp_all
qed

lemma refresh_writes:
  assumes "rebenched g m inc d"
  obtains w where "refresh_incumbent_score g m = m\<lparr>em_refresh_failed := False,
      em_subs := persist_records (mg_op g) (mg_cfg g) [sb_id inc] (put_sub (sb_id inc) (with_details g inc d) w)\<rparr>"
    "ss_subs (fst w) = ss_subs (store_of m)" "own_rows (mg_cfg g) w"
proof -
  have s: "seated g m inc" "lookup (em_subs m) (sb_id inc) = Some inc" using assms by (auto simp: rebenched_def seated_def)
  obtain img where img: "incumbent_image g inc = Some img" "mg_score_one g img = Bench_Details d"
    using assms by (auto simp: rebenched_def split: option.splits)
  note r = refresh_seated [OF s(1)]
  have "lookup (em_subs (reload g m)) (sb_id inc) = Some inc" using s(2) r(2) by (simp add: lookup_def)
  then obtain w where w: "merge_benchmark_details (mg_op g) (mg_cfg g) (sb_id inc) d (em_subs (reload g m)) =
      (Inr (), persist_records (mg_op g) (mg_cfg g) [sb_id inc] (put_sub (sb_id inc) (with_details g inc d) w))"
    "ss_subs (fst w) = ss_subs (store_of (reload g m))" "own_rows (mg_cfg g) w"
    using merge_writes [OF r(1)] by blast
  then show thesis using r(2,3) img by (intro that [of w]) simp_all
qed

lemma stale_refresh:
  assumes "seated g m inc" "case incumbent_image g inc of None \<Rightarrow> True | Some img \<Rightarrow> mg_score_one g img = Bench_Raised"
  shows "refresh_incumbent_score g m = m\<lparr>em_refresh_failed := True, em_subs := em_subs (reload g m)\<rparr>"
  using assms(2) refresh_seated(3) [OF assms(1)] by (auto simp: Let_def split: option.splits)

lemma degenerate_refresh:
  assumes "seated g m inc" "incumbent_image g inc = Some img" "mg_score_one g img = Bench_Degenerate"
  shows "refresh_incumbent_score g m = m\<lparr>em_refresh_failed := False, em_subs := em_subs (reload g m)\<rparr>"
  using assms(2,3) refresh_seated(3) [OF assms(1)] by simp

text \<open>The record the decision then reads: the fresh details, or none when the retention took them in the same write.\<close>

definition stripped_now :: "manager_env \<Rightarrow> manager \<Rightarrow> submission \<Rightarrow> (string \<times> json) list \<Rightarrow> bool" where
  "stripped_now g m inc d \<longleftrightarrow> c_persist (mg_cfg g) \<and> sb_id inc \<in> set (details_retention (c_details_cap (mg_cfg g))
     (store_of m\<lparr>ss_subs := AList.update (sb_id inc) (with_details g inc d) (ss_subs (store_of m))\<rparr>))"

lemma details_retention_cong: "ss_subs st = ss_subs st' \<Longrightarrow> details_retention cap st = details_retention cap st'"
  by (simp add: details_retention_def)

lemma refreshed_record:
  assumes "rebenched g m inc d"
  defines "m' \<equiv> refresh_incumbent_score g m"
  shows "em_champion m' = em_champion m" "\<not> em_refresh_failed m'" "own_rows (mg_cfg g) (em_subs m')"
    "lookup (em_subs m') (sb_id inc) =
       Some (if stripped_now g m inc d then undetailed (with_details g inc d) else with_details g inc d)"
proof -
  obtain w0 where w0: "refresh_incumbent_score g m = m\<lparr>em_refresh_failed := False,
      em_subs := persist_records (mg_op g) (mg_cfg g) [sb_id inc] (put_sub (sb_id inc) (with_details g inc d) w0)\<rparr>"
    "ss_subs (fst w0) = ss_subs (store_of m)" "own_rows (mg_cfg g) w0"
    using refresh_writes [OF assms(1)] .
  show "em_champion m' = em_champion m" "\<not> em_refresh_failed m'" by (simp_all add: m'_def w0(1))
  show "own_rows (mg_cfg g) (em_subs m')" by (simp add: m'_def w0(1,3) own_rows_persist)
  have "details_retention (c_details_cap (mg_cfg g)) (fst (put_sub (sb_id inc) (with_details g inc d) w0)) =
      details_retention (c_details_cap (mg_cfg g))
        (store_of m\<lparr>ss_subs := AList.update (sb_id inc) (with_details g inc d) (ss_subs (store_of m))\<rparr>)"
    by (rule details_retention_cong) (simp add: put_sub_def w0(2))
  then show "lookup (em_subs m') (sb_id inc) =
       Some (if stripped_now g m inc d then undetailed (with_details g inc d) else with_details g inc d)"
    by (simp add: m'_def w0(1) lookup_def persist_records_mem strip_memory_subs map_of_mapped stripped_now_def w0(2)
        put_sub_def update_conv with_details_def)
qed

text \<open>A fresh answer replaces the rows.\<close>

lemma map_of_merge:
  "wf_dict d \<Longrightarrow> map_of (foldl (\<lambda>d (k, v). AList.update k v d) d0 d) = map_of d0 ++ map_of d"
proof (induction d arbitrary: d0)
  case (Cons p d)
  obtain k v where p: "p = (k, v)" by (cases p)
  have "map_of d k = None" using Cons.prems by (auto simp: p map_of_eq_None_iff)
  then show ?case using Cons by (auto simp: p update_conv' map_add_def fun_eq_iff split: option.splits)
qed simp

lemma fresh_rows:
  "wf_dict d \<Longrightarrow> map_of d ''per_intent'' = Some (JList rows) \<Longrightarrow> per_intent (Some (with_details g inc d)) = map row_of_json rows"
  by (simp add: per_intent_def with_details_def merged_details_def jget_def map_of_merge map_add_def)

lemma merged_not_falsy: "d \<noteq> [] \<Longrightarrow> \<not> jfalsy (merged_details old d)"
proof -
  have ne: "d0 \<noteq> [] \<Longrightarrow> foldl (\<lambda>d (k, v). AList.update k v d) d0 d \<noteq> []" for d0 d
    by (induction d arbitrary: d0) (simp_all add: update_nonempty split: prod.split)
  assume "d \<noteq> []"
  then obtain k v d' where "d = (k, v) # d'" by (cases d) auto
  then show ?thesis unfolding merged_details_def by (simp only: foldl_Cons prod.case jfalsy.simps) (intro ne update_nonempty)
qed

text \<open>The retention passes over a record that is not strippable, and takes one that enough newer ones precede.\<close>

lemma unstrippable_keeps_details:
  assumes "rebenched g m inc d" "sb_status inc \<notin> details_strippable_statuses"
  shows "\<not> stripped_now g m inc d"
proof
  let ?subs = "AList.update (sb_id inc) (with_details g inc d) (ss_subs (store_of m))"
  assume "stripped_now g m inc d"
  then obtain s where s: "s \<in> set (vals_of ?subs)" "sb_status s \<in> details_strippable_statuses" "sb_id s = sb_id inc"
    by (force simp: stripped_now_def details_retention_def Let_def dest!: in_set_dropD split: if_splits)
  then obtain k where k: "(k, s) \<in> set ?subs" by auto
  have "list_all (\<lambda>(k, s). sb_id s = k) (ss_subs (store_of m))" "wf_dict ?subs"
    using assms(1) by (auto simp: rebenched_def seated_def up_to_date_def intro: distinct_update)
  with k have "sb_id s = k" by (auto simp: list_all_iff with_details_def dest: in_update)
  with s(3) k have "map_of ?subs (sb_id inc) = Some s" using \<open>wf_dict ?subs\<close> by (simp add: map_of_is_SomeI)
  then show False using s(2) assms(2) by (auto simp: update_conv with_details_def)
qed

lemma drop_sort_key:
  assumes "x \<in> set xs" "n \<le> length (filter (\<lambda>y. f y < f x) xs)"
  shows "x \<in> set (drop n (sort_key f xs))"
proof (rule ccontr)
  let ?ys = "sort_key f xs"
  assume "x \<notin> set (drop n ?ys)"
  then have "x \<in> set (take n ?ys)" using assms(1) by (metis Un_iff append_take_drop_id set_append set_sort)
  then obtain i where i: "i < n" "i < length ?ys" "?ys ! i = x" by (auto simp: in_set_conv_nth)
  have "j < i" if "j < length ?ys" "f (?ys ! j) < f x" for j
    using sorted_nth_mono [OF sorted_sort_key [of f xs], of i j] that i by (fastforce simp: not_less [symmetric])
  then have "card {j. j < length ?ys \<and> f (?ys ! j) < f x} \<le> card {..<i}" by (intro card_mono) auto
  then have "length (filter (\<lambda>y. f y < f x) ?ys) \<le> i" by (simp add: length_filter_conv_card)
  moreover have "length (filter (\<lambda>y. f y < f x) ?ys) = length (filter (\<lambda>y. f y < f x) xs)" by (metis mset_filter mset_sort size_mset)
  ultimately show False using assms(2) i(1) by simp
qed

lemma in_set_drop_length: "x \<in> set (drop n xs) \<Longrightarrow> n < length xs"
  by (cases "length xs \<le> n") auto

lemma filter_vals_update:
  "map_of d k = Some v \<Longrightarrow> P v = P v' \<Longrightarrow> length (filter P (vals_of (AList.update k v' d))) = length (filter P (vals_of d))"
  by (induction d) auto

lemma newer_details_strip:
  assumes "rebenched g m inc d" "d \<noteq> []" "sb_status inc \<in> details_strippable_statuses" "c_persist (mg_cfg g)" "0 < c_details_cap (mg_cfg g)"
    and "c_details_cap (mg_cfg g) \<le> int (length (filter (\<lambda>s. sb_status s \<in> details_strippable_statuses
      \<and> \<not> jfalsy (sb_benchmark_details s) \<and> sb_epoch inc < sb_epoch s) (vals_of (ss_subs (store_of m)))))"
  shows "stripped_now g m inc d"
proof -
  let ?s = "with_details g inc d" and ?cap = "c_details_cap (mg_cfg g)"
  let ?subs = "vals_of (AList.update (sb_id inc) ?s (ss_subs (store_of m)))"
  let ?W = "filter (\<lambda>s. sb_status s \<in> details_strippable_statuses \<and> \<not> jfalsy (sb_benchmark_details s)) ?subs"
  let ?Q = "\<lambda>s. sb_status s \<in> details_strippable_statuses \<and> \<not> jfalsy (sb_benchmark_details s) \<and> sb_epoch inc < sb_epoch s"
  have f: "sb_epoch ?s = sb_epoch inc" "sb_status ?s = sb_status inc" "sb_id ?s = sb_id inc"
    "sb_benchmark_details ?s = merged_details (sb_benchmark_details inc) d" by (simp_all add: with_details_def)
  have at: "map_of (ss_subs (store_of m)) (sb_id inc) = Some inc" using assms(1) by (simp add: rebenched_def seated_def lookup_def)
  have "?s \<in> set ?subs" using map_of_SomeD [of "AList.update (sb_id inc) ?s (ss_subs (store_of m))" "sb_id inc" ?s]
    by (auto simp: update_conv image_iff intro: rev_bexI)
  then have s: "?s \<in> set ?W" using assms(2,3) by (simp add: f merged_not_falsy)
  have "filter (\<lambda>y. - sb_epoch y < - sb_epoch ?s) ?W = filter ?Q ?subs" by (auto simp: f intro!: filter_cong)
  then have "nat ?cap \<le> length (filter (\<lambda>y. - sb_epoch y < - sb_epoch ?s) ?W)"
    using assms(6) filter_vals_update [OF at, of ?Q ?s] f(1) by simp
  then have dr: "?s \<in> set (drop (nat ?cap) (sort_key (\<lambda>s. - sb_epoch s) ?W))" using s by (intro drop_sort_key)
  then have "nat ?cap < length ?W" using in_set_drop_length [OF dr] by (simp only: length_sort)
  then have "\<not> int (length ?W) \<le> ?cap" using assms(5) by linarith
  then show ?thesis
    using assms(4,5) imageI [OF dr, of sb_id] by (simp add: stripped_now_def details_retention_def Let_def f(3))
qed

section \<open>What the decision reads\<close>

lemma reload_champion_frame:
  assumes "own_rows (mg_cfg g) (em_subs m)"
  shows "em_champion (reload_champion g m) = em_champion m" "lookup (em_subs (reload_champion g m)) = lookup (em_subs m)"
    "em_refresh_failed (reload_champion g m) = em_refresh_failed m" "own_rows (mg_cfg g) (em_subs (reload_champion g m))"
proof -
  obtain n where "ss_last_seen (store_of m) \<le> n" "reload g m = m\<lparr>em_subs := (store_of m\<lparr>ss_last_seen := n\<rparr>, snd (em_subs m))\<rparr>"
    using manager_reload [OF assms] .
  then show "em_champion (reload_champion g m) = em_champion m" "lookup (em_subs (reload_champion g m)) = lookup (em_subs m)"
    "em_refresh_failed (reload_champion g m) = em_refresh_failed m" "own_rows (mg_cfg g) (em_subs (reload_champion g m))"
    using own_rows_seen [OF assms] assms by (auto simp: reload_champion_def)
qed

lemma evaluate_reads:
  assumes "em_champion m = em_champion m'" "lookup (em_subs m) = lookup (em_subs m')"
  shows "evaluate_per_order_adoption g s m = evaluate_per_order_adoption g s m'"
proof -
  have "champion_sub m = champion_sub m'" unfolding champion_sub_def assms ..
  then show ?thesis unfolding evaluate_per_order_adoption_def assms(1) by simp
qed

text \<open>The decision on a store that is up to date.\<close>

lemma should_adopt_iff:
  assumes "own_rows (mg_cfg g) (em_subs m)" "ci_submission_id (em_champion m) = Some k" "k \<noteq> []"
  shows "fst (should_adopt g s m) \<longleftrightarrow> \<not> adoption_disabled (mg_disable g) \<and> sb_id s \<noteq> k \<and> \<not> em_refresh_failed m
    \<and> (\<exists>v. evaluate_per_order_adoption g s m = Some v \<and> adoption.adopt v)"
proof -
  define m1 where "m1 = (if mg_quorum_mode g then reload_champion g m else m)\<lparr>em_reason := None, em_verdict := None\<rparr>"
  have m1: "em_champion m1 = em_champion m" "lookup (em_subs m1) = lookup (em_subs m)" "em_refresh_failed m1 = em_refresh_failed m"
    "own_rows (mg_cfg g) (em_subs m1)"
    using reload_champion_frame [OF assms(1)] assms(1) by (simp_all add: m1_def)
  have "evaluate_per_order_adoption g s (reload_champion g m1) = evaluate_per_order_adoption g s m"
    by (rule evaluate_reads) (simp_all add: m1 reload_champion_frame)
  then show ?thesis
    using assms(2,3) m1 unfolding should_adopt_def meets_adoption_criteria_def Let_def m1_def
    by (auto split: option.splits)
qed

lemma order_step_no_champion: "order_step tol b age (map_of []) by i t \<noteq> Inl e"
  by (simp add: order_step_def raw_output_of_def parse_output_def delivers_def Let_def)

text \<open>Against no rows at all, one delivered order is enough.\<close>

lemma empty_bar_adopts:
  assumes "delivered xr i = Some x" "0 < x"
  shows "\<exists>v. evaluate_relative_adoption [] xr tol None None fd dd = Inr v \<and> adoption.adopt v"
proof -
  have "\<exists>t'. order_step tol b age (map_of []) by i t = Inr t'" for b age by' i t and "by"
    using order_step_no_champion [of tol b age "by" i t] by (cases "order_step tol b age (map_of []) by i t") auto
  then obtain t where t: "relative_tally [] xr tol None None = Inr t"
    using run_orders_total [of "order_ids [] (index_rows xr)" "order_step tol (bar_get None) None (map_of []) (map_of (index_rows xr))" tally0]
    unfolding relative_tally_def Let_def by auto
  have cmp: "comparison [] xr tol None None t" using t by (rule relative_tally_comparison)
  have none: "parse_output (raw_output_of None) = None" "parse_output PNone = None" by (simp_all add: raw_output_of_def parse_output_def)
  have v: "verdict_of [] xr tol None None j \<in> {Blind_Spot_Cover, Skip}" for j
    by (simp add: order_verdict_def none delivers_def bar_blocks_def bar_get_def Let_def)
  have "verdict_of [] xr tol None None i = Blind_Spot_Cover"
    using assms by (simp add: order_verdict_def none delivers_def bar_blocks_def bar_get_def Let_def delivered_def MIN_VALID_OUTPUT_def)
  then have "n_blind_spots t > 0"
    using comparison_counts(3) [OF cmp] compared_idI(2) [OF assms(1), of "[]"] by (auto simp: filter_empty_conv)
  moreover have "n_regressions t = 0" "n_dropped t = 0" "n_catastrophic t = 0"
    using comparison_counts(2,5,8) [OF cmp] v by (simp_all add: filter_empty_conv order_catastrophic_def none delivers_def) (metis verdict.distinct)+
  ultimately have "adopts fd dd t" by (simp add: adopts_def performance_adopt_def net_better_def DETHRONE_WIN_MARGIN_def)
  then show ?thesis by (simp add: evaluate_relative_adoption_def t)
qed

text \<open>The verdict after a refresh is the relative rule on the record the refresh left.\<close>

lemma decision_after_refresh:
  assumes "rebenched g m inc d"
  shows "fst (should_adopt g s (refresh_incumbent_score g m)) \<longleftrightarrow> \<not> adoption_disabled (mg_disable g) \<and> sb_id s \<noteq> sb_id inc
    \<and> (\<exists>v. evaluate_per_order_adoption g s (refresh_incumbent_score g m) = Some v \<and> adoption.adopt v)"
    "champion_sub (refresh_incumbent_score g m) =
       Some (if stripped_now g m inc d then undetailed (with_details g inc d) else with_details g inc d)"
proof -
  note r = refreshed_record [OF assms]
  have c: "ci_submission_id (em_champion m) = Some (sb_id inc)" "sb_id inc \<noteq> []" using assms by (auto simp: rebenched_def seated_def)
  show "fst (should_adopt g s (refresh_incumbent_score g m)) \<longleftrightarrow> \<not> adoption_disabled (mg_disable g) \<and> sb_id s \<noteq> sb_id inc
    \<and> (\<exists>v. evaluate_per_order_adoption g s (refresh_incumbent_score g m) = Some v \<and> adoption.adopt v)"
    using should_adopt_iff [OF r(3), of "sb_id inc"] r(1,2) c by simp
  show "champion_sub (refresh_incumbent_score g m) =
       Some (if stripped_now g m inc d then undetailed (with_details g inc d) else with_details g inc d)"
    using c r(1,4) by (simp add: champion_sub_def)
qed

section \<open>Sample\<close>

text \<open>A store with an incumbent of epoch 0 and two newer scored submissions, a retention that keeps two, and a worker that measures
  1000 on order o1 for whatever image.\<close>

definition sample_details :: "(string \<times> string) list \<Rightarrow> (string \<times> json) list" where
  "sample_details outs = [(''per_intent'', JList (map (\<lambda>(i, x). JObj [(''intent_id'', JStr i), (''raw_output'', JStr x)]) outs))]"

definition sample_sub :: "string \<Rightarrow> int \<Rightarrow> sub_status \<Rightarrow> (string \<times> string) list \<Rightarrow> submission" where
  "sample_sub sid ep status outs = toy_signed\<lparr>sb_id := sid, sb_epoch := ep, sb_status := status, sb_hotkey := GENESIS_HOTKEY,
     sb_benchmark_details := JObj (sample_details outs)\<rparr>"

definition sample_manager :: "sub_status \<Rightarrow> manager" where
  "sample_manager status = \<lparr>em_champion = no_info\<lparr>ci_submission_id := Some ''inc''\<rparr>, em_refresh_failed = False, em_reason = None, em_verdict = None,
     em_subs = (empty_store\<lparr>ss_subs := [(''inc'', sample_sub ''inc'' 0 status [(''o1'', ''5'')]), (''a'', sample_sub ''a'' 6 SCORED [(''o1'', ''1001'')]),
       (''b'', sample_sub ''b'' 5 SCORED [(''o2'', ''1'')])]\<rparr>, fresh_files)\<rparr>"

definition sample_mgr_env :: manager_env where
  "sample_mgr_env = \<lparr>mg_cfg = demo_cfg, mg_op = demo_env, mg_now = 9, mg_prov = toy_prov, mg_policy = toy_policy, mg_disable = None,
     mg_worker = True, mg_genesis_image = None, mg_score_one = (\<lambda>_. Bench_Details (sample_details [(''o1'', ''1000'')])), mg_quorum_mode = True\<rparr>"

lemma sample_seated: "seated sample_mgr_env (sample_manager status) (sample_sub ''inc'' 0 status [(''o1'', ''5'')])"
  by (simp add: seated_def up_to_date_def sample_mgr_env_def sample_manager_def own_rows_def fresh_files_def empty_db_def lookup_def sample_sub_def no_info_def)

lemma sample_rebenched: "rebenched sample_mgr_env (sample_manager status) (sample_sub ''inc'' 0 status [(''o1'', ''5'')]) (sample_details [(''o1'', ''1000'')])"
proof -
  have "incumbent_image sample_mgr_env (sample_sub ''inc'' 0 status [(''o1'', ''5'')]) = Some ''solver''"
    by (simp add: incumbent_image_def sample_sub_def toy_signed_def new_submission_def)
  then show ?thesis using sample_seated by (simp add: rebenched_def sample_mgr_env_def sample_details_def)
qed

text \<open>The three submissions in another order.\<close>

theorem ranking_is_deterministic_witness:
  "\<exists>cs. eligible_candidates sample_mgr_env (sample_manager ADOPTED) (rev (subs_of (store_of (sample_manager ADOPTED)))) = Inr cs
    \<and> map sb_id cs = [''a'', ''b'', ''inc'']"
proof -
  let ?subs = "subs_of (store_of (sample_manager ADOPTED))"
  obtain cs where cs: "eligible_candidates sample_mgr_env (sample_manager ADOPTED) ?subs = Inr cs" "map sb_id cs = [''a'', ''b'', ''inc'']"
  proof -
    have "map_sum id (map sb_id) (eligible_candidates sample_mgr_env (sample_manager ADOPTED) ?subs) = Inr [''a'', ''b'', ''inc'']" by code_simp
    then show thesis by (cases "eligible_candidates sample_mgr_env (sample_manager ADOPTED) ?subs") (auto intro: that)
  qed
  have "distinct (map sb_id ?subs)" by code_simp
  from ranking_is_deterministic [OF cs(1) this, of "rev ?subs"] cs(2) show ?thesis by simp
qed

section \<open>Decisions\<close>

lemma fresh_bar_kept:
  assumes reb: "rebenched g m inc d" and "sb_status inc = ADOPTED"
    and v: "evaluate_per_order_adoption g s (refresh_incumbent_score g m) = Some v" "adoption.adopt v"
    and rows: "map_of d ''per_intent'' = Some (JList rows)" "delivered (map row_of_json rows) i = Some c" "0 < c"
  shows "\<exists>x. delivered (per_intent (Some s)) i = Some x \<and> 0 < x \<and> x * 10000 \<ge> c * 9900"
proof -
  let ?m = "refresh_incumbent_score g m"
  have "champion_sub ?m = Some (with_details g inc d)"
    using decision_after_refresh(2) [OF reb] unstrippable_keeps_details [OF reb] assms(2) by (simp add: details_strippable_statuses_def)
  then have "per_intent (champion_sub ?m) = map row_of_json rows" using fresh_rows [OF _ rows(1)] reb by (simp add: rebenched_def)
  then obtain b age fd dd where "evaluate_relative_adoption (map row_of_json rows) (per_intent (Some s)) RELATIVE_TOL_BPS b age fd dd = Inr v"
    using v(1) by (auto simp: evaluate_per_order_adoption_def Let_def split: prod.splits sum.splits)
  then have "comparison (map row_of_json rows) (per_intent (Some s)) RELATIVE_TOL_BPS b age (v_tally v)" "adopts fd dd (v_tally v)"
    using v(2) evaluate_Inr by blast+
  then show ?thesis using floor_kept rows(2,3) by (simp add: adopts_def RELATIVE_TOL_BPS_def FLOOR_BPS_def)
qed

text \<open>Claim C2: a leader that has an adopted champion dethrones it only against a bar measured in this round: the freeze is off, the challenger is
  another submission, the champion's image was found and its benchmark did not raise; and when the benchmark answered with
  rows, the challenger delivers on every order those fresh rows deliver on, at 99% of their output or more, whatever rows were
  stored before. (An answer without details leaves the stored rows in force, as the code says.)\<close>

theorem adoption_beats_fresh_bar:
  assumes "seated g m inc" "sb_status inc = ADOPTED" "\<forall>img d. mg_score_one g img = Bench_Details d \<longrightarrow> wf_dict d"
    and "fst (should_adopt g s (refresh_incumbent_score g m))"
  shows "\<not> adoption_disabled (mg_disable g) \<and> sb_id s \<noteq> sb_id inc \<and> (\<exists>img. incumbent_image g inc = Some img \<and>
    (mg_score_one g img = Bench_Degenerate \<or> (\<exists>d. mg_score_one g img = Bench_Details d \<and>
      (\<forall>rows i c. map_of d ''per_intent'' = Some (JList rows) \<and> delivered (map row_of_json rows) i = Some c \<and> 0 < c \<longrightarrow>
         (\<exists>x. delivered (per_intent (Some s)) i = Some x \<and> 0 < x \<and> x * 10000 \<ge> c * 9900)))))"
proof -
  let ?m = "refresh_incumbent_score g m"
  have c: "ci_submission_id (em_champion m) = Some (sb_id inc)" "sb_id inc \<noteq> []" using assms(1) by (auto simp: seated_def)
  obtain img where img: "incumbent_image g inc = Some img" "mg_score_one g img \<noteq> Bench_Raised"
  proof (cases "case incumbent_image g inc of None \<Rightarrow> True | Some img \<Rightarrow> mg_score_one g img = Bench_Raised")
    case True
    have "\<not> fst (should_adopt g s ?m)"
      using should_adopt_iff [of g ?m "sb_id inc" s] refresh_seated(1) [OF assms(1)] c by (simp add: stale_refresh [OF assms(1) True])
    then show thesis using assms(4) by simp
  qed (use that in \<open>auto split: option.splits\<close>)
  show ?thesis
  proof (cases "mg_score_one g img")
    case Bench_Degenerate
    then have "\<not> adoption_disabled (mg_disable g) \<and> sb_id s \<noteq> sb_id inc"
      using should_adopt_iff [of g ?m "sb_id inc" s] refresh_seated(1) [OF assms(1)] c assms(4)
      by (simp add: degenerate_refresh [OF assms(1) img(1)])
    then show ?thesis using Bench_Degenerate img(1) by blast
  next
    case (Bench_Details d)
    have reb: "rebenched g m inc d" using assms(1,3) img(1) Bench_Details by (simp add: rebenched_def)
    note dec = decision_after_refresh [OF reb]
    obtain v where v: "evaluate_per_order_adoption g s ?m = Some v" "adoption.adopt v"
      and g: "\<not> adoption_disabled (mg_disable g)" "sb_id s \<noteq> sb_id inc" using assms(4) dec(1) by blast
    have "\<exists>x. delivered (per_intent (Some s)) i = Some x \<and> 0 < x \<and> x * 10000 \<ge> c * 9900"
      if "map_of d ''per_intent'' = Some (JList rows)" "delivered (map row_of_json rows) i = Some c" "0 < c" for rows i c
      using fresh_bar_kept [OF reb assms(2) v that] .
    then show ?thesis using g img(1) Bench_Details by blast
  qed (use img(2) in simp)
qed

theorem adoption_beats_fresh_bar_witness:
  "\<exists>x. delivered (per_intent (Some (sample_sub ''a'' 6 SCORED [(''o1'', ''1020'')]))) ''o1'' = Some x \<and> 0 < x \<and> x * 10000 \<ge> 1000 * 9900"
proof -
  let ?inc = "sample_sub ''inc'' 0 ADOPTED [(''o1'', ''5'')]" and ?s = "sample_sub ''a'' 6 SCORED [(''o1'', ''1020'')]"
  have "fst (should_adopt sample_mgr_env ?s (refresh_incumbent_score sample_mgr_env (sample_manager ADOPTED)))" by code_simp
  moreover have "sb_status ?inc = ADOPTED" "\<forall>img d. mg_score_one sample_mgr_env img = Bench_Details d \<longrightarrow> wf_dict d"
    by (simp_all add: sample_sub_def sample_mgr_env_def sample_details_def)
  moreover have "mg_score_one sample_mgr_env img = Bench_Details (sample_details [(''o1'', ''1000'')])" for img by (simp add: sample_mgr_env_def)
  moreover have "map_of (sample_details [(''o1'', ''1000'')]) ''per_intent'' = Some (JList [JObj [(''intent_id'', JStr ''o1''), (''raw_output'', JStr ''1000'')]])"
    by (simp add: sample_details_def)
  moreover have "delivered (map row_of_json [JObj [(''intent_id'', JStr ''o1''), (''raw_output'', JStr ''1000'')]]) ''o1'' = Some 1000" by code_simp
  ultimately show ?thesis using adoption_beats_fresh_bar [OF sample_seated, of ADOPTED ?s] by fastforce
qed

text \<open>Claim C38: a bar that is only scored can lose its rows in the very write that refreshes them: when as many newer submissions
  as the retention keeps hold details, the fresh rows of a scored incumbent such as the genesis solver are dropped, the
  refresh counts as successful, and any other submission that delivers on one order is adopted, whatever the incumbent
  delivered.\<close>

theorem erased_bar_adopts:
  assumes "rebenched g m inc d" "d \<noteq> []" "sb_status inc = SCORED" "c_persist (mg_cfg g)" "0 < c_details_cap (mg_cfg g)"
    and "c_details_cap (mg_cfg g) \<le> int (length (filter (\<lambda>s. sb_status s \<in> details_strippable_statuses
      \<and> \<not> jfalsy (sb_benchmark_details s) \<and> sb_epoch inc < sb_epoch s) (vals_of (ss_subs (store_of m)))))"
    and "ci_adoption_outputs (em_champion m) = None" "\<not> adoption_disabled (mg_disable g)" "sb_id s \<noteq> sb_id inc"
    and "delivered (per_intent (Some s)) i = Some x" "0 < x"
  shows "\<not> em_refresh_failed (refresh_incumbent_score g m) \<and> per_intent (champion_sub (refresh_incumbent_score g m)) = []
    \<and> fst (should_adopt g s (refresh_incumbent_score g m))"
proof -
  let ?m = "refresh_incumbent_score g m"
  let ?fd = "factor_delta_between (Option.bind (champion_sub ?m) sb_max_region_nodes) (sb_max_region_nodes s)"
  let ?dd = "deadwood_delta_between (Option.bind (champion_sub ?m) sb_unproductive_nodes) (sb_unproductive_nodes s)
     (Option.bind (champion_sub ?m) sb_unproductive_version) (sb_unproductive_version s)"
  note dec = decision_after_refresh [OF assms(1)]
  have "stripped_now g m inc d"
    using assms(1-6) by (intro newer_details_strip) (simp_all add: details_strippable_statuses_def)
  then have rows: "per_intent (champion_sub ?m) = []" using dec(2) by (simp add: per_intent_def undetailed_def)
  have "blind_spot_bar_kwargs (mg_now g) (em_champion ?m) = (None, None)"
    using assms(7) refreshed_record(1) [OF assms(1)] by (simp add: blind_spot_bar_kwargs_def)
  then have "evaluate_per_order_adoption g s ?m = (case evaluate_relative_adoption [] (per_intent (Some s)) RELATIVE_TOL_BPS None None ?fd ?dd of Inl _ \<Rightarrow> None | Inr v \<Rightarrow> Some v)"
    by (simp add: evaluate_per_order_adoption_def Let_def rows)
  then have "\<exists>v. evaluate_per_order_adoption g s ?m = Some v \<and> adoption.adopt v"
    using empty_bar_adopts [OF assms(10,11), of RELATIVE_TOL_BPS ?fd ?dd] by auto
  then show ?thesis using rows dec(1) assms(8,9) refreshed_record(2) [OF assms(1)] by blast
qed

theorem erased_bar_adopts_witness:
  "fst (should_adopt sample_mgr_env (sample_sub ''b'' 5 SCORED [(''o2'', ''1'')]) (refresh_incumbent_score sample_mgr_env (sample_manager SCORED)))"
proof -
  let ?inc = "sample_sub ''inc'' 0 SCORED [(''o1'', ''5'')]" and ?s = "sample_sub ''b'' 5 SCORED [(''o2'', ''1'')]"
  have "delivered (per_intent (Some ?s)) ''o2'' = Some 1" "\<not> adoption_disabled (mg_disable sample_mgr_env)"
    "c_details_cap (mg_cfg sample_mgr_env) \<le> int (length (filter (\<lambda>s. sb_status s \<in> details_strippable_statuses
      \<and> \<not> jfalsy (sb_benchmark_details s) \<and> sb_epoch ?inc < sb_epoch s) (vals_of (ss_subs (store_of (sample_manager SCORED))))))" by code_simp+
  then show ?thesis
    using erased_bar_adopts [OF sample_rebenched, of SCORED ?s "''o2''" 1]
    by (simp add: sample_details_def sample_sub_def sample_mgr_env_def sample_manager_def demo_cfg_def no_info_def)
qed

end
