(* ===== verification/Submission_Sync.thy ===== *)
theory Submission_Sync
  imports Submission_Life
begin

text \<open>
  Two or more processes share the submission database (the api and the benchmark worker). Each keeps its own store and a
  watermark; writers hold the file lock across pull, change and commit; readers pull without the lock, so the rows a
  reader merges may have been read long before, and several pulls of one process may be under way. The theory models
  the system as a step relation and shows that a writer always starts from the committed version of every record.
\<close>

section \<open>Rows and records\<close>

text \<open>The memory agrees with a row up to benchmark details that the retention has dropped from the table.\<close>

definition agree :: "submission \<Rightarrow> submission \<Rightarrow> bool" where
  "agree m r \<longleftrightarrow> undetailed m = undetailed r \<and> (jfalsy (sb_benchmark_details r) \<or> sb_benchmark_details m = sb_benchmark_details r)"

lemma agree_refl [simp]: "agree r r"
  by (simp add: agree_def)

lemma sub_ok_undetailed [simp]: "sub_ok (undetailed s) = sub_ok s"
  by (simp add: sub_ok_def undetailed_def)

definition row_agrees :: "sub_db \<Rightarrow> string \<Rightarrow> db_row \<Rightarrow> submission \<Rightarrow> bool" where
  "row_agrees db sid row m \<longleftrightarrow> (case row_sub db sid row of Inr r \<Rightarrow> agree m r | Inl _ \<Rightarrow> False)"

definition db_ok :: "sub_db \<Rightarrow> bool" where
  "db_ok db \<longleftrightarrow> wf_dict (db_rows db)
     \<and> (\<forall>sid row. map_of (db_rows db) sid = Some row \<longrightarrow>
          (\<exists>s. sub_ok s \<and> sb_id s = sid \<and> row_data row = fst (split_record (sub_to_dict s))))
     \<and> (\<forall>sid sid' row row'. map_of (db_rows db) sid = Some row \<longrightarrow> map_of (db_rows db) sid' = Some row' \<longrightarrow>
          row_seq row = row_seq row' \<longrightarrow> 0 < row_seq row \<longrightarrow> sid = sid')"

lemma db_ok_row:
  assumes "db_ok db" "map_of (db_rows db) sid = Some row"
  obtains s where "sub_ok s" "sb_id s = sid" "row_data row = fst (split_record (sub_to_dict s))"
    "row_sub db sid row = Inr (s\<lparr>sb_benchmark_details := (case map_of (db_details db) sid of None \<Rightarrow> JNull | Some v \<Rightarrow> v)\<rparr>)"
  using assms row_sub_joined unfolding db_ok_def by meson

lemma max_seq_map_of: "map_of (db_rows db) sid = Some row \<Longrightarrow> row_seq row \<le> db_max_seq db"
  by (rule db_max_seq_ge) (rule map_of_SomeD)

section \<open>Writing\<close>

definition seqs_below :: "nat \<Rightarrow> sub_db \<Rightarrow> bool" where
  "seqs_below n db \<longleftrightarrow> (\<forall>sid row. map_of (db_rows db) sid = Some row \<longrightarrow> row_seq row \<le> n)"

text \<open>The effect of writing records that are given by their id.\<close>

lemma write_rows_effect:
  assumes "\<And>sid r. (sid, r) \<in> set rs \<Longrightarrow> r = R sid" "seqs_below n db"
  shows "(sid \<notin> fst ` set rs \<longrightarrow> map_of (db_rows (write_rows me n rs db)) sid = map_of (db_rows db) sid
      \<and> map_of (db_details (write_rows me n rs db)) sid = map_of (db_details db) sid)
    \<and> (sid \<in> fst ` set rs \<longrightarrow> (\<exists>row. map_of (db_rows (write_rows me n rs db)) sid = Some row \<and> row_data row = fst (split_record (R sid))
      \<and> row_writer row = Some me \<and> n < row_seq row \<and> map_of (db_details (write_rows me n rs db)) sid = snd (split_record (R sid))))"
  using assms
proof (induction rs arbitrary: n db)
  case (Cons p rs)
  obtain s r where p: "p = (s, r)" by fastforce
  let ?row = "\<lparr>row_data = fst (split_record r), row_seq = Suc n, row_writer = Some me\<rparr>"
  let ?db = "db\<lparr>db_rows := AList.update s ?row (db_rows db), db_details := put_details s (snd (split_record r)) (db_details db)\<rparr>"
  have eq: "write_rows me n (p # rs) db = write_rows me (Suc n) rs ?db" by (simp add: p Let_def case_prod_unfold)
  have r: "r = R s" using Cons.prems(1) p by simp
  have below: "seqs_below (Suc n) ?db" using Cons.prems(2) by (auto simp: seqs_below_def dict_simps le_SucI)
  have det: "map_of (put_details s d ds) k = (if k = s then d else map_of ds k)" for d ds k
    by (simp add: put_details_def dict_simps split: option.splits)
  have ih: "(sid \<notin> fst ` set rs \<longrightarrow> map_of (db_rows (write_rows me (Suc n) rs ?db)) sid = map_of (db_rows ?db) sid
      \<and> map_of (db_details (write_rows me (Suc n) rs ?db)) sid = map_of (db_details ?db) sid)
    \<and> (sid \<in> fst ` set rs \<longrightarrow> (\<exists>row. map_of (db_rows (write_rows me (Suc n) rs ?db)) sid = Some row
      \<and> row_data row = fst (split_record (R sid)) \<and> row_writer row = Some me \<and> Suc n < row_seq row
      \<and> map_of (db_details (write_rows me (Suc n) rs ?db)) sid = snd (split_record (R sid))))"
    by (rule Cons.IH) (use Cons.prems(1) below in auto)
  show ?case
  proof (cases "sid \<in> fst ` set rs")
    case True
    from ih [THEN conjunct2, rule_format, OF True] obtain row where
      "map_of (db_rows (write_rows me (Suc n) rs ?db)) sid = Some row" "row_data row = fst (split_record (R sid))"
      "row_writer row = Some me" "Suc n < row_seq row" "map_of (db_details (write_rows me (Suc n) rs ?db)) sid = snd (split_record (R sid))"
      by blast
    with True show ?thesis unfolding eq by simp
  next
    case False
    from ih [THEN conjunct1, rule_format, OF False] False show ?thesis
      unfolding eq by (cases "sid = s") (simp_all add: p r det dict_simps)
  qed
qed simp

lemma seqs_below_max: "seqs_below (db_max_seq db) db"
  by (simp add: seqs_below_def max_seq_map_of)

definition seqs_distinct :: "sub_db \<Rightarrow> bool" where
  "seqs_distinct db \<longleftrightarrow> (\<forall>sid sid' row row'. map_of (db_rows db) sid = Some row \<longrightarrow> map_of (db_rows db) sid' = Some row' \<longrightarrow>
     row_seq row = row_seq row' \<longrightarrow> 0 < row_seq row \<longrightarrow> sid = sid')"

lemma write_rows_distinct:
  "seqs_distinct db \<Longrightarrow> seqs_below n db \<Longrightarrow> wf_dict (db_rows db) \<Longrightarrow>
   seqs_distinct (write_rows me n rs db) \<and> wf_dict (db_rows (write_rows me n rs db))"
proof (induction rs arbitrary: n db)
  case (Cons p rs)
  obtain s r where p: "p = (s, r)" by fastforce
  let ?db = "db\<lparr>db_rows := AList.update s \<lparr>row_data = fst (split_record r), row_seq = Suc n, row_writer = Some me\<rparr> (db_rows db),
     db_details := put_details s (snd (split_record r)) (db_details db)\<rparr>"
  have "seqs_below (Suc n) ?db" using Cons.prems(2) by (auto simp: seqs_below_def dict_simps le_SucI)
  moreover have "seqs_distinct ?db"
    using Cons.prems(1,2) unfolding seqs_distinct_def seqs_below_def by (simp add: dict_simps) (metis Suc_n_not_le_n)
  moreover have "wf_dict (db_rows ?db)" using Cons.prems(3) by (simp add: alist.inv_put)
  ultimately have "seqs_distinct (write_rows me (Suc n) rs ?db) \<and> wf_dict (db_rows (write_rows me (Suc n) rs ?db))"
    using Cons.IH by blast
  then show ?case by (simp add: p Let_def case_prod_unfold)
qed simp

section \<open>Pulling\<close>

type_synonym pulled = "(string \<times> (string \<times> json) list \<times> nat) list"

definition store_wf :: "sub_store \<Rightarrow> bool" where
  "store_wf st \<longleftrightarrow> (\<forall>k s. map_of (ss_subs st) k = Some s \<longrightarrow> sb_id s = k \<and> sub_ok s)"

text \<open>Every row of the table is in memory, or was written by another process after the watermark.\<close>

definition synced :: "string \<Rightarrow> sub_db \<Rightarrow> sub_store \<Rightarrow> bool" where
  "synced P db st \<longleftrightarrow> store_wf st \<and> ss_last_seen st \<le> db_max_seq db
     \<and> (\<forall>sid row. map_of (db_rows db) sid = Some row \<longrightarrow>
          (row_writer row \<noteq> Some P \<and> ss_last_seen st < row_seq row)
          \<or> (\<exists>m. map_of (ss_subs st) sid = Some m \<and> row_agrees db sid row m))"

definition up_to_date :: "sub_db \<Rightarrow> sub_store \<Rightarrow> bool" where
  "up_to_date db st \<longleftrightarrow> (\<forall>sid row. map_of (db_rows db) sid = Some row \<longrightarrow>
     (\<exists>m. map_of (ss_subs st) sid = Some m \<and> row_agrees db sid row m))"

text \<open>Rows read at a moment when \<open>b\<close> was the largest sequence number: each is still the row of the table, or the table has a row
  written later, or the watermark has passed it; and no row up to \<open>b\<close> beyond the watermark is missing.\<close>

definition pull_row_ok :: "string \<Rightarrow> sub_db \<Rightarrow> nat \<Rightarrow> nat \<Rightarrow> string \<times> (string \<times> json) list \<times> nat \<Rightarrow> bool" where
  "pull_row_ok P db w b x \<longleftrightarrow> (case x of (sid, r, q) \<Rightarrow> q \<le> b \<and> (\<exists>s. sub_of_record r = Inr s \<and> sb_id s = sid \<and> sub_ok s
     \<and> (q \<le> w \<or> (\<exists>row. map_of (db_rows db) sid = Some row \<and> row_writer row \<noteq> Some P
          \<and> (row_seq row = q \<and> row_agrees db sid row s \<or> b < row_seq row)))))"

definition pull_ok :: "string \<Rightarrow> sub_db \<Rightarrow> nat \<Rightarrow> nat \<Rightarrow> nat \<Rightarrow> pulled \<Rightarrow> bool" where
  "pull_ok P db w n b rows \<longleftrightarrow> n \<le> b \<and> b \<le> db_max_seq db \<and> distinct (map fst rows)
     \<and> sorted_wrt (\<lambda>x y. snd (snd x) < snd (snd y)) rows
     \<and> (\<forall>x \<in> set rows. pull_row_ok P db w b x)
     \<and> (\<forall>sid row. map_of (db_rows db) sid = Some row \<and> row_writer row \<noteq> Some P \<and> w < row_seq row \<and> row_seq row \<le> b
          \<longrightarrow> (\<exists>r. (sid, r, row_seq row) \<in> set rows))"

lemma apply_rows_effect:
  assumes "\<forall>(sid, r, q) \<in> set rows. \<exists>s. sub_of_record r = Inr s \<and> sb_id s = sid"
    and "sorted_wrt (\<lambda>x y. snd (snd x) < snd (snd y)) rows" "distinct (map fst rows)"
  shows "\<exists>st' a. apply_rows rows w st = (st', a, True) \<and> ss_last_seen st' = ss_last_seen st
     \<and> (\<forall>sid r q s. (sid, r, q) \<in> set rows \<longrightarrow> w < q \<longrightarrow> sub_of_record r = Inr s \<longrightarrow> map_of (ss_subs st') sid = Some s)
     \<and> (\<forall>sid. (\<forall>r q. (sid, r, q) \<in> set rows \<longrightarrow> q \<le> w) \<longrightarrow> map_of (ss_subs st') sid = map_of (ss_subs st) sid)"
  using assms
proof (induction rows arbitrary: w st)
  case (Cons x rows)
  obtain sid r q where x: "x = (sid, r, q)" by (cases x)
  have readable: "\<forall>(sid, r, q) \<in> set rows. \<exists>s. sub_of_record r = Inr s \<and> sb_id s = sid" using Cons.prems(1) by simp
  have rest: "sorted_wrt (\<lambda>x y. snd (snd x) < snd (snd y)) rows" "distinct (map fst rows)" using Cons.prems(2,3) by simp_all
  have later: "q < q'" if "(sid', r', q') \<in> set rows" for sid' r' q' using Cons.prems(2) that x by fastforce
  have other: "sid' \<noteq> sid" if "(sid', r', q') \<in> set rows" for sid' r' q' using Cons.prems(3) that x by force
  show ?case
  proof (cases "q \<le> w")
    case True
    from Cons.IH [OF readable rest, of w st] True show ?thesis by (fastforce simp: x)
  next
    case False
    obtain s where s: "sub_of_record r = Inr s" "sb_id s = sid" using Cons.prems(1) x by fastforce
    from Cons.IH [OF readable rest, of q "index_sub s st"] obtain st' a where
      run: "apply_rows rows q (index_sub s st) = (st', a, True)" "ss_last_seen st' = ss_last_seen st"
      and new: "\<And>sid r q' s. (sid, r, q') \<in> set rows \<Longrightarrow> q < q' \<Longrightarrow> sub_of_record r = Inr s \<Longrightarrow> map_of (ss_subs st') sid = Some s"
      and old: "\<And>sid. (\<forall>r q'. (sid, r, q') \<in> set rows \<longrightarrow> q' \<le> q) \<Longrightarrow> map_of (ss_subs st') sid = map_of (ss_subs (index_sub s st)) sid"
      by (auto simp: index_sub_def)
    have "apply_rows (x # rows) w st = (st', a, True)" using False s run(1) by (simp add: x upsert_one_def)
    moreover have "map_of (ss_subs st') sid' = Some s'"
      if "(sid', r', q') \<in> set (x # rows)" "w < q'" "sub_of_record r' = Inr s'" for sid' r' q' s'
    proof (cases "(sid', r', q') = x")
      case True
      then have "map_of (ss_subs st') sid = map_of (ss_subs (index_sub s st)) sid" by (intro old) (use other x in auto)
      then show ?thesis using True x s that(3) by (simp add: index_sub_def dict_simps)
    next
      case False
      then show ?thesis using that later new by auto
    qed
    moreover have "map_of (ss_subs st') sid' = map_of (ss_subs st) sid'"
      if "\<forall>r q'. (sid', r, q') \<in> set (x # rows) \<longrightarrow> q' \<le> w" for sid'
    proof -
      have ne: "sid' \<noteq> sid" using that False x by auto
      have "map_of (ss_subs st') sid' = map_of (ss_subs (index_sub s st)) sid'"
        by (intro old) (use that False in \<open>fastforce\<close>)
      then show ?thesis using ne s(2) by (simp add: index_sub_def dict_simps)
    qed
    ultimately show ?thesis using run(2) by blast
  qed
qed simp

text \<open>Merging a pull, however old, keeps the store in step with the table.\<close>

lemma pull_okD:
  assumes "pull_ok P db w n b rows"
  shows "n \<le> b" "b \<le> db_max_seq db" "distinct (map fst rows)" "sorted_wrt (\<lambda>x y. snd (snd x) < snd (snd y)) rows"
    "(sid, r, q) \<in> set rows \<Longrightarrow> pull_row_ok P db w b (sid, r, q)"
    "map_of (db_rows db) sid = Some row \<Longrightarrow> row_writer row \<noteq> Some P \<Longrightarrow> w < row_seq row \<Longrightarrow> row_seq row \<le> b \<Longrightarrow>
       \<exists>r. (sid, r, row_seq row) \<in> set rows"
  using assms unfolding pull_ok_def by blast+

lemma merge_pull_effect:
  assumes "pull_ok P db (ss_last_seen st) n b rows"
  shows "ss_last_seen (merge_pull n rows st) = max (ss_last_seen st) n"
    "(sid, r, q) \<in> set rows \<Longrightarrow> ss_last_seen st < q \<Longrightarrow> sub_of_record r = Inr s \<Longrightarrow> map_of (ss_subs (merge_pull n rows st)) sid = Some s"
    "(\<And>r q. (sid, r, q) \<in> set rows \<Longrightarrow> q \<le> ss_last_seen st) \<Longrightarrow> map_of (ss_subs (merge_pull n rows st)) sid = map_of (ss_subs st) sid"
proof -
  note d = pull_okD [OF assms]
  have "\<exists>st' a. apply_rows rows (ss_last_seen st) st = (st', a, True) \<and> ss_last_seen st' = ss_last_seen st
     \<and> (\<forall>sid r q s. (sid, r, q) \<in> set rows \<longrightarrow> ss_last_seen st < q \<longrightarrow> sub_of_record r = Inr s \<longrightarrow> map_of (ss_subs st') sid = Some s)
     \<and> (\<forall>sid. (\<forall>r q. (sid, r, q) \<in> set rows \<longrightarrow> q \<le> ss_last_seen st) \<longrightarrow> map_of (ss_subs st') sid = map_of (ss_subs st) sid)"
  proof (rule apply_rows_effect [OF _ d(4,3)], clarify)
    fix sid r q assume "(sid, r, q) \<in> set rows"
    from d(5) [OF this] show "\<exists>s. sub_of_record r = Inr s \<and> sb_id s = sid" by (auto simp: pull_row_ok_def)
  qed
  then obtain st' a where run: "apply_rows rows (ss_last_seen st) st = (st', a, True)" and eff:
    "\<And>sid r q s. (sid, r, q) \<in> set rows \<Longrightarrow> ss_last_seen st < q \<Longrightarrow> sub_of_record r = Inr s \<Longrightarrow> map_of (ss_subs st') sid = Some s"
    "\<And>sid. (\<forall>r q. (sid, r, q) \<in> set rows \<longrightarrow> q \<le> ss_last_seen st) \<Longrightarrow> map_of (ss_subs st') sid = map_of (ss_subs st) sid"
    by blast
  have "ss_subs (merge_pull n rows st) = ss_subs st'" "ss_last_seen (merge_pull n rows st) = max (ss_last_seen st) n"
    using run by (cases rows; simp add: merge_pull_def)+
  with eff show "ss_last_seen (merge_pull n rows st) = max (ss_last_seen st) n"
    "(sid, r, q) \<in> set rows \<Longrightarrow> ss_last_seen st < q \<Longrightarrow> sub_of_record r = Inr s \<Longrightarrow> map_of (ss_subs (merge_pull n rows st)) sid = Some s"
    "(\<And>r q. (sid, r, q) \<in> set rows \<Longrightarrow> q \<le> ss_last_seen st) \<Longrightarrow> map_of (ss_subs (merge_pull n rows st)) sid = map_of (ss_subs st) sid"
    by simp_all
qed

lemma merge_pull_wf:
  assumes pull: "pull_ok P db (ss_last_seen st) n b rows" and wf: "store_wf st"
  shows "store_wf (merge_pull n rows st)"
  unfolding store_wf_def
proof (intro allI impI)
  fix k s assume k: "map_of (ss_subs (merge_pull n rows st)) k = Some s"
  show "sb_id s = k \<and> sub_ok s"
  proof (cases "\<exists>r q. (k, r, q) \<in> set rows \<and> ss_last_seen st < q")
    case True
    then obtain r q where x: "(k, r, q) \<in> set rows" "ss_last_seen st < q" by blast
    then obtain s' where "sub_of_record r = Inr s'" "sb_id s' = k" "sub_ok s'"
      using pull_okD(5) [OF pull x(1)] by (auto simp: pull_row_ok_def)
    with merge_pull_effect(2) [OF pull x] k show ?thesis by auto
  next
    case False
    then have "map_of (ss_subs (merge_pull n rows st)) k = map_of (ss_subs st) k"
      using merge_pull_effect(3) [OF pull, of k] by (meson not_less)
    with k wf show ?thesis by (simp add: store_wf_def)
  qed
qed

lemma merge_pull_synced:
  assumes sy: "synced P db st" and pull: "pull_ok P db (ss_last_seen st) n b rows"
  shows "synced P db (merge_pull n rows st)"
proof -
  let ?st = "merge_pull n rows st" and ?w = "ss_last_seen st"
  note d = pull_okD [OF pull] and eff = merge_pull_effect [OF pull]
  have stay: "map_of (ss_subs ?st) sid = map_of (ss_subs st) sid"
    if "map_of (db_rows db) sid = Some row" "row_writer row = Some P \<or> row_seq row \<le> ?w" for sid row
  proof (rule eff(3), rule ccontr)
    fix r q assume x: "(sid, r, q) \<in> set rows" "\<not> q \<le> ?w"
    then have "q \<le> b" "\<exists>row'. map_of (db_rows db) sid = Some row' \<and> row_writer row' \<noteq> Some P \<and> (row_seq row' = q \<or> b < row_seq row')"
      using d(5) [OF x(1)] by (auto simp: pull_row_ok_def)
    with that x(2) show False by auto
  qed
  have "row_writer row \<noteq> Some P \<and> ss_last_seen ?st < row_seq row
      \<or> (\<exists>m. map_of (ss_subs ?st) sid = Some m \<and> row_agrees db sid row m)"
    if row: "map_of (db_rows db) sid = Some row" for sid row
  proof (cases "row_writer row = Some P \<or> row_seq row \<le> ?w")
    case True
    then show ?thesis using sy stay [OF row] row unfolding synced_def by fastforce
  next
    case False
    show ?thesis
    proof (cases "row_seq row \<le> n")
      case True
      with False d(1) obtain r where x: "(sid, r, row_seq row) \<in> set rows" using d(6) [OF row] by auto
      then obtain s where s: "sub_of_record r = Inr s" "row_agrees db sid row s"
        using d(5) [OF x] False row True d(1) by (auto simp: pull_row_ok_def)
      from eff(2) [OF x _ s(1)] False s(2) show ?thesis by auto
    next
      case False
      then show ?thesis using \<open>\<not> (row_writer row = Some P \<or> row_seq row \<le> ?w)\<close> by (simp add: eff(1))
    qed
  qed
  moreover have "store_wf ?st" using merge_pull_wf [OF pull] sy by (simp add: synced_def)
  moreover have "ss_last_seen ?st \<le> db_max_seq db" using sy d(1,2) by (simp add: eff(1) synced_def)
  ultimately show ?thesis unfolding synced_def by blast
qed

text \<open>What \<open>load_since\<close> returns is such a pull.\<close>

lemma load_since_mem: "x \<in> set (load_since P w db) \<longleftrightarrow>
    (\<exists>sid row. (sid, row) \<in> set (db_rows db) \<and> w < row_seq row \<and> row_writer row \<noteq> Some P \<and> x = (sid, joined db sid row, row_seq row))"
  by (auto simp: load_since_def)

lemma load_since_pull:
  assumes ok: "db_ok db" and n: "n \<le> db_max_seq db"
  shows "pull_ok P db w n (db_max_seq db) (load_since P w db)"
proof -
  let ?rows = "load_since P w db"
  have wf: "wf_dict (db_rows db)" using ok by (simp add: db_ok_def)
  have keys: "distinct (map fst ?rows)"
  proof -
    have sk: "distinct (map fst (sort_key f xs)) = distinct (map fst xs)" for f and xs :: pulled
      by (simp add: distinct_map)
    show ?thesis using wf by (simp add: load_since_def sk comp_def case_prod_unfold distinct_map_filter)
  qed
  have row: "pull_row_ok P db w (db_max_seq db) x" if "x \<in> set ?rows" for x
  proof -
    from that obtain sid row where mem: "(sid, row) \<in> set (db_rows db)" and x': "w < row_seq row" "row_writer row \<noteq> Some P"
      "x = (sid, joined db sid row, row_seq row)"
      unfolding load_since_mem by blast
    note x = map_of_is_SomeI [OF wf mem] x'
    obtain s where s: "sub_ok s" "sb_id s = sid" and
      r: "row_sub db sid row = Inr (s\<lparr>sb_benchmark_details := (case map_of (db_details db) sid of None \<Rightarrow> JNull | Some v \<Rightarrow> v)\<rparr>)"
      using db_ok_row [OF ok x(1)] by blast
    let ?r = "s\<lparr>sb_benchmark_details := (case map_of (db_details db) sid of None \<Rightarrow> JNull | Some v \<Rightarrow> v)\<rparr>"
    have "sub_of_record (joined db sid row) = Inr ?r" using r by (simp add: row_sub_def)
    moreover have "sub_ok ?r" "sb_id ?r = sid" using s by (simp_all add: sub_ok_def)
    moreover have "row_agrees db sid row ?r" using r by (simp add: row_agrees_def)
    ultimately show ?thesis using x max_seq_map_of [OF x(1)] by (auto simp: pull_row_ok_def)
  qed
  have "sorted (map (\<lambda>x. snd (snd x)) ?rows)"
    by (simp add: load_since_def case_prod_unfold sorted_sort_key)
  moreover have "distinct (map (\<lambda>x. snd (snd x)) ?rows)"
  proof -
    have "inj_on (\<lambda>x. snd (snd x)) (set ?rows)"
    proof (rule inj_onI)
      fix x y assume "x \<in> set ?rows" "y \<in> set ?rows" and q: "snd (snd x) = snd (snd y)"
      then obtain s row s' row' where x: "(s, row) \<in> set (db_rows db)" "w < row_seq row" "x = (s, joined db s row, row_seq row)"
        and y: "(s', row') \<in> set (db_rows db)" "y = (s', joined db s' row', row_seq row')"
        unfolding load_since_mem by blast
      note mx = map_of_is_SomeI [OF wf x(1)] and my = map_of_is_SomeI [OF wf y(1)]
      have "row_seq row = row_seq row'" "0 < row_seq row" using q x y by simp_all
      then have "s = s'" using ok mx my unfolding db_ok_def by blast
      then show "x = y" using mx my x y by simp
    qed
    moreover have "distinct ?rows" using keys by (simp add: distinct_map)
    ultimately show ?thesis by (simp add: distinct_map)
  qed
  ultimately have sorted: "sorted_wrt (\<lambda>x y. snd (snd x) < snd (snd y)) ?rows"
    using strict_sorted_iff [of "map (\<lambda>x. snd (snd x)) ?rows"] by (simp add: sorted_wrt_map)
  have all: "\<exists>r. (sid, r, row_seq row) \<in> set ?rows"
    if "map_of (db_rows db) sid = Some row" "row_writer row \<noteq> Some P" "w < row_seq row" for sid row
    using that map_of_SomeD [OF that(1)] unfolding load_since_mem by blast
  show ?thesis unfolding pull_ok_def using n keys sorted row all by blast
qed

section \<open>Committing\<close>

lemma map_of_delete_all: "map_of (foldr AList.delete ids d) k = (if k \<in> set ids then None else map_of d k)"
  by (induction ids) (auto simp: dict_simps)

text \<open>What \<open>write_records\<close> leaves: the written rows carry the new documents, all others keep theirs; details go with the strip.\<close>

lemma write_records_effect:
  assumes ok: "db_ok db" and rs: "\<forall>(k, r) \<in> set rs. r = sub_to_dict (R k) \<and> sub_ok (R k) \<and> sb_id (R k) = k"
    and db': "db' = write_records True P rs ids db"
  shows "db_ok db'" "db_max_seq db \<le> db_max_seq db'"
    "k \<notin> fst ` set rs \<Longrightarrow> map_of (db_rows db') k = map_of (db_rows db) k"
    "k \<in> fst ` set rs \<Longrightarrow> \<exists>row. map_of (db_rows db') k = Some row \<and> row_data row = fst (split_record (sub_to_dict (R k)))
       \<and> row_writer row = Some P \<and> db_max_seq db < row_seq row"
    "map_of (db_details db') k = (if k \<in> set ids then None
       else if k \<in> fst ` set rs then (if jfalsy (sb_benchmark_details (R k)) then None else Some (sb_benchmark_details (R k)))
       else map_of (db_details db) k)"
proof -
  let ?db = "write_rows P (db_max_seq db) rs db"
  have db'_eq: "db' = strip_details ids ?db" by (simp add: db' write_records_def)
  have rows: "db_rows db' = db_rows ?db" by (simp add: db'_eq strip_details_def)
  have e: "(sid \<notin> fst ` set rs \<longrightarrow> map_of (db_rows ?db) sid = map_of (db_rows db) sid \<and> map_of (db_details ?db) sid = map_of (db_details db) sid)
    \<and> (sid \<in> fst ` set rs \<longrightarrow> (\<exists>row. map_of (db_rows ?db) sid = Some row \<and> row_data row = fst (split_record (sub_to_dict (R sid)))
      \<and> row_writer row = Some P \<and> db_max_seq db < row_seq row \<and> map_of (db_details ?db) sid = snd (split_record (sub_to_dict (R sid)))))" for sid
    by (rule write_rows_effect [of rs "\<lambda>k. sub_to_dict (R k)"]) (use rs seqs_below_max in auto)
  show same: "k \<notin> fst ` set rs \<Longrightarrow> map_of (db_rows db') k = map_of (db_rows db) k" for k using e [of k] by (simp add: rows)
  show new: "k \<in> fst ` set rs \<Longrightarrow> \<exists>row. map_of (db_rows db') k = Some row \<and> row_data row = fst (split_record (sub_to_dict (R k)))
       \<and> row_writer row = Some P \<and> db_max_seq db < row_seq row" for k using e [of k] unfolding rows by blast
  show "map_of (db_details db') k = (if k \<in> set ids then None
       else if k \<in> fst ` set rs then (if jfalsy (sb_benchmark_details (R k)) then None else Some (sb_benchmark_details (R k)))
       else map_of (db_details db) k)" for k
    using e [of k] by (auto simp: db'_eq strip_details_def map_of_delete_all split_record_def Let_def)
  show "db_max_seq db \<le> db_max_seq db'" by (simp add: db' write_records_seq)
  have "seqs_distinct ?db \<and> wf_dict (db_rows ?db)"
    by (rule write_rows_distinct) (use ok seqs_below_max in \<open>auto simp: db_ok_def seqs_distinct_def\<close>)
  moreover have "\<exists>s. sub_ok s \<and> sb_id s = sid \<and> row_data row = fst (split_record (sub_to_dict s))"
    if "map_of (db_rows db') sid = Some row" for sid row
  proof (cases "sid \<in> fst ` set rs")
    case True
    then show ?thesis using new [OF True] that rs by fastforce
  next
    case False
    then show ?thesis using same [OF False] that ok unfolding db_ok_def by metis
  qed
  ultimately show "db_ok db'" unfolding db_ok_def seqs_distinct_def rows by blast
qed

text \<open>A change made under the lock: records outside \<open>ids\<close> are the ones the guard has loaded.\<close>

definition mutated :: "string list \<Rightarrow> sub_store \<Rightarrow> sub_store \<Rightarrow> bool" where
  "mutated ids st0 st1 \<longleftrightarrow> ss_last_seen st1 = ss_last_seen st0 \<and> store_wf st1
     \<and> (\<forall>k. k \<notin> set ids \<longrightarrow> map_of (ss_subs st1) k = map_of (ss_subs st0) k)
     \<and> (\<forall>k \<in> set ids. map_of (ss_subs st1) k \<noteq> None)"

text \<open>What a commit of \<open>P\<close> means to everybody.\<close>

definition committed :: "string \<Rightarrow> string set \<Rightarrow> sub_db \<Rightarrow> sub_db \<Rightarrow> bool" where
  "committed P T db db' \<longleftrightarrow> db_ok db \<and> db_ok db' \<and> db_max_seq db \<le> db_max_seq db'
     \<and> (\<forall>k. k \<notin> T \<longrightarrow> map_of (db_rows db') k = map_of (db_rows db) k
          \<and> (map_of (db_details db') k = None \<or> map_of (db_details db') k = map_of (db_details db) k))
     \<and> (\<forall>k \<in> T. \<exists>row. map_of (db_rows db') k = Some row \<and> row_writer row = Some P \<and> db_max_seq db < row_seq row)"

lemma committedD:
  assumes "committed P T db db'"
  shows "db_ok db" "db_ok db'" "db_max_seq db \<le> db_max_seq db'"
    "k \<notin> T \<Longrightarrow> map_of (db_rows db') k = map_of (db_rows db) k"
    "k \<notin> T \<Longrightarrow> map_of (db_details db') k = None \<or> map_of (db_details db') k = map_of (db_details db) k"
    "k \<in> T \<Longrightarrow> \<exists>row. map_of (db_rows db') k = Some row \<and> row_writer row = Some P \<and> db_max_seq db < row_seq row"
  using assms unfolding committed_def by blast+

lemma row_agrees_iff:
  assumes "row_data row = fst (split_record (sub_to_dict s))" "sub_ok s"
  shows "row_agrees db k row m \<longleftrightarrow> undetailed m = undetailed s
     \<and> (case map_of (db_details db) k of None \<Rightarrow> True | Some v \<Rightarrow> jfalsy v \<or> sb_benchmark_details m = v)"
  by (auto simp: row_agrees_def row_sub_joined [OF assms] agree_def undetailed_def split: option.splits)

lemma committed_agrees:
  assumes "committed P T db db'" "k \<notin> T" "map_of (db_rows db) k = Some row" "row_agrees db k row m"
  shows "row_agrees db' k row m"
proof -
  obtain s where s: "row_data row = fst (split_record (sub_to_dict s))" "sub_ok s"
    using db_ok_row [OF committedD(1) [OF assms(1)] assms(3)] by blast
  from assms(4) committedD(5) [OF assms(1,2)] show ?thesis unfolding row_agrees_iff [OF s] by auto
qed

text \<open>Another process keeps its view, and its pulls under way stay good.\<close>

lemma committed_synced:
  assumes c: "committed P T db db'" and sy: "synced Q db st" and ne: "Q \<noteq> P"
  shows "synced Q db' st"
  unfolding synced_def
proof (intro conjI allI impI)
  show "store_wf st" using sy by (simp add: synced_def)
  show "ss_last_seen st \<le> db_max_seq db'" using sy committedD(3) [OF c] by (simp add: synced_def)
  fix sid row assume row: "map_of (db_rows db') sid = Some row"
  show "row_writer row \<noteq> Some Q \<and> ss_last_seen st < row_seq row \<or> (\<exists>m. map_of (ss_subs st) sid = Some m \<and> row_agrees db' sid row m)"
  proof (cases "sid \<in> T")
    case True
    from committedD(6) [OF c this] row sy ne show ?thesis by (auto simp: synced_def)
  next
    case False
    with row committedD(4) [OF c] have old: "map_of (db_rows db) sid = Some row" by simp
    from sy old have "row_writer row \<noteq> Some Q \<and> ss_last_seen st < row_seq row
        \<or> (\<exists>m. map_of (ss_subs st) sid = Some m \<and> row_agrees db sid row m)" unfolding synced_def by blast
    then show ?thesis using committed_agrees [OF c False old] by blast
  qed
qed

lemma committed_pull:
  assumes c: "committed P T db db'" and pull: "pull_ok Q db w n b rows" and ne: "Q \<noteq> P"
  shows "pull_ok Q db' w n b rows"
proof -
  note d = pull_okD [OF pull]
  have "pull_row_ok Q db' w b x" if "x \<in> set rows" for x
  proof -
    obtain sid r q where x: "x = (sid, r, q)" by (cases x)
    have old: "pull_row_ok Q db w b (sid, r, q)" using d(5) that x by simp
    show ?thesis
    proof (cases "sid \<in> T")
      case True
      from committedD(6) [OF c this] obtain row where "map_of (db_rows db') sid = Some row" "row_writer row = Some P" "b < row_seq row"
        using d(2) by auto
      with old ne show ?thesis by (auto simp: x pull_row_ok_def)
    next
      case False
      with old committedD(4) [OF c False] committed_agrees [OF c False] show ?thesis by (fastforce simp: x pull_row_ok_def)
    qed
  qed
  moreover have "\<exists>r. (sid, r, row_seq row) \<in> set rows"
    if "map_of (db_rows db') sid = Some row" "row_writer row \<noteq> Some Q" "w < row_seq row" "row_seq row \<le> b" for sid row
  proof -
    have "sid \<notin> T" using committedD(6) [OF c, of sid] that(1,4) d(2) by auto
    then show ?thesis using that committedD(4) [OF c] d(6) by simp
  qed
  ultimately show ?thesis using d(1-4) committedD(3) [OF c] unfolding pull_ok_def by (meson le_trans)
qed

text \<open>The writer's own pulls are behind its watermark.\<close>

lemma stale_pull:
  assumes c: "committed P T db db'" and pull: "pull_ok P db w n b rows" and past: "b \<le> w'"
  shows "pull_ok P db' w' n b rows"
proof -
  note d = pull_okD [OF pull]
  have "pull_row_ok P db' w' b x" if "x \<in> set rows" for x
  proof -
    obtain sid r q where x: "x = (sid, r, q)" by (cases x)
    from d(5) [of sid r q] that have "q \<le> b" "\<exists>s. sub_of_record r = Inr s \<and> sb_id s = sid \<and> sub_ok s"
      by (auto simp: x pull_row_ok_def)
    moreover have "q \<le> w'" using \<open>q \<le> b\<close> past by simp
    ultimately show ?thesis by (simp add: x pull_row_ok_def)
  qed
  then show ?thesis using d(1-4) committedD(3) [OF c] past unfolding pull_ok_def by (meson le_trans not_le)
qed

lemma pull_mono:
  assumes "pull_ok P db w n b rows" "w \<le> w'"
  shows "pull_ok P db w' n b rows"
proof -
  note d = pull_okD [OF assms(1)]
  have "pull_row_ok P db w' b x" if "x \<in> set rows" for x
    using d(5) that assms(2) by (cases x) (fastforce simp: pull_row_ok_def)
  then show ?thesis using d assms(2) unfolding pull_ok_def by (meson le_less_trans)
qed

text \<open>The commit of a guarded change, as \<open>persist_records\<close> makes it.\<close>

lemma persist_commits:
  assumes ok: "db_ok db" and up: "up_to_date db st0" and mut: "mutated ids st0 st1"
    and cfg: "c_persist cfg" "c_writer_id cfg = P" "e_commits e"
    and run: "persist_records e cfg ids (st1, fs) = (st2, fs2)" "sf_db fs = db"
    and seen: "ss_last_seen st0 \<le> db_max_seq db"
  shows "committed P (set ids) db (sf_db fs2)" "synced P (sf_db fs2) st2" "ss_last_seen st2 = ss_last_seen st0"
proof -
  let ?strip = "details_retention (c_details_cap cfg) st1"
  define R where "R k = the (map_of (ss_subs st2) k)" for k
  define rs where "rs = List.map_filter (\<lambda>sid. map_option (\<lambda>s. (sid, sub_to_dict s)) (map_of (ss_subs st2) sid)) ids"
  have st2: "st2 = strip_memory ?strip st1" and db2: "sf_db fs2 = write_records True P rs ?strip db"
    using run cfg by (auto simp: persist_records_def Let_def rs_def)
  have subs: "map_of (ss_subs st2) k = map_option (\<lambda>s. if sb_id s \<in> set ?strip then undetailed s else s) (map_of (ss_subs st1) k)" for k
    by (simp add: st2 strip_memory_subs map_of_mapped)
  have wf1: "store_wf st1" using mut by (simp add: mutated_def)
  have wf2: "store_wf st2"
    unfolding store_wf_def
  proof (intro allI impI)
    fix k s assume "map_of (ss_subs st2) k = Some s"
    then obtain s1 where "map_of (ss_subs st1) k = Some s1" "s = (if sb_id s1 \<in> set ?strip then undetailed s1 else s1)"
      unfolding subs by auto
    then show "sb_id s = k \<and> sub_ok s" using wf1 by (simp add: store_wf_def)
  qed
  have known: "map_of (ss_subs st2) k = Some (R k)" "sub_ok (R k)" "sb_id (R k) = k" if "k \<in> set ids" for k
  proof -
    show "map_of (ss_subs st2) k = Some (R k)" using mut that by (auto simp: mutated_def subs R_def)
    then show "sub_ok (R k)" "sb_id (R k) = k" using wf2 by (simp_all add: store_wf_def)
  qed
  have rs_mem: "\<forall>(k, r) \<in> set rs. r = sub_to_dict (R k) \<and> sub_ok (R k) \<and> sb_id (R k) = k"
    using known by (auto simp: rs_def List.map_filter_def)
  have keys: "fst ` set rs = set ids" using known(1) by (force simp: rs_def List.map_filter_def)
  note w = write_records_effect [OF ok rs_mem db2, unfolded keys]
  show c: "committed P (set ids) db (sf_db fs2)"
    unfolding committed_def
  proof (intro conjI allI impI ballI)
    fix k assume "k \<in> set ids"
    from w(4) [OF this] show "\<exists>row. map_of (db_rows (sf_db fs2)) k = Some row \<and> row_writer row = Some P \<and> db_max_seq db < row_seq row"
      by blast
  qed (use ok w(1,2,3,5) in auto)
  have "ss_last_seen st2 = ss_last_seen st0" using mut by (simp add: st2 strip_memory_def mutated_def)
  then show "ss_last_seen st2 = ss_last_seen st0" .
  have "\<exists>m. map_of (ss_subs st2) k = Some m \<and> row_agrees (sf_db fs2) k row m" if row: "map_of (db_rows (sf_db fs2)) k = Some row" for k row
  proof (cases "k \<in> set ids")
    case True
    have "row_data row = fst (split_record (sub_to_dict (R k)))" using w(4) [OF True] row by auto
    from row_agrees_iff [OF this known(2) [OF True]] w(5) [of k] True known(1) [OF True] show ?thesis by auto
  next
    case False
    with row w(3) have old: "map_of (db_rows db) k = Some row" by simp
    then obtain m where m: "map_of (ss_subs st1) k = Some m" "row_agrees db k row m"
      using up mut False unfolding up_to_date_def mutated_def by metis
    have id: "sb_id m = k" using wf1 m(1) by (simp add: store_wf_def)
    from committed_agrees [OF c False old m(2)] have "row_agrees (sf_db fs2) k row m" .
    moreover obtain s where s: "row_data row = fst (split_record (sub_to_dict s))" "sub_ok s"
      using db_ok_row [OF ok old] by blast
    ultimately have "row_agrees (sf_db fs2) k row (if k \<in> set ?strip then undetailed m else m)"
      using w(5) [of k] False unfolding row_agrees_iff [OF s] by (cases "k \<in> set ?strip") (simp_all add: undetailed_def)
    then show ?thesis using m(1) id by (simp add: subs)
  qed
  moreover have "ss_last_seen st2 \<le> db_max_seq (sf_db fs2)"
    using \<open>ss_last_seen st2 = ss_last_seen st0\<close> seen w(2) by simp
  ultimately show "synced P (sf_db fs2) st2" unfolding synced_def using wf2 by blast
qed

section \<open>The processes\<close>

record sync_sys =
  sy_db :: sub_db
  sy_store :: "string \<Rightarrow> sub_store"
  sy_latest :: "(string \<times> nat) list"
  sy_pulls :: "(string \<times> nat \<times> pulled) list"

text \<open>
  A reader of process \<open>P\<close> asks for the largest sequence number, later reads the rows beyond the watermark, and later still merges
  them; any other step may come between. A writer pulls, changes records and commits in one step, since it holds
  the file lock, which keeps other writers out, and the process lock, which keeps the merges of \<open>P\<close> out.
\<close>

inductive sync_step :: "(string \<Rightarrow> sub_cfg) \<Rightarrow> sync_sys \<Rightarrow> sync_sys \<Rightarrow> bool" for cfgs where
  read_latest: "sync_step cfgs sys (sys\<lparr>sy_latest := (P, db_max_seq (sy_db sys)) # sy_latest sys\<rparr>)"
| read_rows: "(P, n) \<in> set (sy_latest sys) \<Longrightarrow>
    sync_step cfgs sys (sys\<lparr>sy_pulls := (P, n, load_since P (ss_last_seen (sy_store sys P)) (sy_db sys)) # sy_pulls sys\<rparr>)"
| merge_rows: "(P, n, rows) \<in> set (sy_pulls sys) \<Longrightarrow>
    sync_step cfgs sys (sys\<lparr>sy_store := (sy_store sys)(P := merge_pull n rows (sy_store sys P))\<rparr>)"
| commit: "maybe_reload e (cfgs P) (sy_store sys P, fs) = (st0, fs) \<Longrightarrow> sf_db fs = sy_db sys \<Longrightarrow> mutated ids st0 st1 \<Longrightarrow>
    persist_records e (cfgs P) ids (st1, fs1) = (st2, fs2) \<Longrightarrow> sf_db fs1 = sy_db sys \<Longrightarrow>
    e_commits e \<Longrightarrow> e_seq_read e \<Longrightarrow> e_rows_read e \<Longrightarrow>
    sync_step cfgs sys (sys\<lparr>sy_db := sf_db fs2, sy_store := (sy_store sys)(P := st2)\<rparr>)"

definition sync_cfgs :: "(string \<Rightarrow> sub_cfg) \<Rightarrow> bool" where
  "sync_cfgs cfgs \<longleftrightarrow> (\<forall>P. c_writer_id (cfgs P) = P \<and> c_persist (cfgs P) \<and> c_xproc_sync (cfgs P))"

definition sync_ok :: "sync_sys \<Rightarrow> bool" where
  "sync_ok sys \<longleftrightarrow> db_ok (sy_db sys) \<and> (\<forall>P. synced P (sy_db sys) (sy_store sys P))
     \<and> (\<forall>(P, n) \<in> set (sy_latest sys). n \<le> db_max_seq (sy_db sys))
     \<and> (\<forall>(P, n, rows) \<in> set (sy_pulls sys). \<exists>b. pull_ok P (sy_db sys) (ss_last_seen (sy_store sys P)) n b rows)"

lemma reload_up_to_date:
  assumes ok: "db_ok db" and sy: "synced P db st" and cfg: "c_writer_id cfg = P" "c_persist cfg" "c_xproc_sync cfg"
    and e: "e_seq_read e" "e_rows_read e" and run: "maybe_reload e cfg (st, fs) = (st0, fs0)" "sf_db fs = db"
  shows "up_to_date db st0" "ss_last_seen st0 = db_max_seq db" "synced P db st0"
proof -
  have cases: "st0 = (if db_max_seq db \<le> ss_last_seen st then st else merge_pull (db_max_seq db) (load_since P (ss_last_seen st) db) st)"
    using run cfg e by (auto simp: maybe_reload_def Let_def split: if_splits)
  note pull = load_since_pull [OF ok order_refl, of P "ss_last_seen st"]
  show sy0: "synced P db st0" using cases sy merge_pull_synced [OF sy pull] by simp
  show seen: "ss_last_seen st0 = db_max_seq db"
    using cases sy merge_pull_effect(1) [OF pull] by (auto simp: synced_def)
  show "up_to_date db st0"
    using sy0 seen max_seq_map_of unfolding synced_def up_to_date_def by (metis not_le)
qed

lemma sync_okD:
  assumes "sync_ok sys"
  shows "db_ok (sy_db sys)" "synced P (sy_db sys) (sy_store sys P)"
    "(P, n) \<in> set (sy_latest sys) \<Longrightarrow> n \<le> db_max_seq (sy_db sys)"
    "(P, n, rows) \<in> set (sy_pulls sys) \<Longrightarrow> \<exists>b. pull_ok P (sy_db sys) (ss_last_seen (sy_store sys P)) n b rows"
  using assms unfolding sync_ok_def by blast+

lemma commit_sync_ok:
  assumes ok: "sync_ok sys" and cfgs: "sync_cfgs cfgs"
    and run: "maybe_reload e (cfgs P) (sy_store sys P, fs) = (st0, fs)" "sf_db fs = sy_db sys" "mutated ids st0 st1"
      "persist_records e (cfgs P) ids (st1, fs1) = (st2, fs2)" "sf_db fs1 = sy_db sys" "e_commits e" "e_seq_read e" "e_rows_read e"
  shows "sync_ok (sys\<lparr>sy_db := sf_db fs2, sy_store := (sy_store sys)(P := st2)\<rparr>)"
proof -
  note d = sync_okD [OF ok]
  have cfg: "c_writer_id (cfgs P) = P" "c_persist (cfgs P)" "c_xproc_sync (cfgs P)" using cfgs by (simp_all add: sync_cfgs_def)
  note up = reload_up_to_date [OF d(1) d(2) cfg run(7,8,1,2)]
  note c = persist_commits [OF d(1) up(1) run(3) cfg(2,1) run(6) run(4,5) eq_refl [OF up(2)]]
  have sy: "synced Q (sf_db fs2) (((sy_store sys)(P := st2)) Q)" for Q
    using c(2) committed_synced [OF c(1) d(2), of Q] by simp
  have pulls: "\<exists>b. pull_ok Q (sf_db fs2) (ss_last_seen (((sy_store sys)(P := st2)) Q)) n b rows"
    if mem: "(Q, n, rows) \<in> set (sy_pulls sys)" for Q n rows
  proof -
    obtain b where b: "pull_ok Q (sy_db sys) (ss_last_seen (sy_store sys Q)) n b rows" using d(4) [OF mem] by blast
    show ?thesis
    proof (cases "Q = P")
      case True
      have "b \<le> ss_last_seen st2" using pull_okD(2) [OF b] up(2) c(3) by simp
      from stale_pull [OF c(1) b [unfolded True] this] show ?thesis using True by auto
    next
      case False
      then show ?thesis using committed_pull [OF c(1) b] by auto
    qed
  qed
  have latest: "n \<le> db_max_seq (sf_db fs2)" if "(Q, n) \<in> set (sy_latest sys)" for Q n
    using d(3) [OF that] committedD(3) [OF c(1)] by simp
  show ?thesis unfolding sync_ok_def using committedD(2) [OF c(1)] sy pulls latest by auto
qed

lemma sync_step_ok:
  assumes "sync_step cfgs sys sys'" "sync_cfgs cfgs" "sync_ok sys"
  shows "sync_ok sys'"
  using assms(1)
proof cases
  case (read_latest P)
  then show ?thesis using assms(3) by (auto simp: sync_ok_def)
next
  case (read_rows P n)
  note pull = load_since_pull [OF sync_okD(1) [OF assms(3)] sync_okD(3) [OF assms(3) read_rows(2)],
      of P "ss_last_seen (sy_store sys P)"]
  then show ?thesis using assms(3) read_rows(1) by (auto simp: sync_ok_def)
next
  case (merge_rows P n rows)
  note d = sync_okD [OF assms(3)]
  obtain b where b: "pull_ok P (sy_db sys) (ss_last_seen (sy_store sys P)) n b rows" using d(4) [OF merge_rows(2)] by blast
  have mono: "ss_last_seen (sy_store sys Q) \<le> ss_last_seen (sy_store sys' Q)" for Q
    using merge_pull_effect(1) [OF b] by (simp add: merge_rows(1))
  have "synced Q (sy_db sys') (sy_store sys' Q)" for Q
    using merge_pull_synced [OF d(2) b] d(2) by (simp add: merge_rows(1))
  moreover have "\<exists>b. pull_ok Q (sy_db sys') (ss_last_seen (sy_store sys' Q)) m b rs" if "(Q, m, rs) \<in> set (sy_pulls sys')" for Q m rs
  proof -
    from d(4) [of Q m rs] that obtain b' where "pull_ok Q (sy_db sys) (ss_last_seen (sy_store sys Q)) m b' rs"
      by (auto simp: merge_rows(1))
    from pull_mono [OF this mono] show ?thesis by (auto simp: merge_rows(1))
  qed
  ultimately show ?thesis using d(1,3) unfolding sync_ok_def by (auto simp: merge_rows(1))
next
  case (commit e P fs st0 ids st1 fs1 st2 fs2)
  then show ?thesis using commit_sync_ok [OF assms(3,2)] by simp
qed

definition sync_init :: sync_sys where
  "sync_init = \<lparr>sy_db = empty_db, sy_store = (\<lambda>P. empty_store), sy_latest = [], sy_pulls = []\<rparr>"

lemma sync_init_ok: "sync_ok sync_init"
  by (simp add: sync_ok_def sync_init_def db_ok_def empty_db_def synced_def store_wf_def empty_store_def)

lemma sync_runs_ok:
  assumes "sync_cfgs cfgs" "(sync_step cfgs)\<^sup>*\<^sup>* sync_init sys"
  shows "sync_ok sys"
  using assms(2) by (induction rule: rtranclp_induct) (auto intro: sync_init_ok sync_step_ok [OF _ assms(1)])

text \<open>Claim C10: however the pulls and commits of the processes interleave, a process that holds the write lock has, after its
  pull, the committed version of every record of the shared table in memory (up to benchmark details the retention
  dropped from the table), so no change is based on a version another process has replaced.\<close>

theorem writer_sees_committed_state:
  assumes "sync_cfgs cfgs" "(sync_step cfgs)\<^sup>*\<^sup>* sync_init sys"
    and "sf_db fs = sy_db sys" "e_seq_read e" "e_rows_read e" "map_of (db_rows (sy_db sys)) sid = Some row"
  shows "\<exists>m r. map_of (ss_subs (fst (maybe_reload e (cfgs P) (sy_store sys P, fs)))) sid = Some m
     \<and> row_sub (sy_db sys) sid row = Inr r \<and> undetailed m = undetailed r
     \<and> (jfalsy (sb_benchmark_details r) \<or> sb_benchmark_details m = sb_benchmark_details r)"
proof -
  note d = sync_okD [OF sync_runs_ok [OF assms(1,2)]]
  obtain st0 fs0 where run: "maybe_reload e (cfgs P) (sy_store sys P, fs) = (st0, fs0)"
    by (cases "maybe_reload e (cfgs P) (sy_store sys P, fs)")
  have "up_to_date (sy_db sys) st0"
    by (rule reload_up_to_date [OF d(1) d(2) _ _ _ assms(4,5) run assms(3)]) (use assms(1) in \<open>simp_all add: sync_cfgs_def\<close>)
  then show ?thesis using assms(6) unfolding up_to_date_def row_agrees_def agree_def run
    by (fastforce split: sum.splits)
qed

definition demo_cfgs :: "string \<Rightarrow> sub_cfg" where
  "demo_cfgs P = demo_cfg\<lparr>c_writer_id := P\<rparr>"

definition demo_sub :: submission where
  "demo_sub = new_submission ''s1'' ''r'' ''c'' 7 ''h1'' ''R1'' None False None None 5"

definition demo_commit :: world where
  "demo_commit = persist_records demo_env (demo_cfgs ''api'') [''s1''] (index_sub demo_sub empty_store, fresh_files)"

definition demo_sys :: sync_sys where
  "demo_sys = sync_init\<lparr>sy_db := sf_db (snd demo_commit), sy_store := (sy_store sync_init)(''api'' := fst demo_commit)\<rparr>"

lemma demo_sync_run: "sync_cfgs demo_cfgs" "(sync_step demo_cfgs)\<^sup>*\<^sup>* sync_init demo_sys"
proof -
  have ok: "sub_ok demo_sub" by code_simp
  have "sync_step demo_cfgs sync_init demo_sys"
    unfolding demo_sys_def
  proof (rule commit [of demo_env demo_cfgs "''api''" sync_init fresh_files empty_store "[''s1'']" "index_sub demo_sub empty_store"])
    show "maybe_reload demo_env (demo_cfgs ''api'') (sy_store sync_init ''api'', fresh_files) = (empty_store, fresh_files)"
      by (simp add: maybe_reload_def sync_init_def fresh_files_def empty_db_def db_max_seq_def Let_def)
    show "mutated [''s1''] empty_store (index_sub demo_sub empty_store)"
      using ok by (auto simp: mutated_def store_wf_def index_sub_def empty_store_def demo_sub_def new_submission_def)
    show "persist_records demo_env (demo_cfgs ''api'') [''s1''] (index_sub demo_sub empty_store, fresh_files) = (fst demo_commit, snd demo_commit)"
      by (simp add: demo_commit_def)
  qed (simp_all add: fresh_files_def sync_init_def demo_env_def)
  then show "(sync_step demo_cfgs)\<^sup>*\<^sup>* sync_init demo_sys" by (rule r_into_rtranclp)
  show "sync_cfgs demo_cfgs" by (simp add: sync_cfgs_def demo_cfgs_def demo_cfg_def)
qed

theorem writer_sees_committed_state_witness:
  "\<exists>m r row. map_of (ss_subs (fst (maybe_reload demo_env (demo_cfgs ''worker'') (sy_store demo_sys ''worker'', snd demo_commit)))) ''s1'' = Some m
     \<and> row_sub (sy_db demo_sys) ''s1'' row = Inr r \<and> undetailed m = undetailed r"
proof -
  have "map_of (db_rows (sf_db (snd demo_commit))) ''s1'' \<noteq> None" by code_simp
  then obtain row where row: "map_of (db_rows (sy_db demo_sys)) ''s1'' = Some row" by (auto simp: demo_sys_def)
  have db: "sf_db (snd demo_commit) = sy_db demo_sys" by (simp add: demo_sys_def)
  have e: "e_seq_read demo_env" "e_rows_read demo_env" by (simp_all add: demo_env_def)
  from writer_sees_committed_state [OF demo_sync_run db e row, of "''worker''"] show ?thesis by blast
qed

section \<open>Rows that do not load\<close>

text \<open>Property: the watermark never passes a row that cannot be read, so the row is asked for again.\<close>

lemma unreadable_row_stalls:
  assumes "sorted_wrt (\<lambda>x y. snd (snd x) < snd (snd y)) rows" "(sid, r, q) \<in> set rows" "sub_of_record r = Inl err" "w < q"
  shows "\<exists>st' a. apply_rows rows w st = (st', a, False) \<and> a < q"
  using assms
proof (induction rows arbitrary: w st)
  case (Cons x rows)
  obtain sid' r' q' where x: "x = (sid', r', q')" by (cases x)
  show ?case
  proof (cases "q' \<le> w")
    case True
    then show ?thesis using Cons by (auto simp: x)
  next
    case False
    show ?thesis
    proof (cases "sub_of_record r'")
      case (Inl err')
      have "w < q" using Cons.prems by simp
      then show ?thesis using False Inl by (auto simp: x upsert_one_def)
    next
      case (Inr s)
      then have "(sid, r, q) \<in> set rows" using Cons.prems(2,3) x by auto
      moreover from this have "q' < q" using Cons.prems(1) x by fastforce
      ultimately show ?thesis using Cons.IH [of q' "index_sub s st"] Cons.prems(1,3) False Inr by (simp add: x upsert_one_def)
    qed
  qed
qed simp

section \<open>Deleting rows\<close>


section \<open>The operations commit what they change\<close>

text \<open>The operations that look a record up and change it make exactly such a change.\<close>

lemma on_sub_mutated:
  assumes "store_wf st" "map_of (ss_subs st) sid = Some s" "f s (st, fs) = (s', st1, fs1)"
    and "ss_subs st1 = ss_subs st" "ss_last_seen st1 = ss_last_seen st" "sb_id s' = sb_id s" "sb_round_id s' = sb_round_id s"
  shows "\<exists>st2. on_sub e cfg sid f (st, fs) = (Inr (), persist_records e cfg [sid] (st2, fs1)) \<and> mutated [sid] st st2"
proof -
  let ?s = "s'\<lparr>sb_updated_at := e_now e\<rparr>"
  let ?st2 = "st1\<lparr>ss_subs := AList.update sid ?s (ss_subs st1)\<rparr>"
  have "on_sub e cfg sid f (st, fs) = (Inr (), persist_records e cfg [sid] (?st2, fs1))" using assms(2,3) by (simp add: on_sub_def)
  moreover have "sb_id s = sid" "sub_ok s" using assms(1,2) by (auto simp: store_wf_def)
  then have "sb_id ?s = sid" "sub_ok ?s" using assms(6,7) by (simp_all add: sub_ok_def)
  then have "mutated [sid] st ?st2" using assms(1,4,5) by (auto simp: mutated_def store_wf_def dict_simps)
  ultimately show ?thesis by blast
qed

section \<open>Restart\<close>

lemma hydrate_effect:
  assumes "\<forall>(sid, d) \<in> set rows. \<exists>s. sub_of_row d = Inr s" "distinct (map fst rows)"
  shows "\<exists>st'. hydrate rows st = Inr st'
     \<and> (\<forall>sid d s. (sid, d) \<in> set rows \<longrightarrow> sub_of_row d = Inr s \<longrightarrow> map_of (ss_subs st') sid = Some s)
     \<and> (\<forall>sid. sid \<notin> fst ` set rows \<longrightarrow> map_of (ss_subs st') sid = map_of (ss_subs st) sid)"
  using assms
proof (induction rows arbitrary: st)
  case (Cons x rows)
  obtain sid d where x: "x = (sid, d)" by fastforce
  obtain s where s: "sub_of_row d = Inr s" using Cons.prems(1) x by auto
  let ?st = "st\<lparr>ss_subs := AList.update sid s (ss_subs st),
         ss_by_round := AList.update (round_key (sb_hotkey s) (sb_round_id s)) sid (ss_by_round st),
         ss_by_epoch := AList.update (epoch_key (sb_hotkey s) (sb_epoch s)) sid (ss_by_epoch st)\<rparr>"
  have "\<exists>st'. hydrate rows ?st = Inr st'
     \<and> (\<forall>sid d s. (sid, d) \<in> set rows \<longrightarrow> sub_of_row d = Inr s \<longrightarrow> map_of (ss_subs st') sid = Some s)
     \<and> (\<forall>sid. sid \<notin> fst ` set rows \<longrightarrow> map_of (ss_subs st') sid = map_of (ss_subs ?st) sid)"
    by (rule Cons.IH) (use Cons.prems in auto)
  then obtain st' where st': "hydrate rows ?st = Inr st'"
    "\<And>sid d s. (sid, d) \<in> set rows \<Longrightarrow> sub_of_row d = Inr s \<Longrightarrow> map_of (ss_subs st') sid = Some s"
    "\<And>sid. sid \<notin> fst ` set rows \<Longrightarrow> map_of (ss_subs st') sid = map_of (ss_subs ?st) sid" by blast
  have fresh: "sid \<notin> fst ` set rows" using Cons.prems(2) x by simp
  have "hydrate (x # rows) st = Inr st'" using s st'(1) by (simp add: x)
  moreover have "map_of (ss_subs st') k = Some t" if "(k, d') \<in> set (x # rows)" "sub_of_row d' = Inr t" for k d' t
  proof (cases "(k, d') = x")
    case True
    then show ?thesis using st'(3) [OF fresh] s that(2) x by (simp add: dict_simps)
  next
    case False
    then show ?thesis using st'(2) [of k d' t] that by simp
  qed
  moreover have "map_of (ss_subs st') k = map_of (ss_subs st) k" if "k \<notin> fst ` set (x # rows)" for k
    using st'(3) [of k] that x by (simp add: dict_simps)
  ultimately show ?case by blast
qed simp

text \<open>Claim C22: restarting a process loads the committed version of every record of the shared table and nothing else, with the
  watermark at the last commit.\<close>

theorem restart_restores_table:
  assumes "sync_cfgs cfgs" "(sync_step cfgs)\<^sup>*\<^sup>* sync_init sys"
    and "sf_db fs = sy_db sys" "e_seq_read e" "c_max_records cfg \<le> 0"
  shows "\<exists>st. load_submissions e cfg (empty_store, fs) = (st, fs) \<and> ss_loaded st \<and> ss_last_seen st = db_max_seq (sy_db sys)
     \<and> (\<forall>sid. map_of (ss_subs st) sid =
          (case map_of (db_rows (sy_db sys)) sid of None \<Rightarrow> None
           | Some row \<Rightarrow> (case row_sub (sy_db sys) sid row of Inl _ \<Rightarrow> None | Inr s \<Rightarrow> Some s)))
     \<and> (\<forall>sid row. map_of (db_rows (sy_db sys)) sid = Some row \<longrightarrow> (\<exists>s. row_sub (sy_db sys) sid row = Inr s))"
proof -
  let ?db = "sy_db sys"
  have ok: "db_ok ?db" using sync_okD(1) [OF sync_runs_ok [OF assms(1,2)]] .
  then have wf: "wf_dict (db_rows ?db)" by (simp add: db_ok_def)
  have read: "\<exists>s. sub_of_row (joined ?db sid row) = Inr s \<and> row_sub ?db sid row = Inr s" if row: "map_of (db_rows ?db) sid = Some row" for sid row
  proof -
    obtain s where s: "sub_ok s" "row_data row = fst (split_record (sub_to_dict s))" using db_ok_row [OF ok row] by blast
    let ?s = "s\<lparr>sb_benchmark_details := (case map_of (db_details ?db) sid of None \<Rightarrow> JNull | Some v \<Rightarrow> v)\<rparr>"
    have "sub_of_row (joined ?db sid row) = sub_of_row (sub_to_dict ?s)" by (rule sub_of_row_cong [OF map_of_joined [OF s(2)]])
    also have "\<dots> = Inr ?s" using s(1) by (intro sub_of_row_to_dict) (simp add: sub_ok_def)
    finally show ?thesis using row_sub_joined [OF s(2,1)] by simp
  qed
  let ?rows = "load_all ?db"
  have rows: "(sid, d) \<in> set ?rows \<longleftrightarrow> (\<exists>row. map_of (db_rows ?db) sid = Some row \<and> d = joined ?db sid row)" for sid d
    using wf by (auto simp: load_all_def)
  have keys: "fst ` set ?rows = dom (map_of (db_rows ?db))" "distinct (map fst ?rows)"
    using wf by (auto simp: load_all_def dom_map_of_conv_image_fst image_image case_prod_unfold comp_def)
  define st0 where "st0 = empty_store\<lparr>ss_subs := [], ss_by_round := [], ss_by_epoch := []\<rparr>"
  have "\<exists>st'. hydrate ?rows st0 = Inr st'
     \<and> (\<forall>sid d s. (sid, d) \<in> set ?rows \<longrightarrow> sub_of_row d = Inr s \<longrightarrow> map_of (ss_subs st') sid = Some s)
     \<and> (\<forall>sid. sid \<notin> fst ` set ?rows \<longrightarrow> map_of (ss_subs st') sid = map_of (ss_subs st0) sid)"
    by (rule hydrate_effect [OF _ keys(2)]) (use read in \<open>fastforce simp: rows\<close>)
  then obtain st' where st': "hydrate ?rows st0 = Inr st'"
    "\<And>sid d s. (sid, d) \<in> set ?rows \<Longrightarrow> sub_of_row d = Inr s \<Longrightarrow> map_of (ss_subs st') sid = Some s"
    "\<And>sid. sid \<notin> fst ` set ?rows \<Longrightarrow> map_of (ss_subs st') sid = map_of (ss_subs st0) sid" by blast
  let ?st = "st'\<lparr>ss_loaded := True, ss_last_seen := db_max_seq ?db\<rparr>"
  have "load_submissions e cfg (empty_store, fs) = (?st, fs)"
    using assms(3-5) st'(1) by (simp add: load_submissions_def record_retention_def st0_def)
  moreover have "map_of (ss_subs ?st) sid = (case map_of (db_rows ?db) sid of None \<Rightarrow> None
           | Some row \<Rightarrow> (case row_sub ?db sid row of Inl _ \<Rightarrow> None | Inr s \<Rightarrow> Some s))" for sid
  proof (cases "map_of (db_rows ?db) sid")
    case None
    then have "sid \<notin> fst ` set ?rows" using keys(1) by auto
    from st'(3) [OF this] None show ?thesis by (simp add: st0_def)
  next
    case (Some row)
    obtain s where s: "sub_of_row (joined ?db sid row) = Inr s" "row_sub ?db sid row = Inr s" using read [OF Some] by blast
    from st'(2) [of sid "joined ?db sid row" s] Some s show ?thesis by (simp add: rows)
  qed
  moreover have "\<exists>s. row_sub ?db sid row = Inr s" if row: "map_of (db_rows ?db) sid = Some row" for sid row
    using read [OF that] by blast
  ultimately show ?thesis by (intro exI [of _ ?st]) simp
qed

theorem restart_restores_table_witness:
  "\<exists>st. load_submissions demo_env demo_cfg (empty_store, snd demo_commit) = (st, snd demo_commit) \<and> ss_loaded st
     \<and> ss_last_seen st = db_max_seq (sy_db demo_sys)"
proof -
  have "sf_db (snd demo_commit) = sy_db demo_sys" "e_seq_read demo_env" "c_max_records demo_cfg \<le> 0"
    by (simp_all add: demo_sys_def demo_env_def demo_cfg_def)
  from restart_restores_table [OF demo_sync_run this] show ?thesis by blast
qed

end
