(* ===== verification/Spec2Isabelle.thy ===== *)
theory Spec2Isabelle
  imports Order_Book Consensus Champion_Consensus Round_Store Veto_Gate Throne_Time Epoch_Loop Rotation Epoch_Rank Submission_Sync
begin

text \<open>
  \<^bold>\<open>Verification of the Minotaur subnet validator\<close>

  The repository is the validator of a Bittensor subnet. Users submit orders (intents); a solver program, written by a
  miner and run by the validators, turns an order into a plan; the validators vote on plans and relay them to chains.
  Miners compete: they submit solvers, a round benchmarks a slate of them, the best one that beats the reigning solver
  becomes champion, and the champion's miner earns the emission of the subnet. This development models the logic that
  decides: who may submit, who is benchmarked, who wins, who may veto, who signs, and who is paid.

  \<^bold>\<open>The parts, the theories and the sources\<close> (paths under \<open>src/minotaur_subnet\<close>)

  \<^item> \<open>Py_Prelude\<close>, \<open>Json\<close>: the fragment of Python's run time the modules rely on. Exceptions are values (\<open>'a res\<close>), a
    \<open>dict\<close> is an association list in insertion order (locale \<open>py_dict\<close>, interpreted on \<open>AList\<close>), strings are ASCII
    character lists, JSON documents are a datatype with the canonical text of \<open>json.dumps\<close>.
  \<^item> \<open>Rejection\<close> (\<open>orderbook/rejection.py\<close>), \<open>Order_Book\<close> (\<open>orderbook/orderbook.py\<close>): the order life cycle, claims,
    expiry and the classification of failures. An order is never claimed twice, its status follows the life cycle, a
    failure that is the user's is never charged to the solver.
  \<^item> \<open>Quorum\<close>, \<open>Signatures\<close> (\<open>consensus/eip712.py\<close>, \<open>consensus/signatures.py\<close>), \<open>Consensus\<close> (\<open>consensus/manager.py\<close>),
    \<open>Champion_Consensus\<close> (\<open>consensus/champion_manager.py\<close>): votes on plans and on champions. The locales \<open>ballot_box\<close> and
    \<open>quorum_rule\<close> carry the counting argument once; both managers interpret them. A reported quorum is a certificate of
    valid signatures of that many different registered validators, and two certificates share a validator. The leader's
    own approval is counted without the registry check that the approvals of peers pass.
  \<^item> \<open>Relative_Scoring\<close> (\<open>epoch/relative_scoring.py\<close>): the adoption rule. An adopted challenger cuts no order by more than
    one percent and drops none, wins outnumber regressions, the tie breaks apply to ties only, and the verdict does not
    depend on the order of the rows.
  \<^item> \<open>Epoch_Clock\<close> (\<open>epoch/clock.py\<close>), \<open>Round_Types\<close> and \<open>Round_Store\<close> (\<open>harness/round_store.py\<close>), \<open>Image_Ref\<close>
    (\<open>harness/image_transport.py\<close>): the durable state of the solver rounds, with its invariant over all operations, the
    eviction and the reloading of the file.
  \<^item> \<open>Submission_Types\<close>, \<open>Submission_Store\<close> (\<open>harness/submission_store.py\<close>), \<open>Submission_DB\<close>
    (\<open>harness/submission_db.py\<close>): the records of the miners' submissions in memory and in the database.
    \<open>Submission_Life\<close> follows one process through every operation (step relation \<open>life_step\<close>): the caps of the intake,
    at most one champion, private tokens that live until a terminal state, no revival of parked submissions, coined
    names. \<open>Submission_Sync\<close> follows several processes that share the database under every interleaving of pulls and
    commits, the restart, and the retention.
  \<^item> \<open>Actor\<close> (\<open>harness/actor.py\<close>): the union-find that groups hotkeys by coldkey and github owner. It is shown to compute the
    connected components, whatever the iteration order of the sets.
  \<^item> \<open>Rotation\<close> (\<open>harness/rotation.py\<close>), on top of \<open>Actor\<close> and the submission store: the slate of a round. The slate keeps its
    width even when the sweep that parks the overflow is interrupted, seats go to as many actors as possible, and a fixed
    set of contenders is served within the number of rounds the arithmetic allows.
  \<^item> \<open>Provenance\<close> (\<open>harness/provenance.py\<close>, \<open>harness/champion_policy.py\<close>): which scored artifacts may become champion.
  \<^item> \<open>Epoch_Rank\<close> (the decisions of \<open>epoch/manager.py\<close>), on top of the scoring rule, the store and the policy: the ranking
    of a round's candidates does not depend on the order of the store, and an adopted champion falls only to a challenger
    that holds against rows measured in the same round. A champion that is only scored, the genesis solver, can lose its
    rows to the retention in the write that refreshes them.
  \<^item> \<open>Veto\<close> (\<open>epoch/distributed_veto.py\<close>), \<open>Veto_Wire\<close>, \<open>Veto_Bench\<close> (\<open>api/routes/submissions/veto_wire.py\<close>), \<open>Veto_Gate\<close>
    (the veto part of \<open>api/startup.py\<close>): followers benchmark slices of the orders and report violations; the leader
    benchmarks claimed violations again and aborts a round only on what it could reproduce.
  \<^item> \<open>Weights\<close> (\<open>weight_policy.py\<close>, \<open>validator/weight_policy.py\<close>, \<open>validator/weights_emitter.py\<close>), \<open>Throne_Time\<close>
    (\<open>epoch/reign_attribution.py\<close>), \<open>Tempo_Gate\<close> (\<open>validator/tempo_gate.py\<close>), \<open>Internal_Auth\<close>
    (\<open>shared/internal_auth.py\<close>), \<open>Epoch_Loop\<close> (\<open>validator/champion_client.py\<close> and the emission loop of
    \<open>validator/main.py\<close>): emission. The locale \<open>emission_policy\<close> joins the policies, which yield distributions, with the
    emitter that sends them; the loop commits once per epoch and burns only when the throne stays vacant.

  \<^bold>\<open>Correspondence\<close>

  A class is a record, one field per attribute; a method is a definition from the state and its arguments to its result
  and the new state, with every guard and early return as a branch. A raise is a value \<open>Inl e\<close>; the state that a method
  had already changed when it raised is returned with it. Enumerations and tagged values are datatypes. Loops are
  recursive functions on the list they run over; the two loops of the union-find and the loops that run on a condition
  have termination proofs, or are partial functions for which the results prove that they return. There is no fuel. Python integers are
  unbounded, so no word arithmetic occurs. Definitions are executable, and the witnesses evaluate them.

  \<^bold>\<open>Parameters\<close>

  What the code reads from outside is an argument: the clock, environment variables, random identifiers, HTTP answers,
  chain queries, the benchmark of a solver, SHA-256, Keccak, ABI encoding, the signatures of the account library and the
  encryption of tokens. Where a result needs a property of one of them (a signature recovers to its signer, a hash does not
  collide on two given texts) it is a named hypothesis, and the witness instantiates the parameter.

  \<^bold>\<open>Limits\<close>

  Floats are exact reals: rounding, infinities and NaN are modelled only where a row of benchmark data can hold them.
  Text is ASCII where case folding or normalisation matters. Locks, threads and coroutines appear as the atomicity of an operation, except in
  \<open>Submission_Sync\<close>, where the pulls of readers overlap with the commits of writers, and in the two consensus managers,
  where the wait for votes is a point at which other operations run.

  \<^bold>\<open>Not modelled\<close>

  HTTP routes and their parsing, the wiring of services, the half of the epoch manager that opens, evaluates and
  activates rounds and swaps the live solver, the Docker harness with screening, orchestrator and proxies, the
  simulators, the block loop, relayers, bridges and chain access, the script engine, the app store, the miner and its
  tools, price comparison, scripts. They are input and output around the logic above, or run foreign programs whose
  outcome is an argument of the model.
\<close>

end
